(* ===== verification/DM_Prelude.thy ===== *)
theory DM_Prelude
  imports Main "HOL-Library.List_Lexorder" "HOL-Library.Sublist"
begin

text \<open>
  Shared vocabulary of the development: Rust strings and their UTF-8 bytes, checked
  machine integers, fallible results, and the few SQL statements the stores are made of.
  A table is the list of its rows in insertion order; every statement of the code that
  changes a table is one of the operations below.
\<close>

named_theorems str_simps \<open>unfoldings of the string operations\<close>
named_theorems sql_simps \<open>behaviour of the table operations\<close>

section \<open>Fallible results\<close>

text \<open>\<open>Result<T, E>\<close> is \<open>'e + 'a\<close>, and \<open>bind_ok\<close> is the question-mark operator.\<close>

definition bind_ok :: "'e + 'a \<Rightarrow> ('a \<Rightarrow> 'e + 'b) \<Rightarrow> 'e + 'b" where
  "bind_ok r f = (case r of Inl e \<Rightarrow> Inl e | Inr x \<Rightarrow> f x)"

lemma bind_ok_simps [simp]:
  "bind_ok (Inl e) f = Inl e"
  "bind_ok (Inr x) f = f x"
  by (simp_all add: bind_ok_def)

lemma bind_ok_Inr_iff [simp]:
  "bind_ok r f = Inr y \<longleftrightarrow> (\<exists>x. r = Inr x \<and> f x = Inr y)"
  by (cases r) auto

lemma bind_ok_Inl_iff:
  "bind_ok r f = Inl e \<longleftrightarrow> r = Inl e \<or> (\<exists>x. r = Inr x \<and> f x = Inl e)"
  by (cases r) auto

definition guard_ok :: "bool \<Rightarrow> 'e \<Rightarrow> 'e + unit" where
  "guard_ok b e = (if b then Inr () else Inl e)"

lemma guard_ok_Inr [simp]: "guard_ok b e = Inr u \<longleftrightarrow> b"
  by (simp add: guard_ok_def)

lemma guard_ok_Inl [simp]: "guard_ok b e = Inl e' \<longleftrightarrow> \<not> b \<and> e' = e"
  by (auto simp: guard_ok_def)

fun map_result :: "('a \<Rightarrow> 'e + 'b) \<Rightarrow> 'a list \<Rightarrow> 'e + 'b list" where
  "map_result f [] = Inr []"
| "map_result f (x # xs) = bind_ok (f x) (\<lambda>y. bind_ok (map_result f xs) (\<lambda>ys. Inr (y # ys)))"

fun each_result :: "('a \<Rightarrow> 'e + unit) \<Rightarrow> 'a list \<Rightarrow> 'e + unit" where
  "each_result f [] = Inr ()"
| "each_result f (x # xs) = bind_ok (f x) (\<lambda>_. each_result f xs)"

lemma each_result_ok [simp]: "each_result f xs = Inr u \<longleftrightarrow> (\<forall>x\<in>set xs. f x = Inr ())"
  by (induction xs) auto

text \<open>\<open>Option::map\<close> followed by \<open>transpose\<close>.\<close>

definition option_result :: "('a \<Rightarrow> 'e + 'b) \<Rightarrow> 'a option \<Rightarrow> 'e + 'b option" where
  "option_result f x = (case x of None \<Rightarrow> Inr None | Some y \<Rightarrow> bind_ok (f y) (\<lambda>z. Inr (Some z)))"

lemma option_result_simps [simp]:
  "option_result f None = Inr None"
  "option_result f (Some x) = bind_ok (f x) (\<lambda>z. Inr (Some z))"
  by (simp_all add: option_result_def)

text \<open>A loop whose body can fail stops at the first error.\<close>

fun fold_result :: "('a \<Rightarrow> 's \<Rightarrow> 'e + 's) \<Rightarrow> 'a list \<Rightarrow> 's \<Rightarrow> 'e + 's" where
  "fold_result f [] s = Inr s"
| "fold_result f (x # xs) s = bind_ok (f x s) (fold_result f xs)"

lemma fold_result_append:
  "fold_result f (xs @ ys) s = bind_ok (fold_result f xs s) (fold_result f ys)"
  by (induction xs arbitrary: s) (auto simp: bind_ok_def split: sum.splits)

lemma fold_result_induct [consumes 1, case_names base step]:
  assumes "fold_result f xs s = Inr t" and "P s"
    and "\<And>x s s'. x \<in> set xs \<Longrightarrow> P s \<Longrightarrow> f x s = Inr s' \<Longrightarrow> P s'"
  shows "P t"
  using assms by (induction xs arbitrary: s) auto

section \<open>Checked machine integers\<close>

definition i64_min :: int where "i64_min = - (2 ^ 63)"
definition i64_max :: int where "i64_max = 2 ^ 63 - 1"

definition is_i64 :: "int \<Rightarrow> bool" where
  "is_i64 x \<longleftrightarrow> i64_min \<le> x \<and> x \<le> i64_max"

text \<open>The result of \<open>checked_add\<close>, \<open>checked_sub\<close> and \<open>checked_mul\<close> on \<open>i64\<close>.\<close>

definition checked_i64 :: "int \<Rightarrow> int option" where
  "checked_i64 x = (if is_i64 x then Some x else None)"

definition usize_max :: nat where "usize_max = 2 ^ 64 - 1"

definition saturating_add :: "nat \<Rightarrow> nat \<Rightarrow> nat" where
  "saturating_add a b = min usize_max (a + b)"

lemma checked_i64_Some [simp]: "checked_i64 x = Some y \<longleftrightarrow> is_i64 x \<and> y = x"
  by (auto simp: checked_i64_def)

lemma is_i64_between: "is_i64 b \<Longrightarrow> 0 \<le> a \<Longrightarrow> a \<le> b \<Longrightarrow> is_i64 a"
  by (simp add: is_i64_def i64_min_def)

section \<open>Rust strings\<close>

text \<open>
  A Rust string is the list of its Unicode scalar values. \<open>bytes\<close> is its UTF-8
  encoding, so \<open>str_len\<close> is Rust's \<open>len\<close> and HOL's \<open>length\<close> is
  \<open>chars().count()\<close>.
\<close>

type_synonym uchar = nat
type_synonym str = "uchar list"

definition lit :: "string \<Rightarrow> str" where
  "lit s = map of_char s"

definition utf8_char :: "uchar \<Rightarrow> nat list" where
  "utf8_char c =
     (if c < 128 then [c]
      else if c < 2048 then [192 + c div 64, 128 + c mod 64]
      else if c < 65536 then [224 + c div 4096, 128 + c div 64 mod 64, 128 + c mod 64]
      else [240 + c div 262144, 128 + c div 4096 mod 64, 128 + c div 64 mod 64, 128 + c mod 64])"

definition bytes :: "str \<Rightarrow> nat list" where
  "bytes s = concat (map utf8_char s)"

definition str_len :: "str \<Rightarrow> nat" where
  "str_len s = length (bytes s)"

definition is_ascii_lowercase :: "nat \<Rightarrow> bool" where
  "is_ascii_lowercase b \<longleftrightarrow> 97 \<le> b \<and> b \<le> 122"

definition is_ascii_uppercase :: "nat \<Rightarrow> bool" where
  "is_ascii_uppercase b \<longleftrightarrow> 65 \<le> b \<and> b \<le> 90"

definition is_ascii_digit :: "nat \<Rightarrow> bool" where
  "is_ascii_digit b \<longleftrightarrow> 48 \<le> b \<and> b \<le> 57"

definition is_ascii_alphanumeric :: "nat \<Rightarrow> bool" where
  "is_ascii_alphanumeric b \<longleftrightarrow> is_ascii_lowercase b \<or> is_ascii_uppercase b \<or> is_ascii_digit b"

definition is_ascii_graphic :: "nat \<Rightarrow> bool" where
  "is_ascii_graphic b \<longleftrightarrow> 33 \<le> b \<and> b \<le> 126"

text \<open>\<open>char::is_control\<close> is the Unicode category Cc, \<open>char::is_whitespace\<close> the property
  \<open>White_Space\<close>.\<close>

definition is_control :: "uchar \<Rightarrow> bool" where
  "is_control c \<longleftrightarrow> c < 32 \<or> (127 \<le> c \<and> c < 160)"

definition is_whitespace :: "uchar \<Rightarrow> bool" where
  "is_whitespace c \<longleftrightarrow> (9 \<le> c \<and> c \<le> 13) \<or> c = 32 \<or> c = 133 \<or> c = 160 \<or> c = 5760 \<or>
     (8192 \<le> c \<and> c \<le> 8202) \<or> c = 8232 \<or> c = 8233 \<or> c = 8239 \<or> c = 8287 \<or> c = 12288"

definition trim :: "str \<Rightarrow> str" where
  "trim s = rev (dropWhile is_whitespace (rev (dropWhile is_whitespace s)))"

definition trim_matches :: "uchar \<Rightarrow> str \<Rightarrow> str" where
  "trim_matches c s = rev (dropWhile (\<lambda>x. x = c) (rev (dropWhile (\<lambda>x. x = c) s)))"

definition strip_prefix :: "str \<Rightarrow> str \<Rightarrow> str option" where
  "strip_prefix p s = (if prefix p s then Some (drop (length p) s) else None)"

definition to_ascii_lowercase :: "str \<Rightarrow> str" where
  "to_ascii_lowercase s = map (\<lambda>c. if is_ascii_uppercase c then c + 32 else c) s"

text \<open>\<open>split_once\<close> splits at the first, \<open>rsplit_once\<close> at the last occurrence.\<close>

definition split_once :: "uchar \<Rightarrow> str \<Rightarrow> (str \<times> str) option" where
  "split_once c s =
     (if c \<in> set s then Some (takeWhile (\<lambda>x. x \<noteq> c) s, tl (dropWhile (\<lambda>x. x \<noteq> c) s)) else None)"

definition rsplit_once :: "uchar \<Rightarrow> str \<Rightarrow> (str \<times> str) option" where
  "rsplit_once c s =
     map_option (\<lambda>(a, b). (rev b, rev a)) (split_once c (rev s))"

fun split_on :: "uchar \<Rightarrow> str \<Rightarrow> str list" where
  "split_on c [] = [[]]"
| "split_on c (x # xs) =
     (if x = c then [] # split_on c xs
      else (case split_on c xs of [] \<Rightarrow> [[x]] | w # ws \<Rightarrow> (x # w) # ws))"

fun contains_str :: "str \<Rightarrow> str \<Rightarrow> bool" where
  "contains_str p [] = (p = [])"
| "contains_str p (x # xs) = (prefix p (x # xs) \<or> contains_str p xs)"

text \<open>\<open>join\<close>, and \<open>string_agg\<close> of a query.\<close>

fun join_with :: "str \<Rightarrow> str list \<Rightarrow> str" where
  "join_with sep [] = []"
| "join_with sep [x] = x"
| "join_with sep (x # y # ys) = x @ sep @ join_with sep (y # ys)"

text \<open>Every scalar value of a Rust \<open>char\<close> is below \<open>0x110000\<close>.\<close>

definition wf_str :: "str \<Rightarrow> bool" where
  "wf_str s \<longleftrightarrow> (\<forall>c\<in>set s. c < 1114112)"

lemmas str_unfolds [str_simps] =
  lit_def str_len_def bytes_def utf8_char_def is_ascii_lowercase_def is_ascii_uppercase_def
  is_ascii_digit_def is_ascii_alphanumeric_def is_ascii_graphic_def is_control_def
  is_whitespace_def trim_def trim_matches_def strip_prefix_def split_once_def rsplit_once_def

lemma bytes_Nil [simp]: "bytes [] = []"
  by (simp add: bytes_def)

lemma bytes_Cons: "bytes (c # s) = utf8_char c @ bytes s"
  by (simp add: bytes_def)

lemma bytes_append [simp]: "bytes (s @ t) = bytes s @ bytes t"
  by (simp add: bytes_def)

lemma utf8_char_nonempty [simp]: "utf8_char c \<noteq> []"
  by (simp add: utf8_char_def)

lemma bytes_ascii: "\<forall>c\<in>set s. c < 128 \<Longrightarrow> bytes s = s"
  by (induction s) (simp_all add: bytes_def utf8_char_def)

lemma utf8_char_multibyte: "\<not> c < 128 \<Longrightarrow> b \<in> set (utf8_char c) \<Longrightarrow> 128 \<le> b"
  by (auto simp: utf8_char_def split: if_splits)

text \<open>A string all of whose bytes are ASCII is its own encoding.\<close>

lemma ascii_bytes_iff: "(\<forall>b\<in>set (bytes s). b < 128) \<longleftrightarrow> (\<forall>c\<in>set s. c < 128)"
proof (induction s)
  case Nil
  then show ?case by simp
next
  case (Cons c s)
  show ?case
  proof (cases "c < 128")
    case True
    then show ?thesis using Cons.IH by (simp add: bytes_Cons utf8_char_def)
  next
    case False
    obtain b where "b \<in> set (utf8_char c)"
      using utf8_char_nonempty [of c] by (metis list.set_sel(1))
    moreover from this False have "\<not> b < 128"
      using utf8_char_multibyte [of c b] by simp
    ultimately show ?thesis using False
      by (auto simp: bytes_Cons)
  qed
qed

lemma ascii_bytes: "\<forall>b\<in>set (bytes s). b < 128 \<Longrightarrow> bytes s = s"
  by (simp add: ascii_bytes_iff bytes_ascii)

text \<open>UTF-8 is injective on scalar values.\<close>

lemma div_mod_64: "c div 64 = d div 64 \<Longrightarrow> c mod 64 = d mod 64 \<Longrightarrow> c = (d::nat)"
  by (metis div_mult_mod_eq)

lemma div_mod_4096: "c div 4096 = d div 4096 \<Longrightarrow> c div 64 mod 64 = d div 64 mod 64 \<Longrightarrow>
  c mod 64 = d mod 64 \<Longrightarrow> c = (d::nat)"
  by (rule div_mod_64) (auto intro!: div_mod_64 [of "c div 64" "d div 64"] simp: div_mult2_eq [symmetric])

lemma div_mod_262144: "c div 262144 = d div 262144 \<Longrightarrow> c div 4096 mod 64 = d div 4096 mod 64 \<Longrightarrow>
  c div 64 mod 64 = d div 64 mod 64 \<Longrightarrow> c mod 64 = d mod 64 \<Longrightarrow> c = (d::nat)"
  by (rule div_mod_4096) (auto intro!: div_mod_64 [of "c div 4096" "d div 4096"] simp: div_mult2_eq [symmetric])

lemma utf8_char_append_inj:
  assumes "c < 1114112" "d < 1114112" and "utf8_char c @ x = utf8_char d @ y"
  shows "c = d \<and> x = y"
proof -
  have lead: "hd (utf8_char k) < 128 \<longleftrightarrow> k < 128"
    "128 \<le> k \<and> k < 2048 \<longleftrightarrow> 192 \<le> hd (utf8_char k) \<and> hd (utf8_char k) < 224"
    "2048 \<le> k \<and> k < 65536 \<longleftrightarrow> 224 \<le> hd (utf8_char k) \<and> hd (utf8_char k) < 240" for k
    by (auto simp: utf8_char_def)
  have h: "hd (utf8_char c) = hd (utf8_char d)"
    using assms(3) by (metis hd_append utf8_char_nonempty)
  have "c < 128 \<longleftrightarrow> d < 128" using lead(1) [of c] lead(1) [of d] h by metis
  moreover have "128 \<le> c \<and> c < 2048 \<longleftrightarrow> 128 \<le> d \<and> d < 2048"
    using lead(2) [of c] lead(2) [of d] h by metis
  moreover have "2048 \<le> c \<and> c < 65536 \<longleftrightarrow> 2048 \<le> d \<and> d < 65536"
    using lead(3) [of c] lead(3) [of d] h by metis
  ultimately consider
      "c < 128" "d < 128"
    | "128 \<le> c" "c < 2048" "128 \<le> d" "d < 2048"
    | "2048 \<le> c" "c < 65536" "2048 \<le> d" "d < 65536"
    | "65536 \<le> c" "65536 \<le> d"
    by (meson linorder_not_le)
  then show ?thesis
  proof cases
    case 1
    with assms(3) show ?thesis by (simp add: utf8_char_def)
  next
    case 2
    with assms(3) show ?thesis by (auto simp: utf8_char_def intro: div_mod_64)
  next
    case 3
    with assms(3) show ?thesis by (auto simp: utf8_char_def intro: div_mod_4096)
  next
    case 4
    with assms(3) show ?thesis by (auto simp: utf8_char_def intro: div_mod_262144)
  qed
qed

lemma bytes_inj: "wf_str s \<Longrightarrow> wf_str t \<Longrightarrow> bytes s = bytes t \<Longrightarrow> s = t"
proof (induction s arbitrary: t)
  case Nil
  then show ?case by (cases t) (auto simp: bytes_Cons)
next
  case (Cons c s)
  then obtain d t' where t: "t = d # t'" by (cases t) (auto simp: bytes_Cons)
  with Cons.prems have "c = d \<and> bytes s = bytes t'"
    by (intro utf8_char_append_inj) (auto simp: wf_str_def bytes_Cons)
  with Cons t show ?case by (auto simp: wf_str_def)
qed

lemma split_once_SomeD: "split_once c s = Some (a, b) \<Longrightarrow> s = a @ c # b \<and> c \<notin> set a"
proof -
  assume *: "split_once c s = Some (a, b)"
  then have c: "c \<in> set s" and a: "a = takeWhile (\<lambda>x. x \<noteq> c) s" and b: "b = tl (dropWhile (\<lambda>x. x \<noteq> c) s)"
    by (auto simp: split_once_def split: if_splits)
  have ne: "dropWhile (\<lambda>x. x \<noteq> c) s \<noteq> []" using c by (simp add: dropWhile_eq_Nil_conv)
  then have "hd (dropWhile (\<lambda>x. x \<noteq> c) s) = c" using hd_dropWhile [OF ne] by simp
  with ne b have "dropWhile (\<lambda>x. x \<noteq> c) s = c # b" by (metis list.collapse)
  with a have "s = a @ c # b" by (metis takeWhile_dropWhile_id)
  moreover have "c \<notin> set a" using a set_takeWhileD by fastforce
  ultimately show ?thesis by simp
qed

lemma split_once_None_iff: "split_once c s = None \<longleftrightarrow> c \<notin> set s"
  by (simp add: split_once_def)

lemma strip_prefix_Some: "strip_prefix p s = Some r \<longleftrightarrow> s = p @ r"
  by (auto simp: strip_prefix_def prefix_def)

lemma strip_prefix_None: "strip_prefix p s = None \<longleftrightarrow> \<not> prefix p s"
  by (auto simp: strip_prefix_def)

lemma trim_trim [simp]: "trim (trim s) = trim s"
proof -
  have h: "dropWhile is_whitespace (trim s) = trim s"
  proof (cases "trim s")
    case (Cons c cs)
    let ?d = "dropWhile is_whitespace s"
    have "prefix (trim s) ?d"
      unfolding trim_def by (metis rev_rev_ident suffix_dropWhile suffix_to_prefix)
    with Cons obtain zs where "?d = c # zs" by (auto simp: prefix_def)
    then have "?d \<noteq> []" "hd ?d = c" by (simp_all del: dropWhile_eq_Nil_conv)
    with Cons hd_dropWhile [of is_whitespace s] show ?thesis by simp
  qed simp
  show ?thesis
    by (subst trim_def, unfold h) (simp add: trim_def)
qed

lemma dropWhile_none: "\<forall>x\<in>set xs. \<not> P x \<Longrightarrow> dropWhile P xs = xs"
  by (cases xs) simp_all

lemma trim_plain: "\<forall>c\<in>set s. \<not> is_whitespace c \<Longrightarrow> trim s = s"
  by (simp add: trim_def dropWhile_none)

lemma str_len_ascii: "\<forall>c\<in>set s. c < 128 \<Longrightarrow> str_len s = length s"
  by (simp add: str_len_def bytes_ascii)

lemma bytes_all_ascii:
  assumes "\<forall>b\<in>set (bytes s). P b" and "\<And>b. P b \<Longrightarrow> b < 128"
  shows "bytes s = s"
  using assms by (intro ascii_bytes) blast

lemma sorted_remdups_adj_distinct: "sorted xs \<Longrightarrow> distinct (remdups_adj xs)" for xs :: "'a :: linorder list"
proof (induction xs rule: remdups_adj.induct)
  case (3 x y xs)
  show ?case
  proof (cases "x = y")
    case False
    with 3 have "x \<notin> set (y # xs)" by fastforce
    with 3 False show ?thesis by simp
  qed (use 3 in simp)
qed simp_all

section \<open>Tables\<close>

text \<open>\<open>UPDATE t SET f WHERE p\<close>, \<open>DELETE FROM t WHERE p\<close>, the number of rows either
  touches, \<open>EXISTS\<close>, and the two forms of \<open>INSERT ... ON CONFLICT (key)\<close>.\<close>

definition sql_update :: "('r \<Rightarrow> bool) \<Rightarrow> ('r \<Rightarrow> 'r) \<Rightarrow> 'r list \<Rightarrow> 'r list" where
  "sql_update p f t = map (\<lambda>r. if p r then f r else r) t"

definition sql_delete :: "('r \<Rightarrow> bool) \<Rightarrow> 'r list \<Rightarrow> 'r list" where
  "sql_delete p t = filter (\<lambda>r. \<not> p r) t"

definition rows_affected :: "('r \<Rightarrow> bool) \<Rightarrow> 'r list \<Rightarrow> nat" where
  "rows_affected p t = length (filter p t)"

definition sql_exists :: "('r \<Rightarrow> bool) \<Rightarrow> 'r list \<Rightarrow> bool" where
  "sql_exists p t \<longleftrightarrow> (\<exists>r\<in>set t. p r)"

definition insert_or_ignore :: "('r \<Rightarrow> 'k) \<Rightarrow> 'r \<Rightarrow> 'r list \<Rightarrow> 'r list" where
  "insert_or_ignore key r t = (if sql_exists (\<lambda>x. key x = key r) t then t else t @ [r])"

definition upsert :: "('r \<Rightarrow> 'k) \<Rightarrow> 'r \<Rightarrow> ('r \<Rightarrow> 'r) \<Rightarrow> 'r list \<Rightarrow> 'r list" where
  "upsert key r f t =
     (if sql_exists (\<lambda>x. key x = key r) t then sql_update (\<lambda>x. key x = key r) f t else t @ [r])"

text \<open>\<open>INSERT ... ON CONFLICT (key) DO UPDATE ... WHERE p\<close> and the rows it touches.\<close>

definition upsert_where :: "('r \<Rightarrow> 'k) \<Rightarrow> 'r \<Rightarrow> ('r \<Rightarrow> bool) \<Rightarrow> ('r \<Rightarrow> 'r) \<Rightarrow> 'r list \<Rightarrow> 'r list" where
  "upsert_where key r p f t =
     (if sql_exists (\<lambda>x. key x = key r) t
      then sql_update (\<lambda>x. key x = key r \<and> p x) f t else t @ [r])"

definition upsert_affected :: "('r \<Rightarrow> 'k) \<Rightarrow> 'r \<Rightarrow> ('r \<Rightarrow> bool) \<Rightarrow> 'r list \<Rightarrow> nat" where
  "upsert_affected key r p t =
     (if sql_exists (\<lambda>x. key x = key r) t
      then rows_affected (\<lambda>x. key x = key r \<and> p x) t else 1)"

text \<open>A table respects its primary key when no two rows share it.\<close>

definition keyed :: "('r \<Rightarrow> 'k) \<Rightarrow> 'r list \<Rightarrow> bool" where
  "keyed key t \<longleftrightarrow> distinct (map key t)"

lemma set_sql_update: "set (sql_update p f t) = {r \<in> set t. \<not> p r} \<union> f ` {r \<in> set t. p r}"
  by (auto simp: sql_update_def)

lemma set_sql_delete [sql_simps]: "set (sql_delete p t) = {r \<in> set t. \<not> p r}"
  by (auto simp: sql_delete_def)

lemma filter_sql_update:
  "(\<And>r. p r \<Longrightarrow> \<not> q r \<and> \<not> q (f r)) \<Longrightarrow> filter q (sql_update p f t) = filter q t"
  by (induction t) (auto simp: sql_update_def)

lemma rows_affected_pos: "0 < rows_affected p t \<longleftrightarrow> (\<exists>r\<in>set t. p r)"
  by (auto simp: rows_affected_def filter_empty_conv)

lemma rows_affected_0 [simp]: "rows_affected p t = 0 \<longleftrightarrow> (\<forall>r\<in>set t. \<not> p r)"
  by (auto simp: rows_affected_def filter_empty_conv)

lemma keyed_Nil [simp]: "keyed key []"
  by (simp add: keyed_def)

lemma keyed_unique: "keyed key t \<Longrightarrow> r \<in> set t \<Longrightarrow> r' \<in> set t \<Longrightarrow> key r = key r' \<Longrightarrow> r = r'"
  unfolding keyed_def by (metis distinct_map inj_on_eq_iff)

lemma keyed_sql_delete [intro]: "keyed key t \<Longrightarrow> keyed key (sql_delete p t)"
  by (simp add: keyed_def sql_delete_def distinct_map_filter)

lemma map_key_sql_update:
  "(\<And>r. p r \<Longrightarrow> key (f r) = key r) \<Longrightarrow> map key (sql_update p f t) = map key t"
  by (induction t) (simp_all add: sql_update_def)

lemma keyed_sql_update [intro]:
  "keyed key t \<Longrightarrow> (\<And>r. p r \<Longrightarrow> key (f r) = key r) \<Longrightarrow> keyed key (sql_update p f t)"
  by (simp add: keyed_def map_key_sql_update)

lemma keyed_append_new:
  "keyed key t \<Longrightarrow> \<not> sql_exists (\<lambda>x. key x = key r) t \<Longrightarrow> keyed key (t @ [r])"
  by (auto simp: keyed_def sql_exists_def)

lemma keyed_insert_or_ignore [intro]: "keyed key t \<Longrightarrow> keyed key (insert_or_ignore key r t)"
  by (simp add: insert_or_ignore_def keyed_append_new)

lemma keyed_upsert [intro]:
  "keyed key t \<Longrightarrow> (\<And>x. key x = key r \<Longrightarrow> key (f x) = key x) \<Longrightarrow> keyed key (upsert key r f t)"
  unfolding upsert_def by (cases "sql_exists (\<lambda>x. key x = key r) t") (simp_all only: if_True if_False, rule keyed_sql_update, simp_all add: keyed_append_new)

lemma keyed_upsert_where [intro]:
  "keyed key t \<Longrightarrow> (\<And>x. key x = key r \<Longrightarrow> key (f x) = key x) \<Longrightarrow> keyed key (upsert_where key r p f t)"
  unfolding upsert_where_def by (cases "sql_exists (\<lambda>x. key x = key r) t") (simp_all only: if_True if_False, rule keyed_sql_update, simp_all add: keyed_append_new)

lemma set_insert_or_ignore:
  "set (insert_or_ignore key r t) =
     (if sql_exists (\<lambda>x. key x = key r) t then set t else insert r (set t))"
  by (simp add: insert_or_ignore_def)

lemma set_upsert:
  "set (upsert key r f t) =
     (if sql_exists (\<lambda>x. key x = key r) t
      then {x \<in> set t. key x \<noteq> key r} \<union> f ` {x \<in> set t. key x = key r}
      else insert r (set t))"
  by (simp add: upsert_def set_sql_update)

text \<open>At most one row of a keyed table has a given key.\<close>

lemma rows_affected_keyed:
  assumes "keyed key t"
  shows "rows_affected (\<lambda>r. key r = k \<and> q r) t = (if \<exists>r\<in>set t. key r = k \<and> q r then 1 else 0)"
  using assms
proof (induction t)
  case Nil
  then show ?case by (simp add: rows_affected_def)
next
  case (Cons r t)
  then have k: "keyed key t" and new: "key r \<notin> key ` set t"
    by (simp_all add: keyed_def)
  show ?case
  proof (cases "key r = k \<and> q r")
    case True
    with new have "filter (\<lambda>r. key r = k \<and> q r) t = []"
      by (auto simp: filter_empty_conv image_iff)
    with True show ?thesis by (simp add: rows_affected_def)
  next
    case False
    then have "rows_affected (\<lambda>r. key r = k \<and> q r) (r # t) = rows_affected (\<lambda>r. key r = k \<and> q r) t"
      by (simp add: rows_affected_def)
    then show ?thesis using Cons.IH [OF k] False by auto
  qed
qed

lemma find_keyed:
  assumes "keyed key t" "r \<in> set t"
  shows "find (\<lambda>x. key x = key r) t = Some r"
proof (cases "find (\<lambda>x. key x = key r) t")
  case None
  with assms(2) show ?thesis by (auto simp: find_None_iff)
next
  case (Some x)
  then have "x \<in> set t" "key x = key r" by (auto simp: find_Some_iff)
  with keyed_unique [OF assms(1)] assms(2) Some show ?thesis by metis
qed

lemma find_Some_in: "find P t = Some r \<Longrightarrow> r \<in> set t \<and> P r"
  by (auto simp: find_Some_iff)

lemma find_keyed_update:
  assumes "\<And>r. p r \<Longrightarrow> key (f r) = key r"
  shows "find (\<lambda>x. key x = k) (sql_update p f t) =
    map_option (\<lambda>r. if p r then f r else r) (find (\<lambda>x. key x = k) t)"
  using assms by (induction t) (auto simp: sql_update_def)

lemma find_append: "find P (t @ u) = (case find P t of None \<Rightarrow> find P u | Some r \<Rightarrow> Some r)"
  by (induction t) auto

text \<open>The row of a keyed table under a key, after each statement.\<close>

lemma find_upsert_where:
  assumes "\<And>x. key x = key r \<Longrightarrow> key (f x) = key x"
  shows "find (\<lambda>x. key x = k) (upsert_where key r p f t) =
    (case find (\<lambda>x. key x = k) t of
       None \<Rightarrow> if k = key r then Some r else None
     | Some x \<Rightarrow> Some (if k = key r \<and> p x then f x else x))"
proof (cases "sql_exists (\<lambda>x. key x = key r) t")
  case True
  have "find (\<lambda>x. key x = k) (sql_update (\<lambda>x. key x = key r \<and> p x) f t) =
      map_option (\<lambda>x. if key x = key r \<and> p x then f x else x) (find (\<lambda>x. key x = k) t)"
    by (rule find_keyed_update) (use assms in simp)
  moreover have "find (\<lambda>x. key x = k) t = None \<Longrightarrow> k \<noteq> key r"
    using True by (auto simp: sql_exists_def find_None_iff)
  ultimately show ?thesis
    using True by (auto simp: upsert_where_def split: option.splits dest: find_Some_in)
next
  case False
  then have "k = key r \<Longrightarrow> find (\<lambda>x. key x = k) t = None"
    by (auto simp: sql_exists_def find_None_iff)
  with False show ?thesis
    by (auto simp: upsert_where_def find_append split: option.splits)
qed

lemma upsert_as_where: "upsert key r f t = upsert_where key r (\<lambda>_. True) f t"
  by (simp add: upsert_def upsert_where_def)

lemma find_upsert:
  assumes "\<And>x. key x = key r \<Longrightarrow> key (f x) = key x"
  shows "find (\<lambda>x. key x = k) (upsert key r f t) =
    (case find (\<lambda>x. key x = k) t of
       None \<Rightarrow> if k = key r then Some r else None
     | Some x \<Rightarrow> Some (if k = key r then f x else x))"
  using find_upsert_where [of key r f k "\<lambda>_. True" t] assms
  by (simp only: upsert_as_where simp_thms)

lemma find_insert_or_ignore:
  "find (\<lambda>x. key x = k) (insert_or_ignore key r t) =
    (case find (\<lambda>x. key x = k) t of
       None \<Rightarrow> if k = key r then Some r else None | Some x \<Rightarrow> Some x)"
proof -
  have "insert_or_ignore key r t = upsert key r id t"
    by (simp add: upsert_def insert_or_ignore_def sql_update_def map_idI)
  then show ?thesis
    using find_upsert [of key r id k t] by (simp only: id_apply if_cancel simp_thms)
qed

lemma find_sql_delete_other:
  "(\<And>x. key x = k \<Longrightarrow> \<not> p x) \<Longrightarrow> find (\<lambda>x. key x = k) (sql_delete p t) = find (\<lambda>x. key x = k) t"
  by (induction t) (auto simp: sql_delete_def)

end
