(* ===== verification/Errors.thy ===== *)
theory Errors
  imports DM_Prelude
begin

text \<open>
  The application errors of \<open>src/error.rs\<close>, their stable codes and their HTTP statuses.
  Database and internal errors carry a private source, which no response shows; the model
  keeps an uninterpreted description of it.
\<close>

datatype app_error =
    Unauthorized
  | Forbidden
  | Refused nat string str
  | NotFound
  | Validation str
  | ResponseTooLarge str
  | Conflict str
  | SyncResetRequired str
  | PreconditionRequired str
  | DependencyUnavailable string
  | RateLimited
  | Database string
  | Internal string

type_synonym 'a app_result = "app_error + 'a"

definition validation :: "string \<Rightarrow> app_error" where
  "validation message = Validation (lit message)"

definition conflict :: "string \<Rightarrow> app_error" where
  "conflict message = Conflict (lit message)"

definition refused :: "nat \<Rightarrow> string \<Rightarrow> string \<Rightarrow> app_error" where
  "refused status code message = Refused status code (lit message)"

definition unauthenticated :: "string \<Rightarrow> str \<Rightarrow> app_error" where
  "unauthenticated code message = Refused 401 code message"

definition forbidden :: "string \<Rightarrow> str \<Rightarrow> app_error" where
  "forbidden code message = Refused 403 code message"

definition account_not_found :: "str \<Rightarrow> app_error" where
  "account_not_found i = Refused 404 ''account_not_found''
     (lit ''No Silicon Accounts account has the id '' @ i @ lit '' now. Ids can change: use the account's current c:/si: id (an id released by a rename is not followed).'')"

definition account_deleted :: "str \<Rightarrow> app_error" where
  "account_deleted i = Refused 404 ''account_deleted''
     (i @ lit '' belongs to a deleted Silicon Accounts account; it cannot receive messages or invitations.'')"

fun error_code :: "app_error \<Rightarrow> string" where
  "error_code Unauthorized = ''unauthorized''"
| "error_code Forbidden = ''forbidden''"
| "error_code (Refused _ code _) = code"
| "error_code NotFound = ''not_found''"
| "error_code (Validation _) = ''validation_error''"
| "error_code (ResponseTooLarge _) = ''response_too_large''"
| "error_code (Conflict _) = ''conflict''"
| "error_code (SyncResetRequired _) = ''sync_reset_required''"
| "error_code (PreconditionRequired _) = ''precondition_required''"
| "error_code (DependencyUnavailable _) = ''dependency_unavailable''"
| "error_code RateLimited = ''rate_limited''"
| "error_code (Database _) = ''internal_error''"
| "error_code (Internal _) = ''internal_error''"

fun error_status :: "app_error \<Rightarrow> nat" where
  "error_status Unauthorized = 401"
| "error_status Forbidden = 403"
| "error_status NotFound = 404"
| "error_status (Validation _) = 422"
| "error_status (ResponseTooLarge _) = 413"
| "error_status (Conflict _) = 409"
| "error_status (SyncResetRequired _) = 409"
| "error_status (PreconditionRequired _) = 428"
| "error_status (Refused status _ _) = status"
| "error_status (DependencyUnavailable _) = 503"
| "error_status RateLimited = 429"
| "error_status (Database _) = 500"
| "error_status (Internal _) = 500"

text \<open>The display text of an error (\<open>thiserror\<close> attributes), and the part of it a client
  may see.\<close>

fun error_display :: "app_error \<Rightarrow> str" where
  "error_display Unauthorized = lit ''authentication required''"
| "error_display Forbidden = lit ''operation is not permitted''"
| "error_display (Refused _ _ message) = message"
| "error_display NotFound = lit ''resource not found''"
| "error_display (Validation m) = m"
| "error_display (ResponseTooLarge m) = m"
| "error_display (Conflict m) = m"
| "error_display (SyncResetRequired m) = m"
| "error_display (PreconditionRequired m) = m"
| "error_display (DependencyUnavailable d) = lit ''dependency '' @ lit d @ lit '' is unavailable''"
| "error_display RateLimited = lit ''rate limit exceeded''"
| "error_display (Database _) = lit ''database operation failed''"
| "error_display (Internal _) = lit ''internal server error''"

fun public_message :: "app_error \<Rightarrow> str" where
  "public_message (Database _) = lit ''internal server error''"
| "public_message (Internal _) = lit ''internal server error''"
| "public_message e = error_display e"

text \<open>\<open>into_response\<close>: the status and the body's code and message.\<close>

definition into_response :: "app_error \<Rightarrow> nat \<times> string \<times> str" where
  "into_response e = (error_status e, error_code e, public_message e)"

fun hide_source :: "app_error \<Rightarrow> app_error" where
  "hide_source (Database _) = Database []"
| "hide_source (Internal _) = Internal []"
| "hide_source e = e"

text \<open>Responses never disclose the private source of a failure: two errors that differ only
  in the source of a database or internal failure produce the same response, and both kinds are
  reported alike as an opaque 500.\<close>

theorem responses_hide_sources:
  "into_response e = into_response (hide_source e) \<and>
   into_response (Database s) = into_response (Internal t) \<and> error_status (Internal t) = 500"
  by (cases e) (simp_all add: into_response_def)

end
