(* ===== verification/Identity.thy ===== *)
theory Identity
  imports Errors "HOL-Library.Product_Lexorder"
begin

text \<open>
  Account identity (\<open>src/domain/actor.rs\<close>, \<open>account.rs\<close>, \<open>idempotency.rs\<close>,
  \<open>valid_public_id\<close> of the accounts store and the participant sets of the conversation
  store). The \<open>uuid\<close> crate is a parameter: its parser and its canonical printer.
\<close>

record uuid_lib =
  uuid_parse :: "str \<Rightarrow> nat option"
  uuid_show :: "nat \<Rightarrow> str"

datatype actor_type = Carbon | Silicon

fun type_str :: "actor_type \<Rightarrow> string" where
  "type_str Carbon = ''carbon''"
| "type_str Silicon = ''silicon''"

definition type_of_str :: "string \<Rightarrow> actor_type option" where
  "type_of_str s = (if s = ''carbon'' then Some Carbon else if s = ''silicon'' then Some Silicon else None)"

record actor_ref =
  ar_type :: actor_type
  ar_id :: str

abbreviation actor :: "actor_type \<Rightarrow> str \<Rightarrow> actor_ref" where
  "actor t i \<equiv> \<lparr>ar_type = t, ar_id = i\<rparr>"

datatype identity_error = ActorTypeError | InvalidIdentifier

definition is_account_uuid :: "uuid_lib \<Rightarrow> str \<Rightarrow> bool" where
  "is_account_uuid U value \<longleftrightarrow>
     (3 \<le> str_len value \<and> str_len value \<le> 64 \<and> (\<forall>b\<in>set (bytes value). is_ascii_alphanumeric b)) \<or>
     (str_len value = 36 \<and>
      (case uuid_parse U value of None \<Rightarrow> False | Some u \<Rightarrow> uuid_show U u = value))"

text \<open>The \<open>impl_identifier!\<close> conversion of \<open>ActorId\<close> and \<open>OrganizationId\<close>.\<close>

definition identifier_try_from :: "str \<Rightarrow> identity_error + str" where
  "identifier_try_from value =
     (let normalized = trim value in
      if normalized = [] \<or> str_len normalized > 255 \<or> list_ex is_control normalized
      then Inl InvalidIdentifier else Inr normalized)"

definition handle_char :: "nat \<Rightarrow> bool" where
  "handle_char b \<longleftrightarrow> is_ascii_lowercase b \<or> is_ascii_digit b \<or> b = 45 \<or> b = 95"

definition valid_handle :: "nat \<Rightarrow> nat \<Rightarrow> str \<Rightarrow> bool" where
  "valid_handle lo hi handle \<longleftrightarrow>
     lo \<le> str_len handle \<and> str_len handle \<le> hi \<and> (\<forall>b\<in>set (bytes handle). handle_char b)"

text \<open>\<open>strip_prefix(a).or_else(|| strip_prefix(b))\<close>\<close>

definition strip_either :: "str \<Rightarrow> str \<Rightarrow> str \<Rightarrow> str option" where
  "strip_either a b s = (case strip_prefix a s of Some r \<Rightarrow> Some r | None \<Rightarrow> strip_prefix b s)"

definition address_parts :: "uuid_lib \<Rightarrow> str \<Rightarrow> string + (str \<times> str option)" where
  "address_parts U address =
     bind_ok
       (case split_once 64 address of
          Some (isi, actor_part) \<Rightarrow>
            if isi = [] \<or> list_ex (\<lambda>c. is_whitespace c \<or> c = 58 \<or> c = 64) isi \<or>
               \<not> (prefix (lit ''si:'') actor_part \<or> is_account_uuid U actor_part)
            then Inl ''silicon address must be ISI@si:handle with a non-empty ISI''
            else Inr (actor_part, Some isi)
        | None \<Rightarrow> Inr (address, None))
       (\<lambda>(actor_part, isi).
          if is_account_uuid U actor_part then Inr (actor_part, isi)
          else if \<not> (case strip_either (lit ''si:'') (lit ''c:'') actor_part of
                        None \<Rightarrow> False
                      | Some handle \<Rightarrow>
                          valid_handle 3 (if prefix (lit ''c:'') actor_part then 30 else 50) handle)
          then Inl ''actor ID must be c:handle or si:handle''
          else Inr (actor_part, isi))"

definition base_actor_id :: "uuid_lib \<Rightarrow> str \<Rightarrow> string + str" where
  "base_actor_id U address =
     bind_ok (address_parts U address)
       (\<lambda>(base, _). case identifier_try_from base of
                      Inl _ \<Rightarrow> Inl ''invalid actor address'' | Inr i \<Rightarrow> Inr i)"

definition addresses :: "uuid_lib \<Rightarrow> str \<Rightarrow> actor_ref \<Rightarrow> bool" where
  "addresses U address a =
     (case address_parts U address of
        Inl _ \<Rightarrow> False
      | Inr (base, isi) \<Rightarrow> base = ar_id a \<and> (isi = None \<or> ar_type a = Silicon))"

definition valid_public_id :: "str \<Rightarrow> bool" where
  "valid_public_id i =
     (case strip_either (lit ''c:'') (lit ''si:'') i of
        None \<Rightarrow> False
      | Some handle \<Rightarrow> valid_handle 1 50 handle)"

definition idempotency_key :: "str \<Rightarrow> unit + str" where
  "idempotency_key value =
     (if \<not> (8 \<le> str_len value \<and> str_len value \<le> 255) \<or> \<not> list_all is_ascii_graphic (bytes value)
      then Inl () else Inr value)"

section \<open>Accounts\<close>

record account =
  acc_uuid :: str
  acc_kind :: actor_type
  acc_id :: "str option"
  acc_display_name :: "str option"
  acc_pfp_url :: "str option"
  acc_custodian :: "str option"
  acc_deleted :: bool

definition account_actor :: "account \<Rightarrow> actor_ref" where
  "account_actor a = actor (acc_kind a) (acc_uuid a)"

definition display_id :: "account \<Rightarrow> str" where
  "display_id a = (case acc_id a of Some i \<Rightarrow> i | None \<Rightarrow> acc_uuid a)"

definition is_silicon :: "account \<Rightarrow> bool" where
  "is_silicon a \<longleftrightarrow> acc_kind a = Silicon"

section \<open>Participant sets\<close>

definition participant_key :: "actor_ref \<Rightarrow> str \<times> str" where
  "participant_key p = (lit (type_str (ar_type p)), ar_id p)"

text \<open>\<open>sort_by\<close> is stable and \<open>dedup\<close> drops adjacent repetitions.\<close>

definition canonicalize_participants :: "actor_ref list \<Rightarrow> actor_ref list" where
  "canonicalize_participants ps = remdups_adj (sort_key participant_key ps)"

definition u64_be_bytes :: "nat \<Rightarrow> nat list" where
  "u64_be_bytes n = map (\<lambda>i. n div 256 ^ (7 - i) mod 256) [0..<8]"

definition framed :: "nat list \<Rightarrow> nat list" where
  "framed bs = u64_be_bytes (min (length bs) (2 ^ 64 - 1)) @ bs"

text \<open>The bytes \<open>participant_set_hash\<close> feeds to SHA-256, and the hash over them.\<close>

definition participant_set_bytes :: "actor_ref list \<Rightarrow> nat list" where
  "participant_set_bytes ps =
     concat (map (\<lambda>p. framed (bytes (lit (type_str (ar_type p)))) @ framed (bytes (ar_id p))) ps)"

definition participant_set_hash :: "(nat list \<Rightarrow> 'h) \<Rightarrow> actor_ref list \<Rightarrow> 'h" where
  "participant_set_hash sha256 ps = sha256 (participant_set_bytes ps)"

text \<open>Identifiers that are Rust strings of representable length.\<close>

definition hashable :: "actor_ref \<Rightarrow> bool" where
  "hashable p \<longleftrightarrow> wf_str (ar_id p) \<and> str_len (ar_id p) < 2 ^ 64"

text \<open>The characters identifiers are made of.\<close>

definition plain_char :: "uchar \<Rightarrow> bool" where
  "plain_char c \<longleftrightarrow> is_ascii_alphanumeric c \<or> c = 45 \<or> c = 58 \<or> c = 95"

text \<open>What the code relies on of the UUID printer: hyphenated lower-case hexadecimal.\<close>

definition canonical_uuids :: "uuid_lib \<Rightarrow> bool" where
  "canonical_uuids U \<longleftrightarrow> (\<forall>u. \<forall>c\<in>set (uuid_show U u). is_ascii_digit c \<or> is_ascii_lowercase c \<or> c = 45)"

section \<open>Lemmas\<close>

lemma u64_be_bytes_inj: "n < 2 ^ 64 \<Longrightarrow> m < 2 ^ 64 \<Longrightarrow> u64_be_bytes n = u64_be_bytes m \<Longrightarrow> n = m"
proof -
  assume n: "n < 2 ^ 64" and m: "m < 2 ^ 64" and eq: "u64_be_bytes n = u64_be_bytes m"
  have step: "n div 256 ^ Suc k = m div 256 ^ Suc k \<Longrightarrow> n div 256 ^ k mod 256 = m div 256 ^ k mod 256
    \<Longrightarrow> n div 256 ^ k = m div 256 ^ k" for k
    by (metis div_mult2_eq div_mult_mod_eq power_Suc2)
  have d: "n div 256 ^ k mod 256 = m div 256 ^ k mod 256" if "k \<le> 7" for k
  proof -
    have "u64_be_bytes n ! (7 - k) = u64_be_bytes m ! (7 - k)" using eq by simp
    moreover have "7 - k < 8" by simp
    ultimately show ?thesis using that by (simp add: u64_be_bytes_def del: upt_Suc)
  qed
  have "n div 256 ^ (8 - j) = m div 256 ^ (8 - j)" if "j \<le> 8" for j
    using that
  proof (induction j)
    case 0
    show ?case using n m by simp
  next
    case (Suc j)
    then have "8 - j = Suc (8 - Suc j)" by simp
    with Suc step [of "8 - Suc j"] d [of "8 - Suc j"] show ?case by simp
  qed
  from this [of 8] show "n = m" by simp
qed

lemma valid_handle_mono: "valid_handle lo hi h \<Longrightarrow> lo' \<le> lo \<Longrightarrow> hi \<le> hi' \<Longrightarrow> valid_handle lo' hi' h"
  by (auto simp: valid_handle_def)

lemma lit_tags: "lit ''si:'' = [115,105,58]" "lit ''c:'' = [99,58]"
  by (simp_all add: lit_def)

lemma strip_either_swap: "strip_either (lit ''si:'') (lit ''c:'') s = strip_either (lit ''c:'') (lit ''si:'') s"
  by (auto simp: strip_either_def strip_prefix_def lit_tags prefix_def split: option.splits)

lemma address_parts_cases:
  assumes "address_parts U address = Inr (base, isi)"
  shows "is_account_uuid U base \<or> valid_public_id base"
    and "address = (case isi of None \<Rightarrow> base | Some i \<Rightarrow> i @ 64 # base)"
    and "isi = Some i \<Longrightarrow> i \<noteq> [] \<and> (\<forall>c\<in>set i. \<not> is_whitespace c \<and> c \<noteq> 58 \<and> c \<noteq> 64)"
    and "isi = Some i \<Longrightarrow> prefix (lit ''si:'') base \<or> is_account_uuid U base"
    and "64 \<notin> set base \<Longrightarrow> address_parts U base = Inr (base, None)"
proof -
  obtain p where pre: "(case split_once 64 address of
          Some (isi, actor_part) \<Rightarrow>
            if isi = [] \<or> list_ex (\<lambda>c. is_whitespace c \<or> c = 58 \<or> c = 64) isi \<or>
               \<not> (prefix (lit ''si:'') actor_part \<or> is_account_uuid U actor_part)
            then Inl ''silicon address must be ISI@si:handle with a non-empty ISI''
            else Inr (actor_part, Some isi)
        | None \<Rightarrow> Inr (address, None)) = Inr p"
    and post: "(\<lambda>(actor_part, isi).
          if is_account_uuid U actor_part then Inr (actor_part, isi)
          else if \<not> (case strip_either (lit ''si:'') (lit ''c:'') actor_part of
                        None \<Rightarrow> False
                      | Some handle \<Rightarrow>
                          valid_handle 3 (if prefix (lit ''c:'') actor_part then 30 else 50) handle)
          then Inl ''actor ID must be c:handle or si:handle''
          else Inr (actor_part, isi)) p = Inr (base, isi)"
    using assms unfolding address_parts_def by auto
  have p: "p = (base, isi)"
    using post by (auto split: if_splits prod.splits)
  show "is_account_uuid U base \<or> valid_public_id base"
    using post p
    by (auto simp: valid_public_id_def strip_either_swap intro: valid_handle_mono
        split: if_splits option.splits)
  show "address = (case isi of None \<Rightarrow> base | Some i \<Rightarrow> i @ 64 # base)"
    using pre p by (auto dest: split_once_SomeD split: option.splits if_splits)
  show "i \<noteq> [] \<and> (\<forall>c\<in>set i. \<not> is_whitespace c \<and> c \<noteq> 58 \<and> c \<noteq> 64)" if "isi = Some i"
    using pre p that by (auto simp: list_ex_iff split: option.splits if_splits)
  show "prefix (lit ''si:'') base \<or> is_account_uuid U base" if "isi = Some i"
    using pre p that by (auto split: option.splits if_splits)
  show "address_parts U base = Inr (base, None)" if "64 \<notin> set base"
  proof -
    from that have n: "split_once 64 base = None" by (simp add: split_once_None_iff)
    show ?thesis
      using post p by (simp add: address_parts_def n del: bind_ok_Inr_iff split: if_splits)
  qed
qed


lemma participant_key_inj: "inj participant_key"
proof (rule injI)
  fix p q :: actor_ref
  assume "participant_key p = participant_key q"
  then show "p = q"
    by (cases "ar_type p"; cases "ar_type q") (auto simp: participant_key_def lit_def)
qed

lemma map_key_canonicalize:
  "map participant_key (canonicalize_participants ps) =
     remdups_adj (map participant_key (sort_key participant_key ps))"
  unfolding canonicalize_participants_def
  by (rule remdups_adj_map_injective [OF participant_key_inj, symmetric])

lemma canonicalize_participants_set [simp]: "set (canonicalize_participants ps) = set ps"
  by (simp add: canonicalize_participants_def)

lemma canonicalize_participants_sorted: "sorted (map participant_key (canonicalize_participants ps))"
  by (simp add: map_key_canonicalize)

lemma canonicalize_participants_distinct: "distinct (canonicalize_participants ps)"
proof -
  have "distinct (map participant_key (canonicalize_participants ps))"
    unfolding map_key_canonicalize by (rule sorted_remdups_adj_distinct) simp
  then show ?thesis by (simp add: distinct_map)
qed

lemma canonicalize_participants_unique:
  assumes "set ps = set qs"
  shows "canonicalize_participants ps = canonicalize_participants qs"
proof -
  have "map participant_key (canonicalize_participants ps) = map participant_key (canonicalize_participants qs)"
    unfolding map_key_canonicalize using assms
    by (intro sorted_distinct_set_unique sorted_remdups_adj_distinct) simp_all
  then show ?thesis using participant_key_inj by (simp add: inj_map_eq_map)
qed

lemma framed_append_inj:
  assumes "length xs < 2 ^ 64" "length ys < 2 ^ 64" and "framed xs @ r = framed ys @ s"
  shows "xs = ys \<and> r = s"
proof -
  have len: "length (u64_be_bytes k) = 8" for k by (simp add: u64_be_bytes_def)
  have "u64_be_bytes (length xs) @ xs @ r = u64_be_bytes (length ys) @ ys @ s"
    using assms by (simp add: framed_def min_absorb1)
  then have "u64_be_bytes (length xs) = u64_be_bytes (length ys)" and r: "xs @ r = ys @ s"
    using len [of "length xs"] len [of "length ys"] by (simp_all add: append_eq_append_conv)
  then have "length xs = length ys"
    using assms u64_be_bytes_inj by blast
  with r show ?thesis by simp
qed

lemma bytes_type_str:
  "bytes (lit (type_str Carbon)) = [99, 97, 114, 98, 111, 110]"
  "bytes (lit (type_str Silicon)) = [115, 105, 108, 105, 99, 111, 110]"
  by (simp_all add: lit_def bytes_def utf8_char_def)

lemma framed_nonempty [simp]: "framed bs \<noteq> []"
  by (simp add: framed_def u64_be_bytes_def)

lemma participant_set_bytes_Nil [simp]: "participant_set_bytes [] = []"
  by (simp add: participant_set_bytes_def)

lemma participant_set_bytes_Cons:
  "participant_set_bytes (p # ps) =
     framed (bytes (lit (type_str (ar_type p)))) @ framed (bytes (ar_id p)) @ participant_set_bytes ps"
  by (simp add: participant_set_bytes_def)

lemma participant_set_bytes_inj:
  assumes "\<forall>p\<in>set ps. hashable p" "\<forall>p\<in>set qs. hashable p"
    and "participant_set_bytes ps = participant_set_bytes qs"
  shows "ps = qs"
  using assms
proof (induction ps arbitrary: qs)
  case Nil
  then show ?case by (cases qs) (auto simp: participant_set_bytes_Cons)
next
  case (Cons p ps)
  then obtain q qs' where q: "qs = q # qs'"
    by (cases qs) (auto simp: participant_set_bytes_Cons)
  let ?t = "\<lambda>p. bytes (lit (type_str (ar_type p)))"
  have short: "length (?t p) < 2 ^ 64" for p by (cases "ar_type p") (simp_all add: bytes_type_str del: type_str.simps)
  have eq: "framed (?t p) @ framed (bytes (ar_id p)) @ participant_set_bytes ps =
      framed (?t q) @ framed (bytes (ar_id q)) @ participant_set_bytes qs'"
    using Cons.prems(3) q by (simp add: participant_set_bytes_Cons)
  have t: "?t p = ?t q" and rest: "framed (bytes (ar_id p)) @ participant_set_bytes ps =
      framed (bytes (ar_id q)) @ participant_set_bytes qs'"
    using framed_append_inj [OF short short eq] by simp_all
  have "bytes (ar_id p) = bytes (ar_id q) \<and> participant_set_bytes ps = participant_set_bytes qs'"
    using Cons.prems q by (intro framed_append_inj rest) (simp_all add: hashable_def str_len_def)
  moreover have "ar_type p = ar_type q"
    using t by (cases "ar_type p"; cases "ar_type q") (simp_all add: bytes_type_str del: type_str.simps)
  moreover have "wf_str (ar_id p)" "wf_str (ar_id q)"
    using Cons.prems q by (simp_all add: hashable_def)
  ultimately have "ar_id p = ar_id q" and "ar_type p = ar_type q" and "ps = qs'"
    using Cons.prems q by (auto intro: bytes_inj Cons.IH)
  with q show ?case by simp
qed

lemma participant_set_bytes_iff:
  assumes "\<forall>p\<in>set ps. hashable p" "\<forall>p\<in>set qs. hashable p"
  shows "participant_set_bytes (canonicalize_participants ps) =
     participant_set_bytes (canonicalize_participants qs) \<longleftrightarrow> set ps = set qs"
proof
  assume "participant_set_bytes (canonicalize_participants ps) = participant_set_bytes (canonicalize_participants qs)"
  with assms have "canonicalize_participants ps = canonicalize_participants qs"
    by (intro participant_set_bytes_inj) simp_all
  then show "set ps = set qs" by (metis canonicalize_participants_set)
qed (metis canonicalize_participants_unique)

lemma identifier_try_from_idem:
  "identifier_try_from v = Inr i \<Longrightarrow> identifier_try_from i = Inr i"
  by (auto simp: identifier_try_from_def Let_def split: if_splits)

lemma plain_char_props: "plain_char c \<Longrightarrow> c < 128 \<and> \<not> is_whitespace c \<and> \<not> is_control c \<and> c \<noteq> 64"
  by (auto simp: plain_char_def is_ascii_alphanumeric_def is_ascii_lowercase_def
      is_ascii_uppercase_def is_ascii_digit_def is_whitespace_def is_control_def)

lemma identifier_plain:
  assumes "\<forall>c\<in>set s. plain_char c" "s \<noteq> []" "length s \<le> 255"
  shows "identifier_try_from s = Inr s"
  using assms plain_char_props
  by (auto simp: identifier_try_from_def trim_plain str_len_ascii list_ex_iff)

lemma valid_handle_plain:
  assumes "valid_handle lo hi h"
  shows "(\<forall>c\<in>set h. plain_char c) \<and> length h \<le> hi \<and> lo \<le> length h"
proof -
  have "bytes h = h"
    using assms by (intro bytes_all_ascii [of _ handle_char])
      (auto simp: valid_handle_def handle_char_def is_ascii_lowercase_def is_ascii_digit_def)
  then show ?thesis using assms
    by (auto simp: valid_handle_def str_len_def handle_char_def plain_char_def is_ascii_alphanumeric_def)
qed

lemma valid_public_id_plain:
  assumes "valid_public_id i"
  shows "(\<forall>c\<in>set i. plain_char c) \<and> i \<noteq> [] \<and> length i \<le> 53"
proof -
  have tags: "\<forall>c\<in>set (lit ''si:''). plain_char c" "\<forall>c\<in>set (lit ''c:''). plain_char c"
    by (simp_all add: lit_def plain_char_def is_ascii_alphanumeric_def is_ascii_lowercase_def)
  obtain h where h: "i = lit ''c:'' @ h \<or> i = lit ''si:'' @ h" "valid_handle 1 50 h"
    using assms by (auto simp: valid_public_id_def strip_either_def strip_prefix_Some split: option.splits)
  then show ?thesis
    using valid_handle_plain [OF h(2)] tags by (auto simp: lit_tags)
qed

lemma account_uuid_plain:
  assumes "is_account_uuid U i" "canonical_uuids U"
  shows "(\<forall>c\<in>set i. plain_char c) \<and> i \<noteq> [] \<and> length i \<le> 64"
proof -
  have ascii: "is_ascii_alphanumeric b \<Longrightarrow> b < 128" for b
    by (simp add: is_ascii_alphanumeric_def is_ascii_lowercase_def is_ascii_uppercase_def
        is_ascii_digit_def) linarith
  consider "3 \<le> str_len i" "str_len i \<le> 64" "\<forall>b\<in>set (bytes i). is_ascii_alphanumeric b"
    | u where "str_len i = 36" "uuid_show U u = i"
    using assms(1) by (auto simp: is_account_uuid_def split: option.splits)
  then show ?thesis
  proof cases
    case 1
    then have "bytes i = i" using ascii by (intro bytes_all_ascii [of _ is_ascii_alphanumeric])
    with 1 show ?thesis by (auto simp: str_len_def plain_char_def)
  next
    case 2
    then have plain: "\<forall>c\<in>set i. plain_char c"
      using assms(2) by (auto simp: canonical_uuids_def plain_char_def is_ascii_alphanumeric_def)
    then have "str_len i = length i" using plain_char_props by (simp add: str_len_ascii)
    with 2 plain show ?thesis by auto
  qed
qed

section \<open>Properties\<close>

text \<open>Parsing an account address loses nothing: the address is its base, preceded by
  the ISI and an at-sign when one is given; \<open>base_actor_id\<close> succeeds with that base, the base
  parses to itself, it is an account UUID or a well-formed public ID, and an ISI is a non-empty
  word without an at-sign that only ever precedes a Silicon or UUID base.\<close>

theorem address_parts_lossless:
  assumes "canonical_uuids U" and "address_parts U address = Inr (base, isi)"
  shows "address = (case isi of None \<Rightarrow> base | Some i \<Rightarrow> i @ 64 # base) \<and>
    base_actor_id U address = Inr base \<and> address_parts U base = Inr (base, None) \<and>
    (is_account_uuid U base \<or> valid_public_id base) \<and>
    (\<forall>i. isi = Some i \<longrightarrow> i \<noteq> [] \<and> 64 \<notin> set i \<and> (prefix (lit ''si:'') base \<or> is_account_uuid U base))"
proof -
  note c = address_parts_cases [OF assms(2)]
  have plain: "\<forall>c\<in>set base. plain_char c" "base \<noteq> []" "length base \<le> 255"
    using c(1) account_uuid_plain [OF _ assms(1)] valid_public_id_plain by fastforce+
  then have b: "base_actor_id U address = Inr base"
    using assms(2) by (simp add: base_actor_id_def identifier_plain)
  have "64 \<notin> set base" using plain(1) plain_char_props by blast
  with b c show ?thesis by auto
qed

theorem address_parts_lossless_witness:
  "base_actor_id \<lparr>uuid_parse = \<lambda>_. None, uuid_show = \<lambda>_. []\<rparr> (lit ''k1@si:nova'') = Inr (lit ''si:nova'')"
proof -
  let ?U = "\<lparr>uuid_parse = \<lambda>_. None, uuid_show = \<lambda>_. []\<rparr>"
  have "canonical_uuids ?U" by (simp add: canonical_uuids_def)
  moreover have "address_parts ?U (lit ''k1@si:nova'') = Inr (lit ''si:nova'', Some (lit ''k1''))"
    by (simp add: address_parts_def is_account_uuid_def strip_either_def valid_handle_def
        handle_char_def str_simps)
  ultimately show ?thesis using address_parts_lossless by blast
qed

text \<open>The canonical form of a participant list is a sorted list without repetition of the
  same accounts, it depends only on the set of accounts, and the byte string hashed for it
  determines that set: the length prefixes leave no two sets with the same input to SHA-256.\<close>

theorem participant_sets_canonical:
  assumes "\<forall>p\<in>set ps. hashable p" "\<forall>p\<in>set qs. hashable p"
  shows "set (canonicalize_participants ps) = set ps \<and>
    distinct (canonicalize_participants ps) \<and>
    sorted (map participant_key (canonicalize_participants ps)) \<and>
    (participant_set_bytes (canonicalize_participants ps) =
       participant_set_bytes (canonicalize_participants qs) \<longleftrightarrow> set ps = set qs)"
  using participant_set_bytes_iff [OF assms] canonicalize_participants_distinct
    canonicalize_participants_sorted by simp

theorem participant_sets_canonical_witness:
  "participant_set_bytes (canonicalize_participants [actor Silicon (lit ''nova''), actor Carbon (lit ''ann'')])
   \<noteq> participant_set_bytes (canonicalize_participants [actor Silicon (lit ''nova''), actor Carbon (lit ''anna'')])"
  using participant_sets_canonical
    [of "[actor Silicon (lit ''nova''), actor Carbon (lit ''ann'')]"
        "[actor Silicon (lit ''nova''), actor Carbon (lit ''anna'')]"]
  by (simp add: hashable_def wf_str_def str_simps doubleton_eq_iff)

end
