(* ===== verification/Content.thy ===== *)
theory Content
  imports Identity
begin

text \<open>
  Message content (\<open>src/domain/message.rs\<close>, \<open>draft.rs\<close>, \<open>bundle.rs\<close>, \<open>group.rs\<close> and the
  limits of \<open>domain/mod.rs\<close>): its shape, its validation with every error branch, and the
  canonical JSON whose BLAKE3 digest identifies a request and a draft. The serializer and
  the hash are parameters; the JSON value handed to them is modelled field by field.
\<close>

section \<open>Data\<close>

text \<open>\<open>serde_json::Value\<close>; a number is kept as its decimal text.\<close>

datatype json =
    JNull
  | JBool bool
  | JNum str
  | JStr str
  | JArr "json list"
  | JObj "(str \<times> json) list"

type_synonym json_map = "(str \<times> json) list"
type_synonym uuid = nat

text \<open>A parsed URL, as far as the code inspects one.\<close>

record url =
  u_scheme :: string
  u_host :: "str option"
  u_username :: str
  u_password :: "str option"
  u_text :: str

record attachment =
  at_url :: url
  at_name :: "str option"
  at_content_type :: "str option"
  at_size :: "nat option"

record voice_attachment =
  vo_url :: url
  vo_name :: "str option"
  vo_content_type :: "str option"
  vo_size :: "nat option"
  vo_duration :: "nat option"

record gif =
  gif_provider_id :: str
  gif_url :: url
  gif_preview_url :: "url option"
  gif_title :: "str option"

record message_create =
  mc_metadata :: json_map
  mc_reply_to :: "uuid option"
  mc_sender_id :: "str option"
  mc_recipient_id :: "str option"
  mc_text :: "str option"
  mc_attachments :: "attachment list"
  mc_voice :: "voice_attachment option"
  mc_voice_transcript :: "str option"
  mc_gif :: "gif option"

record draft_input =
  di_metadata :: json_map
  di_reply_to :: "uuid option"
  di_message_content :: "str option"
  di_attachments :: "attachment list"
  di_voice :: "voice_attachment option"
  di_voice_transcript :: "str option"
  di_gif :: "gif option"

record bundle_create =
  bc_message_ids :: "uuid list"
  bc_display_message :: message_create

record group_settings =
  gs_name :: str
  gs_description :: str

definition max_text_characters :: nat where "max_text_characters = 100000000"
definition max_attachment_bytes :: nat where "max_attachment_bytes = 5 * 1024 * 1024 * 1024"
definition max_attachments :: nat where "max_attachments = 100"
definition max_conversation_participants :: nat where "max_conversation_participants = 100"
definition max_voice_duration :: nat where "max_voice_duration = 48 * 60 * 60 * 1000"

lemmas limit_defs = max_text_characters_def max_attachment_bytes_def max_attachments_def
  max_voice_duration_def

section \<open>Validation\<close>

definition is_some_and :: "('a \<Rightarrow> bool) \<Rightarrow> 'a option \<Rightarrow> bool" where
  "is_some_and P x = (case x of None \<Rightarrow> False | Some v \<Rightarrow> P v)"

lemma is_some_and_simps [simp]: "is_some_and P None = False" "is_some_and P (Some v) = P v"
  by (simp_all add: is_some_and_def)

definition validate_attachment_metadata ::
  "url \<Rightarrow> str option \<Rightarrow> str option \<Rightarrow> nat option \<Rightarrow> string + unit" where
  "validate_attachment_metadata u name content_type sz =
     (if is_some_and (\<lambda>s. s > max_attachment_bytes) sz
      then Inl ''an attachment may not exceed 5 GiB''
      else if u_scheme u \<noteq> ''https'' \<or> u_host u = None \<or> u_username u \<noteq> [] \<or>
              u_password u \<noteq> None \<or> str_len (u_text u) > 8192
      then Inl ''attachments require a credential-free HTTPS permanent URL of at most 8,192 bytes''
      else if is_some_and (\<lambda>n. n = [] \<or> length n > 1024) name
      then Inl ''attachment name must contain 1 to 1,024 characters''
      else if is_some_and (\<lambda>v. v = [] \<or> str_len v > 255) content_type
      then Inl ''attachment content_type must contain 1 to 255 bytes''
      else Inr ())"

definition validate_attachments ::
  "attachment list \<Rightarrow> voice_attachment option \<Rightarrow> string + unit" where
  "validate_attachments attachments voice =
     (if length attachments + (if voice = None then 0 else 1) > max_attachments
      then Inl ''a message or draft may contain at most 100 attachment items including voice''
      else bind_ok
        (each_result (\<lambda>a. validate_attachment_metadata (at_url a) (at_name a) (at_content_type a) (at_size a))
           attachments)
        (\<lambda>_. case voice of
           None \<Rightarrow> Inr ()
         | Some v \<Rightarrow> bind_ok
             (validate_attachment_metadata (vo_url v) (vo_name v) (vo_content_type v) (vo_size v))
             (\<lambda>_. if \<not> is_some_and (\<lambda>d. 1 \<le> d \<and> d \<le> max_voice_duration) (vo_duration v)
                  then Inl ''voice duration must contain 1 millisecond to 48 hours''
                  else Inr ())))"

definition validate_gif :: "gif option \<Rightarrow> string + unit" where
  "validate_gif g =
     (case g of
        None \<Rightarrow> Inr ()
      | Some g \<Rightarrow>
          if trim (gif_provider_id g) = [] \<or> str_len (gif_provider_id g) > 255
          then Inl ''GIF provider_id must contain 1 to 255 bytes''
          else if u_scheme (gif_url g) \<noteq> ''https'' \<or> str_len (u_text (gif_url g)) > 8192
          then Inl ''GIF URL must be HTTPS and at most 8,192 bytes''
          else if is_some_and (\<lambda>u. u_scheme u \<noteq> ''https'' \<or> str_len (u_text u) > 8192) (gif_preview_url g)
          then Inl ''GIF preview URL must be HTTPS and at most 8,192 bytes''
          else if is_some_and (\<lambda>t. length t > 1000) (gif_title g)
          then Inl ''GIF title may not exceed 1,000 characters''
          else Inr ())"

definition too_long :: "str option \<Rightarrow> bool" where
  "too_long t = is_some_and (\<lambda>s. length s > max_text_characters) t"

definition flatten_option :: "'a option \<Rightarrow> 'a list" where
  "flatten_option x = (case x of None \<Rightarrow> [] | Some v \<Rightarrow> [v])"

definition message_validate :: "uuid_lib \<Rightarrow> message_create \<Rightarrow> string + unit" where
  "message_validate U m =
     bind_ok
       (each_result (\<lambda>a. bind_ok (address_parts U a) (\<lambda>_. Inr ()))
          (flatten_option (mc_sender_id m) @ flatten_option (mc_recipient_id m)))
       (\<lambda>_.
          if mc_text m = Some [] \<and> mc_attachments m = [] \<and> mc_voice m = None \<and> mc_gif m = None
          then Inl ''message text must contain at least one character''
          else if \<not> (mc_text m \<noteq> None \<or> mc_attachments m \<noteq> [] \<or> mc_voice m \<noteq> None \<or> mc_gif m \<noteq> None)
          then Inl ''a message must contain text, an attachment, voice, or a GIF''
          else if too_long (mc_text m)
          then Inl ''message text exceeds 100,000,000 characters''
          else if mc_voice m = None \<and> mc_attachments m = [] \<and> mc_voice_transcript m \<noteq> None
          then Inl ''voice_transcript requires a voice attachment''
          else if too_long (mc_voice_transcript m)
          then Inl ''voice transcript exceeds 100,000,000 characters''
          else bind_ok (validate_attachments (mc_attachments m) (mc_voice m))
                 (\<lambda>_. validate_gif (mc_gif m)))"

definition draft_validate :: "draft_input \<Rightarrow> string + unit" where
  "draft_validate d =
     (if too_long (di_message_content d)
      then Inl ''draft text exceeds 100,000,000 characters''
      else if di_voice d = None \<and> di_voice_transcript d \<noteq> None
      then Inl ''voice_transcript requires a voice attachment''
      else if too_long (di_voice_transcript d)
      then Inl ''voice transcript exceeds 100,000,000 characters''
      else bind_ok (validate_attachments (di_attachments d) (di_voice d))
             (\<lambda>_. validate_gif (di_gif d)))"

definition bundle_validate :: "uuid_lib \<Rightarrow> bundle_create \<Rightarrow> string + unit" where
  "bundle_validate U b =
     (if \<not> (1 \<le> length (bc_message_ids b) \<and> length (bc_message_ids b) \<le> 100)
      then Inl ''a bundle must contain between 1 and 100 messages''
      else if card (set (bc_message_ids b)) \<noteq> length (bc_message_ids b)
      then Inl ''bundle message_ids must be unique''
      else message_validate U (bc_display_message b))"

definition group_settings_error :: app_error where
  "group_settings_error = Validation
     (lit ''group name must be 1'' @ [8211] @
      lit ''120 characters without control characters, and the description at most 4000 characters'')"

definition group_settings_validate :: "group_settings \<Rightarrow> group_settings app_result" where
  "group_settings_validate s =
     (let name = trim (gs_name s) in
      if name = [] \<or> length name > 120 \<or> list_ex is_control name \<or>
         length (gs_description s) > 4000 \<or> 0 \<in> set (gs_description s)
      then Inl group_settings_error
      else Inr (s\<lparr>gs_name := name\<rparr>))"

section \<open>Canonical content\<close>

definition json_opt :: "('a \<Rightarrow> json) \<Rightarrow> 'a option \<Rightarrow> json" where
  "json_opt f x = (case x of None \<Rightarrow> JNull | Some v \<Rightarrow> f v)"

text \<open>\<open>skip_serializing_if = "Option::is_none"\<close>\<close>

definition field_if :: "string \<Rightarrow> ('a \<Rightarrow> json) \<Rightarrow> 'a option \<Rightarrow> json_map" where
  "field_if key f x = (case x of None \<Rightarrow> [] | Some v \<Rightarrow> [(lit key, f v)])"

fun nat_digits :: "nat \<Rightarrow> str" where
  "nat_digits n = (if n < 10 then [48 + n] else nat_digits (n div 10) @ [48 + n mod 10])"

declare nat_digits.simps [simp del]

definition json_nat :: "nat \<Rightarrow> json" where
  "json_nat n = JNum (nat_digits n)"

definition attachment_json :: "attachment \<Rightarrow> json" where
  "attachment_json a = JObj
     ([(lit ''permanent_url'', JStr (u_text (at_url a)))] @
      field_if ''name'' JStr (at_name a) @
      field_if ''content_type'' JStr (at_content_type a) @
      field_if ''size'' json_nat (at_size a))"

definition voice_json :: "voice_attachment \<Rightarrow> json" where
  "voice_json v = JObj
     ([(lit ''permanent_url'', JStr (u_text (vo_url v)))] @
      field_if ''name'' JStr (vo_name v) @
      field_if ''content_type'' JStr (vo_content_type v) @
      field_if ''size'' json_nat (vo_size v) @
      [(lit ''duration_milliseconds'', json_opt json_nat (vo_duration v))])"

definition gif_json :: "gif \<Rightarrow> json" where
  "gif_json g = JObj
     ([(lit ''provider_id'', JStr (gif_provider_id g)), (lit ''url'', JStr (u_text (gif_url g)))] @
      field_if ''preview_url'' (\<lambda>u. JStr (u_text u)) (gif_preview_url g) @
      field_if ''title'' JStr (gif_title g))"

definition content_json ::
  "uuid_lib \<Rightarrow> str option \<Rightarrow> attachment list \<Rightarrow> voice_attachment option \<Rightarrow> str option \<Rightarrow>
   gif option \<Rightarrow> json_map \<Rightarrow> uuid option \<Rightarrow> json" where
  "content_json U text attachments voice transcript gif metadata reply = JObj
     ([(lit ''text'', json_opt JStr text),
       (lit ''attachments'', JArr (map attachment_json attachments)),
       (lit ''voice'', json_opt voice_json voice)] @
      field_if ''voice_transcript'' JStr transcript @
      [(lit ''gif'', json_opt gif_json gif)] @
      (if metadata = [] then [] else [(lit ''metadata'', JObj metadata)]) @
      field_if ''reply_to_message_id'' (\<lambda>i. JStr (uuid_show U i)) reply)"

definition legacy_voice_json :: "voice_attachment \<Rightarrow> json" where
  "legacy_voice_json v = JObj
     ([(lit ''permanent_url'', JStr (u_text (vo_url v)))] @
      field_if ''name'' JStr (vo_name v) @
      field_if ''content_type'' JStr (vo_content_type v) @
      field_if ''size'' json_nat (vo_size v))"

definition legacy_content_json ::
  "str option \<Rightarrow> attachment list \<Rightarrow> voice_attachment option \<Rightarrow> gif option \<Rightarrow> json" where
  "legacy_content_json text attachments voice gif = JObj
     [(lit ''text'', json_opt JStr text),
      (lit ''attachments'', JArr (map attachment_json attachments)),
      (lit ''voice'', json_opt legacy_voice_json voice),
      (lit ''gif'', json_opt gif_json gif)]"

text \<open>The serializer and BLAKE3: parameters of the digests.\<close>

record 'h digest_lib =
  to_json :: "json \<Rightarrow> nat list option"
  blake3 :: "nat list \<Rightarrow> 'h"

definition json_digest :: "'h digest_lib \<Rightarrow> json \<Rightarrow> 'h" where
  "json_digest L j =
     (case to_json L j of None \<Rightarrow> blake3 L (bytes (lit ''invalid-content'')) | Some bs \<Rightarrow> blake3 L bs)"

definition message_content_json :: "uuid_lib \<Rightarrow> message_create \<Rightarrow> json" where
  "message_content_json U m =
     content_json U (mc_text m) (mc_attachments m) (mc_voice m) (mc_voice_transcript m) (mc_gif m)
       (mc_metadata m) (mc_reply_to m)"

definition content_digest :: "'h digest_lib \<Rightarrow> uuid_lib \<Rightarrow> message_create \<Rightarrow> 'h" where
  "content_digest L U m = json_digest L (message_content_json U m)"

definition draft_content_digest :: "'h digest_lib \<Rightarrow> uuid_lib \<Rightarrow> draft_input \<Rightarrow> 'h" where
  "draft_content_digest L U d = json_digest L
     (content_json U (di_message_content d) (di_attachments d) (di_voice d) (di_voice_transcript d)
        (di_gif d) (di_metadata d) (di_reply_to d))"

definition legacy_content_digest :: "'h digest_lib \<Rightarrow> message_create \<Rightarrow> 'h" where
  "legacy_content_digest L m =
     json_digest L (legacy_content_json (mc_text m) (mc_attachments m) (mc_voice m) (mc_gif m))"

text \<open>Only an address with an ISI is routing.\<close>

definition has_isi :: "uuid_lib \<Rightarrow> str \<Rightarrow> bool" where
  "has_isi U i = (case address_parts U i of Inr (_, Some _) \<Rightarrow> True | _ \<Rightarrow> False)"

definition sender_address :: "uuid_lib \<Rightarrow> message_create \<Rightarrow> str option" where
  "sender_address U m =
     (case mc_sender_id m of Some i \<Rightarrow> if has_isi U i then Some i else None | None \<Rightarrow> None)"

definition routing_digest :: "'h digest_lib \<Rightarrow> uuid_lib \<Rightarrow> message_create \<Rightarrow> 'h option" where
  "routing_digest L U m =
     (let sender = sender_address U m in
      if sender = None \<and> mc_recipient_id m = None then None
      else Some (blake3 L
        (case to_json L (JArr [json_opt JStr sender, json_opt JStr (mc_recipient_id m)]) of
           None \<Rightarrow> [] | Some bs \<Rightarrow> bs)))"

definition idempotency_content :: "uuid_lib \<Rightarrow> message_create \<Rightarrow> json" where
  "idempotency_content U m = JObj
     ([(lit ''metadata'', JObj (mc_metadata m))] @
      field_if ''reply_to_message_id'' (\<lambda>i. JStr (uuid_show U i)) (mc_reply_to m) @
      field_if ''sender_id'' JStr (mc_sender_id m) @
      field_if ''recipient_id'' JStr (mc_recipient_id m) @
      field_if ''text'' JStr (mc_text m) @
      (if mc_attachments m = [] then [] else [(lit ''attachments'', JArr (map attachment_json (mc_attachments m)))]) @
      field_if ''voice'' voice_json (mc_voice m) @
      field_if ''voice_transcript'' JStr (mc_voice_transcript m) @
      field_if ''gif'' gif_json (mc_gif m))"

lemma nat_digits_inj: "nat_digits n = nat_digits m \<Longrightarrow> n = m"
proof (induction n arbitrary: m rule: nat_digits.induct)
  case (1 n)
  have ne: "nat_digits k \<noteq> []" for k
    by (cases "k < 10") (simp_all add: nat_digits.simps [of k])
  have long: "10 \<le> k \<Longrightarrow> nat_digits k = nat_digits (k div 10) @ [48 + k mod 10]" for k
    by (simp add: nat_digits.simps [of k])
  have short: "k < 10 \<Longrightarrow> nat_digits k = [48 + k]" for k
    by (simp add: nat_digits.simps [of k])
  consider "n < 10" "m < 10" | "n < 10" "10 \<le> m" | "10 \<le> n" "m < 10" | "10 \<le> n" "10 \<le> m"
    by linarith
  then show ?case
  proof cases
    case 4
    then have e: "nat_digits (n div 10) = nat_digits (m div 10)" "n mod 10 = m mod 10"
      using "1.prems" long [of n] long [of m] by simp_all
    have "\<not> n < 10" using 4 by simp
    from "1.IH" [OF this e(1)] e(2) show ?thesis by (metis div_mult_mod_eq)
  next
    case 1
    with "1.prems" short [of n] short [of m] show ?thesis by simp
  next
    case 2
    with "1.prems" short [of n] long [of m] ne [of "m div 10"] show ?thesis by simp
  next
    case 3
    with "1.prems" long [of n] short [of m] ne [of "n div 10"] show ?thesis by simp
  qed
qed

lemma json_nat_inj: "inj json_nat"
  by (rule injI) (simp add: json_nat_def nat_digits_inj)

lemma lit_eq_iff [simp]: "lit a = lit b \<longleftrightarrow> a = b"
  by (simp add: lit_def inj_map_eq_map inj_of_char)

lemma json_nat_eq [simp]: "json_nat n = json_nat m \<longleftrightarrow> n = m"
  using json_nat_inj by (auto dest: injD)

lemma json_opt_eq:
  assumes "json_opt f x = json_opt f y" and "\<And>v. f v \<noteq> JNull"
    and "\<And>v w. x = Some v \<Longrightarrow> y = Some w \<Longrightarrow> f v = f w \<Longrightarrow> v = w"
  shows "x = y"
proof (cases x; cases y)
  fix v w assume "x = Some v" "y = Some w"
  with assms show ?thesis by (simp add: json_opt_def)
qed (use assms(1,2) in \<open>simp_all add: json_opt_def, metis\<close>)

text \<open>Reading a field back out of a serialized object.\<close>

definition json_field :: "json \<Rightarrow> string \<Rightarrow> json option" where
  "json_field j k = (case j of JObj fs \<Rightarrow> map_of fs (lit k) | _ \<Rightarrow> None)"

lemma map_of_field_if [simp]:
  "map_of (field_if k f x) (lit k') = (if k = k' then map_option f x else None)"
  by (auto simp: field_if_def split: option.splits)

lemma map_option_injD:
  assumes "map_option f x = map_option f y"
    and "\<And>v w. x = Some v \<Longrightarrow> y = Some w \<Longrightarrow> f v = f w \<Longrightarrow> v = w"
  shows "x = y"
proof (cases x)
  case None
  with assms(1) show ?thesis by simp
next
  case (Some v)
  with assms(1) obtain w where w: "y = Some w" "f v = f w" by (cases y) auto
  with assms(2) [OF Some w] Some show ?thesis by simp
qed

lemma attachment_json_fields:
  "json_field (attachment_json a) ''permanent_url'' = Some (JStr (u_text (at_url a)))"
  "json_field (attachment_json a) ''name'' = map_option JStr (at_name a)"
  "json_field (attachment_json a) ''content_type'' = map_option JStr (at_content_type a)"
  "json_field (attachment_json a) ''size'' = map_option json_nat (at_size a)"
  by (simp_all add: json_field_def attachment_json_def map_add_def split: option.splits)

lemma voice_json_fields:
  "json_field (voice_json a) ''permanent_url'' = Some (JStr (u_text (vo_url a)))"
  "json_field (voice_json a) ''name'' = map_option JStr (vo_name a)"
  "json_field (voice_json a) ''content_type'' = map_option JStr (vo_content_type a)"
  "json_field (voice_json a) ''size'' = map_option json_nat (vo_size a)"
  "json_field (voice_json a) ''duration_milliseconds'' = Some (json_opt json_nat (vo_duration a))"
  by (simp_all add: json_field_def voice_json_def map_add_def split: option.splits)

lemma gif_json_fields:
  "json_field (gif_json g) ''provider_id'' = Some (JStr (gif_provider_id g))"
  "json_field (gif_json g) ''url'' = Some (JStr (u_text (gif_url g)))"
  "json_field (gif_json g) ''preview_url'' = map_option (\<lambda>u. JStr (u_text u)) (gif_preview_url g)"
  "json_field (gif_json g) ''title'' = map_option JStr (gif_title g)"
  by (simp_all add: json_field_def gif_json_def map_add_def split: option.splits)

lemma content_json_fields:
  "json_field (content_json U t as v tr g md r) ''text'' = Some (json_opt JStr t)"
  "json_field (content_json U t as v tr g md r) ''attachments'' = Some (JArr (map attachment_json as))"
  "json_field (content_json U t as v tr g md r) ''voice'' = Some (json_opt voice_json v)"
  "json_field (content_json U t as v tr g md r) ''voice_transcript'' = map_option JStr tr"
  "json_field (content_json U t as v tr g md r) ''gif'' = Some (json_opt gif_json g)"
  "json_field (content_json U t as v tr g md r) ''metadata'' = (if md = [] then None else Some (JObj md))"
  "json_field (content_json U t as v tr g md r) ''reply_to_message_id'' = map_option (\<lambda>i. JStr (uuid_show U i)) r"
  by (simp_all add: json_field_def content_json_def map_add_def split: option.splits)

lemma attachment_json_inj:
  assumes "attachment_json a = attachment_json b" and "u_text (at_url a) = u_text (at_url b) \<Longrightarrow> at_url a = at_url b"
  shows "a = b"
proof -
  have e: "json_field (attachment_json a) k = json_field (attachment_json b) k" for k
    using assms(1) by simp
  have "at_name a = at_name b" using e [of "''name''"] unfolding attachment_json_fields
    by (rule map_option_injD) simp
  moreover have "at_content_type a = at_content_type b" using e [of "''content_type''"]
    unfolding attachment_json_fields by (rule map_option_injD) simp
  moreover have "at_size a = at_size b" using e [of "''size''"]
    unfolding attachment_json_fields by (rule map_option_injD) simp
  moreover have "at_url a = at_url b" using e [of "''permanent_url''"] assms(2)
    unfolding attachment_json_fields by simp
  ultimately show ?thesis by simp
qed

lemma voice_json_inj:
  assumes "voice_json a = voice_json b" and "u_text (vo_url a) = u_text (vo_url b) \<Longrightarrow> vo_url a = vo_url b"
  shows "a = b"
proof -
  have e: "json_field (voice_json a) k = json_field (voice_json b) k" for k
    using assms(1) by simp
  have "vo_name a = vo_name b" using e [of "''name''"] unfolding voice_json_fields
    by (rule map_option_injD) simp
  moreover have "vo_content_type a = vo_content_type b" using e [of "''content_type''"]
    unfolding voice_json_fields by (rule map_option_injD) simp
  moreover have "vo_size a = vo_size b" using e [of "''size''"]
    unfolding voice_json_fields by (rule map_option_injD) simp
  moreover have "vo_url a = vo_url b" using e [of "''permanent_url''"] assms(2)
    unfolding voice_json_fields by simp
  moreover have "json_opt json_nat (vo_duration a) = json_opt json_nat (vo_duration b)"
    using e [of "''duration_milliseconds''"] unfolding voice_json_fields by simp
  then have "vo_duration a = vo_duration b"
    by (rule json_opt_eq) (simp_all, simp add: json_nat_def)
  ultimately show ?thesis by simp
qed

lemma gif_json_inj:
  assumes "gif_json a = gif_json b" and "u_text (gif_url a) = u_text (gif_url b) \<Longrightarrow> gif_url a = gif_url b"
    and "\<And>u v. gif_preview_url a = Some u \<Longrightarrow> gif_preview_url b = Some v \<Longrightarrow> u_text u = u_text v \<Longrightarrow> u = v"
  shows "a = b"
proof -
  have e: "json_field (gif_json a) k = json_field (gif_json b) k" for k
    using assms(1) by simp
  have "gif_title a = gif_title b" using e [of "''title''"] unfolding gif_json_fields
    by (rule map_option_injD) simp
  moreover have "gif_preview_url a = gif_preview_url b" using e [of "''preview_url''"]
    unfolding gif_json_fields by (rule map_option_injD) (simp add: assms(3))
  moreover have "gif_url a = gif_url b" using e [of "''url''"] assms(2)
    unfolding gif_json_fields by simp
  moreover have "gif_provider_id a = gif_provider_id b" using e [of "''provider_id''"]
    unfolding gif_json_fields by simp
  ultimately show ?thesis by simp
qed

definition content_urls :: "attachment list \<Rightarrow> voice_attachment option \<Rightarrow> gif option \<Rightarrow> url set" where
  "content_urls attachments voice gif =
     at_url ` set attachments \<union> vo_url ` set_option voice \<union>
     (\<Union>g\<in>set_option gif. insert (gif_url g) (set_option (gif_preview_url g)))"

lemma map_attachment_json_inj:
  assumes "map attachment_json as = map attachment_json bs"
    and "inj_on u_text (at_url ` set as \<union> at_url ` set bs)"
  shows "as = bs"
  using assms
proof (induction as arbitrary: bs)
  case (Cons a as)
  then obtain b bs' where bs: "bs = b # bs'" "attachment_json a = attachment_json b"
    by (cases bs) auto
  have "a = b" using bs(2)
    by (rule attachment_json_inj) (auto intro: inj_onD [OF Cons.prems(2)] simp: bs(1))
  moreover have "inj_on u_text (at_url ` set as \<union> at_url ` set bs')"
    by (rule inj_on_subset [OF Cons.prems(2)]) (auto simp: bs)
  ultimately show ?case using Cons bs by auto
qed simp

lemma content_json_inj:
  assumes eq: "content_json U t as v tr g md r = content_json U t' as' v' tr' g' md' r'"
    and urls: "inj_on u_text (content_urls as v g \<union> content_urls as' v' g')" and uuids: "inj (uuid_show U)"
  shows "t = t' \<and> as = as' \<and> v = v' \<and> tr = tr' \<and> g = g' \<and> md = md' \<and> r = r'"
proof -
  let ?c = "content_json U t as v tr g md r" and ?c' = "content_json U t' as' v' tr' g' md' r'"
  have e: "json_field ?c k = json_field ?c' k" for k using eq by simp
  have "t = t'" using e [of "''text''"] unfolding content_json_fields
    by (intro json_opt_eq [of JStr]) simp_all
  moreover have "as = as'" using e [of "''attachments''"] unfolding content_json_fields
    by (intro map_attachment_json_inj) (simp_all, rule inj_on_subset [OF urls], auto simp: content_urls_def)
  moreover have "v = v'"
  proof (rule json_opt_eq [of voice_json])
    fix a b assume "v = Some a" "v' = Some b" "voice_json a = voice_json b"
    then show "a = b"
      by (intro voice_json_inj) (auto intro: inj_onD [OF urls] simp: content_urls_def)
  qed (use e [of "''voice''"] in \<open>simp_all add: content_json_fields, simp add: voice_json_def\<close>)
  moreover have "tr = tr'" using e [of "''voice_transcript''"] unfolding content_json_fields
    by (rule map_option_injD) simp
  moreover have "g = g'"
  proof (rule json_opt_eq [of gif_json])
    fix a b assume "g = Some a" "g' = Some b" "gif_json a = gif_json b"
    then show "a = b"
      by (intro gif_json_inj) (auto intro: inj_onD [OF urls] simp: content_urls_def)
  qed (use e [of "''gif''"] in \<open>simp_all add: content_json_fields, simp add: gif_json_def\<close>)
  moreover have "md = md'" using e [of "''metadata''"] unfolding content_json_fields
    by (simp split: if_splits)
  moreover have "r = r'" using e [of "''reply_to_message_id''"] unfolding content_json_fields
    by (rule map_option_injD) (simp add: inj_eq [OF uuids])
  ultimately show ?thesis by simp
qed

lemma legacy_content_json_eq:
  "content_json U t as None None g [] None = legacy_content_json t as None g"
  by (simp add: content_json_def legacy_content_json_def field_if_def json_opt_def)

text \<open>What an accepted attachment may contain.\<close>

definition sound_attachment :: "url \<Rightarrow> str option \<Rightarrow> str option \<Rightarrow> nat option \<Rightarrow> bool" where
  "sound_attachment u name content_type sz \<longleftrightarrow>
     u_scheme u = ''https'' \<and> u_host u \<noteq> None \<and> u_username u = [] \<and> u_password u = None \<and>
     str_len (u_text u) \<le> 8192 \<and> (\<forall>s\<in>set_option sz. s \<le> max_attachment_bytes) \<and>
     (\<forall>n\<in>set_option name. n \<noteq> [] \<and> length n \<le> 1024) \<and>
     (\<forall>t\<in>set_option content_type. t \<noteq> [] \<and> str_len t \<le> 255)"

lemma validate_attachment_metadata_ok [simp]:
  "validate_attachment_metadata u name content_type sz = Inr x \<longleftrightarrow> sound_attachment u name content_type sz"
proof -
  have sz: "\<not> is_some_and (\<lambda>s. s > max_attachment_bytes) sz \<longleftrightarrow> (\<forall>s\<in>set_option sz. s \<le> max_attachment_bytes)"
    by (cases sz) auto
  have name: "\<not> is_some_and (\<lambda>n. n = [] \<or> length n > 1024) name \<longleftrightarrow> (\<forall>n\<in>set_option name. n \<noteq> [] \<and> length n \<le> 1024)"
    by (cases name) auto
  have ct: "\<not> is_some_and (\<lambda>v. v = [] \<or> str_len v > 255) content_type \<longleftrightarrow>
      (\<forall>t\<in>set_option content_type. t \<noteq> [] \<and> str_len t \<le> 255)"
    by (cases content_type) auto
  show ?thesis
    unfolding validate_attachment_metadata_def sound_attachment_def sz [symmetric] name [symmetric] ct [symmetric]
    by (auto simp: not_less)
qed

lemma validate_attachments_ok [simp]:
  "validate_attachments as v = Inr x \<longleftrightarrow>
     length as + (if v = None then 0 else 1) \<le> 100 \<and>
     (\<forall>a\<in>set as. sound_attachment (at_url a) (at_name a) (at_content_type a) (at_size a)) \<and>
     (\<forall>w\<in>set_option v. sound_attachment (vo_url w) (vo_name w) (vo_content_type w) (vo_size w) \<and>
        (\<exists>d. vo_duration w = Some d \<and> 1 \<le> d \<and> d \<le> max_voice_duration))"
  by (cases v; cases "vo_duration (the v)")
    (auto simp: validate_attachments_def max_attachments_def)

text \<open>A message of text alone.\<close>

abbreviation text_message :: "str \<Rightarrow> message_create" where
  "text_message t \<equiv> \<lparr>mc_metadata = [], mc_reply_to = None, mc_sender_id = None, mc_recipient_id = None,
     mc_text = Some t, mc_attachments = [], mc_voice = None, mc_voice_transcript = None, mc_gif = None\<rparr>"

section \<open>Properties\<close>



text \<open>The JSON hashed for a message identifies its content: when two messages have the same
  canonical JSON they agree on text, attachments, voice, transcript, GIF, metadata and reply
  target. URLs are compared by their text, as the URL type does, and distinct UUIDs print
  differently.\<close>

theorem content_digest_input_injective:
  assumes "message_content_json U m = message_content_json U m'"
    and "inj_on u_text (content_urls (mc_attachments m) (mc_voice m) (mc_gif m) \<union>
                        content_urls (mc_attachments m') (mc_voice m') (mc_gif m'))"
    and "inj (uuid_show U)"
  shows "mc_text m = mc_text m' \<and> mc_attachments m = mc_attachments m' \<and> mc_voice m = mc_voice m' \<and>
    mc_voice_transcript m = mc_voice_transcript m' \<and> mc_gif m = mc_gif m' \<and>
    mc_metadata m = mc_metadata m' \<and> mc_reply_to m = mc_reply_to m'"
  using content_json_inj [OF assms(1) [unfolded message_content_json_def] assms(2,3)] by simp

theorem content_digest_input_injective_witness:
  "mc_text (text_message (lit ''hi'')) = mc_text (text_message (lit ''hi'')\<lparr>mc_sender_id := Some (lit ''c:ann'')\<rparr>)"
proof -
  have "inj (\<lambda>u. replicate u (97::nat))" by (rule injI) (metis length_replicate)
  then show ?thesis
    using content_digest_input_injective [of "\<lparr>uuid_parse = \<lambda>_. None, uuid_show = \<lambda>u. replicate u 97\<rparr>"
        "text_message (lit ''hi'')" "text_message (lit ''hi'')\<lparr>mc_sender_id := Some (lit ''c:ann'')\<rparr>"]
    by (simp add: message_content_json_def content_urls_def)
qed

text \<open>Accepted group settings are normalized and stay accepted: the stored name is trimmed,
  of 1 to 120 characters without control characters, and validating it again changes nothing.\<close>

theorem group_settings_normal:
  assumes "group_settings_validate s = Inr t"
  shows "group_settings_validate t = Inr t \<and> gs_name t = trim (gs_name s) \<and> gs_description t = gs_description s \<and>
    1 \<le> length (gs_name t) \<and> length (gs_name t) \<le> 120 \<and> length (gs_description t) \<le> 4000 \<and>
    (\<forall>c\<in>set (gs_name t). \<not> is_control c)"
proof -
  have t: "t = s\<lparr>gs_name := trim (gs_name s)\<rparr>"
    and ok: "trim (gs_name s) \<noteq> []" "length (trim (gs_name s)) \<le> 120" "\<not> list_ex is_control (trim (gs_name s))"
      "length (gs_description s) \<le> 4000" "0 \<notin> set (gs_description s)"
    using assms by (auto simp: group_settings_validate_def Let_def split: if_splits)
  have "1 \<le> length (trim (gs_name s))" using ok(1) by (simp add: Suc_le_eq)
  with ok show ?thesis
    by (auto simp: t group_settings_validate_def Let_def list_ex_iff)
qed

theorem group_settings_normal_witness:
  "group_settings_validate \<lparr>gs_name = lit ''ops'', gs_description = []\<rparr> = Inr \<lparr>gs_name = lit ''ops'', gs_description = []\<rparr>"
  using group_settings_normal [of "\<lparr>gs_name = lit '' ops'', gs_description = []\<rparr>" "\<lparr>gs_name = lit ''ops'', gs_description = []\<rparr>"]
  by (simp add: group_settings_validate_def Let_def str_simps)

end
