(* ===== verification/Store.thy ===== *)
theory Store
  imports Content
begin

text \<open>
  The durable state of the service and the parts every handler shares
  (\<open>src/infrastructure/postgres\<close>): the tables as row lists, the directory snapshots of
  \<open>directory.rs\<close>, the two views that decide who takes part in a conversation, and the
  transaction-scoped idempotency of \<open>idempotency.rs\<close>. A handler is a function of the
  database and of the instant \<open>now\<close> it runs at; an error result leaves the database as
  it was, which is the roll-back of the transaction.
\<close>

section \<open>Rows\<close>

text \<open>An instant counts nanoseconds, the resolution of \<open>OffsetDateTime\<close>.\<close>

type_synonym instant = int

definition second :: int where "second = 10 ^ 9"

record account_row =
  a_uuid :: str
  a_kind :: actor_type
  a_id :: "str option"
  a_name :: "str option"
  a_pfp :: "str option"
  a_custodian :: "str option"
  a_deleted :: bool
  a_profile_version :: int
  a_id_changed_at :: "instant option"
  a_custodian_changed_at :: "instant option"
  a_revoked_before :: "instant option"
  a_authenticated_at :: "instant option"
  a_refreshed_at :: instant
  a_deleted_at :: "instant option"

record allowance_row =
  al_silicon :: str
  al_allowed :: actor_ref
  al_added_by :: str
  al_added_at :: instant

record organization_row =
  og_partition :: str
  og_refreshed_at :: instant

record snapshot_row =
  sn_partition :: str
  sn_actor :: actor_ref
  sn_refreshed_at :: instant

datatype idem_status = InProgress | Completed

record idem_row =
  id_partition :: str
  id_actor :: actor_ref
  id_operation :: string
  id_key :: str
  id_hash :: "nat list"
  id_status :: idem_status
  id_lease_owner :: "uuid option"
  id_lease_expires :: "instant option"
  id_expires :: instant
  id_resource_type :: "string option"
  id_resource :: "uuid option"
  id_response :: "nat option"

record conversation_row =
  c_id :: uuid
  c_partition :: str
  c_set_hash :: "nat list"
  c_creator :: actor_ref
  c_is_group :: bool
  c_superseded_by :: "uuid option"
  c_next_sequence :: int
  c_next_bundle :: int
  c_created_at :: instant
  c_updated_at :: instant

record participant_row =
  p_conversation :: uuid
  p_partition :: str
  p_actor :: actor_ref
  p_added_at :: instant

record group_row =
  g_conversation :: uuid
  g_partition :: str
  g_name :: str
  g_description :: str
  g_version :: int
  g_public_id :: str

record owner_row =
  o_conversation :: uuid
  o_actor :: actor_ref
  o_added_at :: instant
  o_added_by :: "str option"

datatype invitation_status = Pending | Accepted

record invitation_row =
  i_conversation :: uuid
  i_partition :: str
  i_actor :: actor_ref
  i_status :: invitation_status
  i_invited_by :: "actor_ref option"
  i_invited_at :: "instant option"
  i_accepted_at :: "instant option"

datatype message_status = Waiting | Sent | Delivered | Read | Failed

datatype receipt_status = ReceiptDelivered | ReceiptRead

record message_row =
  m_id :: uuid
  m_conversation :: uuid
  m_partition :: str
  m_sender :: actor_ref
  m_sequence :: int
  m_status :: message_status
  m_text :: "str option"
  m_transcript :: "str option"
  m_hash :: "nat list"
  m_metadata :: json_map
  m_reply_to :: "uuid option"
  m_sender_address :: "str option"
  m_recipient_address :: "str option"
  m_via_app :: "str option"
  m_created_at :: instant
  m_delivered_at :: "instant option"
  m_read_at :: "instant option"
  m_failure_reason :: "str option"

text \<open>\<open>message_history\<close>: the content an edit left behind, oldest first; no content stands for the
  immutable original.\<close>

record history_row =
  h_message :: uuid
  h_content :: "message_create option"
  h_history :: "(message_create option \<times> instant) list"
  h_updated_at :: "instant option"
  h_deleted_at :: "instant option"

datatype attachment_kind = AttachmentKind | VoiceKind

record attachment_row =
  ma_message :: uuid
  ma_position :: int
  ma_kind :: attachment_kind
  ma_url :: str
  ma_name :: "str option"
  ma_content_type :: "str option"
  ma_size :: "int option"
  ma_duration :: "int option"

record gif_row =
  mg_message :: uuid
  mg_gif :: gif

datatype bundle_role = Display | Member

record bundle_row =
  b_id :: uuid
  b_conversation :: uuid
  b_partition :: str
  b_creator :: actor_ref
  b_sequence :: int
  b_created_at :: instant

record bundle_item_row =
  bi_bundle :: uuid
  bi_message :: uuid
  bi_role :: bundle_role
  bi_position :: int

record receipt_row =
  r_id :: uuid
  r_message :: uuid
  r_conversation :: uuid
  r_partition :: str
  r_recipient :: actor_ref
  r_device :: str
  r_status :: receipt_status
  r_delivered_at :: instant
  r_read_at :: "instant option"

datatype delivery_kind =
    MessageDelivery int
  | StatusDelivery message_status uuid
  | SystemDelivery uuid

text \<open>\<open>d_retain_until\<close> is set with the acknowledgement of a delivery, which only the retired socket
  protocol gave; a new delivery has none.\<close>

record delivery_row =
  d_id :: uuid
  d_partition :: str
  d_target :: actor_ref
  d_sequence :: int
  d_kind :: delivery_kind
  d_conversation :: uuid
  d_message :: uuid
  d_retain_until :: "instant option"

record stream_row =
  s_actor :: actor_ref
  s_next :: int
  s_floor :: int

record recent_gif_row =
  rg_partition :: str
  rg_carbon :: str
  rg_gif :: gif
  rg_message :: uuid
  rg_used_at :: instant

record draft_row =
  dr_conversation :: uuid
  dr_partition :: str
  dr_actor :: actor_ref
  dr_version :: int
  dr_text :: "str option"
  dr_transcript :: "str option"
  dr_hash_version :: nat
  dr_hash :: "nat list"
  dr_metadata :: json_map
  dr_reply_to :: "uuid option"
  dr_updated_at :: instant

record draft_attachment_row =
  da_conversation :: uuid
  da_actor :: actor_ref
  da_position :: int
  da_kind :: attachment_kind
  da_url :: str
  da_name :: "str option"
  da_content_type :: "str option"
  da_size :: "int option"
  da_duration :: "int option"

record draft_gif_row =
  dg_conversation :: uuid
  dg_actor :: actor_ref
  dg_gif :: gif

record draft_counter_row =
  dc_conversation :: uuid
  dc_actor :: actor_ref
  dc_version :: int

record webhook_receipt_row =
  wr_event :: str
  wr_type :: str
  wr_account :: "str option"
  wr_outcome :: string

text \<open>What a device reports beside being online (\<open>domain/presence.rs\<close>).\<close>

datatype presence_activity = Typing | RecordingVoice | TranscribingVoice | UploadingFile | SearchingGifs

record lease_row =
  le_partition :: str
  le_actor :: actor_ref
  le_device :: str
  le_heartbeat :: instant
  le_expires :: instant
  le_activity :: "(presence_activity \<times> instant) option"
  le_disconnected :: "instant option"
  le_last_seen :: "instant option"

record presence_state_row =
  ps_partition :: str
  ps_actor :: actor_ref
  ps_last_seen :: "instant option"

record session_row =
  se_partition :: str
  se_actor :: actor_ref
  se_expires :: instant
  se_disconnected :: "instant option"

record ting_grant_row =
  tg_app :: str
  tg_actor :: actor_ref
  tg_purpose :: str
  tg_proof :: str
  tg_nonce :: "nat list"
  tg_ciphertext :: "nat list"
  tg_refresh_expires :: "instant option"

record ting_enrollment_row =
  te_app :: str
  te_generation :: int
  te_partition :: str
  te_actor :: actor_ref
  te_subscription :: "str option"
  te_enrolled_at :: "instant option"
  te_attempted_at :: instant
  te_last_error :: "str option"

text \<open>The lease and the acceptance of a handoff are each stored completely or not at all, by a
  \<open>CHECK\<close> of the table.\<close>

record ting_lease =
  tl_id :: uuid
  tl_owner :: str
  tl_expires :: instant

record ting_acceptance =
  ta_at :: instant
  ta_ting_id :: str
  ta_created_at :: instant
  ta_silent :: bool

record ting_handoff_row =
  th_delivery :: uuid
  th_partition :: str
  th_target :: actor_ref
  th_conversation :: uuid
  th_public_conversation :: str
  th_message_sequence :: int
  th_delivery_sequence :: int
  th_event :: string
  th_routing :: "str option"
  th_created_at :: instant
  th_originator :: "actor_ref option"
  th_request_body :: "str option"
  th_attempts :: int
  th_next_attempt :: instant
  th_last_error :: "str option"
  th_lease :: "ting_lease option"
  th_accepted :: "ting_acceptance option"
  th_discarded_at :: "instant option"
  th_discard_reason :: "str option"

record db =
  accounts :: "account_row list"
  uuid128_map :: "str list"
  allowances :: "allowance_row list"
  organizations :: "organization_row list"
  snapshots :: "snapshot_row list"
  idempotency :: "idem_row list"
  conversations :: "conversation_row list"
  participants :: "participant_row list"
  groups :: "group_row list"
  owners :: "owner_row list"
  invitations :: "invitation_row list"
  messages :: "message_row list"
  attachments :: "attachment_row list"
  gifs :: "gif_row list"
  bundles :: "bundle_row list"
  bundle_items :: "bundle_item_row list"
  histories :: "history_row list"
  identity_links :: "(str \<times> str) list"
  receipts :: "receipt_row list"
  deliveries :: "delivery_row list"
  streams :: "stream_row list"
  recent_gifs :: "recent_gif_row list"
  drafts :: "draft_row list"
  draft_attachments :: "draft_attachment_row list"
  draft_gifs :: "draft_gif_row list"
  draft_counters :: "draft_counter_row list"
  webhook_receipts :: "webhook_receipt_row list"
  presence_leases :: "lease_row list"
  presence_states :: "presence_state_row list"
  realtime_sessions :: "session_row list"
  ting_grants :: "ting_grant_row list"
  ting_enrollments :: "ting_enrollment_row list"
  ting_handoffs :: "ting_handoff_row list"
  notified :: "str list"

definition empty_db :: db where
  "empty_db = \<lparr>accounts = [], uuid128_map = [], allowances = [], organizations = [], snapshots = [], idempotency = [], conversations = [],
     participants = [], groups = [], owners = [], invitations = [], messages = [], attachments = [],
     gifs = [], bundles = [], bundle_items = [], histories = [], identity_links = [], receipts = [], deliveries = [], streams = [], recent_gifs = [],
     drafts = [], draft_attachments = [], draft_gifs = [], draft_counters = [], webhook_receipts = [],
     presence_leases = [], presence_states = [], realtime_sessions = [], ting_grants = [], ting_enrollments = [],
     ting_handoffs = [], notified = []\<rparr>"

definition accounts_partition :: str where
  "accounts_partition = lit ''@accounts''"

section \<open>The directory\<close>

definition snapshot_key :: "snapshot_row \<Rightarrow> str \<times> actor_ref" where
  "snapshot_key r = (sn_partition r, sn_actor r)"

definition refresh_one :: "instant \<Rightarrow> str \<Rightarrow> actor_ref \<Rightarrow> snapshot_row list \<Rightarrow> snapshot_row list" where
  "refresh_one now part a =
     upsert snapshot_key \<lparr>sn_partition = part, sn_actor = a, sn_refreshed_at = now\<rparr>
       (\<lambda>r. r\<lparr>sn_refreshed_at := max (sn_refreshed_at r) now\<rparr>)"

definition refresh_directory_in :: "instant \<Rightarrow> str \<Rightarrow> actor_ref list \<Rightarrow> db \<Rightarrow> db" where
  "refresh_directory_in now part actors s =
     s\<lparr>organizations := upsert og_partition \<lparr>og_partition = part, og_refreshed_at = now\<rparr>
         (\<lambda>r. r\<lparr>og_refreshed_at := max (og_refreshed_at r) now\<rparr>) (organizations s),
       snapshots := fold (refresh_one now part) actors (snapshots s)\<rparr>"

section \<open>Membership views\<close>

definition account_deleted_in :: "db \<Rightarrow> str \<Rightarrow> bool" where
  "account_deleted_in s uuid = sql_exists (\<lambda>a. a_uuid a = uuid \<and> a_deleted a) (accounts s)"

text \<open>\<open>eligible_group_members\<close>: accepted invitations of accounts that still exist.\<close>

definition eligible_group_members :: "db \<Rightarrow> invitation_row list" where
  "eligible_group_members s =
     filter (\<lambda>i. i_status i = Accepted \<and> \<not> account_deleted_in s (ar_id (i_actor i))) (invitations s)"

definition is_eligible :: "db \<Rightarrow> uuid \<Rightarrow> actor_ref \<Rightarrow> bool" where
  "is_eligible s conversation a =
     sql_exists (\<lambda>i. i_conversation i = conversation \<and> i_actor i = a) (eligible_group_members s)"

text \<open>\<open>effective_conversation_participants\<close>: the roster of a direct conversation, the eligible
  members of a group, and never a deleted account.\<close>

definition effective_conversation_participants :: "db \<Rightarrow> participant_row list" where
  "effective_conversation_participants s =
     filter (\<lambda>p.
         sql_exists (\<lambda>c. c_id c = p_conversation p \<and> c_partition c = p_partition p \<and>
             (\<not> c_is_group c \<or>
              sql_exists (\<lambda>e. i_conversation e = p_conversation p \<and> i_partition e = p_partition p \<and>
                  i_actor e = p_actor p) (eligible_group_members s))) (conversations s) \<and>
         \<not> account_deleted_in s (ar_id (p_actor p)))
       (participants s)"

definition is_participant :: "db \<Rightarrow> uuid \<Rightarrow> actor_ref \<Rightarrow> bool" where
  "is_participant s conversation a =
     sql_exists (\<lambda>p. p_conversation p = conversation \<and> p_actor p = a)
       (effective_conversation_participants s)"

text \<open>\<open>require_participant\<close> and \<open>require_participant_in\<close>: the storage partition of a
  conversation the account takes part in; otherwise its existence is not disclosed.\<close>

definition require_participant :: "db \<Rightarrow> actor_ref \<Rightarrow> uuid \<Rightarrow> str app_result" where
  "require_participant s a conversation =
     (case find (\<lambda>p. p_conversation p = conversation \<and> p_actor p = a)
             (effective_conversation_participants s) of
        None \<Rightarrow> Inl NotFound
      | Some p \<Rightarrow> Inr (p_partition p))"

section \<open>Idempotency\<close>

type_synonym idem_key = "str \<times> actor_ref \<times> string \<times> str"

definition idem_key_of :: "idem_row \<Rightarrow> idem_key" where
  "idem_key_of r = (id_partition r, id_actor r, id_operation r, id_key r)"

datatype idempotency_claim = Acquired | Replay uuid

definition two_minutes :: int where "two_minutes = 2 * 60 * second"
definition thirty_days :: int where "thirty_days = 30 * 24 * 60 * 60 * second"

definition claim_row :: "instant \<Rightarrow> uuid \<Rightarrow> idem_key \<Rightarrow> nat list \<Rightarrow> idem_row" where
  "claim_row now lease k h =
     (case k of (part, a, operation, key) \<Rightarrow>
        \<lparr>id_partition = part, id_actor = a, id_operation = operation, id_key = key, id_hash = h,
         id_status = InProgress, id_lease_owner = Some lease, id_lease_expires = Some (now + two_minutes),
         id_expires = now + thirty_days, id_resource_type = None, id_resource = None, id_response = None\<rparr>)"

definition claim ::
  "instant \<Rightarrow> uuid \<Rightarrow> idem_key \<Rightarrow> nat list \<Rightarrow> idem_row list \<Rightarrow> (idempotency_claim \<times> idem_row list) app_result" where
  "claim now lease k h t =
     (case find (\<lambda>r. idem_key_of r = k) t of
        None \<Rightarrow> Inr (Acquired, insert_or_ignore idem_key_of (claim_row now lease k h) t)
      | Some existing \<Rightarrow>
          if id_hash existing \<noteq> h
          then Inl (conflict ''idempotency key was already used with different request content'')
          else (case (id_status existing, id_resource existing) of
                  (Completed, Some resource) \<Rightarrow> Inr (Replay resource, t)
                | (InProgress, _) \<Rightarrow> Inl (conflict ''idempotent request is still in progress'')
                | _ \<Rightarrow> Inl (Internal ''invalid idempotency record state'')))"

definition complete ::
  "idem_key \<Rightarrow> string \<Rightarrow> uuid \<Rightarrow> nat \<Rightarrow> idem_row list \<Rightarrow> idem_row list app_result" where
  "complete k resource_type resource response t =
     (let p = (\<lambda>r. idem_key_of r = k \<and> id_status r = InProgress) in
      if rows_affected p t \<noteq> 1
      then Inl (conflict ''idempotent request no longer owns its mutation lease'')
      else Inr (sql_update p
        (\<lambda>r. r\<lparr>id_status := Completed, id_lease_owner := None, id_lease_expires := None,
               id_resource_type := Some resource_type, id_resource := Some resource,
               id_response := Some response\<rparr>) t))"

definition claim_db ::
  "instant \<Rightarrow> uuid \<Rightarrow> idem_key \<Rightarrow> nat list \<Rightarrow> db \<Rightarrow> (idempotency_claim \<times> db) app_result" where
  "claim_db now lease k h s =
     bind_ok (claim now lease k h (idempotency s)) (\<lambda>(c, t). Inr (c, s\<lparr>idempotency := t\<rparr>))"

definition complete_db :: "idem_key \<Rightarrow> string \<Rightarrow> uuid \<Rightarrow> nat \<Rightarrow> db \<Rightarrow> db app_result" where
  "complete_db k resource_type resource response s =
     bind_ok (complete k resource_type resource response (idempotency s))
       (\<lambda>t. Inr (s\<lparr>idempotency := t\<rparr>))"

text \<open>\<open>request_hash\<close>: BLAKE3 over the serialized request.\<close>

definition request_hash :: "nat list digest_lib \<Rightarrow> json \<Rightarrow> nat list app_result" where
  "request_hash L j =
     (case to_json L j of None \<Rightarrow> Inl (Internal ''serialization failed'') | Some bs \<Rightarrow> Inr (blake3 L bs))"

text \<open>What a handler takes from its surroundings: the clock, the identifiers \<open>Uuid::now_v7\<close> returns
  to it in turn, and the libraries it calls.\<close>

record env =
  e_now :: instant
  e_lease :: uuid
  e_fresh :: "nat \<Rightarrow> uuid"
  e_uuid :: uuid_lib
  e_digest :: "nat list digest_lib"
  e_sha256 :: "nat list \<Rightarrow> nat list"

text \<open>An \<open>INSERT\<close> whose primary key is taken fails.\<close>

definition insert_row :: "('r \<Rightarrow> 'k) \<Rightarrow> 'r \<Rightarrow> 'r list \<Rightarrow> 'r list app_result" where
  "insert_row key r t =
     (if sql_exists (\<lambda>x. key x = key r) t then Inl (conflict ''resource already exists'') else Inr (t @ [r]))"

lemma insert_row_ok [simp]:
  "insert_row key r t = Inr t' \<longleftrightarrow> \<not> sql_exists (\<lambda>x. key x = key r) t \<and> t' = t @ [r]"
  by (auto simp: insert_row_def)

text \<open>The record of a finished request: the hash of its content and the resource it made.\<close>

definition settled :: "idem_row list \<Rightarrow> idem_key \<Rightarrow> (nat list \<times> uuid) option" where
  "settled t k =
     (case find (\<lambda>r. idem_key_of r = k) t of
        Some r \<Rightarrow> (case (id_status r, id_resource r) of
                     (Completed, Some resource) \<Rightarrow> Some (id_hash r, resource) | _ \<Rightarrow> None)
      | None \<Rightarrow> None)"

section \<open>The idempotency contract\<close>

text \<open>
  What a handler relies on: a first claim under a key is acquired and can be completed once,
  a completed request replays its resource without touching the log, and the same key with
  other content is refused.
\<close>

locale idempotent_log =
  fixes claim :: "'k \<Rightarrow> 'h \<Rightarrow> 's \<Rightarrow> 'e + ('c \<times> 's)"
    and complete :: "'k \<Rightarrow> 'r \<Rightarrow> 's \<Rightarrow> 'e + 's"
    and settled :: "'s \<Rightarrow> 'k \<Rightarrow> ('h \<times> 'r) option"
    and ok :: "'s \<Rightarrow> bool"
    and acquired :: 'c
    and replay :: "'r \<Rightarrow> 'c"
  assumes replays: "settled s k = Some (h, r) \<Longrightarrow> claim k h s = Inr (replay r, s)"
    and refuses: "settled s k = Some (h, r) \<Longrightarrow> h' \<noteq> h \<Longrightarrow> \<exists>e. claim k h' s = Inl e"
    and claim_ok: "ok s \<Longrightarrow> claim k h s = Inr (c, s') \<Longrightarrow> ok s'"
    and complete_ok: "ok s \<Longrightarrow> complete k r s = Inr s' \<Longrightarrow> ok s'"
    and completes: "ok s \<Longrightarrow> claim k h s = Inr (acquired, s') \<Longrightarrow> \<exists>s''. complete k r s' = Inr s''"
    and settles: "ok s \<Longrightarrow> claim k h s = Inr (acquired, s') \<Longrightarrow> complete k r s' = Inr s'' \<Longrightarrow>
      settled s'' k = Some (h, r)"
    and keeps_others: "ok s \<Longrightarrow> claim k h s = Inr (acquired, s') \<Longrightarrow> complete k r s' = Inr s'' \<Longrightarrow>
      k' \<noteq> k \<Longrightarrow> settled s'' k' = settled s k'"
begin

text \<open>A retry of a completed request replays it; other content under its key is refused.\<close>

lemma retry:
  assumes "ok s" "claim k h s = Inr (acquired, s')" "complete k r s' = Inr s''"
  shows "claim k h s'' = Inr (replay r, s'')"
  using settles [OF assms] by (rule replays)

lemma reuse_refused:
  assumes "ok s" "claim k h s = Inr (acquired, s')" "complete k r s' = Inr s''" "h' \<noteq> h"
  shows "\<exists>e. claim k h' s'' = Inl e"
  using settles [OF assms(1-3)] assms(4) by (rule refuses)

text \<open>Once settled, a key stays settled with the same content and resource.\<close>

lemma settled_stable:
  assumes "ok s" "settled s k = Some (h, r)" "claim k' h' s = Inr (acquired, s')"
    "complete k' r' s' = Inr s''" "replay r \<noteq> acquired"
  shows "settled s'' k = Some (h, r)"
proof -
  have "k' \<noteq> k"
  proof
    assume "k' = k"
    show False
    proof (cases "h' = h")
      case True
      with assms(2,3) \<open>k' = k\<close> replays show False using assms(5) by fastforce
    next
      case False
      with refuses [OF assms(2)] \<open>k' = k\<close> assms(3) show False by fastforce
    qed
  qed
  then show ?thesis using keeps_others [OF assms(1,3,4)] assms(2) by metis
qed

end

lemma claim_row_key [simp]: "idem_key_of (claim_row now lease k h) = k"
  by (cases k) (auto simp: claim_row_def idem_key_of_def)

lemma claim_row_fields [simp]:
  "id_hash (claim_row now lease k h) = h" "id_status (claim_row now lease k h) = InProgress"
  by (cases k; simp add: claim_row_def)+

lemma claim_acquired_iff:
  "claim now lease k h t = Inr (Acquired, t') \<longleftrightarrow>
     find (\<lambda>r. idem_key_of r = k) t = None \<and> t' = t @ [claim_row now lease k h]"
proof (cases "find (\<lambda>r. idem_key_of r = k) t")
  case None
  then have "\<forall>r\<in>set t. idem_key_of r \<noteq> k" by (simp add: find_None_iff)
  with None show ?thesis by (auto simp: claim_def insert_or_ignore_def sql_exists_def)
qed (auto simp: claim_def split: option.splits if_splits idem_status.splits)

lemma claim_replay_iff:
  "claim now lease k h t = Inr (Replay r, t') \<longleftrightarrow> settled t k = Some (h, r) \<and> t' = t"
  by (auto simp: claim_def settled_def split: option.splits if_splits idem_status.splits)

lemma complete_key: "idem_key_of (r\<lparr>id_status := x, id_lease_owner := y, id_lease_expires := z,
   id_resource_type := u, id_resource := v, id_response := w\<rparr>) = idem_key_of r"
  by (simp add: idem_key_of_def)

lemma complete_okD:
  assumes "complete k ty r resp t = Inr t'"
  shows "find (\<lambda>x. idem_key_of x = k') t' =
     map_option (\<lambda>x. if idem_key_of x = k \<and> id_status x = InProgress
        then x\<lparr>id_status := Completed, id_lease_owner := None, id_lease_expires := None,
               id_resource_type := Some ty, id_resource := Some r, id_response := Some resp\<rparr> else x)
       (find (\<lambda>x. idem_key_of x = k') t)"
    and "keyed idem_key_of t \<Longrightarrow> keyed idem_key_of t'"
  using assms
  by (auto simp: complete_def Let_def complete_key find_keyed_update split: if_splits
      intro!: keyed_sql_update)

interpretation idem: idempotent_log "claim now lease" "\<lambda>k r. complete k ty r resp" settled
    "keyed idem_key_of" Acquired Replay for now lease ty resp
proof
  fix t k h r
  assume "settled t k = Some (h, r)"
  then show "claim now lease k h t = Inr (Replay r, t)" by (simp add: claim_replay_iff)
next
  fix t k h r h'
  assume "settled t k = Some (h, r)" "h' \<noteq> h"
  then show "\<exists>e. claim now lease k h' t = Inl e"
    by (auto simp: settled_def claim_def split: option.splits idem_status.splits)
next
  fix t k h c t'
  assume "keyed idem_key_of t" "claim now lease k h t = Inr (c, t')"
  then show "keyed idem_key_of t'"
    by (auto simp: claim_def split: option.splits if_splits idem_status.splits)
next
  fix t k r t'
  assume "keyed idem_key_of t" "complete k ty r resp t = Inr t'"
  then show "keyed idem_key_of t'" using complete_okD(2) by blast
next
  fix t k h t' r
  assume k: "keyed idem_key_of t" and c: "claim now lease k h t = Inr (Acquired, t')"
  let ?q = "\<lambda>x. id_status x = InProgress"
  have t': "t' = t @ [claim_row now lease k h]" and "\<forall>x\<in>set t. idem_key_of x \<noteq> k"
    using c by (auto simp: claim_acquired_iff find_None_iff)
  then have "rows_affected (\<lambda>x. idem_key_of x = k \<and> ?q x) t' = 1"
    by (simp add: rows_affected_def filter_empty_conv)
  then show "\<exists>t''. complete k ty r resp t' = Inr t''"
    by (simp add: complete_def Let_def)
next
  fix t k h t' r t''
  assume k: "keyed idem_key_of t" and c: "claim now lease k h t = Inr (Acquired, t')"
    and d: "complete k ty r resp t' = Inr t''"
  have "find (\<lambda>x. idem_key_of x = k) t' = Some (claim_row now lease k h)"
    using c by (simp add: claim_acquired_iff find_append)
  then show "settled t'' k = Some (h, r)"
    unfolding settled_def complete_okD(1) [OF d] by simp
next
  fix t k h t' r t'' k'
  assume c: "claim now lease k h t = Inr (Acquired, t')"
    and d: "complete k ty r resp t' = Inr t''" and ne: "k' \<noteq> k"
  have "find (\<lambda>x. idem_key_of x = k') (t @ [claim_row now lease k h]) = find (\<lambda>x. idem_key_of x = k') t"
    using ne by (simp add: find_append split: option.splits)
  with c have "find (\<lambda>x. idem_key_of x = k') t' = find (\<lambda>x. idem_key_of x = k') t"
    by (simp add: claim_acquired_iff)
  moreover have "find (\<lambda>x. idem_key_of x = k') t'' = find (\<lambda>x. idem_key_of x = k') t'"
    unfolding complete_okD(1) [OF d] using ne
    by (cases "find (\<lambda>x. idem_key_of x = k') t'") (auto dest: find_Some_in)
  ultimately show "settled t'' k' = settled t k'" by (simp add: settled_def)
qed

section \<open>Properties\<close>

text \<open>C4. An idempotency key runs a request once: a claim that is acquired can be completed, after
  which every later claim with the same content, at any time, replays the recorded resource and
  leaves the log unchanged, and a claim of the key with different content is refused.\<close>

theorem idempotency_exactly_once:
  assumes "keyed idem_key_of t" and "claim now lease k h t = Inr (Acquired, t')"
  shows "\<exists>t''. complete k ty r resp t' = Inr t'' \<and> keyed idem_key_of t'' \<and>
    (\<forall>later lease'. claim later lease' k h t'' = Inr (Replay r, t'')) \<and>
    (\<forall>later lease' h'. h' \<noteq> h \<longrightarrow> (\<exists>e. claim later lease' k h' t'' = Inl e)) \<and>
    (\<forall>k'. k' \<noteq> k \<longrightarrow> settled t'' k' = settled t k')"
proof -
  obtain t'' where d: "complete k ty r resp t' = Inr t''"
    using idem.completes [OF assms] by blast
  note settled = idem.settles [OF assms d]
  have "keyed idem_key_of t''"
    using idem.complete_ok [OF idem.claim_ok [OF assms] d] .
  then show ?thesis
    using d idem.replays [OF settled] idem.refuses [OF settled] idem.keeps_others [OF assms d] by blast
qed

theorem idempotency_exactly_once_witness:
  "\<exists>t''. claim 9 2 (accounts_partition, actor Carbon (lit ''ann''), ''groups.create'', lit ''key-0001'') [1] t''
     = Inr (Replay 7, t'')"
  using idempotency_exactly_once [of "[]" 0 1
      "(accounts_partition, actor Carbon (lit ''ann''), ''groups.create'', lit ''key-0001'')" "[1]"
      "[claim_row 0 1 (accounts_partition, actor Carbon (lit ''ann''), ''groups.create'', lit ''key-0001'') [1]]"
      "''conversation''" 7 201]
  by (auto simp: claim_acquired_iff)

end
