(* ===== verification/Paging.thy ===== *)
theory Paging
  imports Store
begin

text \<open>
  Cursor pagination (\<open>src/domain/pagination.rs\<close>) and the byte-bounded page loop that
  \<open>list_messages\<close> and \<open>conversation_page\<close> share (\<open>postgres/rows.rs\<close>,
  \<open>postgres/messages.rs\<close>, \<open>postgres/conversations.rs\<close>). The JSON and base64 codecs are third-party
  crates and parameters of the model. The locale \<open>keyset_pager\<close> states what a client that follows
  cursors relies on, and proves that it sees every row exactly once.
\<close>

section \<open>Page requests and cursors\<close>

record page_request =
  pq_cursor :: "str option"
  pq_limit :: "nat option"

definition validated_limit :: "page_request \<Rightarrow> nat app_result" where
  "validated_limit q =
     (let limit = (case pq_limit q of None \<Rightarrow> 50 | Some l \<Rightarrow> l) in
      if \<not> (1 \<le> limit \<and> limit \<le> 100) then Inl (validation ''limit must be between 1 and 100'')
      else Inr limit)"

datatype cursor_position =
    SequencePosition int
  | ActivityPosition instant uuid

record cursor =
  cu_version :: nat
  cu_kind :: string
  cu_position :: cursor_position

definition cursor_new :: "string \<Rightarrow> int \<Rightarrow> cursor" where
  "cursor_new kind v = \<lparr>cu_version = 1, cu_kind = kind, cu_position = SequencePosition v\<rparr>"

definition cursor_activity :: "string \<Rightarrow> instant \<Rightarrow> uuid \<Rightarrow> cursor" where
  "cursor_activity kind updated_at i =
     \<lparr>cu_version = 1, cu_kind = kind, cu_position = ActivityPosition updated_at i\<rparr>"

text \<open>\<open>serde_json\<close> on cursors and the URL-safe unpadded base64 engine.\<close>

record base64_lib =
  b64_encode :: "nat list \<Rightarrow> str"
  b64_decode :: "str \<Rightarrow> nat list option"

record cursor_lib =
  cl_base64 :: base64_lib
  cursor_to_vec :: "cursor \<Rightarrow> nat list option"
  cursor_from_slice :: "nat list \<Rightarrow> cursor option"

definition cursor_encode :: "cursor_lib \<Rightarrow> cursor \<Rightarrow> str app_result" where
  "cursor_encode L c =
     (case cursor_to_vec L c of
        None \<Rightarrow> Inl (Internal ''cursor serialization failed'')
      | Some bs \<Rightarrow> Inr (b64_encode (cl_base64 L) bs))"

definition valid_position :: "cursor_position \<Rightarrow> bool" where
  "valid_position p = (case p of SequencePosition v \<Rightarrow> 0 \<le> v | ActivityPosition _ _ \<Rightarrow> True)"

definition cursor_decode :: "cursor_lib \<Rightarrow> str \<Rightarrow> string \<Rightarrow> cursor app_result" where
  "cursor_decode L encoded expected_kind =
     (case b64_decode (cl_base64 L) encoded of
        None \<Rightarrow> Inl (validation ''cursor is invalid'')
      | Some bs \<Rightarrow>
         (case cursor_from_slice L bs of
            None \<Rightarrow> Inl (validation ''cursor is invalid'')
          | Some c \<Rightarrow>
              if cu_version c \<noteq> 1 \<or> cu_kind c \<noteq> expected_kind \<or> \<not> valid_position (cu_position c)
              then Inl (validation ''cursor is invalid for this resource'')
              else Inr c))"

definition cursor_sequence :: "cursor \<Rightarrow> int option" where
  "cursor_sequence c = (case cu_position c of SequencePosition v \<Rightarrow> Some v | ActivityPosition _ _ \<Rightarrow> None)"

definition activity_position :: "cursor \<Rightarrow> (instant \<times> uuid) option" where
  "activity_position c =
     (case cu_position c of SequencePosition _ \<Rightarrow> None | ActivityPosition t i \<Rightarrow> Some (t, i))"

text \<open>What the codecs document: whatever they write they read back.\<close>

definition base64_ok :: "base64_lib \<Rightarrow> bool" where
  "base64_ok B \<longleftrightarrow> (\<forall>bs. b64_decode B (b64_encode B bs) = Some bs)"

definition cursor_lib_ok :: "cursor_lib \<Rightarrow> bool" where
  "cursor_lib_ok L \<longleftrightarrow> base64_ok (cl_base64 L) \<and>
     (\<forall>c. \<exists>bs. cursor_to_vec L c = Some bs \<and> cursor_from_slice L bs = Some c)"

lemma cursor_encode_ok:
  assumes "cursor_lib_ok L"
  obtains v where "cursor_encode L c = Inr v"
    "cursor_decode L v kind =
       (if cu_version c \<noteq> 1 \<or> cu_kind c \<noteq> kind \<or> \<not> valid_position (cu_position c)
        then Inl (validation ''cursor is invalid for this resource'') else Inr c)"
proof -
  obtain bs where "cursor_to_vec L c = Some bs" "cursor_from_slice L bs = Some c"
    "b64_decode (cl_base64 L) (b64_encode (cl_base64 L) bs) = Some bs"
    using assms by (auto simp: cursor_lib_ok_def base64_ok_def)
  then show ?thesis
    by (intro that [of "b64_encode (cl_base64 L) bs"]) (auto simp: cursor_encode_def cursor_decode_def)
qed

text \<open>Codecs for examples: the identity as base64 and a flat list of numbers as JSON.\<close>

definition sample_to_vec :: "cursor \<Rightarrow> nat list option" where
  "sample_to_vec c = Some (cu_version c #
     (case cu_position c of
        SequencePosition v \<Rightarrow> [0, if v < 0 then 1 else 0, nat \<bar>v\<bar>, 0]
      | ActivityPosition t i \<Rightarrow> [1, if t < 0 then 1 else 0, nat \<bar>t\<bar>, i]) @ map of_char (cu_kind c))"

fun sample_from_slice :: "nat list \<Rightarrow> cursor option" where
  "sample_from_slice (v # tag # sign # n # i # kind) =
     (let x = (if sign = 1 then - int n else int n) in
      Some \<lparr>cu_version = v, cu_kind = map char_of kind,
        cu_position = (if tag = 0 then SequencePosition x else ActivityPosition x i)\<rparr>)"
| "sample_from_slice _ = None"

definition sample_cursor_lib :: cursor_lib where
  "sample_cursor_lib = \<lparr>cl_base64 = \<lparr>b64_encode = id, b64_decode = Some\<rparr>,
     cursor_to_vec = sample_to_vec, cursor_from_slice = sample_from_slice\<rparr>"

lemma sample_cursor_lib_ok: "cursor_lib_ok sample_cursor_lib"
proof -
  have "sample_from_slice (the (sample_to_vec c)) = Some c" for c
    by (cases c; cases "cu_position c") (auto simp: sample_to_vec_def Let_def comp_def)
  then show ?thesis by (auto simp: cursor_lib_ok_def base64_ok_def sample_cursor_lib_def sample_to_vec_def)
qed

section \<open>The byte-bounded page\<close>

definition message_page_byte_budget :: nat where
  "message_page_byte_budget = 16 * 1024 * 1024"

text \<open>
  The loop over the rows of a page: load the payload of a row, stop before a row that would exceed
  the budget unless the page is still empty, keep it, and stop once the budget is used up.
\<close>

fun fill_page ::
  "('i \<Rightarrow> 'm app_result) \<Rightarrow> ('m \<Rightarrow> nat app_result) \<Rightarrow> ('i \<Rightarrow> 'm \<Rightarrow> 'p app_result) \<Rightarrow> 'i list \<Rightarrow> 'p list \<Rightarrow> nat \<Rightarrow>
     'p list app_result" where
  "fill_page load weigh build [] items payload = Inr items"
| "fill_page load weigh build (i # is) items payload =
     bind_ok (load i) (\<lambda>m. bind_ok (weigh m) (\<lambda>b.
       if items \<noteq> [] \<and> saturating_add payload b > message_page_byte_budget then Inr items
       else bind_ok (build i m) (\<lambda>p.
         let payload' = saturating_add payload b; items' = items @ [p] in
         if payload' \<ge> message_page_byte_budget then Inr items'
         else fill_page load weigh build is items' payload')))"

text \<open>When every row of the page loads, the page is a prefix of the rows, and not an empty one.\<close>

lemma fill_page_prefix:
  assumes "\<And>i. i \<in> set is \<Longrightarrow> \<exists>m b. load i = Inr m \<and> weigh m = Inr b \<and> build i m = Inr (f i)"
  shows "\<exists>n. fill_page load weigh build is items payload = Inr (items @ map f (take n is)) \<and>
           n \<le> length is \<and> (items \<noteq> [] \<or> is = [] \<or> 0 < n)"
  using assms
proof (induction "is" arbitrary: items payload)
  case Nil
  then show ?case by simp
next
  case (Cons i "is")
  obtain m b where i: "load i = Inr m" "weigh m = Inr b" "build i m = Inr (f i)"
    using Cons.prems [of i] by auto
  obtain n where n: "fill_page load weigh build is (items @ [f i]) (saturating_add payload b) =
      Inr ((items @ [f i]) @ map f (take n is))" "n \<le> length is"
    using Cons.IH [of "items @ [f i]" "saturating_add payload b"] Cons.prems by auto
  consider (stop) "items \<noteq> []" "saturating_add payload b > message_page_byte_budget"
    | (full) "items = [] \<or> \<not> saturating_add payload b > message_page_byte_budget"
        "saturating_add payload b \<ge> message_page_byte_budget"
    | (more) "\<not> saturating_add payload b \<ge> message_page_byte_budget"
    by linarith
  then show ?case
  proof cases
    case stop
    with i show ?thesis by (intro exI [of _ 0]) simp
  next
    case full
    with i show ?thesis by (intro exI [of _ 1]) (simp add: Let_def)
  next
    case more
    with i n show ?thesis by (intro exI [of _ "Suc n"]) (auto simp: Let_def)
  qed
qed

text \<open>A page read with one row of lookahead: it is a nonempty prefix of all the rows that were left,
  and it is shorter than what was read exactly when it is shorter than what was left.\<close>

lemma lookahead_page:
  assumes "\<And>i. i \<in> set rest \<Longrightarrow> \<exists>m b. load i = Inr m \<and> weigh m = Inr b \<and> build i m = Inr (f i)"
    and "0 < limit"
  shows "\<exists>n. fill_page load weigh build (take limit (take (limit + 1) rest)) [] 0 = Inr (map f (take n rest)) \<and>
    n \<le> length rest \<and> (rest \<noteq> [] \<longrightarrow> 0 < n) \<and>
    (length (map f (take n rest)) < length (take (limit + 1) rest) \<longleftrightarrow> n < length rest)"
proof -
  let ?is = "take limit (take (limit + 1) rest)"
  obtain n where n: "fill_page load weigh build ?is [] 0 = Inr ([] @ map f (take n ?is))" "n \<le> length ?is"
    "[] \<noteq> map f [] \<or> ?is = [] \<or> 0 < n"
    using fill_page_prefix [of ?is load weigh build f "[]" 0] assms(1) by (metis in_set_takeD list.map(1))
  have lim: "n \<le> limit" "n \<le> length rest" using n(2) by simp_all
  then have "take n ?is = take n rest" by (simp add: min_absorb1)
  moreover have "rest \<noteq> [] \<Longrightarrow> ?is \<noteq> []" using assms(2) by (cases rest) simp_all
  ultimately show ?thesis using n(1,3) lim unfolding append_Nil by (intro exI [of _ n]) (auto simp: min_def)
qed

text \<open>Every row but a single oversized first one fits the budget.\<close>

fun page_bytes :: "('m \<Rightarrow> nat) \<Rightarrow> 'm list \<Rightarrow> nat" where
  "page_bytes sz [] = 0"
| "page_bytes sz (m # ms) = sz m + page_bytes sz ms"

lemma page_bytes_append [simp]: "page_bytes sz (xs @ ys) = page_bytes sz xs + page_bytes sz ys"
  by (induction xs) auto

lemma fill_page_budget:
  assumes "fill_page load weigh (\<lambda>_. Inr) is items payload = Inr out"
    and "\<And>m b. weigh m = Inr b \<Longrightarrow> b = min usize_max (sz m)"
    and "length items \<le> 1 \<or> page_bytes sz items \<le> message_page_byte_budget"
    and "payload = min usize_max (page_bytes sz items)"
    and "payload < message_page_byte_budget"
  shows "length out \<le> 1 \<or> page_bytes sz out \<le> message_page_byte_budget"
  using assms
proof (induction "is" arbitrary: items payload)
  case Nil
  then show ?case by simp
next
  case (Cons i "is")
  have small: "message_page_byte_budget < usize_max"
    by (simp add: message_page_byte_budget_def usize_max_def)
  obtain m b where i: "load i = Inr m" "weigh m = Inr b" using Cons.prems(1) by auto
  note b = Cons.prems(2) [OF i(2)]
  have pay: "saturating_add payload b = min usize_max (page_bytes sz (items @ [m]))"
    using Cons.prems(4,5) b small by (simp add: saturating_add_def)
  show ?case
  proof (cases "items \<noteq> [] \<and> saturating_add payload b > message_page_byte_budget")
    case True
    with Cons.prems(1) i have "out = items" by simp
    with Cons.prems(3) show ?thesis by simp
  next
    case False
    have ok: "length (items @ [m]) \<le> 1 \<or> page_bytes sz (items @ [m]) \<le> message_page_byte_budget"
      using False pay small by (cases items) auto
    show ?thesis
    proof (cases "saturating_add payload b \<ge> message_page_byte_budget")
      case True
      with Cons.prems(1) i False have "out = items @ [m]" by (simp add: Let_def split: if_splits)
      with ok show ?thesis by simp
    next
      case fit: False
      with Cons.prems(1) i False
      have "fill_page load weigh (\<lambda>_. Inr) is (items @ [m]) (saturating_add payload b) = Inr out"
        by (simp add: Let_def split: if_splits)
      from Cons.IH [OF this Cons.prems(2) ok pay] fit show ?thesis by simp
    qed
  qed
qed

section \<open>Following cursors\<close>

text \<open>
  The contract of a keyset-paginated listing, for any listing \<open>x\<close> of a family: \<open>rows\<close> is the
  listing in its order, \<open>key\<close> the position of a row, \<open>mark\<close> the cursor of a position, \<open>page\<close>
  one request. A page is a nonempty prefix of the rows behind the position it was asked for, and it
  carries a next cursor, that of its last row, exactly when rows are left.
\<close>

definition behind :: "('a \<Rightarrow> 'k::linorder) \<Rightarrow> 'k option \<Rightarrow> 'a list \<Rightarrow> 'a list" where
  "behind key c rows = filter (\<lambda>x. case c of None \<Rightarrow> True | Some k \<Rightarrow> key x < k) rows"

fun follow :: "nat \<Rightarrow> ('c option \<Rightarrow> 'e + ('b list \<times> 'c option)) \<Rightarrow> 'c option \<Rightarrow> 'e + 'b list" where
  "follow 0 page c = Inr []"
| "follow (Suc n) page c = bind_ok (page c) (\<lambda>(items, next).
     case next of None \<Rightarrow> Inr items
     | Some k \<Rightarrow> bind_ok (follow n page (Some k)) (\<lambda>rest. Inr (items @ rest)))"

locale keyset_pager =
  fixes good :: "'x \<Rightarrow> bool"
    and rows :: "'x \<Rightarrow> 'a list"
    and key :: "'a \<Rightarrow> 'k::linorder"
    and show_row :: "'x \<Rightarrow> 'a \<Rightarrow> 'b"
    and mark :: "'x \<Rightarrow> 'k \<Rightarrow> 'c"
    and page :: "'x \<Rightarrow> 'c option \<Rightarrow> 'e + ('b list \<times> 'c option)"
  assumes ordered: "good x \<Longrightarrow> sorted_wrt (\<lambda>r r'. key r' < key r) (rows x)"
    and page_ok: "good x \<Longrightarrow> c = None \<or> (\<exists>r\<in>set (rows x). c = Some (key r)) \<Longrightarrow>
      \<exists>n. page x (map_option (mark x) c) =
      Inr (map (show_row x) (take n (behind key c (rows x))),
           if n < length (behind key c (rows x)) then Some (mark x (key (behind key c (rows x) ! (n - 1)))) else None) \<and>
      (behind key c (rows x) \<noteq> [] \<longrightarrow> 0 < n)"
begin

text \<open>Behind the last row of a page are exactly the rows that follow the page.\<close>

lemma behind_last:
  assumes "sorted_wrt (\<lambda>x y. key y < key x) xs" "0 < n" "n \<le> length xs"
  shows "behind key (Some (key (xs ! (n - 1)))) xs = drop n xs"
proof -
  let ?k = "key (xs ! (n - 1))"
  have lt: "i < j \<Longrightarrow> j < length xs \<Longrightarrow> key (xs ! j) < key (xs ! i)" for i j
    using assms(1) by (simp add: sorted_wrt_iff_nth_less)
  have "\<forall>x\<in>set (take n xs). \<not> key x < ?k"
  proof
    fix x
    assume "x \<in> set (take n xs)"
    then obtain i where i: "i < n" "x = xs ! i" using assms(3) by (auto simp: in_set_conv_nth)
    show "\<not> key x < ?k"
    proof (cases "i = n - 1")
      case False
      with i assms(3) have "?k < key x" by (simp add: lt)
      then show ?thesis by simp
    qed (simp add: i)
  qed
  moreover have "\<forall>x\<in>set (drop n xs). key x < ?k"
  proof
    fix x
    assume "x \<in> set (drop n xs)"
    then obtain i where "i < length xs - n" "x = xs ! (n + i)" by (auto simp: in_set_conv_nth)
    then show "key x < ?k" using lt [of "n - 1" "n + i"] assms(2) by simp
  qed
  ultimately have "filter (\<lambda>x. key x < ?k) (take n xs) @ filter (\<lambda>x. key x < ?k) (drop n xs) = drop n xs"
    by (simp add: filter_id_conv filter_empty_conv)
  then show ?thesis by (simp add: behind_def filter_append [symmetric] del: filter_append)
qed

lemma behind_behind:
  assumes "k \<in> key ` set (behind key c rs)"
  shows "behind key (Some k) (behind key c rs) = behind key (Some k) rs"
  using assms by (cases c) (auto simp: behind_def intro!: filter_cong)

lemma behind_sorted: "good x \<Longrightarrow> sorted_wrt (\<lambda>r r'. key r' < key r) (behind key c (rows x))"
  unfolding behind_def by (rule sorted_wrt_filter) (rule ordered)

text \<open>Following the cursors shows every remaining row once and in order, in at most as many
  requests as there are rows.\<close>

lemma follow_all:
  assumes "good x"
  shows "length (behind key c (rows x)) \<le> n \<Longrightarrow> c = None \<or> (\<exists>r\<in>set (rows x). c = Some (key r)) \<Longrightarrow>
    follow n (page x) (map_option (mark x) c) = Inr (map (show_row x) (behind key c (rows x)))"
proof (induction n arbitrary: c)
  case 0
  then show ?case by simp
next
  case (Suc n)
  let ?rows = "behind key c (rows x)"
  obtain m where m: "page x (map_option (mark x) c) = Inr (map (show_row x) (take m ?rows),
      if m < length ?rows then Some (mark x (key (?rows ! (m - 1)))) else None)" "?rows \<noteq> [] \<longrightarrow> 0 < m"
    using page_ok [OF assms Suc.prems(2)] by blast
  show ?case
  proof (cases "m < length ?rows")
    case False
    with m show ?thesis by simp
  next
    case True
    then have pos: "0 < m" using m(2) by auto
    let ?k = "key (?rows ! (m - 1))"
    have mem: "?rows ! (m - 1) \<in> set ?rows" using True pos by (intro nth_mem) linarith
    then have "behind key (Some ?k) (rows x) = behind key (Some ?k) ?rows"
      by (intro behind_behind [symmetric]) blast
    also have "\<dots> = drop m ?rows"
      using True pos by (intro behind_last behind_sorted [OF assms]) simp_all
    finally have rest: "behind key (Some ?k) (rows x) = drop m ?rows" .
    have len: "length (behind key (Some ?k) (rows x)) \<le> n" unfolding rest using Suc.prems pos by simp
    have "?rows ! (m - 1) \<in> set (rows x)" using mem by (simp add: behind_def)
    then have "follow n (page x) (map_option (mark x) (Some ?k)) = Inr (map (show_row x) (drop m ?rows))"
      using Suc.IH [OF len] unfolding rest [symmetric] by blast
    with m True show ?thesis by (simp add: map_append [symmetric] del: map_append)
  qed
qed

lemma follow_from_start:
  "good x \<Longrightarrow> length (rows x) \<le> n \<Longrightarrow> follow n (page x) None = Inr (map (show_row x) (rows x))"
  using follow_all [of x None n] by (simp add: behind_def)

end

section \<open>Properties\<close>

text \<open>A cursor is read back as it was handed out by the listing it belongs to, is refused by every
  other listing, and a position before the first row is refused.\<close>

theorem cursor_roundtrip:
  assumes "cursor_lib_ok L"
  shows "\<exists>v. cursor_encode L (cursor_new kind n) = Inr v \<and>
    (cursor_decode L v kind = Inr (cursor_new kind n) \<longleftrightarrow> 0 \<le> n) \<and>
    (\<forall>other. other \<noteq> kind \<longrightarrow> cursor_decode L v other = Inl (validation ''cursor is invalid for this resource''))"
proof -
  obtain v where v: "cursor_encode L (cursor_new kind n) = Inr v" using cursor_encode_ok [OF assms] by blast
  have "cursor_decode L v k = (if k \<noteq> kind \<or> \<not> 0 \<le> n then Inl (validation ''cursor is invalid for this resource'')
      else Inr (cursor_new kind n))" for k
  proof -
    obtain v' where "cursor_encode L (cursor_new kind n) = Inr v'" "cursor_decode L v' k =
        (if cu_version (cursor_new kind n) \<noteq> 1 \<or> cu_kind (cursor_new kind n) \<noteq> k \<or> \<not> valid_position (cu_position (cursor_new kind n))
         then Inl (validation ''cursor is invalid for this resource'') else Inr (cursor_new kind n))"
      using cursor_encode_ok [OF assms] by blast
    with v show ?thesis by (auto simp: cursor_new_def valid_position_def)
  qed
  with v show ?thesis by auto
qed

theorem cursor_roundtrip_witness:
  "\<exists>v. cursor_encode sample_cursor_lib (cursor_new ''messages'' 42) = Inr v \<and>
     cursor_decode sample_cursor_lib v ''messages'' = Inr (cursor_new ''messages'' 42)"
  using cursor_roundtrip [OF sample_cursor_lib_ok, of "''messages''" 42] by auto

end
