(* ===== verification/Rows.thy ===== *)
theory Rows
  imports Paging
begin

text \<open>
  Loading messages (\<open>src/infrastructure/postgres/rows.rs\<close>): a message row, its attachments, GIF and
  bundle reference become one message, and the latest revision replaces its content. The URL parser
  and the JSON serializer are parameters.
\<close>

record bundle_ref =
  br_id :: uuid
  br_role :: bundle_role

record base_message =
  msg_id :: uuid
  msg_conversation :: uuid
  msg_sender :: actor_ref
  msg_sender_id :: "str option"
  msg_recipient_id :: "str option"
  msg_sequence :: int
  msg_status :: message_status
  msg_text :: "str option"
  msg_metadata :: json_map
  msg_reply_to :: "uuid option"
  msg_attachments :: "attachment list"
  msg_voice :: "voice_attachment option"
  msg_voice_transcript :: "str option"
  msg_gif :: "gif option"
  msg_bundle :: "bundle_ref option"
  msg_created_at :: instant
  msg_delivered_at :: "instant option"
  msg_read_at :: "instant option"
  msg_failure_reason :: "str option"
  msg_via_app :: "str option"

text \<open>An entry of the history is a former content; the first one is the original message.\<close>

datatype snapshot = OriginalContent base_message | EditedContent message_create

record message = base_message +
  msg_history :: "(snapshot \<times> instant) list"
  msg_updated_at :: "instant option"
  msg_deleted_at :: "instant option"

record store_lib =
  sl_url :: "str \<Rightarrow> url option"
  sl_message_json :: "message \<Rightarrow> nat list option"
  sl_cursor :: cursor_lib

definition data_error :: "string \<Rightarrow> app_error" where
  "data_error field = Internal (''invalid '' @ field @ '' loaded from DM database'')"

definition parse_url :: "store_lib \<Rightarrow> string \<Rightarrow> str \<Rightarrow> url app_result" where
  "parse_url L field v = (case sl_url L v of None \<Rightarrow> Inl (data_error field) | Some u \<Rightarrow> Inr u)"

definition parse_actor_id :: "str \<Rightarrow> str app_result" where
  "parse_actor_id v = (case identifier_try_from v of Inl _ \<Rightarrow> Inl (data_error ''actor ID'') | Inr i \<Rightarrow> Inr i)"

text \<open>\<open>u64::try_from\<close> of a stored \<open>bigint\<close>.\<close>

definition stored_u64 :: "string \<Rightarrow> int \<Rightarrow> nat app_result" where
  "stored_u64 field x = (if 0 \<le> x then Inr (nat x) else Inl (data_error field))"

definition map_attachment :: "store_lib \<Rightarrow> attachment_row \<Rightarrow> attachment app_result" where
  "map_attachment L r =
     (if ma_duration r \<noteq> None then Inl (data_error ''attachment duration'')
      else bind_ok (option_result (stored_u64 ''attachment size'') (ma_size r)) (\<lambda>sz.
        bind_ok (parse_url L ''attachment permanent URL'' (ma_url r)) (\<lambda>u.
          Inr \<lparr>at_url = u, at_name = ma_name r, at_content_type = ma_content_type r, at_size = sz\<rparr>)))"

definition map_voice_attachment :: "store_lib \<Rightarrow> attachment_row \<Rightarrow> voice_attachment app_result" where
  "map_voice_attachment L r =
     bind_ok (option_result (stored_u64 ''voice attachment size'') (ma_size r)) (\<lambda>sz.
     bind_ok (option_result (stored_u64 ''voice duration'') (ma_duration r)) (\<lambda>duration.
       if is_some_and (\<lambda>d. \<not> (1 \<le> d \<and> d \<le> max_voice_duration)) duration
       then Inl (data_error ''voice duration'')
       else bind_ok (parse_url L ''voice attachment permanent URL'' (ma_url r)) (\<lambda>u.
         Inr \<lparr>vo_url = u, vo_name = ma_name r, vo_content_type = ma_content_type r, vo_size = sz,
              vo_duration = duration\<rparr>)))"

definition map_gif :: "store_lib \<Rightarrow> gif_row \<Rightarrow> gif app_result" where
  "map_gif L r =
     (let g = mg_gif r in
      bind_ok (parse_url L ''GIF URL'' (u_text (gif_url g))) (\<lambda>u.
      bind_ok (option_result (\<lambda>v. parse_url L ''GIF preview URL'' (u_text v)) (gif_preview_url g)) (\<lambda>preview.
        Inr \<lparr>gif_provider_id = gif_provider_id g, gif_url = u, gif_preview_url = preview,
             gif_title = gif_title g\<rparr>)))"

text \<open>The loop of \<open>map_message\<close> over the attachment rows; a later voice row replaces an earlier one.\<close>

fun map_attachments ::
  "store_lib \<Rightarrow> attachment_row list \<Rightarrow> attachment list \<times> voice_attachment option \<Rightarrow>
     (attachment list \<times> voice_attachment option) app_result" where
  "map_attachments L [] acc = Inr acc"
| "map_attachments L (r # rs) (as, v) =
     (case ma_kind r of
        AttachmentKind \<Rightarrow> bind_ok (map_attachment L r) (\<lambda>a. map_attachments L rs (as @ [a], v))
      | VoiceKind \<Rightarrow> bind_ok (map_voice_attachment L r) (\<lambda>a. map_attachments L rs (as, Some a)))"

definition map_message ::
  "store_lib \<Rightarrow> message_row \<Rightarrow> attachment_row list \<Rightarrow> gif option \<Rightarrow> bundle_ref option \<Rightarrow> base_message app_result" where
  "map_message L r rows g bundle =
     bind_ok (map_attachments L rows ([], None)) (\<lambda>(as, v).
     bind_ok (parse_actor_id (ar_id (m_sender r))) (\<lambda>sender.
     bind_ok (option_result parse_actor_id (m_sender_address r)) (\<lambda>sender_id.
     bind_ok (option_result parse_actor_id (m_recipient_address r)) (\<lambda>recipient_id.
       Inr \<lparr>msg_id = m_id r, msg_conversation = m_conversation r,
            msg_sender = actor (ar_type (m_sender r)) sender,
            msg_sender_id = sender_id, msg_recipient_id = recipient_id,
            msg_sequence = m_sequence r, msg_status = m_status r, msg_text = m_text r,
            msg_metadata = m_metadata r, msg_reply_to = m_reply_to r, msg_attachments = as, msg_voice = v,
            msg_voice_transcript = m_transcript r, msg_gif = g, msg_bundle = bundle,
            msg_created_at = m_created_at r, msg_delivered_at = m_delivered_at r, msg_read_at = m_read_at r,
            msg_failure_reason = m_failure_reason r, msg_via_app = m_via_app r\<rparr>))))"

definition attachment_rows :: "db \<Rightarrow> uuid \<Rightarrow> attachment_row list" where
  "attachment_rows s i = sort_key ma_position (filter (\<lambda>a. ma_message a = i) (attachments s))"

definition hydrate_one :: "store_lib \<Rightarrow> db \<Rightarrow> message_row \<Rightarrow> base_message app_result" where
  "hydrate_one L s r =
     bind_ok (option_result (map_gif L) (find (\<lambda>g. mg_message g = m_id r) (gifs s))) (\<lambda>g.
       map_message L r (attachment_rows s (m_id r)) g
         (map_option (\<lambda>b. \<lparr>br_id = bi_bundle b, br_role = bi_role b\<rparr>)
            (find (\<lambda>b. bi_message b = m_id r) (bundle_items s))))"

definition empty_content :: message_create where
  "empty_content = \<lparr>mc_metadata = [], mc_reply_to = None, mc_sender_id = None, mc_recipient_id = None,
     mc_text = None, mc_attachments = [], mc_voice = None, mc_voice_transcript = None, mc_gif = None\<rparr>"

text \<open>\<open>apply_latest_revisions\<close>, for one message.\<close>

definition with_content :: "message_create \<Rightarrow> message \<Rightarrow> message" where
  "with_content c m = m\<lparr>msg_text := mc_text c, msg_attachments := mc_attachments c, msg_voice := mc_voice c,
     msg_voice_transcript := mc_voice_transcript c, msg_gif := mc_gif c, msg_metadata := mc_metadata c,
     msg_reply_to := mc_reply_to c\<rparr>"

definition apply_latest_revision :: "history_row list \<Rightarrow> base_message \<Rightarrow> message" where
  "apply_latest_revision hs b =
     (case find (\<lambda>h. h_message h = msg_id b) hs of
        None \<Rightarrow> base_message.extend b (message.fields [] None None)
      | Some h \<Rightarrow>
          let m = base_message.extend b (message.fields
                (map (\<lambda>(c, t). (case c of None \<Rightarrow> OriginalContent b | Some e \<Rightarrow> EditedContent e, t)) (h_history h))
                (h_updated_at h) (h_deleted_at h))
          in if h_deleted_at h \<noteq> None then with_content empty_content m
             else (case h_content h of None \<Rightarrow> m | Some c \<Rightarrow> with_content c m))"

text \<open>\<open>hydrate_messages\<close>: the requested order; an identifier without a row, or seen before, is skipped.\<close>

fun hydrate_messages :: "store_lib \<Rightarrow> db \<Rightarrow> message_row list \<Rightarrow> uuid list \<Rightarrow> message list app_result" where
  "hydrate_messages L s records [] = Inr []"
| "hydrate_messages L s records (i # order) =
     (case find (\<lambda>r. m_id r = i) records of
        None \<Rightarrow> hydrate_messages L s records order
      | Some r \<Rightarrow> bind_ok (hydrate_one L s r) (\<lambda>b.
          bind_ok (hydrate_messages L s (filter (\<lambda>r. m_id r \<noteq> i) records) order) (\<lambda>ms.
            Inr (apply_latest_revision (histories s) b # ms))))"

definition load_messages :: "store_lib \<Rightarrow> db \<Rightarrow> uuid list \<Rightarrow> message list app_result" where
  "load_messages L s ids =
     (if ids = [] then Inr []
      else hydrate_messages L s (filter (\<lambda>r. m_id r \<in> set ids) (messages s)) ids)"

definition load_message :: "store_lib \<Rightarrow> db \<Rightarrow> uuid \<Rightarrow> message app_result" where
  "load_message L s i =
     bind_ok (load_messages L s [i]) (\<lambda>ms. case ms of [] \<Rightarrow> Inl NotFound | m # _ \<Rightarrow> Inr m)"

definition message_payload_bytes :: "store_lib \<Rightarrow> message \<Rightarrow> nat app_result" where
  "message_payload_bytes L m =
     (case sl_message_json L m of
        None \<Rightarrow> Inl (Internal ''message serialization failed'')
      | Some bs \<Rightarrow> Inr (min usize_max (length bs)))"

section \<open>Loading\<close>

lemma find_filter_key: "find (\<lambda>r. key r = k) (filter (\<lambda>r. key r \<in> S) t) = (if k \<in> S then find (\<lambda>r. key r = k) t else None)"
  by (induction t) auto

lemma load_message_eq:
  "load_message L s i =
     (case find (\<lambda>r. m_id r = i) (messages s) of
        None \<Rightarrow> Inl NotFound
      | Some r \<Rightarrow> bind_ok (hydrate_one L s r) (\<lambda>b. Inr (apply_latest_revision (histories s) b)))"
  using find_filter_key [of m_id i "{i}" "messages s"]
  by (auto simp: load_message_def load_messages_def bind_ok_def split: option.splits sum.splits)

lemma apply_latest_revision_keeps:
  "msg_id (apply_latest_revision hs b) = msg_id b"
  "msg_conversation (apply_latest_revision hs b) = msg_conversation b"
  "msg_sequence (apply_latest_revision hs b) = msg_sequence b"
  "msg_sender (apply_latest_revision hs b) = msg_sender b"
  "msg_status (apply_latest_revision hs b) = msg_status b"
  by (auto simp: apply_latest_revision_def with_content_def Let_def message.defs base_message.defs split: option.splits)

lemma map_message_fields:
  assumes "map_message L r rows g bundle = Inr b"
  shows "msg_id b = m_id r" "msg_conversation b = m_conversation r" "msg_sequence b = m_sequence r"
    "msg_status b = m_status r"
  using assms by (auto simp: map_message_def split: prod.splits)

lemma hydrate_one_fields:
  assumes "hydrate_one L s r = Inr b"
  shows "msg_id b = m_id r" "msg_conversation b = m_conversation r" "msg_sequence b = m_sequence r"
    "msg_status b = m_status r"
  using assms map_message_fields by (auto simp: hydrate_one_def)

lemma load_message_fields:
  assumes "load_message L s i = Inr m"
  obtains r where "find (\<lambda>r. m_id r = i) (messages s) = Some r" "r \<in> set (messages s)" "m_id r = i"
    "msg_id m = i" "msg_conversation m = m_conversation r" "msg_sequence m = m_sequence r" "msg_status m = m_status r"
proof -
  obtain r b where r: "find (\<lambda>r. m_id r = i) (messages s) = Some r" "hydrate_one L s r = Inr b"
    "m = apply_latest_revision (histories s) b"
    using assms by (auto simp: load_message_eq split: option.splits)
  with find_Some_in [OF r(1)] hydrate_one_fields [OF r(2)] show ?thesis
    by (intro that) (simp_all add: apply_latest_revision_keeps)
qed

end
