(* ===== verification/Accounts.thy ===== *)
theory Accounts
  imports Store
begin

text \<open>
  The cache of Silicon Accounts accounts (\<open>src/infrastructure/postgres/accounts.rs\<close>,
  \<open>allow_list.rs\<close>) and the accounts service over it (\<open>src/application/accounts.rs\<close>). The
  Accounts service is a parameter, a record of the answers DM asks it for; the constraints of
  the \<open>accounts\<close> table are checked by every write, as PostgreSQL does.
\<close>

section \<open>Stored accounts\<close>

definition hex_lower :: "uchar \<Rightarrow> bool" where
  "hex_lower c \<longleftrightarrow> is_ascii_digit c \<or> (97 \<le> c \<and> c \<le> 102)"

definition uuid_format :: "str \<Rightarrow> bool" where
  "uuid_format s \<longleftrightarrow>
     (3 \<le> length s \<and> length s \<le> 64 \<and> list_all is_ascii_alphanumeric s) \<or>
     (map length (split_on 45 s) = [8, 4, 4, 4, 12] \<and> list_all (list_all hex_lower) (split_on 45 s))"

text \<open>The constraints of the \<open>accounts\<close> table.\<close>

definition account_row_ok :: "account_row \<Rightarrow> bool" where
  "account_row_ok a \<longleftrightarrow>
     uuid_format (a_uuid a) \<and>
     (\<forall>i\<in>set_option (a_id a). valid_public_id i \<and> ((a_kind a = Carbon) = prefix (lit ''c:'') i)) \<and>
     (\<forall>c\<in>set_option (a_custodian a). a_kind a = Silicon \<and> uuid_format c) \<and>
     (a_deleted a \<longleftrightarrow> a_deleted_at a \<noteq> None) \<and>
     (\<forall>n\<in>set_option (a_name a). length n \<le> 200) \<and>
     (\<forall>u\<in>set_option (a_pfp a). length u \<le> 2048) \<and>
     0 \<le> a_profile_version a"

definition put_accounts :: "account_row list \<Rightarrow> db \<Rightarrow> db app_result" where
  "put_accounts t s =
     (if list_all account_row_ok t then Inr (s\<lparr>accounts := t\<rparr>)
      else Inl (validation ''request violates a durable data invariant''))"

definition new_account :: "instant \<Rightarrow> str \<Rightarrow> actor_type \<Rightarrow> account_row" where
  "new_account now uuid kind =
     \<lparr>a_uuid = uuid, a_kind = kind, a_id = None, a_name = None, a_pfp = None, a_custodian = None,
      a_deleted = False, a_profile_version = 0, a_id_changed_at = None, a_custodian_changed_at = None,
      a_revoked_before = None, a_authenticated_at = None, a_refreshed_at = now, a_deleted_at = None\<rparr>"

definition stored_account_view :: "account_row \<Rightarrow> account" where
  "stored_account_view r =
     \<lparr>acc_uuid = a_uuid r, acc_kind = a_kind r, acc_id = a_id r, acc_display_name = a_name r,
      acc_pfp_url = a_pfp r, acc_custodian = a_custodian r, acc_deleted = a_deleted r\<rparr>"

definition stored_account :: "str \<Rightarrow> account_row list \<Rightarrow> account_row option" where
  "stored_account uuid t = find (\<lambda>a. a_uuid a = uuid) t"

text \<open>\<open>ORDER BY refreshed_at DESC\<close>.\<close>

definition accounts_with_public_id :: "str \<Rightarrow> account_row list \<Rightarrow> account_row list" where
  "accounts_with_public_id i t =
     sort_key (\<lambda>a. - a_refreshed_at a) (filter (\<lambda>a. a_id a = Some i \<and> \<not> a_deleted a) t)"

definition filter_option :: "('a \<Rightarrow> bool) \<Rightarrow> 'a option \<Rightarrow> 'a option" where
  "filter_option p x = (case x of Some v \<Rightarrow> if p v then Some v else None | None \<Rightarrow> None)"

definition coalesce :: "'a option \<Rightarrow> 'a option \<Rightarrow> 'a option" where
  "coalesce x y = (case x of Some _ \<Rightarrow> x | None \<Rightarrow> y)"

definition truncate_chars :: "nat \<Rightarrow> str \<Rightarrow> str" where
  "truncate_chars n value = take n value"

text \<open>The upsert of \<open>record_authentication\<close>: what it sets and when it writes at all.\<close>

definition authenticated_row :: "instant \<Rightarrow> str option \<Rightarrow> instant option \<Rightarrow> account_row \<Rightarrow> account_row" where
  "authenticated_row now i issued a =
     a\<lparr>a_id := (if a_deleted a then a_id a
                else if i \<noteq> None \<and>
                        (a_id_changed_at a = None \<or>
                         (\<exists>t\<in>set_option issued. \<exists>c\<in>set_option (a_id_changed_at a). t > c))
                then i else a_id a),
       a_authenticated_at := Some now,
       a_refreshed_at := max (a_refreshed_at a) now\<rparr>"

definition authentication_due :: "instant \<Rightarrow> str option \<Rightarrow> account_row \<Rightarrow> bool" where
  "authentication_due now i a \<longleftrightarrow>
     a_authenticated_at a = None \<or>
     (\<exists>t\<in>set_option (a_authenticated_at a). t < now - 60 * second) \<or> a_id a \<noteq> i"

definition record_authentication ::
  "instant \<Rightarrow> str \<Rightarrow> actor_type \<Rightarrow> str option \<Rightarrow> instant option \<Rightarrow> db \<Rightarrow> ((account_row \<times> bool) \<times> db) app_result" where
  "record_authentication now uuid kind i issued s =
     (let i' = filter_option valid_public_id i;
          new = (new_account now uuid kind)\<lparr>a_id := i', a_authenticated_at := Some now\<rparr>;
          inserted = \<not> sql_exists (\<lambda>a. a_uuid a = uuid) (accounts s)
      in bind_ok
           (put_accounts (upsert_where a_uuid new (authentication_due now i')
              (authenticated_row now i' issued) (accounts s)) s)
           (\<lambda>s'. case stored_account uuid (accounts s') of
              None \<Rightarrow> Inl (Internal ''account row vanished'')
            | Some stored \<Rightarrow> Inr ((stored, inserted), s')))"

record account_lookup =
  lk_uuid :: str
  lk_kind :: actor_type
  lk_id :: "str option"
  lk_name :: "str option"
  lk_pfp :: "str option"
  lk_custodian :: "(str \<times> str) option"
  lk_deleted :: bool

definition stored_name :: "str option \<Rightarrow> str option" where
  "stored_name n = map_option (truncate_chars 200) n"

definition stored_pfp :: "str option \<Rightarrow> str option" where
  "stored_pfp u = filter_option (\<lambda>u. str_len u \<le> 2048) u"

text \<open>The custodian row a lookup or a custodian change brings along.\<close>

definition seed_custodian :: "instant \<Rightarrow> str \<Rightarrow> str \<Rightarrow> account_row list \<Rightarrow> account_row list" where
  "seed_custodian now custodian custodian_id =
     insert_or_ignore a_uuid
       ((new_account now custodian Carbon)\<lparr>a_id := filter_option valid_public_id (Some custodian_id)\<rparr>)"

definition looked_up_row :: "instant \<Rightarrow> account_lookup \<Rightarrow> account_row \<Rightarrow> account_row" where
  "looked_up_row now l a =
     (let gone = lk_deleted l in
      a\<lparr>a_id := (if gone then None else coalesce (filter_option valid_public_id (lk_id l)) (a_id a)),
        a_name := (if gone then None else coalesce (stored_name (lk_name l)) (a_name a)),
        a_pfp := (if gone then None else coalesce (stored_pfp (lk_pfp l)) (a_pfp a)),
        a_custodian := coalesce (map_option fst (lk_custodian l)) (a_custodian a),
        a_deleted := (gone \<or> a_deleted a),
        a_deleted_at := (if gone then coalesce (a_deleted_at a) (Some now) else a_deleted_at a),
        a_refreshed_at := now\<rparr>)"

text \<open>Nobody else holds an id Accounts just attributed to one account.\<close>

definition release_id :: "str \<Rightarrow> str \<Rightarrow> account_row list \<Rightarrow> account_row list" where
  "release_id i uuid =
     sql_update (\<lambda>a. a_id a = Some i \<and> a_uuid a \<noteq> uuid) (\<lambda>a. a\<lparr>a_id := None\<rparr>)"

definition record_lookup :: "instant \<Rightarrow> account_lookup \<Rightarrow> db \<Rightarrow> (bool \<times> db) app_result" where
  "record_lookup now l s =
     (let t = (case lk_custodian l of
                 None \<Rightarrow> accounts s
               | Some (custodian, custodian_id) \<Rightarrow> seed_custodian now custodian custodian_id (accounts s));
          new = (new_account now (lk_uuid l) (lk_kind l))
            \<lparr>a_id := filter_option valid_public_id (lk_id l), a_name := stored_name (lk_name l),
             a_pfp := stored_pfp (lk_pfp l), a_custodian := map_option fst (lk_custodian l),
             a_deleted := lk_deleted l, a_deleted_at := (if lk_deleted l then Some now else None)\<rparr>;
          inserted = \<not> sql_exists (\<lambda>a. a_uuid a = lk_uuid l) t;
          t' = upsert a_uuid new (looked_up_row now l) t;
          t'' = (case lk_id l of
                   Some i \<Rightarrow> if lk_deleted l then t' else release_id i (lk_uuid l) t'
                 | None \<Rightarrow> t')
      in bind_ok (put_accounts t'' s) (\<lambda>s'. Inr (inserted, s')))"

definition record_member_profile :: "instant \<Rightarrow> str \<Rightarrow> str option \<Rightarrow> str option \<Rightarrow> db \<Rightarrow> db app_result" where
  "record_member_profile now uuid name pfp s =
     put_accounts
       (sql_update (\<lambda>a. a_uuid a = uuid \<and> \<not> a_deleted a \<and> a_profile_version a = 0)
          (\<lambda>a. a\<lparr>a_name := stored_name name, a_pfp := stored_pfp pfp, a_refreshed_at := now\<rparr>) (accounts s)) s"

section \<open>Events applied newest first\<close>

datatype applied = Changed | Stale

definition applied_of :: "nat \<Rightarrow> applied" where
  "applied_of changed = (if changed = 1 then Changed else Stale)"

text \<open>\<open>x IS NULL OR x < t\<close>\<close>

definition older :: "'a :: linorder option \<Rightarrow> 'a \<Rightarrow> bool" where
  "older x t = (case x of None \<Rightarrow> True | Some u \<Rightarrow> u < t)"

definition id_change_due :: "instant \<Rightarrow> account_row \<Rightarrow> bool" where
  "id_change_due at a \<longleftrightarrow> \<not> a_deleted a \<and> older (a_id_changed_at a) at"

definition id_change_row :: "instant \<Rightarrow> str \<Rightarrow> actor_type \<Rightarrow> str \<Rightarrow> instant \<Rightarrow> account_row" where
  "id_change_row now uuid kind new_id at =
     (new_account now uuid kind)\<lparr>a_id := Some new_id, a_id_changed_at := Some at\<rparr>"

definition change_id :: "instant \<Rightarrow> str \<Rightarrow> actor_type \<Rightarrow> str \<Rightarrow> instant \<Rightarrow> account_row list \<Rightarrow> account_row list" where
  "change_id now uuid kind new_id at =
     upsert_where a_uuid (id_change_row now uuid kind new_id at) (id_change_due at)
       (\<lambda>a. a\<lparr>a_id := Some new_id, a_id_changed_at := Some at, a_refreshed_at := now\<rparr>)"

definition apply_id_change ::
  "instant \<Rightarrow> str \<Rightarrow> actor_type option \<Rightarrow> str \<Rightarrow> instant \<Rightarrow> db \<Rightarrow> (applied \<times> db) app_result" where
  "apply_id_change now uuid kind new_id at s =
     (if \<not> valid_public_id new_id
      then Inl (Refused 400 ''invalid_webhook_body''
                 (lit ''account.id_changed carries an invalid id `'' @ new_id @ lit ''`''))
      else
        let k = (case kind of Some k \<Rightarrow> k
                 | None \<Rightarrow> if prefix (lit ''si:'') new_id then Silicon else Carbon);
            changed = upsert_affected a_uuid (id_change_row now uuid k new_id at) (id_change_due at) (accounts s);
            t = change_id now uuid k new_id at (accounts s);
            t' = (if changed = 1 then release_id new_id uuid t else t)
        in bind_ok (put_accounts t' s) (\<lambda>s'. Inr (applied_of changed, s')))"

definition profile_due :: "int \<Rightarrow> account_row \<Rightarrow> bool" where
  "profile_due version a \<longleftrightarrow> \<not> a_deleted a \<and> a_profile_version a < version"

definition profile_row :: "instant \<Rightarrow> account_lookup \<Rightarrow> int \<Rightarrow> account_row" where
  "profile_row now l version =
     (new_account now (lk_uuid l) (lk_kind l))
       \<lparr>a_id := filter_option valid_public_id (lk_id l), a_name := stored_name (lk_name l),
        a_pfp := stored_pfp (lk_pfp l), a_custodian := map_option fst (lk_custodian l),
        a_profile_version := version\<rparr>"

definition update_profile :: "instant \<Rightarrow> account_lookup \<Rightarrow> int \<Rightarrow> account_row list \<Rightarrow> account_row list" where
  "update_profile now l version =
     upsert_where a_uuid (profile_row now l version) (profile_due version)
       (\<lambda>a. a\<lparr>a_name := stored_name (lk_name l), a_pfp := stored_pfp (lk_pfp l),
              a_custodian := coalesce (map_option fst (lk_custodian l)) (a_custodian a),
              a_profile_version := version, a_refreshed_at := now\<rparr>)"

definition apply_profile_update :: "instant \<Rightarrow> account_lookup \<Rightarrow> int \<Rightarrow> db \<Rightarrow> (applied \<times> db) app_result" where
  "apply_profile_update now l version s =
     (let v = max version 0;
          changed = upsert_affected a_uuid (profile_row now l v) (profile_due v) (accounts s)
      in bind_ok (put_accounts (update_profile now l v (accounts s)) s) (\<lambda>s'. Inr (applied_of changed, s')))"

definition custodian_due :: "instant \<Rightarrow> account_row \<Rightarrow> bool" where
  "custodian_due at a \<longleftrightarrow> a_kind a = Silicon \<and> older (a_custodian_changed_at a) at"

definition custodian_row :: "instant \<Rightarrow> str \<Rightarrow> str \<Rightarrow> instant \<Rightarrow> account_row" where
  "custodian_row now silicon custodian at =
     (new_account now silicon Silicon)\<lparr>a_custodian := Some custodian, a_custodian_changed_at := Some at\<rparr>"

definition change_custodian :: "instant \<Rightarrow> str \<Rightarrow> str \<Rightarrow> instant \<Rightarrow> account_row list \<Rightarrow> account_row list" where
  "change_custodian now silicon custodian at =
     upsert_where a_uuid (custodian_row now silicon custodian at) (custodian_due at)
       (\<lambda>a. a\<lparr>a_custodian := Some custodian, a_custodian_changed_at := Some at, a_refreshed_at := now\<rparr>)"

definition apply_custodian_change ::
  "instant \<Rightarrow> str \<Rightarrow> str \<Rightarrow> str \<Rightarrow> instant \<Rightarrow> db \<Rightarrow> (applied \<times> db) app_result" where
  "apply_custodian_change now silicon custodian custodian_id at s =
     (let t = seed_custodian now custodian custodian_id (accounts s);
          changed = upsert_affected a_uuid (custodian_row now silicon custodian at) (custodian_due at) t
      in bind_ok (put_accounts (change_custodian now silicon custodian at t) s)
           (\<lambda>s'. Inr (applied_of changed, s')))"

definition revoke_due :: "str \<Rightarrow> instant \<Rightarrow> account_row \<Rightarrow> bool" where
  "revoke_due uuid at a \<longleftrightarrow> a_uuid a = uuid \<and> older (a_revoked_before a) at"

definition revoke_rows :: "str \<Rightarrow> instant \<Rightarrow> account_row list \<Rightarrow> account_row list" where
  "revoke_rows uuid at = sql_update (revoke_due uuid at) (\<lambda>a. a\<lparr>a_revoked_before := Some at\<rparr>)"

definition revoke_sessions_before :: "str \<Rightarrow> instant \<Rightarrow> db \<Rightarrow> (applied \<times> db) app_result" where
  "revoke_sessions_before uuid at s =
     bind_ok (put_accounts (revoke_rows uuid at (accounts s)) s)
       (\<lambda>s'. Inr (applied_of (rows_affected (revoke_due uuid at) (accounts s)), s'))"

section \<open>The custodian circle and allow-lists\<close>

definition silicons_of :: "str \<Rightarrow> db \<Rightarrow> str list" where
  "silicons_of custodian s =
     sort (map a_uuid (filter (\<lambda>a. a_custodian a = Some custodian \<and> a_kind a = Silicon \<and> \<not> a_deleted a)
       (accounts s)))"

definition may_reach_silicon :: "str \<Rightarrow> str \<Rightarrow> db \<Rightarrow> bool" where
  "may_reach_silicon silicon other s =
     sql_exists (\<lambda>x. a_uuid x = silicon \<and>
         (a_uuid x = other \<or> a_custodian x = Some other \<or>
          sql_exists (\<lambda>y. a_uuid y = other \<and> a_kind y = Silicon \<and> a_custodian y \<noteq> None \<and>
             a_custodian y = a_custodian x) (accounts s) \<or>
          sql_exists (\<lambda>r. al_silicon r = a_uuid x \<and> ar_id (al_allowed r) = other) (allowances s)))
       (accounts s)"

definition allowance_key :: "allowance_row \<Rightarrow> str \<times> actor_ref" where
  "allowance_key r = (al_silicon r, al_allowed r)"

definition allow_list :: "str \<Rightarrow> db \<Rightarrow> allowance_row list" where
  "allow_list silicon s =
     sort_key (\<lambda>r. (al_added_at r, ar_id (al_allowed r))) (filter (\<lambda>r. al_silicon r = silicon) (allowances s))"

definition allow_contact :: "instant \<Rightarrow> str \<Rightarrow> actor_ref \<Rightarrow> str \<Rightarrow> db \<Rightarrow> (bool \<times> db) app_result" where
  "allow_contact now silicon who added_by s =
     (if silicon = ar_id who then Inl (validation ''request violates a durable data invariant'')
      else
        let r = \<lparr>al_silicon = silicon, al_allowed = who, al_added_by = added_by, al_added_at = now\<rparr>
        in Inr (\<not> sql_exists (\<lambda>x. allowance_key x = allowance_key r) (allowances s),
                s\<lparr>allowances := insert_or_ignore allowance_key r (allowances s)\<rparr>))"

definition disallow_contact :: "str \<Rightarrow> actor_ref \<Rightarrow> db \<Rightarrow> bool \<times> db" where
  "disallow_contact silicon who s =
     (let p = (\<lambda>r. allowance_key r = (silicon, who)) in
      (rows_affected p (allowances s) = 1, s\<lparr>allowances := sql_delete p (allowances s)\<rparr>))"

section \<open>Webhook receipts\<close>

definition webhook_event_seen :: "str \<Rightarrow> db \<Rightarrow> bool" where
  "webhook_event_seen event s = sql_exists (\<lambda>r. wr_event r = event) (webhook_receipts s)"

definition record_webhook_event :: "str \<Rightarrow> str \<Rightarrow> str option \<Rightarrow> string \<Rightarrow> db \<Rightarrow> db app_result" where
  "record_webhook_event event event_type account outcome s =
     (if 1 \<le> length event \<and> length event \<le> 255 \<and> 1 \<le> length event_type \<and> length event_type \<le> 255
      then Inr (s\<lparr>webhook_receipts := insert_or_ignore wr_event
         \<lparr>wr_event = event, wr_type = event_type, wr_account = account, wr_outcome = outcome\<rparr>
         (webhook_receipts s)\<rparr>)
      else Inl (validation ''request violates a durable data invariant''))"

definition end_stored_proofs :: "str \<Rightarrow> db \<Rightarrow> db" where
  "end_stored_proofs uuid s =
     s\<lparr>ting_grants := sql_delete (\<lambda>r. ar_id (tg_actor r) = uuid) (ting_grants s),
       ting_enrollments := sql_delete (\<lambda>r. te_partition r = accounts_partition \<and> ar_id (te_actor r) = uuid)
         (ting_enrollments s)\<rparr>"

section \<open>The accounts service\<close>

text \<open>What DM asks the Accounts service: the parameter of the application layer.\<close>

record accounts_service =
  svc_lookup :: "str \<Rightarrow> account_lookup app_result"
  svc_lookup_by_id :: "str \<Rightarrow> account_lookup app_result"
  svc_sign_in_live :: "str \<Rightarrow> str \<Rightarrow> instant \<Rightarrow> bool app_result"
  svc_member_profile :: "str \<Rightarrow> (str option \<times> str option) option app_result"

definition id_cache_ttl :: int where "id_cache_ttl = 10 * 60 * second"
definition enrich_retry :: int where "enrich_retry = 60 * second"
definition ting_check_interval :: int where "ting_check_interval = 600 * second"

text \<open>The process-local throttles: \<open>entry(uuid).and_modify(..).or_insert_with(..)\<close>.\<close>

definition throttle :: "int \<Rightarrow> instant \<Rightarrow> str \<Rightarrow> (str \<rightharpoonup> instant) \<Rightarrow> bool \<times> (str \<rightharpoonup> instant)" where
  "throttle interval now uuid m =
     (case m uuid of
        None \<Rightarrow> (True, m(uuid \<mapsto> now))
      | Some prev \<Rightarrow> if max 0 (now - prev) \<ge> interval then (True, m(uuid \<mapsto> now)) else (False, m))"

definition ting_check_due :: "instant \<Rightarrow> str \<Rightarrow> (str \<rightharpoonup> instant) \<Rightarrow> bool \<times> (str \<rightharpoonup> instant)" where
  "ting_check_due = throttle ting_check_interval"

definition may_enrich :: "instant \<Rightarrow> str \<Rightarrow> (str \<rightharpoonup> instant) \<Rightarrow> bool \<times> (str \<rightharpoonup> instant)" where
  "may_enrich = throttle enrich_retry"

text \<open>A call of several transactions answers next to the database it leaves behind: what an
  earlier transaction committed stays when a later step fails.\<close>

definition then_with :: "'a app_result \<times> db \<Rightarrow> ('a \<Rightarrow> db \<Rightarrow> 'b app_result \<times> db) \<Rightarrow> 'b app_result \<times> db" where
  "then_with r f = (case r of (Inl e, s) \<Rightarrow> (Inl e, s) | (Inr x, s) \<Rightarrow> f x s)"

definition in_transaction :: "(db \<Rightarrow> ('a \<times> db) app_result) \<Rightarrow> db \<Rightarrow> 'a app_result \<times> db" where
  "in_transaction f s = (case f s of Inl e \<Rightarrow> (Inl e, s) | Inr (x, s') \<Rightarrow> (Inr x, s'))"

lemma then_with_simps [simp]:
  "then_with (Inl e, s) f = (Inl e, s)"
  "then_with (Inr x, s) f = f x s"
  by (simp_all add: then_with_def)

definition after_lookup :: "instant \<Rightarrow> str \<Rightarrow> str \<Rightarrow> account_lookup \<Rightarrow> db \<Rightarrow> account app_result \<times> db" where
  "after_lookup now uuid name l s =
     then_with (in_transaction (record_lookup now l) s) (\<lambda>_ s'.
       (if lk_deleted l then Inl (account_deleted name)
        else (case stored_account uuid (accounts s') of
                None \<Rightarrow> Inl (account_not_found name)
              | Some stored \<Rightarrow> Inr (stored_account_view stored)), s'))"

definition directory_account :: "accounts_service \<Rightarrow> instant \<Rightarrow> str \<Rightarrow> db \<Rightarrow> account app_result \<times> db" where
  "directory_account A now uuid s =
     (case stored_account uuid (accounts s) of
        Some stored \<Rightarrow>
          (if a_deleted stored then Inl (account_deleted uuid) else Inr (stored_account_view stored), s)
      | None \<Rightarrow> then_with (svc_lookup A uuid, s) (after_lookup now uuid uuid))"

definition resolve :: "uuid_lib \<Rightarrow> accounts_service \<Rightarrow> instant \<Rightarrow> str \<Rightarrow> db \<Rightarrow> account app_result \<times> db" where
  "resolve U A now selector s =
     (let selector = trim selector;
          base = (case rsplit_once 64 selector of None \<Rightarrow> selector | Some (_, base) \<Rightarrow> base)
      in if is_account_uuid U base then directory_account A now base s
         else
           let i = to_ascii_lowercase base in
           if \<not> valid_public_id i
           then (Inl (Validation (lit ''`'' @ selector @ lit ''` is not an account id: use c:handle for a Carbon or si:handle for a Silicon (or the account's uuid)'')), s)
           else
             (case accounts_with_public_id i (accounts s) of
                [only] \<Rightarrow>
                  if a_refreshed_at only > now - id_cache_ttl then (Inr (stored_account_view only), s)
                  else then_with (svc_lookup_by_id A i, s) (\<lambda>l. after_lookup now (lk_uuid l) i l)
              | _ \<Rightarrow> then_with (svc_lookup_by_id A i, s) (\<lambda>l. after_lookup now (lk_uuid l) i l)))"

fun resolve_from ::
  "uuid_lib \<Rightarrow> accounts_service \<Rightarrow> instant \<Rightarrow> account list \<Rightarrow> str list \<Rightarrow> db \<Rightarrow> account list app_result \<times> db" where
  "resolve_from U A now known [] s = (Inr known, s)"
| "resolve_from U A now known (selector # selectors) s =
     then_with (resolve U A now selector s) (\<lambda>a s'.
       resolve_from U A now
         (if list_ex (\<lambda>k. acc_uuid k = acc_uuid a) known then known else known @ [a]) selectors s')"

definition resolve_all :: "uuid_lib \<Rightarrow> accounts_service \<Rightarrow> instant \<Rightarrow> str list \<Rightarrow> db \<Rightarrow> account list app_result \<times> db" where
  "resolve_all U A now selectors s = resolve_from U A now [] selectors s"

definition custodian_label :: "account \<Rightarrow> db \<Rightarrow> str" where
  "custodian_label target s =
     (case Option.bind (acc_custodian target) (\<lambda>c. Option.bind (stored_account c (accounts s)) a_id) of
        None \<Rightarrow> lit ''its custodian''
      | Some i \<Rightarrow> lit ''its custodian '' @ i)"

definition require_may_reach :: "actor_ref \<Rightarrow> account \<Rightarrow> db \<Rightarrow> unit app_result" where
  "require_may_reach who target s =
     (if \<not> is_silicon target \<or> acc_uuid target = ar_id who then Inr ()
      else if may_reach_silicon (acc_uuid target) (ar_id who) s then Inr ()
      else Inl (forbidden ''contact_not_allowed''
        (display_id target @
         lit '' only accepts new conversations and invitations from its custodian, the custodian's other Silicons and accounts it has allowed. Ask '' @
         display_id target @ lit '' (`dm allow add <your id>`) or '' @ custodian_label target s @
         lit '' (DM website, Silicons) to allow you first.'')))"

datatype order = Before | After | SameSecond

definition token_order :: "instant \<Rightarrow> instant \<Rightarrow> order" where
  "token_order issued cutoff =
     (if issued + second \<le> cutoff then Before else if issued > cutoff then After else SameSecond)"

section \<open>Histories\<close>

text \<open>One successful write of the cache.\<close>

inductive account_step :: "db \<Rightarrow> db \<Rightarrow> bool" where
  authentication: "record_authentication now u k i issued s = Inr (r, s') \<Longrightarrow> account_step s s'"
| looked_up: "record_lookup now l s = Inr (r, s') \<Longrightarrow> account_step s s'"
| member_profile: "record_member_profile now u n p s = Inr s' \<Longrightarrow> account_step s s'"
| id_change: "apply_id_change now u ko i at s = Inr (r, s') \<Longrightarrow> account_step s s'"
| profile_update: "apply_profile_update now l v s = Inr (r, s') \<Longrightarrow> account_step s s'"
| custodian_change: "apply_custodian_change now u c ci at s = Inr (r, s') \<Longrightarrow> account_step s s'"
| revocation: "revoke_sessions_before u at s = Inr (r, s') \<Longrightarrow> account_step s s'"

definition opt_le :: "'a :: linorder option \<Rightarrow> 'a option \<Rightarrow> bool" where
  "opt_le x y = (case x of None \<Rightarrow> True | Some a \<Rightarrow> (case y of None \<Rightarrow> False | Some b \<Rightarrow> a \<le> b))"

text \<open>How a cached account may evolve.\<close>

definition account_advances :: "account_row \<Rightarrow> account_row \<Rightarrow> bool" where
  "account_advances a b \<longleftrightarrow>
     a_uuid b = a_uuid a \<and> a_kind b = a_kind a \<and> (a_deleted a \<longrightarrow> a_deleted b) \<and>
     opt_le (a_revoked_before a) (a_revoked_before b) \<and>
     opt_le (a_id_changed_at a) (a_id_changed_at b) \<and>
     opt_le (a_custodian_changed_at a) (a_custodian_changed_at b) \<and>
     a_profile_version a \<le> a_profile_version b"

definition table_advances :: "account_row list \<Rightarrow> account_row list \<Rightarrow> bool" where
  "table_advances t t' \<longleftrightarrow>
     (\<forall>u a. stored_account u t = Some a \<longrightarrow> (\<exists>b. stored_account u t' = Some b \<and> account_advances a b))"

lemma opt_le_refl [simp]: "opt_le x x"
  by (simp add: opt_le_def split: option.splits)

lemma opt_le_trans: "opt_le x y \<Longrightarrow> opt_le y z \<Longrightarrow> opt_le x z"
  by (auto simp: opt_le_def split: option.splits)

lemma older_opt_le: "older x t \<Longrightarrow> opt_le x (Some t)"
  by (auto simp: older_def opt_le_def split: option.splits)

lemma account_advances_refl [simp]: "account_advances a a"
  by (simp add: account_advances_def)

lemma account_advances_trans: "account_advances a b \<Longrightarrow> account_advances b c \<Longrightarrow> account_advances a c"
  by (auto simp: account_advances_def intro: opt_le_trans)

lemma table_advances_refl [simp]: "table_advances t t"
  by (simp add: table_advances_def)

lemma table_advances_trans [trans]:
  "table_advances t t' \<Longrightarrow> table_advances t' t'' \<Longrightarrow> table_advances t t''"
  unfolding table_advances_def using account_advances_trans by blast

lemma table_advances_upsert_where:
  assumes "\<And>x. a_uuid x = a_uuid r \<Longrightarrow> p x \<Longrightarrow> account_advances x (f x)"
    and "\<And>x. a_uuid (f x) = a_uuid x"
  shows "table_advances t (upsert_where a_uuid r p f t)"
  unfolding table_advances_def stored_account_def
proof (intro allI impI)
  fix u a assume a: "find (\<lambda>x. a_uuid x = u) t = Some a"
  then have "a_uuid a = u" by (auto dest: find_Some_in)
  with a assms(1) [of a] show "\<exists>b. find (\<lambda>x. a_uuid x = u) (upsert_where a_uuid r p f t) = Some b \<and> account_advances a b"
    by (auto simp: find_upsert_where [of a_uuid r f u p t, OF assms(2)])
qed

lemma table_advances_upsert:
  assumes "\<And>x. a_uuid x = a_uuid r \<Longrightarrow> account_advances x (f x)" and "\<And>x. a_uuid (f x) = a_uuid x"
  shows "table_advances t (upsert a_uuid r f t)"
  unfolding upsert_as_where using assms by (rule table_advances_upsert_where)

lemma table_advances_update:
  assumes "\<And>x. p x \<Longrightarrow> account_advances x (f x)"
  shows "table_advances t (sql_update p f t)"
  unfolding table_advances_def stored_account_def
proof (intro allI impI)
  fix u a assume "find (\<lambda>x. a_uuid x = u) t = Some a"
  moreover have "p x \<Longrightarrow> a_uuid (f x) = a_uuid x" for x
    using assms [of x] by (simp add: account_advances_def)
  ultimately show "\<exists>b. find (\<lambda>x. a_uuid x = u) (sql_update p f t) = Some b \<and> account_advances a b"
    using assms [of a] by (auto simp: find_keyed_update)
qed

lemma table_advances_insert: "table_advances t (insert_or_ignore a_uuid r t)"
  by (auto simp: table_advances_def stored_account_def find_insert_or_ignore)

lemma table_advances_release:
  assumes "table_advances t t'"
  shows "table_advances t (release_id i u t')"
  using assms
proof (rule table_advances_trans)
  show "table_advances t' (release_id i u t')"
    unfolding release_id_def by (rule table_advances_update) (simp add: account_advances_def)
qed

lemma put_accounts_ok: "put_accounts t s = Inr s' \<longleftrightarrow> list_all account_row_ok t \<and> s' = s\<lparr>accounts := t\<rparr>"
  by (auto simp: put_accounts_def)

lemma account_step_advances: "account_step s s' \<Longrightarrow> table_advances (accounts s) (accounts s')"
proof (induction rule: account_step.induct)
  case (authentication now u k i issued s r s')
  then show ?case
    by (auto simp: record_authentication_def Let_def put_accounts_ok authenticated_row_def account_advances_def
        split: option.splits intro!: table_advances_upsert_where)
next
  case (looked_up now l s r s')
  define t where "t = (case lk_custodian l of None \<Rightarrow> accounts s
    | Some (custodian, custodian_id) \<Rightarrow> seed_custodian now custodian custodian_id (accounts s))"
  have "table_advances (accounts s) t"
    by (auto simp: t_def seed_custodian_def table_advances_insert split: option.splits)
  then have "table_advances (accounts s) (upsert a_uuid n (looked_up_row now l) t)" for n
    by (rule table_advances_trans, intro table_advances_upsert)
      (auto simp: looked_up_row_def Let_def account_advances_def)
  then show ?case
    using looked_up unfolding record_lookup_def Let_def t_def [symmetric]
    by (auto simp: put_accounts_ok split: option.splits if_splits
        intro!: table_advances_release)
next
  case (member_profile now u n p s s')
  then show ?case
    by (auto simp: record_member_profile_def put_accounts_ok account_advances_def intro!: table_advances_update)
next
  case (id_change now u ko i at s r s')
  have "table_advances (accounts s) (change_id now u k i at (accounts s))" for k
    unfolding change_id_def
    by (rule table_advances_upsert_where) (auto simp: account_advances_def id_change_due_def older_opt_le)
  then show ?case
    using id_change
    by (auto simp: apply_id_change_def Let_def put_accounts_ok split: if_splits
        intro!: table_advances_release)
next
  case (profile_update now l v s r s')
  have "table_advances (accounts s) (update_profile now l w (accounts s))" for w
    unfolding update_profile_def
    by (rule table_advances_upsert_where) (auto simp: account_advances_def profile_due_def)
  then show ?case
    using profile_update by (auto simp: apply_profile_update_def Let_def put_accounts_ok)
next
  case (custodian_change now u c ci at s r s')
  have "table_advances (accounts s) (seed_custodian now c ci (accounts s))"
    by (simp add: seed_custodian_def table_advances_insert)
  also have "table_advances t (change_custodian now u c at t)" for t
    unfolding change_custodian_def
    by (rule table_advances_upsert_where) (auto simp: account_advances_def custodian_due_def older_opt_le)
  finally show ?case
    using custodian_change by (auto simp: apply_custodian_change_def Let_def put_accounts_ok)
next
  case (revocation u at s r s')
  have "table_advances (accounts s) (revoke_rows u at (accounts s))"
    unfolding revoke_rows_def
    by (rule table_advances_update) (auto simp: account_advances_def revoke_due_def older_opt_le)
  then show ?case
    using revocation by (auto simp: revoke_sessions_before_def put_accounts_ok)
qed

section \<open>Newest event wins\<close>

text \<open>
  The contract behind every event the cache applies: a newer event replaces the value, an older
  or repeated one changes nothing. Its consequence is that the outcome depends on which events
  arrived and not on the order they arrived in.
\<close>

locale newest_wins =
  fixes put :: "'t :: linorder \<Rightarrow> 'v \<Rightarrow> 's \<Rightarrow> 's"
    and stamp_of :: "'s \<Rightarrow> 't option"
    and value_of :: "'s \<Rightarrow> 'w option"
    and shown :: "'v \<Rightarrow> 'w"
    and sound :: "'s \<Rightarrow> bool"
  assumes put_sound: "sound s \<Longrightarrow> sound (put t v s)"
    and put_newer: "sound s \<Longrightarrow> older (stamp_of s) t \<Longrightarrow>
      stamp_of (put t v s) = Some t \<and> value_of (put t v s) = Some (shown v)"
    and put_stale: "sound s \<Longrightarrow> \<not> older (stamp_of s) t \<Longrightarrow> put t v s = s"
begin

definition put_all :: "('t \<times> 'v) list \<Rightarrow> 's \<Rightarrow> 's" where
  "put_all es s = fold (\<lambda>(t, v). put t v) es s"

text \<open>The newest of the events that are news to a state.\<close>

definition wins :: "('t \<times> 'v) list \<Rightarrow> 's \<Rightarrow> 't \<Rightarrow> 'v \<Rightarrow> bool" where
  "wins es s t v \<longleftrightarrow> (t, v) \<in> set es \<and> older (stamp_of s) t \<and> (\<forall>e\<in>set es. fst e \<le> t)"

lemma put_all_Cons: "put_all ((t, v) # es) s = put_all es (put t v s)"
  by (simp add: put_all_def)

lemma put_all_outcome:
  assumes "sound s"
  shows "(\<exists>t v. wins es s t v \<and> stamp_of (put_all es s) = Some t \<and> value_of (put_all es s) = Some (shown v)) \<or>
         (\<forall>e\<in>set es. \<not> older (stamp_of s) (fst e)) \<and> put_all es s = s"
  using assms
proof (induction es arbitrary: s)
  case Nil
  then show ?case by (simp add: put_all_def)
next
  case (Cons e es)
  obtain t v where e: "e = (t, v)" by fastforce
  show ?case
  proof (cases "older (stamp_of s) t")
    case True
    note new = put_newer [OF Cons.prems True, of v]
    have "wins (e # es) s t' v'" if "wins es (put t v s) t' v'" for t' v'
      using that new True by (auto simp: wins_def e older_def split: option.splits)
    moreover have "wins (e # es) s t v" if "\<forall>e\<in>set es. \<not> older (stamp_of (put t v s)) (fst e)"
      using that new True by (auto simp: wins_def e older_def not_less)
    ultimately show ?thesis
      using Cons.IH [OF put_sound [OF Cons.prems], of t v] new unfolding e put_all_Cons by metis
  next
    case False
    have "wins (e # es) s t' v'" if "wins es s t' v'" for t' v'
      using that False by (auto simp: wins_def e older_def split: option.splits)
    moreover have "put_all (e # es) s = put_all es s"
      using put_stale [OF Cons.prems False] by (simp add: e put_all_Cons)
    moreover have "(\<forall>x\<in>set (e # es). \<not> older (stamp_of s) (fst x)) \<longleftrightarrow> (\<forall>x\<in>set es. \<not> older (stamp_of s) (fst x))"
      using False by (simp add: e)
    ultimately show ?thesis
      using Cons.IH [OF Cons.prems] by metis
  qed
qed

lemma wins_unique:
  assumes "wins es s t v" "wins es' s t' v'" "distinct (map fst es)" "set es = set es'"
  shows "t = t' \<and> v = v'"
proof -
  have "t = t'" using assms(1,2,4) by (force simp: wins_def intro: antisym)
  moreover from this assms have "(t, v) \<in> set es" "(t, v') \<in> set es" by (simp_all add: wins_def)
  ultimately show ?thesis using assms(3) inj_onD [of fst "set es" "(t, v)" "(t, v')"]
    by (auto simp: distinct_map)
qed

lemma order_independent:
  assumes "sound s" "distinct (map fst es)" "set es = set es'"
  shows "stamp_of (put_all es s) = stamp_of (put_all es' s) \<and> value_of (put_all es s) = value_of (put_all es' s)"
proof (cases "\<forall>e\<in>set es. \<not> older (stamp_of s) (fst e)")
  case True
  with put_all_outcome [OF assms(1), of es] put_all_outcome [OF assms(1), of es'] assms(3)
  show ?thesis by (auto simp: wins_def)
next
  case False
  with put_all_outcome [OF assms(1), of es] obtain t v where
    w: "wins es s t v" "stamp_of (put_all es s) = Some t" "value_of (put_all es s) = Some (shown v)" by blast
  from False put_all_outcome [OF assms(1), of es'] assms(3) obtain t' v' where
    w': "wins es' s t' v'" "stamp_of (put_all es' s) = Some t'" "value_of (put_all es' s) = Some (shown v')" by blast
  from wins_unique [OF w(1) w'(1) assms(2,3)] w w' show ?thesis by simp
qed

end

text \<open>A table whose row under one key carries a stamp and a value.\<close>

locale stamped_row =
  fixes key :: "'r \<Rightarrow> 'k"
    and st :: "'r \<Rightarrow> 't :: linorder option"
    and vl :: "'r \<Rightarrow> 'w option"
    and q :: "'r \<Rightarrow> bool"
    and new :: "'t \<Rightarrow> 'v \<Rightarrow> 'r"
    and upd :: "'t \<Rightarrow> 'v \<Rightarrow> 'r \<Rightarrow> 'r"
    and shown :: "'v \<Rightarrow> 'w"
    and u :: 'k
  assumes new_row: "key (new t v) = u \<and> st (new t v) = Some t \<and> vl (new t v) = Some (shown v) \<and> q (new t v)"
    and upd_row: "key (upd t v x) = key x \<and> st (upd t v x) = Some t \<and> vl (upd t v x) = Some (shown v)"
    and upd_q: "q x \<Longrightarrow> q (upd t v x)"
begin

definition put_row :: "'t \<Rightarrow> 'v \<Rightarrow> 'r list \<Rightarrow> 'r list" where
  "put_row t v = upsert_where key (new t v) (\<lambda>x. q x \<and> older (st x) t) (upd t v)"

definition row_stamp :: "'r list \<Rightarrow> 't option" where
  "row_stamp tbl = Option.bind (find (\<lambda>x. key x = u) tbl) st"

definition row_value :: "'r list \<Rightarrow> 'w option" where
  "row_value tbl = Option.bind (find (\<lambda>x. key x = u) tbl) vl"

definition row_sound :: "'r list \<Rightarrow> bool" where
  "row_sound tbl \<longleftrightarrow> keyed key tbl \<and> (\<forall>x\<in>set tbl. key x = u \<longrightarrow> q x)"

lemma find_put_row:
  "find (\<lambda>x. key x = u) (put_row t v tbl) =
     (case find (\<lambda>x. key x = u) tbl of
        None \<Rightarrow> Some (new t v)
      | Some x \<Rightarrow> Some (if q x \<and> older (st x) t then upd t v x else x))"
  unfolding put_row_def using find_upsert_where [of key "new t v" "upd t v" u] new_row upd_row
  by (auto split: option.splits)

lemma row_sound_find: "row_sound tbl \<Longrightarrow> find (\<lambda>x. key x = u) tbl = Some x \<Longrightarrow> q x"
  by (auto simp: row_sound_def dest: find_Some_in)

lemma row_sound_put:
  assumes "row_sound tbl"
  shows "row_sound (put_row t v tbl)"
proof -
  have k: "keyed key (put_row t v tbl)"
    unfolding put_row_def using assms upd_row by (intro keyed_upsert_where) (auto simp: row_sound_def)
  moreover have "q x" if "x \<in> set (put_row t v tbl)" "key x = u" for x
  proof -
    have "find (\<lambda>y. key y = u) (put_row t v tbl) = Some x"
      using find_keyed [OF k that(1)] that(2) by simp
    then show ?thesis
      using row_sound_find [OF assms] new_row upd_q
      by (auto simp: find_put_row split: option.splits if_splits)
  qed
  ultimately show ?thesis by (simp add: row_sound_def)
qed

lemma put_row_stale:
  assumes "row_sound tbl" "\<not> older (row_stamp tbl) t"
  shows "put_row t v tbl = tbl"
proof -
  obtain x where x: "find (\<lambda>y. key y = u) tbl = Some x" and nx: "\<not> older (st x) t"
    using assms(2) by (auto simp: row_stamp_def older_def split: Option.bind_splits option.splits)
  have key: "key (new t v) = u" using new_row by simp
  have "y = x" if "y \<in> set tbl" "key y = u" for y
    using that x find_keyed [of key tbl y] assms(1) by (auto simp: row_sound_def)
  with nx have "\<forall>y\<in>set tbl. \<not> (key y = u \<and> q y \<and> older (st y) t)" by auto
  then have "sql_update (\<lambda>y. key y = u \<and> q y \<and> older (st y) t) (upd t v) tbl = tbl"
    unfolding sql_update_def by (intro map_idI) auto
  moreover have "sql_exists (\<lambda>y. key y = u) tbl"
    using find_Some_in [OF x] by (auto simp: sql_exists_def)
  ultimately show ?thesis by (simp add: put_row_def upsert_where_def key)
qed

end

sublocale stamped_row \<subseteq> newest_wins put_row row_stamp row_value shown row_sound
proof
  fix s t v
  assume s: "row_sound s"
  show "row_sound (put_row t v s)" using s by (rule row_sound_put)
  show "put_row t v s = s" if "\<not> older (row_stamp s) t" using s that by (rule put_row_stale)
  show "row_stamp (put_row t v s) = Some t \<and> row_value (put_row t v s) = Some (shown v)"
    if "older (row_stamp s) t"
  proof (cases "find (\<lambda>x. key x = u) s")
    case None
    with new_row show ?thesis by (simp add: row_stamp_def row_value_def find_put_row)
  next
    case (Some x)
    with that have "older (st x) t" by (simp add: row_stamp_def)
    with Some row_sound_find [OF s Some] upd_row show ?thesis
      by (simp add: row_stamp_def row_value_def find_put_row)
  qed
qed

interpretation custodian_cell: stamped_row a_uuid a_custodian_changed_at a_custodian
    "\<lambda>a. a_kind a = Silicon" "\<lambda>t c. custodian_row now u c t"
    "\<lambda>t c a. a\<lparr>a_custodian := Some c, a_custodian_changed_at := Some t, a_refreshed_at := now\<rparr>"
    id u for now u
  by unfold_locales (simp_all add: custodian_row_def new_account_def)

interpretation id_cell: stamped_row a_uuid a_id_changed_at a_id
    "\<lambda>a. \<not> a_deleted a" "\<lambda>t i. id_change_row now u k i t"
    "\<lambda>t i a. a\<lparr>a_id := Some i, a_id_changed_at := Some t, a_refreshed_at := now\<rparr>"
    id u for now u k
  by unfold_locales (simp_all add: id_change_row_def new_account_def)

interpretation profile_cell: stamped_row a_uuid "\<lambda>a. Some (a_profile_version a)"
    "\<lambda>a. Some (a_name a, a_pfp a)" "\<lambda>a. \<not> a_deleted a"
    "\<lambda>v l. profile_row now (l\<lparr>lk_uuid := u\<rparr>) v"
    "\<lambda>v l a. a\<lparr>a_name := stored_name (lk_name l), a_pfp := stored_pfp (lk_pfp l),
              a_custodian := coalesce (map_option fst (lk_custodian l)) (a_custodian a),
              a_profile_version := v, a_refreshed_at := now\<rparr>"
    "\<lambda>l. (stored_name (lk_name l), stored_pfp (lk_pfp l))" u for now u
  by unfold_locales (simp_all add: profile_row_def new_account_def)

lemma change_custodian_cell: "change_custodian now u c t = custodian_cell.put_row now u t c"
  by (auto simp: change_custodian_def custodian_cell.put_row_def custodian_due_def fun_eq_iff upsert_where_def)

lemma change_id_cell: "change_id now u k i t = id_cell.put_row now u k t i"
  by (auto simp: change_id_def id_cell.put_row_def id_change_due_def fun_eq_iff upsert_where_def)

lemma update_profile_cell: "update_profile now (l\<lparr>lk_uuid := u\<rparr>) v = profile_cell.put_row now u v l"
  by (auto simp: update_profile_def profile_cell.put_row_def profile_due_def older_def fun_eq_iff upsert_where_def)

section \<open>Properties\<close>

lemma account_steps_advance: "account_step\<^sup>*\<^sup>* s s' \<Longrightarrow> table_advances (accounts s) (accounts s')"
  by (induction rule: rtranclp_induct) (auto intro: table_advances_trans account_step_advances)


text \<open>An account used in examples.\<close>

abbreviation nova :: account_row where
  "nova \<equiv> (new_account 0 (lit ''K1E'') Silicon)\<lparr>a_id := Some (lit ''si:nova''), a_revoked_before := Some 5\<rparr>"




text \<open>An id change makes the id exclusive: when \<open>account.id_changed\<close> takes effect the account
  holds the new id, valid and well-formed, and no other cached account does.\<close>

theorem id_change_exclusive:
  assumes "apply_id_change now u ko i at s = Inr (Changed, s')" and "keyed a_uuid (accounts s)"
  shows "valid_public_id i \<and> keyed a_uuid (accounts s') \<and>
    (\<exists>a. stored_account u (accounts s') = Some a \<and> a_id a = Some i \<and> a_id_changed_at a = Some at) \<and>
    (\<forall>a\<in>set (accounts s'). a_id a = Some i \<longrightarrow> a_uuid a = u)"
proof -
  obtain k where ok: "valid_public_id i"
    and one: "upsert_affected a_uuid (id_change_row now u k i at) (id_change_due at) (accounts s) = 1"
    and acc: "accounts s' = release_id i u (change_id now u k i at (accounts s))"
    using assms(1)
    by (auto simp: apply_id_change_def Let_def put_accounts_ok applied_of_def split: if_splits)
  define t where "t = change_id now u k i at (accounts s)"
  have key: "keyed a_uuid t"
    unfolding t_def change_id_def using assms(2) by (intro keyed_upsert_where) simp_all
  then have key': "keyed a_uuid (accounts s')"
    unfolding acc t_def [symmetric] release_id_def by (intro keyed_sql_update) simp_all
  have nu: "a_uuid (id_change_row now u k i at) = u" by (simp add: id_change_row_def new_account_def)
  have "\<exists>a. find (\<lambda>x. a_uuid x = u) t = Some a \<and> a_id a = Some i \<and> a_id_changed_at a = Some at"
  proof (cases "find (\<lambda>x. a_uuid x = u) (accounts s)")
    case None
    then show ?thesis unfolding t_def change_id_def
      by (subst find_upsert_where) (simp_all add: nu, simp add: id_change_row_def)
  next
    case (Some x)
    then have x: "x \<in> set (accounts s)" "a_uuid x = u" by (auto dest: find_Some_in)
    then have "sql_exists (\<lambda>y. a_uuid y = u) (accounts s)" by (auto simp: sql_exists_def)
    then have "rows_affected (\<lambda>y. a_uuid y = u \<and> id_change_due at y) (accounts s) = 1"
      using one by (simp add: upsert_affected_def nu)
    then have "\<exists>y\<in>set (accounts s). a_uuid y = u \<and> id_change_due at y"
      using rows_affected_pos [of "\<lambda>y. a_uuid y = u \<and> id_change_due at y" "accounts s"] by linarith
    then have "id_change_due at x" using keyed_unique [OF assms(2)] x by blast
    with Some show ?thesis unfolding t_def change_id_def
      by (subst find_upsert_where) (simp_all add: nu)
  qed
  moreover have "find (\<lambda>x. a_uuid x = u) (accounts s') = find (\<lambda>x. a_uuid x = u) t"
    unfolding acc t_def [symmetric] release_id_def
    by (subst find_keyed_update) (simp, cases "find (\<lambda>x. a_uuid x = u) t", auto dest: find_Some_in)
  moreover have "\<forall>a\<in>set (accounts s'). a_id a = Some i \<longrightarrow> a_uuid a = u"
    unfolding acc t_def [symmetric] by (auto simp: release_id_def set_sql_update)
  ultimately show ?thesis using ok key' by (auto simp: stored_account_def)
qed

theorem id_change_exclusive_witness:
  "\<exists>s'. apply_id_change 7 (lit ''K1E'') None (lit ''si:luna'') 7 (empty_db\<lparr>accounts := [nova]\<rparr>) = Inr (Changed, s') \<and>
     (\<exists>a. stored_account (lit ''K1E'') (accounts s') = Some a \<and> a_id a = Some (lit ''si:luna''))"
proof -
  have *: "apply_id_change 7 (lit ''K1E'') None (lit ''si:luna'') 7 (empty_db\<lparr>accounts := [nova]\<rparr>) =
      Inr (Changed, empty_db\<lparr>accounts := [nova\<lparr>a_id := Some (lit ''si:luna''), a_id_changed_at := Some 7, a_refreshed_at := 7\<rparr>]\<rparr>)"
    by (simp add: apply_id_change_def Let_def put_accounts_def change_id_def id_change_row_def upsert_where_def
        upsert_affected_def rows_affected_def sql_exists_def sql_update_def release_id_def id_change_due_def
        older_def account_row_ok_def new_account_def empty_db_def uuid_format_def valid_public_id_def
        strip_either_def valid_handle_def handle_char_def applied_of_def str_simps)
  have "keyed a_uuid (accounts (empty_db\<lparr>accounts := [nova]\<rparr>))" by (simp add: keyed_def)
  from id_change_exclusive [OF * this] * show ?thesis by blast
qed

text \<open>The custodian circle of a Silicon, without its allow-list.\<close>

definition in_circle :: "str \<Rightarrow> str \<Rightarrow> db \<Rightarrow> bool" where
  "in_circle silicon other s = may_reach_silicon silicon other (s\<lparr>allowances := []\<rparr>)"

lemma may_reach_iff:
  assumes "keyed a_uuid (accounts s)" "stored_account silicon (accounts s) = Some x"
  shows "may_reach_silicon silicon other s \<longleftrightarrow> in_circle silicon other s \<or>
    (\<exists>r\<in>set (allowances s). al_silicon r = silicon \<and> ar_id (al_allowed r) = other)"
proof -
  have x: "x \<in> set (accounts s)" "a_uuid x = silicon"
    using assms(2) by (auto simp: stored_account_def dest: find_Some_in)
  then show ?thesis by (auto simp: in_circle_def may_reach_silicon_def sql_exists_def)
qed

text \<open>A Silicon's allow-list opens exactly one door: after allowing an account that account may
  reach the Silicon, nobody else's reach changes, and after removing it again the account reaches
  the Silicon only through the custodian circle or another entry naming the same id.\<close>

theorem allow_list_exact:
  assumes "keyed a_uuid (accounts s)" "stored_account silicon (accounts s) = Some x"
    and "allow_contact now silicon who added_by s = Inr (fresh, s')"
  shows "may_reach_silicon silicon (ar_id who) s' \<and>
    (\<forall>silicon' other. silicon' \<noteq> silicon \<or> other \<noteq> ar_id who \<longrightarrow>
       may_reach_silicon silicon' other s' = may_reach_silicon silicon' other s) \<and>
    (may_reach_silicon silicon (ar_id who) (snd (disallow_contact silicon who s')) \<longleftrightarrow>
       in_circle silicon (ar_id who) s \<or>
       (\<exists>r\<in>set (allowances s). al_silicon r = silicon \<and> al_allowed r \<noteq> who \<and> ar_id (al_allowed r) = ar_id who))"
proof -
  let ?r = "\<lparr>al_silicon = silicon, al_allowed = who, al_added_by = added_by, al_added_at = now\<rparr>"
  have s': "s' = s\<lparr>allowances := insert_or_ignore allowance_key ?r (allowances s)\<rparr>"
    using assms(3) by (auto simp: allow_contact_def Let_def split: if_splits)
  have acc: "accounts s' = accounts s" by (simp add: s')
  have mem: "(\<exists>r\<in>set (allowances s'). al_silicon r = si \<and> ar_id (al_allowed r) = ot) \<longleftrightarrow>
      (\<exists>r\<in>set (allowances s). al_silicon r = si \<and> ar_id (al_allowed r) = ot) \<or> (si = silicon \<and> ot = ar_id who)" for si ot
    by (auto simp: s' set_insert_or_ignore sql_exists_def allowance_key_def)
  have circle: "in_circle si ot s' = in_circle si ot s" for si ot by (simp add: in_circle_def s' acc)
  have "may_reach_silicon silicon (ar_id who) s'"
    using may_reach_iff [of s' silicon x "ar_id who"] assms(1,2) acc mem by auto
  moreover have "may_reach_silicon si ot s' = may_reach_silicon si ot s"
    if "si \<noteq> silicon \<or> ot \<noteq> ar_id who" for si ot
  proof -
    have "sql_exists (\<lambda>r. al_silicon r = si \<and> ar_id (al_allowed r) = ot) (allowances s') =
        sql_exists (\<lambda>r. al_silicon r = si \<and> ar_id (al_allowed r) = ot) (allowances s)"
      using that mem [of si ot] by (auto simp: sql_exists_def)
    then show ?thesis unfolding may_reach_silicon_def acc by (intro arg_cong2 [where f = sql_exists] ext) auto
  qed
  moreover have "may_reach_silicon silicon (ar_id who) (snd (disallow_contact silicon who s')) \<longleftrightarrow>
       in_circle silicon (ar_id who) s \<or>
       (\<exists>r\<in>set (allowances s). al_silicon r = silicon \<and> al_allowed r \<noteq> who \<and> ar_id (al_allowed r) = ar_id who)"
  proof -
    let ?s = "snd (disallow_contact silicon who s')"
    have "accounts ?s = accounts s" by (simp add: disallow_contact_def Let_def acc)
    moreover have "in_circle silicon (ar_id who) ?s = in_circle silicon (ar_id who) s"
      by (simp add: in_circle_def disallow_contact_def Let_def s')
    moreover have "(\<exists>r\<in>set (allowances ?s). al_silicon r = silicon \<and> ar_id (al_allowed r) = ar_id who) \<longleftrightarrow>
        (\<exists>r\<in>set (allowances s). al_silicon r = silicon \<and> al_allowed r \<noteq> who \<and> ar_id (al_allowed r) = ar_id who)"
    proof -
      have "set (allowances ?s) = {r \<in> set (allowances s). allowance_key r \<noteq> (silicon, who)}"
        by (auto simp: disallow_contact_def Let_def s' set_sql_delete set_insert_or_ignore allowance_key_def
            split: if_splits)
      then show ?thesis by (auto simp: allowance_key_def)
    qed
    ultimately show ?thesis using may_reach_iff [of ?s silicon x] assms(1,2) by simp
  qed
  ultimately show ?thesis by blast
qed

theorem allow_list_exact_witness:
  "may_reach_silicon (lit ''K1E'') (lit ''zQo'')
     (snd (projr (allow_contact 1 (lit ''K1E'') (actor Carbon (lit ''zQo'')) (lit ''K1E'') (empty_db\<lparr>accounts := [nova]\<rparr>))))"
proof -
  have *: "allow_contact 1 (lit ''K1E'') (actor Carbon (lit ''zQo'')) (lit ''K1E'') (empty_db\<lparr>accounts := [nova]\<rparr>) =
      Inr (True, empty_db\<lparr>accounts := [nova], allowances :=
        [\<lparr>al_silicon = lit ''K1E'', al_allowed = actor Carbon (lit ''zQo''), al_added_by = lit ''K1E'', al_added_at = 1\<rparr>]\<rparr>)"
    by (simp add: allow_contact_def Let_def insert_or_ignore_def sql_exists_def empty_db_def)
  have "stored_account (lit ''K1E'') (accounts (empty_db\<lparr>accounts := [nova]\<rparr>)) = Some nova"
    by (simp add: stored_account_def new_account_def)
  from allow_list_exact [OF _ this *] * show ?thesis by (simp add: keyed_def)
qed

text \<open>The sign-in cutoff compares at the precision of the token: with \<open>iat\<close> in whole seconds,
  \<open>Before\<close> is answered exactly when every instant the token can have been issued at precedes the
  cutoff, and \<open>After\<close> exactly when every such instant follows it.\<close>

theorem token_order_exact:
  "(token_order issued cutoff = Before \<longleftrightarrow> (\<forall>r. issued \<le> r \<and> r < issued + second \<longrightarrow> r < cutoff)) \<and>
   (token_order issued cutoff = After \<longleftrightarrow> (\<forall>r. issued \<le> r \<and> r < issued + second \<longrightarrow> cutoff < r))"
proof -
  have "issued + second \<le> cutoff" if "\<forall>r. issued \<le> r \<and> r < issued + second \<longrightarrow> r < cutoff"
    using that [rule_format, of "issued + second - 1"] by (simp add: second_def)
  moreover have "cutoff < issued" if "\<forall>r. issued \<le> r \<and> r < issued + second \<longrightarrow> cutoff < r"
    using that [rule_format, of issued] by (simp add: second_def)
  ultimately show ?thesis by (auto simp: token_order_def second_def)
qed

theorem token_order_exact_witness:
  "token_order (12 * second) (12 * second + 700000000) = SameSecond"
  using token_order_exact [of "12 * second" "12 * second + 700000000"]
  by (auto simp: token_order_def second_def)

text \<open>The times at which a throttle lets a request through.\<close>

fun granted :: "int \<Rightarrow> str \<Rightarrow> instant list \<Rightarrow> (str \<rightharpoonup> instant) \<Rightarrow> instant list" where
  "granted interval u [] m = []"
| "granted interval u (now # later) m =
     (let (due, m') = throttle interval now u m in
      (if due then [now] else []) @ granted interval u later m')"

lemma granted_spaced:
  assumes "0 < interval" "sorted ts"
  shows "sorted_wrt (\<lambda>a b. interval \<le> b - a) (granted interval u ts m) \<and>
    (\<forall>g\<in>set (granted interval u ts m). g \<in> set ts \<and> (\<forall>p. m u = Some p \<longrightarrow> interval \<le> g - p))"
  using assms(2)
proof (induction ts arbitrary: m)
  case (Cons now ts)
  have sorted: "sorted ts" "\<forall>x\<in>set ts. now \<le> x" using Cons.prems by auto
  show ?case
  proof (cases "\<exists>p. m u = Some p \<and> max 0 (now - p) < interval")
    case True
    then have "throttle interval now u m = (False, m)" by (auto simp: throttle_def)
    with Cons.IH [OF sorted(1), of m] show ?thesis by auto
  next
    case False
    then have th: "throttle interval now u m = (True, m(u \<mapsto> now))"
      by (auto simp: throttle_def split: option.splits)
    have far: "interval \<le> now - p" if "m u = Some p" for p
      using False that assms(1) by (auto simp: max_def split: if_splits)
    define m' where "m' = m(u \<mapsto> now)"
    have m': "m' u = Some now" by (simp add: m'_def)
    from Cons.IH [OF sorted(1), of m'] m' have
      ih: "sorted_wrt (\<lambda>a b. interval \<le> b - a) (granted interval u ts m')"
        "\<And>g. g \<in> set (granted interval u ts m') \<Longrightarrow> g \<in> set ts \<and> interval \<le> g - now" by auto
    moreover have "interval \<le> g - p" if "g \<in> set (granted interval u ts m')" "m u = Some p" for g p
      using ih(2) [OF that(1)] far [OF that(2)] assms(1) by simp
    ultimately show ?thesis using th [folded m'_def] far by auto
  qed
qed simp

text \<open>The process-local throttles work per account: over any sequence of requests the enrolment
  check of one account is let through at most once per ten minutes and enrichment at most once per
  minute, and the first request of a new process is let through.\<close>

theorem throttles_spaced:
  assumes "sorted ts"
  shows "sorted_wrt (\<lambda>a b. ting_check_interval \<le> b - a) (granted ting_check_interval u ts m) \<and>
    sorted_wrt (\<lambda>a b. enrich_retry \<le> b - a) (granted enrich_retry u ts m) \<and>
    fst (ting_check_due now u Map.empty) \<and> fst (may_enrich now u Map.empty)"
  using granted_spaced [OF _ assms, of ting_check_interval u m] granted_spaced [OF _ assms, of enrich_retry u m]
  by (simp add: ting_check_interval_def enrich_retry_def second_def ting_check_due_def may_enrich_def throttle_def)

theorem throttles_spaced_witness:
  "sorted_wrt (\<lambda>a b. enrich_retry \<le> b - a) (granted enrich_retry (lit ''K1E'') [0, 1, 90 * second] Map.empty)"
  using throttles_spaced [of "[0, 1, 90 * second]" "lit ''K1E''" Map.empty 0]
  by (simp add: second_def)

end
