(* ===== verification/Protocol.thy ===== *)
theory Protocol
  imports DM_Prelude
begin

text \<open>
  The wire contract shared by the service, the client and the command line
  (\<open>crates/protocol/src/lib.rs\<close>): conversation-local message and bundle codes, group
  addresses, and the operation discriminators of the JSON envelope.
\<close>

section \<open>Message and bundle codes\<close>

definition base36_digit :: "nat \<Rightarrow> uchar" where
  "base36_digit d = (if d < 10 then 48 + d else 87 + d)"

text \<open>The digit loop of \<open>message_code\<close>, least significant digit first.\<close>

fun base36_digits :: "nat \<Rightarrow> str" where
  "base36_digits value =
     base36_digit (value mod 36) # (if value div 36 = 0 then [] else base36_digits (value div 36))"

declare base36_digits.simps [simp del]

function pad_three :: "str \<Rightarrow> str" where
  "pad_three digits = (if length digits < 3 then pad_three (digits @ [48]) else digits)"
  by pat_completeness auto
termination
  by (relation "measure (\<lambda>digits. 3 - length digits)") auto

declare pad_three.simps [simp del]

definition message_code :: "int \<Rightarrow> str option" where
  "message_code sequence =
     (case checked_i64 (sequence - 1) of
        None \<Rightarrow> None
      | Some value \<Rightarrow>
          if value < 0 then None else Some (rev (pad_three (base36_digits (nat value)))))"

definition digit_value :: "nat \<Rightarrow> nat option" where
  "digit_value byte =
     (if 48 \<le> byte \<and> byte \<le> 57 then Some (byte - 48)
      else if 97 \<le> byte \<and> byte \<le> 122 then Some (byte - 97 + 10)
      else None)"

text \<open>The decoding loop: multiply and add, each checked for overflow.\<close>

fun decode_digits :: "nat list \<Rightarrow> int \<Rightarrow> int option" where
  "decode_digits [] value = Some value"
| "decode_digits (byte # rest) value =
     (case digit_value byte of
        None \<Rightarrow> None
      | Some digit \<Rightarrow>
          (case checked_i64 (value * 36) of
             None \<Rightarrow> None
           | Some v \<Rightarrow>
               (case checked_i64 (v + int digit) of
                  None \<Rightarrow> None
                | Some v' \<Rightarrow> decode_digits rest v')))"

definition message_sequence :: "str \<Rightarrow> int option" where
  "message_sequence code =
     (if \<not> (3 \<le> str_len code \<and> str_len code \<le> 13) then None
      else (case decode_digits (bytes code) 0 of
              None \<Rightarrow> None
            | Some value \<Rightarrow>
                (case checked_i64 (value + 1) of
                   None \<Rightarrow> None
                 | Some sequence \<Rightarrow>
                     (case message_code sequence of
                        None \<Rightarrow> None
                      | Some canonical \<Rightarrow> if canonical = code then Some sequence else None))))"

definition bundle_code :: "int \<Rightarrow> str option" where
  "bundle_code sequence =
     (if sequence < 1 then None
      else (case checked_i64 (sequence + 1) of None \<Rightarrow> None | Some s \<Rightarrow> message_code s))"

definition bundle_sequence :: "str \<Rightarrow> int option" where
  "bundle_sequence code =
     (case message_sequence code of
        None \<Rightarrow> None
      | Some m \<Rightarrow>
          (case checked_i64 (m - 1) of
             None \<Rightarrow> None
           | Some sequence \<Rightarrow> if sequence > 0 then Some sequence else None))"

subsection \<open>Digit strings and their value\<close>

fun lsd_value :: "nat list \<Rightarrow> nat" where
  "lsd_value [] = 0"
| "lsd_value (d # ds) = d + 36 * lsd_value ds"

definition msd_value :: "nat list \<Rightarrow> nat \<Rightarrow> nat" where
  "msd_value ds v = fold (\<lambda>d v. v * 36 + d) ds v"

lemma msd_value_simps [simp]:
  "msd_value [] v = v"
  "msd_value (d # ds) v = msd_value ds (v * 36 + d)"
  by (simp_all add: msd_value_def)

lemma msd_value_rev: "msd_value (rev ds) 0 = lsd_value ds"
proof -
  have "msd_value (xs @ [d]) v = msd_value xs v * 36 + d" for xs d v
    by (simp add: msd_value_def)
  then show ?thesis by (induction ds) simp_all
qed

lemma msd_value_mono: "v \<le> msd_value ds v"
proof (induction ds arbitrary: v)
  case Nil
  show ?case by simp
next
  case (Cons d ds)
  have "v \<le> v * 36 + d" by simp
  also have "\<dots> \<le> msd_value ds (v * 36 + d)" by (rule Cons.IH)
  finally show ?case by simp
qed

lemma digit_value_base36 [simp]: "d < 36 \<Longrightarrow> digit_value (base36_digit d) = Some d"
  by (auto simp: digit_value_def base36_digit_def)

lemma digit_value_Some: "digit_value b = Some d \<Longrightarrow> d < 36 \<and> b = base36_digit d \<and> b < 128"
  by (auto simp: digit_value_def base36_digit_def split: if_splits)

lemma base36_digit_ascii: "d < 36 \<Longrightarrow> base36_digit d < 128"
  by (simp add: base36_digit_def)

lemma decode_digits_value:
  assumes "\<forall>d\<in>set ds. d < 36" and "is_i64 (int (msd_value ds v))"
  shows "decode_digits (map base36_digit ds) (int v) = Some (int (msd_value ds v))"
  using assms
proof (induction ds arbitrary: v)
  case Nil
  then show ?case by simp
next
  case (Cons d ds)
  let ?v = "v * 36 + d"
  have "int ?v \<le> int (msd_value ds ?v)" using msd_value_mono [of ?v ds] by simp
  with Cons.prems have v: "is_i64 (int ?v)" by (auto intro: is_i64_between)
  then have "is_i64 (int v * 36)" by (rule is_i64_between) simp_all
  moreover have "is_i64 (int v * 36 + int d)" using v by simp
  moreover have "decode_digits (map base36_digit ds) (int ?v) = Some (int (msd_value ds ?v))"
    using Cons.IH [of ?v] Cons.prems by simp
  ultimately show ?case using Cons.prems by (simp add: checked_i64_def)
qed

text \<open>The digits of a number, as values.\<close>

fun digit_list :: "nat \<Rightarrow> nat list" where
  "digit_list v = v mod 36 # (if v div 36 = 0 then [] else digit_list (v div 36))"

declare digit_list.simps [simp del]

lemma base36_digits_map: "base36_digits v = map base36_digit (digit_list v)"
proof (induction v rule: digit_list.induct)
  case (1 v)
  then show ?case by (simp add: base36_digits.simps [of v] digit_list.simps [of v])
qed

lemma digit_list_value: "lsd_value (digit_list v) = v"
proof (induction v rule: digit_list.induct)
  case (1 v)
  show ?case
  proof (cases "v div 36 = 0")
    case True
    then have "v mod 36 = v" by (simp add: div_eq_0_iff)
    with True show ?thesis by (simp add: digit_list.simps [of v])
  next
    case False
    with 1 have "lsd_value (digit_list (v div 36)) = v div 36" by simp
    with False show ?thesis by (simp add: digit_list.simps [of v])
  qed
qed

lemma digit_list_small: "\<forall>d\<in>set (digit_list v). d < 36"
proof (induction v rule: digit_list.induct)
  case (1 v)
  show ?case
  proof (cases "v div 36 = 0")
    case True
    then show ?thesis by (simp add: digit_list.simps [of v])
  next
    case False
    then have "\<forall>d\<in>set (digit_list (v div 36)). d < 36" by (rule "1")
    with False show ?thesis by (subst digit_list.simps) auto
  qed
qed

lemma digit_list_length: "v < 36 ^ n \<Longrightarrow> 0 < n \<Longrightarrow> length (digit_list v) \<le> n"
proof (induction n arbitrary: v)
  case 0
  then show ?case by simp
next
  case (Suc n)
  show ?case
  proof (cases "v div 36 = 0")
    case True
    then show ?thesis by (simp add: digit_list.simps [of v])
  next
    case False
    from Suc.prems have "v div 36 < 36 ^ n" by (simp add: less_mult_imp_div_less mult.commute)
    moreover from this False have "0 < n" by (cases n) simp_all
    ultimately show ?thesis using Suc.IH [of "v div 36"] False
      by (simp add: digit_list.simps [of v])
  qed
qed

lemma pad_three_eq: "pad_three ds = ds @ replicate (3 - length ds) 48"
proof (induction ds rule: pad_three.induct)
  case (1 ds)
  show ?case
  proof (cases "length ds < 3")
    case True
    then have "3 - length ds = Suc (3 - length (ds @ [48]))" by simp
    with 1 True show ?thesis by (simp add: pad_three.simps [of ds])
  next
    case False
    then show ?thesis by (simp add: pad_three.simps [of ds])
  qed
qed

lemma lsd_value_pad: "lsd_value (ds @ replicate n 0) = lsd_value ds"
proof -
  have "lsd_value (replicate n 0) = 0" by (induction n) simp_all
  then show ?thesis by (induction ds) simp_all
qed

definition code_digits :: "nat \<Rightarrow> nat list" where
  "code_digits v = rev (digit_list v @ replicate (3 - length (digit_list v)) 0)"

lemma message_code_digits:
  "is_i64 s \<Longrightarrow> message_code s = (if s < 1 then None else Some (map base36_digit (code_digits (nat (s - 1)))))"
proof -
  assume s: "is_i64 s"
  show ?thesis
  proof (cases "s < 1")
    case True
    then show ?thesis by (auto simp: message_code_def split: option.splits)
  next
    case False
    with s have "is_i64 (s - 1)" by (auto intro: is_i64_between)
    moreover have "base36_digit 0 = 48" by (simp add: base36_digit_def)
    ultimately show ?thesis using False
      by (simp add: message_code_def code_digits_def pad_three_eq base36_digits_map rev_map
          checked_i64_def)
  qed
qed

lemma code_digits_facts:
  "\<forall>d\<in>set (code_digits v). d < 36"
  "msd_value (code_digits v) 0 = v"
  "3 \<le> length (code_digits v)"
  "v < 36 ^ 13 \<Longrightarrow> length (code_digits v) \<le> 13"
proof -
  show "\<forall>d\<in>set (code_digits v). d < 36"
    using digit_list_small [of v] by (auto simp: code_digits_def)
  show "msd_value (code_digits v) 0 = v"
    unfolding code_digits_def msd_value_rev by (simp add: lsd_value_pad digit_list_value)
  show "3 \<le> length (code_digits v)" by (simp add: code_digits_def)
  show "v < 36 ^ 13 \<Longrightarrow> length (code_digits v) \<le> 13"
    using digit_list_length [of v 13] by (simp add: code_digits_def)
qed

subsection \<open>The codec contract\<close>

text \<open>
  Both code families are partial codecs: decoding yields exactly the encodable values whose
  code it was given, so codes are unambiguous and have no aliases.
\<close>

locale partial_codec =
  fixes enc :: "'a \<Rightarrow> 'b option" and dec :: "'b \<Rightarrow> 'a option" and valid :: "'a \<Rightarrow> bool"
  assumes dec_iff: "dec c = Some x \<longleftrightarrow> valid x \<and> enc x = Some c"
begin

lemma dec_enc: "valid x \<Longrightarrow> enc x = Some c \<Longrightarrow> dec c = Some x"
  by (simp add: dec_iff)

lemma enc_inj: "valid x \<Longrightarrow> valid y \<Longrightarrow> enc x = Some c \<Longrightarrow> enc y = Some c \<Longrightarrow> x = y"
  using dec_enc [of x c] dec_enc [of y c] by simp

lemma no_alias: "dec c = Some x \<Longrightarrow> dec c' = Some x \<Longrightarrow> c = c'"
  by (simp add: dec_iff)

end

lemma message_sequence_sound:
  "message_sequence c = Some s \<Longrightarrow> is_i64 s \<and> message_code s = Some c"
  by (auto simp: message_sequence_def split: if_splits option.splits)

lemma message_sequence_complete:
  assumes s: "is_i64 s" and c: "message_code s = Some c"
  shows "message_sequence c = Some s"
proof -
  let ?v = "nat (s - 1)"
  let ?ds = "code_digits ?v"
  from s c have pos: "1 \<le> s" and c_eq: "c = map base36_digit ?ds"
    by (auto simp: message_code_digits split: if_splits)
  note ds = code_digits_facts [of ?v]
  have "\<forall>x\<in>set c. x < 128"
    using ds(1) by (auto simp: c_eq base36_digit_ascii)
  then have b: "bytes c = c" by (rule bytes_ascii)
  have "?v < 36 ^ 13" using s pos by (simp add: is_i64_def i64_max_def nat_less_iff)
  with ds(3,4) b have len: "3 \<le> str_len c \<and> str_len c \<le> 13"
    by (simp add: str_len_def c_eq)
  have "is_i64 (s - 1)" using s pos by (auto intro: is_i64_between)
  then have "decode_digits c (int 0) = Some (int ?v)"
    using decode_digits_value [of ?ds 0] ds(1,2) pos by (simp add: c_eq)
  with len b s c pos show ?thesis
    by (simp add: message_sequence_def checked_i64_def)
qed

interpretation message_codec: partial_codec message_code message_sequence is_i64
  by unfold_locales (use message_sequence_sound message_sequence_complete in blast)

lemma bundle_sequence_iff:
  "bundle_sequence c = Some s \<longleftrightarrow> is_i64 s \<and> bundle_code s = Some c"
proof
  assume "bundle_sequence c = Some s"
  then obtain m where "message_sequence c = Some m" "s = m - 1" "is_i64 s" "0 < s"
    by (auto simp: bundle_sequence_def split: option.splits if_splits)
  then show "is_i64 s \<and> bundle_code s = Some c"
    using message_codec.dec_iff [of c m] by (auto simp: bundle_code_def checked_i64_def)
next
  assume "is_i64 s \<and> bundle_code s = Some c"
  then have "is_i64 s" "1 \<le> s" "is_i64 (s + 1)" "message_code (s + 1) = Some c"
    by (auto simp: bundle_code_def split: option.splits if_splits)
  then show "bundle_sequence c = Some s"
    using message_codec.dec_enc [of "s + 1" c] by (simp add: bundle_sequence_def checked_i64_def)
qed

interpretation bundle_codec: partial_codec bundle_code bundle_sequence is_i64
  by unfold_locales (rule bundle_sequence_iff)

section \<open>Group addresses\<close>

definition valid_slug :: "str \<Rightarrow> bool" where
  "valid_slug slug \<longleftrightarrow>
     slug \<noteq> [] \<and> str_len slug \<le> 140 \<and> \<not> prefix (lit ''-'') slug \<and> \<not> suffix (lit ''-'') slug \<and>
     \<not> contains_str (lit ''--'') slug \<and>
     (\<forall>c\<in>set (bytes slug). is_ascii_lowercase c \<or> is_ascii_digit c \<or> c = 45)"

definition valid_group_id :: "str \<Rightarrow> bool" where
  "valid_group_id value =
     (case strip_prefix (lit ''g:'') value of
        None \<Rightarrow> False
      | Some rest \<Rightarrow>
          (case split_once 58 rest of
             None \<Rightarrow> valid_slug rest
           | Some (org, slug) \<Rightarrow>
               (case bytes org of [] \<Rightarrow> False | b # _ \<Rightarrow> is_ascii_alphanumeric b) \<and>
               str_len org \<le> 255 \<and>
               (\<forall>c\<in>set (bytes org). is_ascii_alphanumeric c \<or> c = 45 \<or> c = 95) \<and>
               valid_slug slug))"

text \<open>Characters that may stand in a group address: none of them is special in a URL path.\<close>

definition address_char :: "uchar \<Rightarrow> bool" where
  "address_char c \<longleftrightarrow> is_ascii_alphanumeric c \<or> c = 45 \<or> c = 95 \<or> c = 58"

lemma address_char_ascii: "address_char c \<Longrightarrow> c < 128"
  by (auto simp: address_char_def str_simps)

lemma bytes_address_chars:
  assumes "\<forall>c\<in>set (bytes s). address_char c"
  shows "\<forall>c\<in>set s. address_char c" and "str_len s = length s"
proof -
  have "bytes s = s" using assms by (intro ascii_bytes) (blast intro: address_char_ascii)
  with assms show "\<forall>c\<in>set s. address_char c" and "str_len s = length s"
    by (simp_all add: str_len_def)
qed

lemma valid_slug_chars:
  assumes "valid_slug slug"
  shows "\<forall>c\<in>set slug. address_char c \<and> c \<noteq> 58" and "length slug \<le> 140"
proof -
  have slug: "\<forall>c\<in>set (bytes slug). address_char c \<and> c \<noteq> 58"
    using assms by (auto simp: valid_slug_def address_char_def is_ascii_alphanumeric_def
        is_ascii_lowercase_def is_ascii_digit_def)
  then have "bytes slug = slug" by (intro ascii_bytes) (blast intro: address_char_ascii)
  with slug assms show "\<forall>c\<in>set slug. address_char c \<and> c \<noteq> 58" and "length slug \<le> 140"
    by (simp_all add: valid_slug_def str_len_def)
qed

lemma split_once_append [simp]: "c \<notin> set a \<Longrightarrow> split_once c (a @ c # b) = Some (a, b)"
proof -
  assume "c \<notin> set a"
  then have "takeWhile (\<lambda>x. x \<noteq> c) (a @ c # b) = a" and "dropWhile (\<lambda>x. x \<noteq> c) (a @ c # b) = c # b"
    by (induction a) auto
  then show ?thesis by (simp add: split_once_def)
qed

section \<open>Operation discriminators\<close>

text \<open>\<open>http_type\<close> matches the method and the path segments against this table, in order;
  \<open>Any\<close> is a wildcard segment, a missing method matches every method.\<close>

datatype segment = Lit string | Any

definition http_routes :: "(string option \<times> segment list \<times> string) list" where
  "http_routes =
   [(Some ''POST'', [Lit ''messages''], ''message.create''),
    (None, [Lit ''me''], ''me''),
    (None, [Lit ''accounts''], ''accounts''),
    (None, [Lit ''contracts''], ''contracts''),
    (None, [Lit ''sync''], ''sync''),
    (None, [Lit ''delivery''], ''delivery''),
    (Some ''PUT'', [Lit ''presence'', Lit ''devices'', Any], ''renew_presence''),
    (Some ''DELETE'', [Lit ''presence'', Lit ''devices'', Any], ''close_presence''),
    (None, [Lit ''reports''], ''report''),
    (None, [Lit ''invitations''], ''invitations''),
    (Some ''POST'', [Lit ''allow-list''], ''allow_list_add''),
    (Some ''DELETE'', [Lit ''allow-list''], ''allow_list_remove''),
    (None, [Lit ''allow-list''], ''allow_list''),
    (Some ''POST'', [Lit ''groups''], ''create_group''),
    (None, [Lit ''groups''], ''groups''),
    (Some ''PATCH'', [Lit ''groups'', Any], ''update_group''),
    (None, [Lit ''groups'', Any], ''group''),
    (Some ''DELETE'', [Lit ''groups'', Any, Lit ''members''], ''remove_group_members''),
    (None, [Lit ''groups'', Any, Lit ''members''], ''invite_group_members''),
    (Some ''DELETE'', [Lit ''groups'', Any, Lit ''owners''], ''remove_group_owners''),
    (None, [Lit ''groups'', Any, Lit ''owners''], ''add_group_owners''),
    (None, [Lit ''groups'', Any, Lit ''accept''], ''accept_group_invitation''),
    (None, [Lit ''groups'', Any, Lit ''decline''], ''decline_group_invitation''),
    (None, [Lit ''groups'', Any, Lit ''leave''], ''leave_group''),
    (Some ''POST'', [Lit ''conversations''], ''create_conversation''),
    (None, [Lit ''conversations''], ''conversations''),
    (Some ''POST'', [Lit ''conversations'', Any, Lit ''messages''], ''message.create''),
    (None, [Lit ''conversations'', Any, Lit ''messages''], ''messages''),
    (Some ''PATCH'', [Lit ''conversations'', Any, Lit ''messages'', Any], ''message.updated''),
    (Some ''DELETE'', [Lit ''conversations'', Any, Lit ''messages'', Any], ''message.deleted''),
    (None, [Lit ''conversations'', Any, Lit ''messages'', Any], ''message''),
    (None, [Lit ''conversations'', Any, Lit ''messages'', Any, Lit ''receipts''], ''receipt''),
    (None, [Lit ''conversations'', Any, Lit ''bundles''], ''create_bundle''),
    (None, [Lit ''conversations'', Any, Lit ''bundles'', Any], ''bundle''),
    (Some ''PUT'', [Lit ''conversations'', Any, Lit ''draft''], ''put_draft''),
    (Some ''DELETE'', [Lit ''conversations'', Any, Lit ''draft''], ''delete_draft''),
    (None, [Lit ''conversations'', Any, Lit ''draft''], ''draft''),
    (None, [Lit ''presence'', Any], ''presence''),
    (None, [Lit ''gifs'', Any], ''gifs''),
    (None, [Lit ''requests''], ''request''),
    (None, [Lit ''requests'', Any, Lit ''status''], ''request_status''),
    (None, [Lit ''requests'', Any], ''request_result''),
    (None, [Lit ''status''], ''relay_status''),
    (None, [Lit ''shutdown''], ''shutdown'')]"

fun segments_match :: "segment list \<Rightarrow> str list \<Rightarrow> bool" where
  "segments_match [] [] = True"
| "segments_match (Lit l # ps) (w # ws) = (w = lit l \<and> segments_match ps ws)"
| "segments_match (Any # ps) (w # ws) = segments_match ps ws"
| "segments_match _ _ = False"

definition path_segments :: "str \<Rightarrow> str list" where
  "path_segments path =
     (let path = hd (split_on 63 path);
          path = (case strip_prefix (lit ''/api/v1/'') path of Some rest \<Rightarrow> rest | None \<Rightarrow> path)
      in split_on 47 (trim_matches 47 path))"

definition http_type :: "string \<Rightarrow> str \<Rightarrow> string" where
  "http_type m path =
     (case find (\<lambda>(mt, ps, _). (mt = None \<or> mt = Some m) \<and> segments_match ps (path_segments path))
             http_routes of
        Some (_, _, t) \<Rightarrow> t
      | None \<Rightarrow> ''response'')"

definition http_response_type :: "string \<Rightarrow> str \<Rightarrow> string" where
  "http_response_type m path =
     (let t = http_type m path in if t = ''message.create'' then ''message.create.successful'' else t)"

lemma split_on_nonempty [simp]: "split_on c s \<noteq> []"
  by (induction s) (auto split: list.splits)

lemma split_on_head: "c \<notin> set s \<Longrightarrow> hd (split_on c (s @ c # t)) = s"
proof (induction s)
  case Nil
  then show ?case by simp
next
  case (Cons x s)
  obtain w ws where "split_on c (s @ c # t) = w # ws"
    by (metis neq_Nil_conv split_on_nonempty)
  with Cons show ?case by auto
qed

lemma split_on_self: "c \<notin> set s \<Longrightarrow> split_on c s = [s]"
  by (induction s) auto

section \<open>Properties\<close>

text \<open>C34. Public message codes are a lossless addressing scheme: a code decodes to a sequence
  exactly when that sequence is an \<open>i64\<close> whose code it is. Every alias (extra zeros,
  upper case, overflow, other characters) is refused.\<close>

theorem message_code_roundtrip:
  "message_sequence c = Some s \<longleftrightarrow> is_i64 s \<and> message_code s = Some c"
  by (rule message_codec.dec_iff)

text \<open>Every positive sequence has a code of 3 to 13 characters, all of them lower-case
  letters or digits, and no two sequences share one.\<close>

theorem message_code_total:
  assumes "is_i64 s" and "1 \<le> s"
  shows "\<exists>c. message_code s = Some c \<and> 3 \<le> length c \<and> length c \<le> 13 \<and>
           (\<forall>x\<in>set c. is_ascii_lowercase x \<or> is_ascii_digit x) \<and>
           (\<forall>t. is_i64 t \<longrightarrow> message_code t = Some c \<longrightarrow> t = s)"
proof -
  let ?v = "nat (s - 1)"
  note ds = code_digits_facts [of ?v]
  have c: "message_code s = Some (map base36_digit (code_digits ?v))"
    using assms by (simp add: message_code_digits)
  have "?v < 36 ^ 13" using assms by (simp add: is_i64_def i64_max_def nat_less_iff)
  moreover have "\<forall>x\<in>set (map base36_digit (code_digits ?v)). is_ascii_lowercase x \<or> is_ascii_digit x"
    using ds(1) by (auto simp: base36_digit_def is_ascii_lowercase_def is_ascii_digit_def)
  ultimately show ?thesis
    using c ds(3,4) message_codec.enc_inj assms(1) by auto
qed

theorem message_code_total_witness:
  "\<exists>c. message_code 46657 = Some c \<and> 3 \<le> length c \<and> length c \<le> 13 \<and> message_code 46656 \<noteq> Some c"
proof -
  have "is_i64 46657" "is_i64 46656" by (simp_all add: is_i64_def i64_min_def i64_max_def)
  then obtain c where c: "message_code 46657 = Some c" "3 \<le> length c" "length c \<le> 13"
    and u: "\<forall>t. is_i64 t \<longrightarrow> message_code t = Some c \<longrightarrow> t = 46657"
    using message_code_total [of 46657] by (metis one_le_numeral)
  from u \<open>is_i64 46656\<close> have "message_code 46656 = Some c \<longrightarrow> (46656::int) = 46657" by blast
  then have "message_code 46656 \<noteq> Some c" by simp
  with c show ?thesis by blast
qed

text \<open>Bundle codes form a lossless addressing scheme of their own.\<close>

theorem bundle_code_roundtrip:
  "bundle_sequence c = Some s \<longleftrightarrow> is_i64 s \<and> bundle_code s = Some c"
  by (rule bundle_codec.dec_iff)

text \<open>A group address is safe in a URL path and bounded: it only holds ASCII letters,
  digits, dashes, underscores and colons (so no slash, question mark or percent sign) and has
  at most 398 characters.\<close>

theorem valid_group_id_safe:
  assumes "valid_group_id v"
  shows "(\<forall>c\<in>set v. address_char c) \<and> length v \<le> 398"
proof -
  obtain rest where v: "v = lit ''g:'' @ rest"
    using assms by (auto simp: valid_group_id_def strip_prefix_Some split: option.splits)
  then have "strip_prefix (lit ''g:'') v = Some rest" by (simp add: strip_prefix_Some)
  with assms have rest: "case split_once 58 rest of None \<Rightarrow> valid_slug rest
      | Some (org, slug) \<Rightarrow> str_len org \<le> 255 \<and> (\<forall>c\<in>set (bytes org). address_char c) \<and> valid_slug slug"
    by (auto simp: valid_group_id_def address_char_def split: option.splits)
  have g: "\<forall>c\<in>set (lit ''g:''). address_char c" and "length (lit ''g:'') = 2"
    by (simp_all add: lit_def address_char_def str_simps)
  moreover have "(\<forall>c\<in>set rest. address_char c) \<and> length rest \<le> 396"
  proof (cases "split_once 58 rest")
    case None
    with rest show ?thesis using valid_slug_chars [of rest] by auto
  next
    case (Some os)
    obtain org slug where os: "os = (org, slug)" by (cases os)
    with Some have "rest = org @ 58 # slug" using split_once_SomeD by blast
    moreover from Some os rest have "\<forall>c\<in>set (bytes org). address_char c"
      and "str_len org \<le> 255" and "valid_slug slug" by simp_all
    moreover have "address_char 58" by (simp add: address_char_def)
    ultimately show ?thesis
      using bytes_address_chars [of org] valid_slug_chars [of slug] by auto
  qed
  ultimately show ?thesis unfolding v by auto
qed

theorem valid_group_id_safe_witness:
  "address_char (hd (lit ''g:tos:product-design'')) \<and> length (lit ''g:tos:product-design'') \<le> 398"
proof -
  have "valid_group_id (lit ''g:tos:product-design'')" by code_simp
  from valid_group_id_safe [OF this] show ?thesis by (simp add: lit_def)
qed

text \<open>The operation a request names does not depend on its query string.\<close>

theorem http_type_ignores_query:
  assumes "63 \<notin> set path"
  shows "http_type m (path @ 63 # query) = http_type m path"
  using assms by (simp add: http_type_def path_segments_def split_on_head split_on_self)

theorem http_type_ignores_query_witness:
  "http_type ''PATCH'' (lit ''/api/v1/conversations/x/messages/00a'' @ 63 # lit ''a=1'') = ''message.updated''"
proof -
  have "(63::nat) \<notin> set (lit ''/api/v1/conversations/x/messages/00a'')" by code_simp
  moreover have "http_type ''PATCH'' (lit ''/api/v1/conversations/x/messages/00a'') = ''message.updated''"
    by code_simp
  ultimately show ?thesis using http_type_ignores_query by simp
qed

end
