(* ===== verification/DM_Groups.thy ===== *)
theory DM_Groups
  imports Accounts Protocol
begin

text \<open>
  Groups (\<open>src/infrastructure/postgres/groups.rs\<close>): co-equal owners, invitations that must be
  accepted, members leaving, and a group never left without an owner. The triggers and views a
  group statement runs are those of the migrations: \<open>sync_group_conversation\<close> keeps the roster,
  \<open>assign_group_public_id\<close> allocates the public address. Deleting an account
  (\<open>delete_account\<close> of the accounts store) is here because it hands groups over.
\<close>

section \<open>Public addresses\<close>

definition slug_char :: "uchar \<Rightarrow> bool" where
  "slug_char c \<longleftrightarrow> is_ascii_lowercase c \<or> is_ascii_digit c"

text \<open>Every maximal run of other characters becomes one hyphen.\<close>

fun dash_runs :: "bool \<Rightarrow> str \<Rightarrow> str" where
  "dash_runs in_run [] = []"
| "dash_runs in_run (c # cs) =
     (if slug_char c then c # dash_runs False cs
      else if in_run then dash_runs True cs else 45 # dash_runs True cs)"

definition group_slug :: "str \<Rightarrow> str" where
  "group_slug name = trim_matches 45 (dash_runs False (to_ascii_lowercase name))"

definition suffixed :: "str \<Rightarrow> nat \<Rightarrow> str" where
  "suffixed base n = (if n = 1 then base else base @ 45 # nat_digits n)"

lemma suffixed_inj: "0 < n \<Longrightarrow> 0 < m \<Longrightarrow> suffixed base n = suffixed base m \<Longrightarrow> n = m"
  by (auto simp: suffixed_def dest: nat_digits_inj split: if_splits)

lemma finite_taken: "finite {m. 0 < m \<and> suffixed base m \<in> set taken}"
proof (rule inj_on_finite [of "suffixed base" _ "set taken"])
  show "inj_on (suffixed base) {m. 0 < m \<and> suffixed base m \<in> set taken}"
    by (auto simp: inj_on_def intro: suffixed_inj)
qed auto

function free_suffix :: "str \<Rightarrow> str list \<Rightarrow> nat \<Rightarrow> nat" where
  "free_suffix base taken n =
     (if 0 < n \<and> suffixed base n \<in> set taken then free_suffix base taken (n + 1) else n)"
  by pat_completeness auto
termination
proof (relation "measure (\<lambda>(base, taken, n). card {m. n \<le> m \<and> 0 < m \<and> suffixed base m \<in> set taken})")
  fix base :: str and taken :: "str list" and n :: nat
  assume a: "0 < n \<and> suffixed base n \<in> set taken"
  let ?left = "\<lambda>n. {m. n \<le> m \<and> 0 < m \<and> suffixed base m \<in> set taken}"
  have "?left (n + 1) \<subseteq> ?left n" by (rule Collect_mono) simp
  moreover have "n \<in> ?left n" "n \<notin> ?left (n + 1)" using a by simp_all
  ultimately have "?left (n + 1) \<subset> ?left n" by blast
  moreover have "finite {m. n \<le> m \<and> 0 < m \<and> suffixed base m \<in> set taken}"
    by (rule finite_subset [OF _ finite_taken [of base taken]]) auto
  ultimately show "((base, taken, n + 1), base, taken, n) \<in> measure (\<lambda>(base, taken, n). card {m. n \<le> m \<and> 0 < m \<and> suffixed base m \<in> set taken})"
    by (simp add: psubset_card_mono)
qed simp

declare free_suffix.simps [simp del]

definition assign_group_public_id :: "group_row list \<Rightarrow> str \<Rightarrow> str app_result" where
  "assign_group_public_id t name =
     (let slug = group_slug name; base = lit ''g:'' @ slug in
      if slug = [] then Inl (validation ''request violates a durable data invariant'')
      else Inr (suffixed base (free_suffix base (map g_public_id t) 1)))"

section \<open>Reading groups\<close>

record invitee =
  iv_actor :: actor_ref
  iv_accepted :: bool

record group_details =
  gd_settings :: group_settings
  gd_version :: int
  gd_owners :: "actor_ref list"
  gd_members :: "actor_ref list"
  gd_pending :: "actor_ref list"

record invitation =
  in_conversation :: uuid
  in_name :: str
  in_description :: str
  in_invitee :: actor_ref
  in_invited_by :: "actor_ref option"
  in_invited_at :: "instant option"
  in_owners :: "actor_ref list"

text \<open>An owner counts while its account exists.\<close>

definition live_owner :: "db \<Rightarrow> uuid \<Rightarrow> owner_row \<Rightarrow> bool" where
  "live_owner s gid r \<longleftrightarrow> o_conversation r = gid \<and> \<not> account_deleted_in s (ar_id (o_actor r))"

definition manages_group :: "actor_ref \<Rightarrow> uuid \<Rightarrow> db \<Rightarrow> bool" where
  "manages_group a gid s =
     sql_exists (\<lambda>r. live_owner s gid r \<and>
        (o_actor r = a \<or>
         (ar_type (o_actor r) = Silicon \<and> ar_type a = Carbon \<and>
          sql_exists (\<lambda>x. a_uuid x = ar_id (o_actor r) \<and> a_custodian x = Some (ar_id a)) (accounts s))))
       (owners s)"

text \<open>\<open>ORDER BY\<close> of a nullable instant puts missing values last.\<close>

definition null_last :: "'a option \<Rightarrow> bool \<times> 'a list" where
  "null_last x = (case x of None \<Rightarrow> (True, []) | Some v \<Rightarrow> (False, [v]))"

definition group_details :: "actor_ref \<Rightarrow> uuid \<Rightarrow> db \<Rightarrow> group_details option" where
  "group_details viewer gid s =
     (case find (\<lambda>g. g_conversation g = gid) (groups s) of
        None \<Rightarrow> None
      | Some g \<Rightarrow> Some
          \<lparr>gd_settings = \<lparr>gs_name = g_name g, gs_description = g_description g\<rparr>,
           gd_version = g_version g,
           gd_owners = map o_actor (sort_key (\<lambda>r. (o_added_at r, ar_id (o_actor r)))
             (filter (live_owner s gid) (owners s))),
           gd_members = canonicalize_participants (map i_actor
             (filter (\<lambda>i. i_conversation i = gid) (eligible_group_members s))),
           gd_pending = (if manages_group viewer gid s
             then map i_actor (sort_key (\<lambda>i. (null_last (i_invited_at i), ar_id (i_actor i)))
               (filter (\<lambda>i. i_conversation i = gid \<and> i_status i = Pending) (invitations s)))
             else [])\<rparr>)"

definition invitations_for :: "actor_ref \<Rightarrow> db \<Rightarrow> invitation list" where
  "invitations_for who s =
     map (\<lambda>i.
        let g = the (find (\<lambda>g. g_conversation g = i_conversation i) (groups s)) in
        \<lparr>in_conversation = i_conversation i, in_name = g_name g, in_description = g_description g,
         in_invitee = i_actor i, in_invited_by = i_invited_by i, in_invited_at = i_invited_at i,
         in_owners = map o_actor (sort_key (\<lambda>r. (o_added_at r, ar_id (o_actor r)))
           (filter (\<lambda>r. o_conversation r = i_conversation i) (owners s)))\<rparr>)
       (sort_key (\<lambda>i. (null_last (i_invited_at i), i_conversation i))
         (filter (\<lambda>i. i_actor i = who \<and> i_status i = Pending \<and>
             sql_exists (\<lambda>g. g_conversation g = i_conversation i) (groups s)) (invitations s)))"

section \<open>Steps of the handlers\<close>

text \<open>The group row is locked for the rest of the transaction; its partition is returned.\<close>

definition lock_group :: "uuid \<Rightarrow> db \<Rightarrow> str app_result" where
  "lock_group gid s =
     (case find (\<lambda>c. c_id c = gid \<and> sql_exists (\<lambda>g. g_conversation g = gid) (groups s)) (conversations s) of
        None \<Rightarrow> Inl NotFound
      | Some c \<Rightarrow> Inr (c_partition c))"

definition group_key :: "actor_ref \<Rightarrow> string \<Rightarrow> str \<Rightarrow> idem_key" where
  "group_key a operation key = (accounts_partition, a, operation, key)"

definition acquired :: "env \<Rightarrow> actor_ref \<Rightarrow> string \<Rightarrow> str \<Rightarrow> nat list \<Rightarrow> db \<Rightarrow> (bool \<times> db) app_result" where
  "acquired E a operation key h s =
     bind_ok (claim_db (e_now E) (e_lease E) (group_key a operation key) h
                (refresh_directory_in (e_now E) accounts_partition [a] s))
       (\<lambda>(c, s'). Inr (c = Acquired, s'))"

definition complete_group :: "actor_ref \<Rightarrow> string \<Rightarrow> str \<Rightarrow> uuid \<Rightarrow> nat \<Rightarrow> db \<Rightarrow> db app_result" where
  "complete_group a operation key gid status s =
     complete_db (group_key a operation key) ''conversation'' gid status s"

definition invitation_key :: "invitation_row \<Rightarrow> uuid \<times> actor_ref" where
  "invitation_key i = (i_conversation i, i_actor i)"

definition owner_key :: "owner_row \<Rightarrow> uuid \<times> actor_ref" where
  "owner_key r = (o_conversation r, o_actor r)"

definition participant_row_key :: "participant_row \<Rightarrow> uuid \<times> actor_ref" where
  "participant_row_key p = (p_conversation p, p_actor p)"

definition invite_one :: "instant \<Rightarrow> str \<Rightarrow> uuid \<Rightarrow> actor_ref \<Rightarrow> invitee \<Rightarrow> invitation_row list \<Rightarrow> invitation_row list" where
  "invite_one now part gid inviter v =
     (let new = \<lparr>i_conversation = gid, i_partition = part, i_actor = iv_actor v,
                 i_status = (if iv_accepted v then Accepted else Pending),
                 i_invited_by = Some inviter, i_invited_at = Some now,
                 i_accepted_at = (if iv_accepted v then Some now else None)\<rparr>
      in upsert invitation_key new
           (\<lambda>i. i\<lparr>i_status := (if i_status i = Accepted \<or> i_status new = Accepted then Accepted else Pending),
                  i_accepted_at := coalesce (i_accepted_at i) (i_accepted_at new)\<rparr>))"

definition invite_in :: "instant \<Rightarrow> str \<Rightarrow> uuid \<Rightarrow> actor_ref \<Rightarrow> invitee list \<Rightarrow> db \<Rightarrow> db" where
  "invite_in now part gid inviter invitees s =
     (let s' = refresh_directory_in now part [inviter] s in
      s'\<lparr>invitations := fold (invite_one now part gid inviter) invitees (invitations s')\<rparr>)"

definition bump :: "uuid \<Rightarrow> db \<Rightarrow> db" where
  "bump gid s = s\<lparr>groups := sql_update (\<lambda>g. g_conversation g = gid) (\<lambda>g. g\<lparr>g_version := g_version g + 1\<rparr>) (groups s)\<rparr>"

text \<open>\<open>sync_group_conversation\<close>: every eligible member known to the directory has a roster row.\<close>

definition sync_in :: "instant \<Rightarrow> uuid \<Rightarrow> db \<Rightarrow> db" where
  "sync_in now gid s =
     s\<lparr>participants := fold (\<lambda>e. insert_or_ignore participant_row_key
          \<lparr>p_conversation = i_conversation e, p_partition = i_partition e, p_actor = i_actor e, p_added_at = now\<rparr>)
        (sort_key (\<lambda>e. participant_key (i_actor e))
          (filter (\<lambda>e. i_conversation e = gid \<and>
              sql_exists (\<lambda>n. sn_partition n = i_partition e \<and> sn_actor n = i_actor e) (snapshots s))
            (eligible_group_members s)))
        (participants s)\<rparr>"

definition finish_group :: "instant \<Rightarrow> uuid \<Rightarrow> db \<Rightarrow> db" where
  "finish_group now gid s =
     (let s' = sync_in now gid s in
      s'\<lparr>conversations := sql_update (\<lambda>c. c_id c = gid) (\<lambda>c. c\<lparr>c_updated_at := now\<rparr>) (conversations s')\<rparr>)"

definition last_owner_error :: app_error where
  "last_owner_error = refused 409 ''last_owner''
     ''A group always keeps at least one owner. Make another member an owner first (POST /api/v1/groups/{group}/owners).''"

definition require_an_owner :: "uuid \<Rightarrow> db \<Rightarrow> unit app_result" where
  "require_an_owner gid s =
     (if rows_affected (live_owner s gid) (owners s) = 0 then Inl last_owner_error else Inr ())"

definition settings_json :: "group_settings \<Rightarrow> json" where
  "settings_json g = JObj [(lit ''name'', JStr (gs_name g)), (lit ''description'', JStr (gs_description g))]"

definition actor_json :: "actor_ref \<Rightarrow> json" where
  "actor_json a = JObj [(lit ''type'', JStr (lit (type_str (ar_type a)))), (lit ''id'', JStr (ar_id a))]"

definition invitee_json :: "invitee \<Rightarrow> json" where
  "invitee_json v = JObj [(lit ''actor'', actor_json (iv_actor v)), (lit ''accepted'', JBool (iv_accepted v))]"

definition uuid_json :: "uuid_lib \<Rightarrow> uuid \<Rightarrow> json" where
  "uuid_json U i = JStr (uuid_show U i)"

definition int_json :: "int \<Rightarrow> json" where
  "int_json v = JNum ((if v < 0 then [45] else []) @ nat_digits (nat \<bar>v\<bar>))"

text \<open>The response of a group mutation.\<close>

definition details_or_not_found :: "actor_ref \<Rightarrow> uuid \<Rightarrow> db \<Rightarrow> (group_details \<times> db) app_result" where
  "details_or_not_found a gid s =
     (case group_details a gid s of None \<Rightarrow> Inl NotFound | Some d \<Rightarrow> Inr (d, s))"

section \<open>Handlers\<close>

text \<open>\<open>dedup_by\<close>: of adjacent elements with the same image the first stays.\<close>

fun dedup_on :: "('a \<Rightarrow> 'b) \<Rightarrow> 'a list \<Rightarrow> 'a list" where
  "dedup_on f [] = []"
| "dedup_on f [x] = [x]"
| "dedup_on f (x # y # xs) = (if f x = f y then dedup_on f (x # xs) else x # dedup_on f (y # xs))"

definition normalize_invitees :: "actor_ref \<Rightarrow> invitee list \<Rightarrow> invitee list" where
  "normalize_invitees creator invitees =
     dedup_on iv_actor (sort_key (\<lambda>v. participant_key (iv_actor v))
       (filter (\<lambda>v. iv_actor v \<noteq> creator) invitees))"

definition uuid_bytes :: "uuid \<Rightarrow> nat list" where
  "uuid_bytes i = map (\<lambda>k. i div 256 ^ (15 - k) mod 256) [0..<16]"

definition insert_group_in :: "env \<Rightarrow> actor_ref \<Rightarrow> group_settings \<Rightarrow> uuid \<Rightarrow> db \<Rightarrow> db app_result" where
  "insert_group_in E creator settings gid s =
     bind_ok (insert_row c_id
         \<lparr>c_id = gid, c_partition = accounts_partition, c_set_hash = blake3 (e_digest E) (uuid_bytes gid),
          c_creator = creator, c_is_group = True, c_superseded_by = None, c_next_sequence = 1, c_next_bundle = 1,
          c_created_at = e_now E, c_updated_at = e_now E\<rparr> (conversations s)) (\<lambda>cs.
     bind_ok (assign_group_public_id (groups s) (gs_name settings)) (\<lambda>public_id.
     bind_ok (insert_row g_conversation
         \<lparr>g_conversation = gid, g_partition = accounts_partition, g_name = gs_name settings,
          g_description = gs_description settings, g_version = 1, g_public_id = public_id\<rparr> (groups s)) (\<lambda>gs.
     bind_ok (insert_row owner_key
         \<lparr>o_conversation = gid, o_actor = creator, o_added_at = e_now E, o_added_by = Some (ar_id creator)\<rparr>
         (owners s)) (\<lambda>os.
     Inr (s\<lparr>conversations := cs, groups := gs, owners := os\<rparr>)))))"

definition create_group_in ::
  "env \<Rightarrow> actor_ref \<Rightarrow> group_settings \<Rightarrow> invitee list \<Rightarrow> str \<Rightarrow> idempotency_claim \<Rightarrow> db \<Rightarrow> (uuid \<times> db) app_result" where
  "create_group_in E creator settings invitees key c s =
     (case c of
         Replay gid \<Rightarrow> Inr (gid, s)
       | Acquired \<Rightarrow>
           let gid = e_fresh E 0 in
           bind_ok (insert_group_in E creator settings gid s) (\<lambda>s1.
           let s2 = invite_in (e_now E) accounts_partition gid creator
                      (\<lparr>iv_actor = creator, iv_accepted = True\<rparr> # invitees) s1 in
           bind_ok (complete_group creator ''groups.create'' key gid 201 s2) (\<lambda>s3. Inr (gid, s3))))"

definition create_group ::
  "env \<Rightarrow> actor_ref \<Rightarrow> group_settings \<Rightarrow> invitee list \<Rightarrow> str \<Rightarrow> db \<Rightarrow> (uuid \<times> db) app_result" where
  "create_group E creator settings0 invitees0 key s =
     bind_ok (group_settings_validate settings0) (\<lambda>settings.
     let invitees = normalize_invitees creator invitees0 in
     bind_ok (request_hash (e_digest E) (JArr [settings_json settings, JArr (map invitee_json invitees)])) (\<lambda>h.
     let s1 = refresh_directory_in (e_now E) accounts_partition (creator # map iv_actor invitees) s in
     bind_ok (claim_db (e_now E) (e_lease E) (group_key creator ''groups.create'' key) h s1) (\<lambda>(c, s2).
     bind_ok (create_group_in E creator settings invitees key c s2) (\<lambda>(gid, s3).
     Inr (gid, sync_in (e_now E) gid s3)))))"

text \<open>What the mutations of an existing group have in common: lock, claim the key, change and
  complete when the key was new, then finish the group and answer with its details.\<close>

definition group_mutation ::
  "env \<Rightarrow> actor_ref \<Rightarrow> string \<Rightarrow> str \<Rightarrow> nat list \<Rightarrow> uuid \<Rightarrow> (str \<Rightarrow> db \<Rightarrow> db app_result) \<Rightarrow> db \<Rightarrow>
   (group_details \<times> db) app_result" where
  "group_mutation E a operation key h gid change s =
     bind_ok (lock_group gid s) (\<lambda>part.
     bind_ok (acquired E a operation key h s) (\<lambda>(fresh, s1).
     bind_ok (if fresh then bind_ok (change part s1) (complete_group a operation key gid 200) else Inr s1)
       (\<lambda>s2. details_or_not_found a gid (finish_group (e_now E) gid s2))))"

definition update_settings_in :: "uuid \<Rightarrow> group_settings \<Rightarrow> int \<Rightarrow> db \<Rightarrow> db app_result" where
  "update_settings_in gid settings version s =
     (let p = (\<lambda>g. g_conversation g = gid \<and> g_version g = version) in
      if rows_affected p (groups s) \<noteq> 1
      then Inl (conflict ''group version changed; fetch the group and retry with its current version'')
      else Inr (s\<lparr>groups := sql_update p (\<lambda>g. g\<lparr>g_name := gs_name settings,
        g_description := gs_description settings, g_version := g_version g + 1\<rparr>) (groups s)\<rparr>))"

definition update_group ::
  "env \<Rightarrow> actor_ref \<Rightarrow> uuid \<Rightarrow> group_settings \<Rightarrow> int \<Rightarrow> str \<Rightarrow> db \<Rightarrow> (group_details \<times> db) app_result" where
  "update_group E a gid settings0 version key s =
     bind_ok (group_settings_validate settings0) (\<lambda>settings.
     if version < 1 then Inl (validation ''If-Match must be a positive group version'')
     else bind_ok (request_hash (e_digest E)
              (JArr [uuid_json (e_uuid E) gid, settings_json settings, int_json version])) (\<lambda>h.
          group_mutation E a ''groups.update'' key h gid (\<lambda>_. update_settings_in gid settings version) s))"

definition invite_to_group ::
  "env \<Rightarrow> actor_ref \<Rightarrow> uuid \<Rightarrow> invitee list \<Rightarrow> str \<Rightarrow> db \<Rightarrow> (group_details \<times> db) app_result" where
  "invite_to_group E a gid invitees key s =
     bind_ok (request_hash (e_digest E) (JArr [uuid_json (e_uuid E) gid, JArr (map invitee_json invitees)])) (\<lambda>h.
     group_mutation E a ''groups.invite'' key h gid (\<lambda>part s1.
       Inr (bump gid (invite_in (e_now E) part gid a invitees
              (refresh_directory_in (e_now E) part (map iv_actor invitees) s1)))) s)"

definition remove_member_in :: "uuid \<Rightarrow> actor_ref \<Rightarrow> db \<Rightarrow> db" where
  "remove_member_in gid member s =
     s\<lparr>invitations := sql_delete (\<lambda>i. invitation_key i = (gid, member)) (invitations s),
       owners := sql_delete (\<lambda>r. owner_key r = (gid, member)) (owners s)\<rparr>"

definition remove_members_in :: "uuid \<Rightarrow> actor_ref list \<Rightarrow> db \<Rightarrow> db app_result" where
  "remove_members_in gid members s =
     (let s1 = fold (remove_member_in gid) members s in
      bind_ok (require_an_owner gid s1) (\<lambda>_. Inr (bump gid s1)))"

definition remove_from_group ::
  "env \<Rightarrow> actor_ref \<Rightarrow> uuid \<Rightarrow> actor_ref list \<Rightarrow> str \<Rightarrow> db \<Rightarrow> (group_details \<times> db) app_result" where
  "remove_from_group E a gid members key s =
     bind_ok (request_hash (e_digest E) (JArr [uuid_json (e_uuid E) gid, JArr (map actor_json members)])) (\<lambda>h.
     group_mutation E a ''groups.uninvite'' key h gid (\<lambda>_. remove_members_in gid members) s)"

definition invitation_not_found :: app_error where
  "invitation_not_found = refused 404 ''invitation_not_found''
     ''There is no pending invitation to this group for this account (it may have been accepted, declined or cancelled already).''"

definition respond_to_invitation :: "env \<Rightarrow> actor_ref \<Rightarrow> uuid \<Rightarrow> bool \<Rightarrow> db \<Rightarrow> db app_result" where
  "respond_to_invitation E who gid accept s =
     bind_ok (lock_group gid s) (\<lambda>_.
     let p = (\<lambda>i. invitation_key i = (gid, who) \<and> i_status i = Pending);
         changed = rows_affected p (invitations s);
         t = (if accept
              then sql_update p (\<lambda>i. i\<lparr>i_status := Accepted, i_accepted_at := Some (e_now E)\<rparr>) (invitations s)
              else sql_delete p (invitations s))
     in if changed \<noteq> 1 then Inl invitation_not_found
        else Inr (finish_group (e_now E) gid (bump gid (s\<lparr>invitations := t\<rparr>))))"

definition leave_group :: "env \<Rightarrow> actor_ref \<Rightarrow> uuid \<Rightarrow> db \<Rightarrow> db app_result" where
  "leave_group E member gid s =
     bind_ok (lock_group gid s) (\<lambda>_.
     let p = (\<lambda>i. invitation_key i = (gid, member) \<and> i_status i = Accepted) in
     if rows_affected p (invitations s) \<noteq> 1 then Inl NotFound
     else
       let s1 = s\<lparr>invitations := sql_delete p (invitations s),
                  owners := sql_delete (\<lambda>r. owner_key r = (gid, member)) (owners s)\<rparr>
       in bind_ok (require_an_owner gid s1) (\<lambda>_. Inr (finish_group (e_now E) gid (bump gid s1))))"

definition not_a_member :: app_error where
  "not_a_member = refused 409 ''not_a_member'' ''Only members who accepted their invitation can become owners.''"

definition promote_in :: "instant \<Rightarrow> str \<Rightarrow> uuid \<Rightarrow> actor_ref \<Rightarrow> db \<Rightarrow> db app_result" where
  "promote_in now by_id gid member s =
     (if \<not> is_eligible s gid member then Inl not_a_member
      else Inr (s\<lparr>owners := insert_or_ignore owner_key
        \<lparr>o_conversation = gid, o_actor = member, o_added_at = now, o_added_by = Some by_id\<rparr> (owners s)\<rparr>))"

definition demote_in :: "uuid \<Rightarrow> actor_ref \<Rightarrow> db \<Rightarrow> db" where
  "demote_in gid member s = s\<lparr>owners := sql_delete (\<lambda>r. owner_key r = (gid, member)) (owners s)\<rparr>"

fun set_owners_in :: "instant \<Rightarrow> str \<Rightarrow> uuid \<Rightarrow> bool \<Rightarrow> actor_ref list \<Rightarrow> db \<Rightarrow> db app_result" where
  "set_owners_in now by_id gid promote [] s = Inr s"
| "set_owners_in now by_id gid promote (member # members) s =
     bind_ok (if promote then promote_in now by_id gid member s else Inr (demote_in gid member s))
       (set_owners_in now by_id gid promote members)"

definition set_group_owners ::
  "env \<Rightarrow> actor_ref \<Rightarrow> uuid \<Rightarrow> actor_ref list \<Rightarrow> bool \<Rightarrow> str \<Rightarrow> db \<Rightarrow> (group_details \<times> db) app_result" where
  "set_group_owners E a gid members promote key s =
     (let operation = (if promote then ''groups.owners.add'' else ''groups.owners.remove'') in
      bind_ok (request_hash (e_digest E) (JArr [uuid_json (e_uuid E) gid, JArr (map actor_json members)])) (\<lambda>h.
      group_mutation E a operation key h gid (\<lambda>_ s1.
        bind_ok (set_owners_in (e_now E) (ar_id a) gid promote members s1) (\<lambda>s2.
        bind_ok (require_an_owner gid s2) (\<lambda>_. Inr (bump gid s2)))) s))"

section \<open>Deleting an account\<close>

definition standing :: "db \<Rightarrow> invitation_row \<Rightarrow> instant option" where
  "standing s e =
     coalesce (i_accepted_at e) (coalesce (i_invited_at e)
       (map_option p_added_at (find (\<lambda>p. participant_row_key p = invitation_key e) (participants s))))"

definition ensure_owner_in :: "instant \<Rightarrow> uuid \<Rightarrow> db \<Rightarrow> db" where
  "ensure_owner_in now gid s =
     (if sql_exists (live_owner s gid) (owners s) then s
      else
        (case sort_key (\<lambda>e. (null_last (standing s e), ar_id (i_actor e)))
                (filter (\<lambda>e. i_conversation e = gid) (eligible_group_members s)) of
           [] \<Rightarrow> s
         | e # _ \<Rightarrow> s\<lparr>owners := insert_or_ignore owner_key
             \<lparr>o_conversation = gid, o_actor = i_actor e, o_added_at = now, o_added_by = None\<rparr> (owners s)\<rparr>))"

definition deleted_account_row :: "instant \<Rightarrow> instant \<Rightarrow> account_row \<Rightarrow> account_row" where
  "deleted_account_row now at a =
     a\<lparr>a_deleted := True, a_id := None, a_name := None, a_pfp := None,
       a_deleted_at := coalesce (a_deleted_at a) (Some at),
       a_revoked_before := Some (max (case a_revoked_before a of None \<Rightarrow> at | Some t \<Rightarrow> t) at),
       a_refreshed_at := now\<rparr>"

text \<open>What the account itself holds goes; the versioned draft update precedes the draft's deletion.\<close>

definition delete_own_rows :: "instant \<Rightarrow> str \<Rightarrow> db \<Rightarrow> db" where
  "delete_own_rows now u s =
     s\<lparr>draft_counters := sql_update (\<lambda>c. ar_id (dc_actor c) = u \<and>
           sql_exists (\<lambda>d. dr_conversation d = dc_conversation c \<and> dr_actor d = dc_actor c) (drafts s))
         (\<lambda>c. c\<lparr>dc_version := dc_version c + 1\<rparr>) (draft_counters s),
       draft_attachments := sql_delete (\<lambda>r. ar_id (da_actor r) = u) (draft_attachments s),
       draft_gifs := sql_delete (\<lambda>r. ar_id (dg_actor r) = u) (draft_gifs s),
       drafts := sql_delete (\<lambda>r. ar_id (dr_actor r) = u) (drafts s),
       recent_gifs := sql_delete (\<lambda>r. rg_carbon r = u) (recent_gifs s),
       allowances := sql_delete (\<lambda>r. al_silicon r = u \<or> ar_id (al_allowed r) = u) (allowances s),
       presence_leases := sql_delete (\<lambda>r. ar_id (le_actor r) = u) (presence_leases s),
       presence_states := sql_delete (\<lambda>r. ar_id (ps_actor r) = u) (presence_states s),
       ting_grants := sql_delete (\<lambda>r. ar_id (tg_actor r) = u) (ting_grants s),
       ting_enrollments := sql_delete (\<lambda>r. ar_id (te_actor r) = u) (ting_enrollments s),
       ting_handoffs := sql_update (\<lambda>r. ar_id (th_target r) = u \<and> th_accepted r = None \<and> th_discarded_at r = None)
         (\<lambda>r. r\<lparr>th_discarded_at := Some now, th_discard_reason := Some (lit ''account_deleted'')\<rparr>) (ting_handoffs s)\<rparr>"

definition groups_of_account :: "str \<Rightarrow> db \<Rightarrow> uuid list" where
  "groups_of_account u s =
     remdups (map o_conversation (filter (\<lambda>r. ar_id (o_actor r) = u) (owners s)) @
              map i_conversation (filter (\<lambda>i. ar_id (i_actor i) = u) (invitations s)))"

definition delete_account :: "instant \<Rightarrow> str \<Rightarrow> instant \<Rightarrow> db \<Rightarrow> db app_result" where
  "delete_account now u at s =
     bind_ok (put_accounts (upsert a_uuid
         ((new_account now u Carbon)\<lparr>a_deleted := True, a_deleted_at := Some at, a_revoked_before := Some at\<rparr>)
         (deleted_account_row now at) (accounts s)) s) (\<lambda>s1.
     let s2 = delete_own_rows now u s1;
         gids = groups_of_account u s2;
         s3 = s2\<lparr>owners := sql_delete (\<lambda>r. ar_id (o_actor r) = u) (owners s2),
                 invitations := sql_delete (\<lambda>i. ar_id (i_actor i) = u) (invitations s2)\<rparr>
     in Inr (fold (ensure_owner_in now) gids s3))"

section \<open>A group keeps an owner\<close>

definition owned :: "db \<Rightarrow> uuid \<Rightarrow> bool" where
  "owned s gid = sql_exists (live_owner s gid) (owners s)"

definition populated :: "db \<Rightarrow> uuid \<Rightarrow> bool" where
  "populated s gid = sql_exists (\<lambda>e. i_conversation e = gid) (eligible_group_members s)"

text \<open>A step that deletes no account and takes no group its last owner.\<close>

definition keeps_owners :: "db \<Rightarrow> db \<Rightarrow> bool" where
  "keeps_owners s s' \<longleftrightarrow> accounts s' = accounts s \<and> (\<forall>gid. owned s gid \<longrightarrow> owned s' gid)"

lemma live_owner_accounts: "accounts s' = accounts s \<Longrightarrow> live_owner s' = live_owner s"
  by (simp add: live_owner_def account_deleted_in_def fun_eq_iff)

lemma keeps_owners_refl [simp]: "keeps_owners s s"
  by (simp add: keeps_owners_def)

lemma keeps_owners_trans [trans]: "keeps_owners s s' \<Longrightarrow> keeps_owners s' s'' \<Longrightarrow> keeps_owners s s''"
  by (auto simp: keeps_owners_def)

lemma keeps_owners_frame:
  "accounts s' = accounts s \<Longrightarrow> owners s' = owners s \<Longrightarrow> keeps_owners s s'"
  by (auto simp: keeps_owners_def owned_def live_owner_accounts [of s' s])

lemma keeps_owners_more:
  "accounts s' = accounts s \<Longrightarrow> set (owners s) \<subseteq> set (owners s') \<Longrightarrow> keeps_owners s s'"
  by (auto simp: keeps_owners_def owned_def sql_exists_def live_owner_accounts [of s' s])

text \<open>The steps that leave the accounts and owners alone.\<close>

lemma frame_refresh [simp]:
  "accounts (refresh_directory_in now part as s) = accounts s"
  "owners (refresh_directory_in now part as s) = owners s"
  "invitations (refresh_directory_in now part as s) = invitations s"
  by (simp_all add: refresh_directory_in_def)

lemma frame_invite_in [simp]:
  "accounts (invite_in now part gid a vs s) = accounts s"
  "owners (invite_in now part gid a vs s) = owners s"
  by (simp_all add: invite_in_def Let_def)

lemma frame_bump [simp]:
  "accounts (bump gid s) = accounts s" "owners (bump gid s) = owners s"
  "invitations (bump gid s) = invitations s"
  by (simp_all add: bump_def)

lemma frame_sync_in [simp]:
  "accounts (sync_in now gid s) = accounts s" "owners (sync_in now gid s) = owners s"
  "invitations (sync_in now gid s) = invitations s"
  by (simp_all add: sync_in_def)

lemma frame_finish_group [simp]:
  "accounts (finish_group now gid s) = accounts s" "owners (finish_group now gid s) = owners s"
  "invitations (finish_group now gid s) = invitations s"
  by (simp_all add: finish_group_def Let_def)

lemma frame_claim_db:
  "claim_db now lease k h s = Inr (c, s') \<Longrightarrow> \<exists>t. s' = s\<lparr>idempotency := t\<rparr>"
  by (auto simp: claim_db_def)

lemma frame_complete_db:
  "complete_db k ty r resp s = Inr s' \<Longrightarrow> \<exists>t. s' = s\<lparr>idempotency := t\<rparr>"
  by (auto simp: complete_db_def)

lemma acquired_keeps: "acquired E a operation key h s = Inr (fresh, s') \<Longrightarrow> keeps_owners s s'"
  by (auto simp: acquired_def dest!: frame_claim_db intro!: keeps_owners_frame)

lemma complete_group_keeps: "complete_group a operation key gid st s = Inr s' \<Longrightarrow> keeps_owners s s'"
  by (auto simp: complete_group_def dest!: frame_complete_db intro!: keeps_owners_frame)

lemma group_mutation_keeps:
  assumes "group_mutation E a operation key h gid change s = Inr (d, s')"
    and "\<And>part s1 s2. change part s1 = Inr s2 \<Longrightarrow> keeps_owners s1 s2"
  shows "keeps_owners s s'"
proof -
  obtain part fresh s1 s2 where
    s1: "acquired E a operation key h s = Inr (fresh, s1)"
    and s2: "(if fresh then bind_ok (change part s1) (complete_group a operation key gid 200) else Inr s1) = Inr s2"
    and s': "s' = finish_group (e_now E) gid s2"
    using assms(1) by (auto simp: group_mutation_def details_or_not_found_def split: option.splits)
  have "keeps_owners s s1" using s1 by (rule acquired_keeps)
  also have "keeps_owners s1 s2"
    using s2 assms(2) by (auto split: if_splits intro: keeps_owners_trans [OF _ complete_group_keeps])
  also have "keeps_owners s2 s'" by (simp add: s' keeps_owners_frame)
  finally show ?thesis .
qed

lemma require_an_owner_ok: "require_an_owner gid s = Inr u \<longleftrightarrow> owned s gid"
  by (auto simp: require_an_owner_def owned_def sql_exists_def)

lemma owned_other:
  assumes "accounts s' = accounts s"
    and "\<And>r. r \<in> set (owners s) \<Longrightarrow> o_conversation r \<noteq> gid \<Longrightarrow> r \<in> set (owners s')"
    and "owned s' gid"
  shows "keeps_owners s s'"
  unfolding keeps_owners_def
proof (intro conjI allI impI)
  fix g assume "owned s g"
  then obtain r where "r \<in> set (owners s)" "live_owner s g r" by (auto simp: owned_def sql_exists_def)
  with assms show "owned s' g"
    by (cases "g = gid") (auto simp: owned_def sql_exists_def live_owner_accounts [OF assms(1)] live_owner_def)
qed (rule assms(1))

lemma fold_remove_member:
  "accounts (fold (remove_member_in gid) ms s) = accounts s \<and>
   (\<forall>r\<in>set (owners s). o_conversation r \<noteq> gid \<longrightarrow> r \<in> set (owners (fold (remove_member_in gid) ms s)))"
proof (induction ms arbitrary: s)
  case (Cons m ms)
  from Cons.IH [of "remove_member_in gid m s"] show ?case
    by (auto simp: remove_member_in_def set_sql_delete owner_key_def)
qed simp

lemma remove_members_keeps: "remove_members_in gid ms s = Inr s' \<Longrightarrow> keeps_owners s s'"
proof -
  assume "remove_members_in gid ms s = Inr s'"
  then have s': "s' = bump gid (fold (remove_member_in gid) ms s)"
    and own: "owned (fold (remove_member_in gid) ms s) gid"
    by (auto simp: remove_members_in_def Let_def require_an_owner_ok)
  have "keeps_owners s (fold (remove_member_in gid) ms s)"
    using fold_remove_member [of gid ms s] own by (intro owned_other) auto
  also have "keeps_owners \<dots> s'" by (simp add: s' keeps_owners_frame)
  finally show ?thesis .
qed

lemma set_owners_in_frame:
  "set_owners_in now by_id gid promote ms s = Inr s' \<Longrightarrow> accounts s' = accounts s \<and>
   (\<forall>r\<in>set (owners s). o_conversation r \<noteq> gid \<longrightarrow> r \<in> set (owners s'))"
proof (induction ms arbitrary: s)
  case (Cons m ms)
  then obtain s1 where s1: "(if promote then promote_in now by_id gid m s else Inr (demote_in gid m s)) = Inr s1"
    and rest: "set_owners_in now by_id gid promote ms s1 = Inr s'" by auto
  have "accounts s1 = accounts s \<and> (\<forall>r\<in>set (owners s). o_conversation r \<noteq> gid \<longrightarrow> r \<in> set (owners s1))"
    using s1 by (auto simp: promote_in_def demote_in_def set_insert_or_ignore set_sql_delete owner_key_def
        split: if_splits)
  with Cons.IH [OF rest] show ?case by simp
qed simp

lemma update_settings_keeps: "update_settings_in gid st v s = Inr s' \<Longrightarrow> keeps_owners s s'"
  by (auto simp: update_settings_in_def Let_def split: if_splits intro!: keeps_owners_frame)

text \<open>One successful call of a group handler.\<close>

inductive group_step :: "db \<Rightarrow> db \<Rightarrow> bool" where
  created: "create_group E a st vs key s = Inr (gid, s') \<Longrightarrow> group_step s s'"
| updated: "update_group E a gid st v key s = Inr (d, s') \<Longrightarrow> group_step s s'"
| invited: "invite_to_group E a gid vs key s = Inr (d, s') \<Longrightarrow> group_step s s'"
| removed: "remove_from_group E a gid ms key s = Inr (d, s') \<Longrightarrow> group_step s s'"
| responded: "respond_to_invitation E a gid accept s = Inr s' \<Longrightarrow> group_step s s'"
| left: "leave_group E a gid s = Inr s' \<Longrightarrow> group_step s s'"
| owners_set: "set_group_owners E a gid ms promote key s = Inr (d, s') \<Longrightarrow> group_step s s'"

lemma insert_group_keeps: "insert_group_in E a st gid s = Inr s' \<Longrightarrow> keeps_owners s s'"
  by (auto simp: insert_group_in_def intro!: keeps_owners_more)

lemma create_group_in_keeps:
  assumes "create_group_in E a settings vs key c s = Inr (gid, s')"
  shows "keeps_owners s s'"
proof (cases c)
  case Acquired
  then obtain s1 where s1: "insert_group_in E a settings (e_fresh E 0) s = Inr s1"
    and s': "complete_group a ''groups.create'' key (e_fresh E 0) 201
      (invite_in (e_now E) accounts_partition (e_fresh E 0) a (\<lparr>iv_actor = a, iv_accepted = True\<rparr> # vs) s1) = Inr s'"
    using assms by (auto simp: create_group_in_def Let_def)
  have "keeps_owners s s1" using s1 by (rule insert_group_keeps)
  also have "keeps_owners s1 (invite_in (e_now E) accounts_partition (e_fresh E 0) a (\<lparr>iv_actor = a, iv_accepted = True\<rparr> # vs) s1)"
    by (rule keeps_owners_frame) simp_all
  also have "keeps_owners \<dots> s'" using s' by (rule complete_group_keeps)
  finally show ?thesis .
qed (use assms in \<open>simp add: create_group_in_def\<close>)

lemma create_group_keeps:
  assumes "create_group E a st vs key s = Inr (gid, s')"
  shows "keeps_owners s s'"
proof -
  obtain h c s2 settings s3 where
    c: "claim_db (e_now E) (e_lease E) (group_key a ''groups.create'' key) h
      (refresh_directory_in (e_now E) accounts_partition (a # map iv_actor (normalize_invitees a vs)) s) = Inr (c, s2)"
    and b: "create_group_in E a settings (normalize_invitees a vs) key c s2 = Inr (gid, s3)"
    and s': "s' = sync_in (e_now E) gid s3"
    using assms by (auto simp: create_group_def Let_def)
  have "keeps_owners s s2" using frame_claim_db [OF c] by (auto intro!: keeps_owners_frame)
  also have "keeps_owners s2 s3" using b by (rule create_group_in_keeps)
  also have "keeps_owners s3 s'" by (simp add: s' keeps_owners_frame)
  finally show ?thesis .
qed

lemma group_step_keeps: "group_step s s' \<Longrightarrow> keeps_owners s s'"
proof (induction rule: group_step.induct)
  case (created E a st vs key s gid s')
  then show ?case by (rule create_group_keeps)
next
  case (updated E a gid st v key s d s')
  then show ?case
    by (auto simp: update_group_def split: if_splits elim!: group_mutation_keeps dest: update_settings_keeps)
next
  case (invited E a gid vs key s d s')
  then show ?case
    by (auto simp: invite_to_group_def elim!: group_mutation_keeps intro!: keeps_owners_frame)
next
  case (removed E a gid ms key s d s')
  then show ?case
    by (auto simp: remove_from_group_def elim!: group_mutation_keeps dest: remove_members_keeps)
next
  case (responded E a gid accept s s')
  then show ?case
    by (auto simp: respond_to_invitation_def Let_def split: if_splits intro!: keeps_owners_frame)
next
  case (left E a gid s s')
  let ?p = "\<lambda>i. invitation_key i = (gid, a) \<and> i_status i = Accepted"
  let ?s1 = "s\<lparr>invitations := sql_delete ?p (invitations s), owners := sql_delete (\<lambda>r. owner_key r = (gid, a)) (owners s)\<rparr>"
  have own: "owned ?s1 gid" and s': "s' = finish_group (e_now E) gid (bump gid ?s1)"
    using left by (auto simp: leave_group_def Let_def require_an_owner_ok split: if_splits)
  have "keeps_owners s ?s1"
    using own by (intro owned_other) (auto simp: set_sql_delete owner_key_def)
  also have "keeps_owners ?s1 s'" by (simp add: s' keeps_owners_frame)
  finally show ?case .
next
  case (owners_set E a gid ms promote key s d s')
  have "keeps_owners s1 s2" if h: "bind_ok (set_owners_in (e_now E) (ar_id a) gid promote ms s1) (\<lambda>s2.
        bind_ok (require_an_owner gid s2) (\<lambda>_. Inr (bump gid s2))) = Inr s2" for s1 s2
  proof -
    obtain s3 where s3: "set_owners_in (e_now E) (ar_id a) gid promote ms s1 = Inr s3"
      and own: "owned s3 gid" and s2: "s2 = bump gid s3"
      using h by (auto simp: require_an_owner_ok)
    have "keeps_owners s1 s3" using set_owners_in_frame [OF s3] own by (intro owned_other) auto
    also have "keeps_owners s3 s2" by (simp add: s2 keeps_owners_frame)
    finally show ?thesis .
  qed
  with owners_set show ?case
    by (auto simp: set_group_owners_def Let_def simp del: bind_ok_Inr_iff
        simp: bind_ok_Inr_iff [of "request_hash _ _"] elim!: group_mutation_keeps)
qed

lemma ensure_owner_frame [simp]:
  "accounts (ensure_owner_in now gid s) = accounts s"
  "invitations (ensure_owner_in now gid s) = invitations s"
  "participants (ensure_owner_in now gid s) = participants s"
  by (simp_all add: ensure_owner_in_def split: list.split)

lemma ensure_owner_more: "set (owners s) \<subseteq> set (owners (ensure_owner_in now gid s))"
  by (auto simp: ensure_owner_in_def set_insert_or_ignore split: list.split)

lemma eligible_frame:
  "accounts s' = accounts s \<Longrightarrow> invitations s' = invitations s \<Longrightarrow>
   eligible_group_members s' = eligible_group_members s"
  by (simp add: eligible_group_members_def account_deleted_in_def)

lemma ensure_owner_owned: "owned (ensure_owner_in now gid s) gid \<or> \<not> populated s gid"
proof (cases "sql_exists (live_owner s gid) (owners s)")
  case True
  then show ?thesis by (simp add: ensure_owner_in_def owned_def)
next
  case False
  let ?c = "sort_key (\<lambda>e. (null_last (standing s e), ar_id (i_actor e)))
    (filter (\<lambda>e. i_conversation e = gid) (eligible_group_members s))"
  show ?thesis
  proof (cases ?c)
    case Nil
    then have "set ?c = {}" by simp
    then show ?thesis by (auto simp: populated_def sql_exists_def)
  next
    case (Cons e es)
    then have "e \<in> set ?c" by simp
    then have e: "i_conversation e = gid" "\<not> account_deleted_in s (ar_id (i_actor e))"
      by (auto simp: eligible_group_members_def)
    let ?r = "\<lparr>o_conversation = gid, o_actor = i_actor e, o_added_at = now, o_added_by = None\<rparr>"
    have "\<not> sql_exists (\<lambda>x. owner_key x = owner_key ?r) (owners s)"
      using False e by (auto simp: sql_exists_def live_owner_def owner_key_def)
    then have "owners (ensure_owner_in now gid s) = owners s @ [?r]"
      using False Cons by (simp add: ensure_owner_in_def insert_or_ignore_def)
    then have "owned (ensure_owner_in now gid s) gid"
      using e by (simp add: owned_def sql_exists_def live_owner_def account_deleted_in_def)
    then show ?thesis ..
  qed
qed

lemma fold_ensure_owner:
  "accounts (fold (ensure_owner_in now) gids s) = accounts s \<and>
   invitations (fold (ensure_owner_in now) gids s) = invitations s \<and>
   set (owners s) \<subseteq> set (owners (fold (ensure_owner_in now) gids s)) \<and>
   (\<forall>gid\<in>set gids. owned (fold (ensure_owner_in now) gids s) gid \<or> \<not> populated s gid)"
proof (induction gids arbitrary: s)
  case (Cons g gids)
  let ?s1 = "ensure_owner_in now g s"
  let ?s' = "fold (ensure_owner_in now) gids ?s1"
  note ih = Cons.IH [of ?s1]
  have pop: "populated ?s1 = populated s"
    by (simp add: populated_def fun_eq_iff eligible_frame [of ?s1 s])
  have "owned ?s1 g \<Longrightarrow> owned ?s' g"
    using keeps_owners_more [of ?s' ?s1] ih by (simp add: keeps_owners_def)
  then have "owned ?s' g \<or> \<not> populated s g" using ensure_owner_owned by blast
  moreover have "set (owners s) \<subseteq> set (owners ?s')"
    using ensure_owner_more [of s now g] ih by blast
  ultimately show ?case using ih pop by simp
qed simp

text \<open>C24. Deleting an account never strands a group: every group that had an owner before the
  deletion has one afterwards, handed to its longest-standing member when the deleted account was
  the last owner, unless no member is left.\<close>

theorem delete_account_hands_over:
  assumes "delete_account now u at s = Inr s'" and "owned s gid"
  shows "owned s' gid \<or> \<not> populated s' gid"
proof -
  define t where "t = upsert a_uuid
    ((new_account now u Carbon)\<lparr>a_deleted := True, a_deleted_at := Some at, a_revoked_before := Some at\<rparr>)
    (deleted_account_row now at) (accounts s)"
  define s2 where "s2 = delete_own_rows now u (s\<lparr>accounts := t\<rparr>)"
  define s3 where "s3 = s2\<lparr>owners := sql_delete (\<lambda>r. ar_id (o_actor r) = u) (owners s2),
                 invitations := sql_delete (\<lambda>i. ar_id (i_actor i) = u) (invitations s2)\<rparr>"
  have s': "s' = fold (ensure_owner_in now) (groups_of_account u s2) s3"
    using assms(1) by (auto simp: delete_account_def Let_def put_accounts_ok t_def s2_def s3_def)
  have s2: "accounts s2 = t" "owners s2 = owners s" "invitations s2 = invitations s"
    by (simp_all add: s2_def delete_own_rows_def)
  note f = fold_ensure_owner [of now "groups_of_account u s2" s3, folded s']
  have pop: "populated s' = populated s3"
    using f by (simp add: populated_def fun_eq_iff eligible_frame [of s' s3])
  show ?thesis
  proof (cases "gid \<in> set (groups_of_account u s2)")
    case True
    with f pop show ?thesis by simp
  next
    case False
    obtain r where r: "r \<in> set (owners s)" "live_owner s gid r"
      using assms(2) by (auto simp: owned_def sql_exists_def)
    with False have ru: "ar_id (o_actor r) \<noteq> u"
      by (auto simp: groups_of_account_def s2 live_owner_def)
    have "account_deleted_in s3 (ar_id (o_actor r)) \<longleftrightarrow> account_deleted_in s (ar_id (o_actor r))"
      using ru by (auto simp: account_deleted_in_def s3_def s2 t_def upsert_def sql_exists_def set_sql_update
          deleted_account_row_def new_account_def image_iff)
    with r have "live_owner s3 gid r" by (simp add: live_owner_def)
    moreover have "r \<in> set (owners s3)" using r(1) ru by (simp add: s3_def s2 set_sql_delete)
    ultimately have "owned s' gid"
      using f live_owner_accounts [of s' s3] by (auto simp: owned_def sql_exists_def)
    then show ?thesis ..
  qed
qed

text \<open>A group of one owner, used in examples: ann owns it, bob is invited.\<close>

abbreviation ann :: actor_ref where "ann \<equiv> actor Carbon (lit ''zQo'')"
abbreviation bob :: actor_ref where "bob \<equiv> actor Carbon (lit ''a8K'')"

definition small_group :: db where
  "small_group = empty_db\<lparr>
     accounts := [new_account 0 (lit ''zQo'') Carbon, new_account 0 (lit ''a8K'') Carbon],
     conversations := [\<lparr>c_id = 1, c_partition = accounts_partition, c_set_hash = [], c_creator = ann, c_is_group = True,
       c_superseded_by = None, c_next_sequence = 1, c_next_bundle = 1, c_created_at = 0, c_updated_at = 0\<rparr>],
     groups := [\<lparr>g_conversation = 1, g_partition = accounts_partition, g_name = lit ''ops'', g_description = [],
       g_version = 1, g_public_id = lit ''g:ops''\<rparr>],
     owners := [\<lparr>o_conversation = 1, o_actor = ann, o_added_at = 0, o_added_by = None\<rparr>],
     invitations := [
       \<lparr>i_conversation = 1, i_partition = accounts_partition, i_actor = ann, i_status = Accepted,
        i_invited_by = Some ann, i_invited_at = Some 0, i_accepted_at = Some 0\<rparr>,
       \<lparr>i_conversation = 1, i_partition = accounts_partition, i_actor = bob, i_status = Pending,
        i_invited_by = Some ann, i_invited_at = Some 0, i_accepted_at = None\<rparr>]\<rparr>"

lemmas example_simps = small_group_def empty_db_def new_account_def owned_def populated_def live_owner_def
  eligible_group_members_def account_deleted_in_def sql_exists_def sql_update_def sql_delete_def rows_affected_def
  invitation_key_def owner_key_def lit_def

definition joined_group :: db where
  "joined_group = small_group\<lparr>invitations := map (\<lambda>i. i\<lparr>i_status := Accepted, i_accepted_at := Some 1\<rparr>) (invitations small_group)\<rparr>"

theorem delete_account_hands_over_witness:
  "\<exists>s'. delete_account 5 (lit ''zQo'') 5 joined_group = Inr s' \<and> owned s' 1"
proof -
  define s' where "s' = projr (delete_account 5 (lit ''zQo'') 5 joined_group)"
  have d: "delete_account 5 (lit ''zQo'') 5 joined_group = Inr s'"
    unfolding s'_def
    by (simp add: delete_account_def joined_group_def Let_def put_accounts_def upsert_def deleted_account_row_def coalesce_def
        account_row_ok_def uuid_format_def is_ascii_alphanumeric_def is_ascii_lowercase_def is_ascii_uppercase_def
        is_ascii_digit_def example_simps)
  have "populated s' 1" unfolding s'_def
    by (simp add: delete_account_def joined_group_def Let_def put_accounts_def upsert_def deleted_account_row_def coalesce_def
        account_row_ok_def uuid_format_def is_ascii_alphanumeric_def is_ascii_lowercase_def is_ascii_uppercase_def
        is_ascii_digit_def delete_own_rows_def groups_of_account_def ensure_owner_in_def example_simps)
  moreover have "owned joined_group 1" by (simp add: joined_group_def example_simps)
  ultimately show ?thesis using delete_account_hands_over [OF d] d by blast
qed

text \<open>C23. No sequence of group operations leaves a group without an owner: creating, editing,
  inviting, removing, accepting, declining, leaving, promoting and demoting keep an owner whose
  account exists in every group that had one.\<close>

theorem groups_keep_an_owner:
  assumes "group_step\<^sup>*\<^sup>* s s'" and "owned s gid"
  shows "owned s' gid"
proof -
  have "keeps_owners s s'"
    using assms(1) by (induction rule: rtranclp_induct) (auto intro: keeps_owners_trans group_step_keeps)
  with assms(2) show ?thesis by (simp add: keeps_owners_def)
qed

abbreviation test_env :: env where
  "test_env \<equiv> \<lparr>e_now = 9, e_lease = 100, e_fresh = \<lambda>n. 200 + n, e_uuid = \<lparr>uuid_parse = \<lambda>_. None, uuid_show = \<lambda>_. []\<rparr>,
     e_digest = \<lparr>to_json = \<lambda>_. Some [], blake3 = \<lambda>_. []\<rparr>, e_sha256 = \<lambda>b. b\<rparr>"

theorem groups_keep_an_owner_witness:
  "\<exists>s'. respond_to_invitation test_env bob 1 True small_group = Inr s' \<and> owned s' 1"
proof -
  have "\<exists>s'. respond_to_invitation test_env bob 1 True small_group = Inr s'"
    by (simp add: respond_to_invitation_def lock_group_def Let_def example_simps)
  then obtain s' where s': "respond_to_invitation test_env bob 1 True small_group = Inr s'" ..
  then have "group_step\<^sup>*\<^sup>* small_group s'" by (intro r_into_rtranclp group_step.responded)
  moreover have "owned small_group 1" by (simp add: example_simps)
  ultimately show ?thesis using groups_keep_an_owner s' by blast
qed

text \<open>An invitation outlives the group's last owner: when the only owner and member of a group is
  deleted while another account is still invited, the group keeps the invitation, and accepting it
  makes a member of a group that has no owner.\<close>

theorem accepted_into_ownerless_group:
  "\<exists>s1 s2. delete_account 5 (lit ''zQo'') 5 small_group = Inr s1 \<and>
     respond_to_invitation test_env bob 1 True s1 = Inr s2 \<and> populated s2 1 \<and> \<not> owned s2 1"
proof -
  define s1 where "s1 = projr (delete_account 5 (lit ''zQo'') 5 small_group)"
  have d: "delete_account 5 (lit ''zQo'') 5 small_group = Inr s1"
    and s1: "owners s1 = []" "conversations s1 = conversations small_group" "groups s1 = groups small_group"
    "accounts s1 = [deleted_account_row 5 5 (new_account 0 (lit ''zQo'') Carbon), new_account 0 (lit ''a8K'') Carbon]"
    "invitations s1 = tl (invitations small_group)"
    by (simp_all add: s1_def delete_account_def Let_def put_accounts_def upsert_def deleted_account_row_def coalesce_def
        account_row_ok_def uuid_format_def is_ascii_alphanumeric_def is_ascii_lowercase_def is_ascii_uppercase_def
        is_ascii_digit_def delete_own_rows_def groups_of_account_def ensure_owner_in_def example_simps)
  have "\<exists>s2. respond_to_invitation test_env bob 1 True s1 = Inr s2 \<and> owners s2 = owners s1 \<and>
      accounts s2 = accounts s1 \<and> invitations s2 = [(hd (invitations s1))\<lparr>i_status := Accepted, i_accepted_at := Some 9\<rparr>]"
    using s1 by (simp add: respond_to_invitation_def lock_group_def Let_def example_simps)
  then obtain s2 where r: "respond_to_invitation test_env bob 1 True s1 = Inr s2" "owners s2 = owners s1"
    "accounts s2 = accounts s1" "invitations s2 = [(hd (invitations s1))\<lparr>i_status := Accepted, i_accepted_at := Some 9\<rparr>]"
    by blast
  have "populated s2 1" "\<not> owned s2 1"
    using r s1 by (simp_all add: deleted_account_row_def example_simps)
  with d r show ?thesis by blast
qed

section \<open>Allocated addresses\<close>

abbreviation spaced :: "str \<Rightarrow> bool" where
  "spaced \<equiv> successively (\<lambda>x y. \<not> (x = 45 \<and> y = 45))"

lemma contains_double_dash: "contains_str (lit ''--'') s \<longleftrightarrow> \<not> spaced s"
proof (induction s)
  case Nil
  then show ?case by (simp add: lit_def)
next
  case (Cons x s)
  then show ?case by (cases s) (auto simp: lit_def)
qed

lemma dash_runs_chars: "c \<in> set (dash_runs r s) \<Longrightarrow> slug_char c \<or> c = 45"
  by (induction r s rule: dash_runs.induct) (auto split: if_splits)

lemma dash_runs_length: "length (dash_runs r s) \<le> length s"
  by (induction r s rule: dash_runs.induct) auto

lemma dash_runs_spaced: "spaced (dash_runs r s) \<and> (r \<longrightarrow> dash_runs r s = [] \<or> hd (dash_runs r s) \<noteq> 45)"
proof (induction r s rule: dash_runs.induct)
  case (2 r c cs)
  have "slug_char c \<Longrightarrow> c \<noteq> 45" by (auto simp: slug_char_def is_ascii_lowercase_def is_ascii_digit_def)
  with 2 show ?case by (auto simp: successively_Cons)
qed simp

lemma successively_dropWhile: "successively P xs \<Longrightarrow> successively P (dropWhile Q xs)"
  by (induction xs) (auto simp: successively_Cons)

lemma trim_matches_facts:
  "set (trim_matches c s) \<subseteq> set s" "length (trim_matches c s) \<le> length s"
  "trim_matches c s \<noteq> [] \<Longrightarrow> hd (trim_matches c s) \<noteq> c \<and> last (trim_matches c s) \<noteq> c"
proof -
  let ?d = "dropWhile (\<lambda>x. x = c) s"
  let ?e = "dropWhile (\<lambda>x. x = c) (rev ?d)"
  have e: "trim_matches c s = rev ?e" by (simp add: trim_matches_def)
  show "set (trim_matches c s) \<subseteq> set s"
  proof
    fix x assume "x \<in> set (trim_matches c s)"
    then have "x \<in> set ?e" unfolding e by simp
    then have "x \<in> set (rev ?d)" by (rule set_dropWhileD)
    then have "x \<in> set ?d" by simp
    then show "x \<in> set s" by (rule set_dropWhileD)
  qed
  have "length ?e \<le> length ?d" using length_dropWhile_le [of "\<lambda>x. x = c" "rev ?d"] by simp
  then show "length (trim_matches c s) \<le> length s"
    unfolding e using length_dropWhile_le [of "\<lambda>x. x = c" s] by simp
  assume ne: "trim_matches c s \<noteq> []"
  then have "last (trim_matches c s) \<noteq> c"
    using hd_dropWhile [of "\<lambda>x. x = c" "rev ?d"] unfolding e by (simp add: last_rev)
  moreover have "prefix (trim_matches c s) ?d"
    unfolding e by (metis rev_rev_ident suffix_dropWhile suffix_to_prefix)
  then obtain zs where "?d = trim_matches c s @ zs" by (auto simp: prefix_def)
  with ne have "hd (trim_matches c s) = hd ?d" "?d \<noteq> []" by (simp_all del: dropWhile_eq_Nil_conv)
  then have "hd (trim_matches c s) \<noteq> c" using hd_dropWhile [of "\<lambda>x. x = c" s] by simp
  ultimately show "hd (trim_matches c s) \<noteq> c \<and> last (trim_matches c s) \<noteq> c" by simp
qed

lemma spaced_rev: "spaced (rev s) = spaced s"
  unfolding successively_rev by (rule arg_cong [of _ _ "\<lambda>P. successively P s"]) (auto simp: fun_eq_iff)

lemma trim_matches_spaced: "spaced s \<Longrightarrow> spaced (trim_matches c s)"
proof -
  assume "spaced s"
  then have "spaced (dropWhile (\<lambda>x. x = c) s)" by (rule successively_dropWhile)
  then have "spaced (rev (dropWhile (\<lambda>x. x = c) s))" by (simp only: spaced_rev)
  then have "spaced (dropWhile (\<lambda>x. x = c) (rev (dropWhile (\<lambda>x. x = c) s)))" by (rule successively_dropWhile)
  then show ?thesis by (simp only: trim_matches_def spaced_rev)
qed

lemma nat_digits_digit: "c \<in> set (nat_digits n) \<Longrightarrow> is_ascii_digit c"
proof (induction n rule: nat_digits.induct)
  case (1 n)
  then show ?case by (auto simp: nat_digits.simps [of n] is_ascii_digit_def split: if_splits)
qed

lemma nat_digits_length: "n < 10 ^ k \<Longrightarrow> 0 < k \<Longrightarrow> length (nat_digits n) \<le> k"
proof (induction k arbitrary: n)
  case (Suc k)
  show ?case
  proof (cases "n < 10")
    case False
    then have "n div 10 < 10 ^ k" "0 < k" using Suc.prems by (auto simp: less_mult_imp_div_less intro: gr0I)
    with Suc.IH [of "n div 10"] False show ?thesis by (simp add: nat_digits.simps [of n])
  qed (simp add: nat_digits.simps [of n])
qed simp

lemma spaced_no_dash: "\<forall>c\<in>set s. c \<noteq> 45 \<Longrightarrow> spaced s"
  by (induction s) (auto simp: successively_Cons)

lemma free_suffix_free: "0 < n \<Longrightarrow> suffixed base (free_suffix base taken n) \<notin> set taken \<and> n \<le> free_suffix base taken n"
proof (induction base taken n rule: free_suffix.induct)
  case (1 base taken n)
  show ?case
  proof (cases "suffixed base n \<in> set taken")
    case True
    with 1 have "free_suffix base taken n = free_suffix base taken (n + 1)"
      by (simp add: free_suffix.simps [of base taken n])
    with 1 True show ?thesis by simp
  next
    case False
    then show ?thesis by (simp add: free_suffix.simps [of base taken n])
  qed
qed

lemma free_suffix_between: "0 < n \<Longrightarrow> n \<le> m \<Longrightarrow> m < free_suffix base taken n \<Longrightarrow> suffixed base m \<in> set taken"
proof (induction base taken n rule: free_suffix.induct)
  case (1 base taken n)
  show ?case
  proof (cases "suffixed base n \<in> set taken")
    case True
    with 1 have "free_suffix base taken n = free_suffix base taken (n + 1)"
      by (simp add: free_suffix.simps [of base taken n])
    with 1 True show ?thesis by (cases "m = n") auto
  next
    case False
    with 1 have "free_suffix base taken n = n" by (simp add: free_suffix.simps [of base taken n])
    with 1 show ?thesis by simp
  qed
qed

lemma free_suffix_bound: "free_suffix base taken 1 \<le> length taken + 1"
proof -
  let ?k = "free_suffix base taken 1"
  have "suffixed base ` {1..<?k} \<subseteq> set taken" using free_suffix_between [of 1] by auto
  moreover have "inj_on (suffixed base) {1..<?k}" by (auto simp: inj_on_def intro: suffixed_inj)
  ultimately have "card {1..<?k} \<le> card (set taken)" by (metis card_image card_mono List.finite_set)
  also have "\<dots> \<le> length taken" by (rule card_length)
  finally show ?thesis by simp
qed

lemma group_slug_facts:
  "\<forall>c\<in>set (group_slug name). slug_char c \<or> c = 45" "length (group_slug name) \<le> length name"
  "spaced (group_slug name)"
  "group_slug name \<noteq> [] \<Longrightarrow> hd (group_slug name) \<noteq> 45 \<and> last (group_slug name) \<noteq> 45"
proof -
  let ?d = "dash_runs False (to_ascii_lowercase name)"
  show "\<forall>c\<in>set (group_slug name). slug_char c \<or> c = 45"
    unfolding group_slug_def using trim_matches_facts(1) [of 45 ?d] dash_runs_chars by blast
  show "length (group_slug name) \<le> length name"
    unfolding group_slug_def using trim_matches_facts(2) [of 45 ?d] dash_runs_length [of False "to_ascii_lowercase name"]
    by (simp add: to_ascii_lowercase_def)
  show "spaced (group_slug name)"
    unfolding group_slug_def using dash_runs_spaced by (blast intro: trim_matches_spaced)
  show "group_slug name \<noteq> [] \<Longrightarrow> hd (group_slug name) \<noteq> 45 \<and> last (group_slug name) \<noteq> 45"
    unfolding group_slug_def by (rule trim_matches_facts(3))
qed

lemma valid_slugI:
  assumes "slug \<noteq> []" "length slug \<le> 140" "hd slug \<noteq> 45" "last slug \<noteq> 45" "spaced slug"
    and "\<forall>c\<in>set slug. slug_char c \<or> c = 45"
  shows "valid_slug slug"
proof -
  have b: "bytes slug = slug"
    using assms(6) by (intro bytes_ascii) (auto simp: slug_char_def is_ascii_lowercase_def is_ascii_digit_def)
  have "\<not> prefix (lit ''-'') slug" using assms(1,3) by (auto simp: lit_def prefix_def)
  moreover have "\<not> suffix (lit ''-'') slug" using assms(1,4) by (auto simp: lit_def suffix_def)
  ultimately show ?thesis
    using assms b by (auto simp: valid_slug_def str_len_def contains_double_dash slug_char_def)
qed

text \<open>The address allocated to a new group is a valid group address that no other group has,
  whatever the group's name, as long as fewer than ten to the eighteenth groups exist; a name
  without an ASCII letter or digit is refused.\<close>

theorem group_address_valid_and_fresh:
  assumes "assign_group_public_id t name = Inr address" "length name \<le> 120" "length t < 10 ^ 18"
  shows "valid_group_id address \<and> address \<notin> set (map g_public_id t)"
proof -
  define slug where "slug = group_slug name"
  define k where "k = free_suffix (lit ''g:'' @ slug) (map g_public_id t) 1"
  have ne: "slug \<noteq> []" and address: "address = suffixed (lit ''g:'' @ slug) k"
    using assms(1) by (auto simp: assign_group_public_id_def Let_def slug_def k_def split: if_splits)
  note facts = group_slug_facts [of name, folded slug_def]
  have k: "0 < k" "k < 10 ^ 19"
    using free_suffix_free [of 1 "lit ''g:'' @ slug" "map g_public_id t"]
      free_suffix_bound [of "lit ''g:'' @ slug" "map g_public_id t"] assms(3) by (simp_all add: k_def)
  define rest where "rest = (if k = 1 then slug else slug @ 45 # nat_digits k)"
  have "address = lit ''g:'' @ rest" by (simp add: address suffixed_def rest_def)
  have digits: "\<forall>c\<in>set (nat_digits k). slug_char c \<and> c \<noteq> 45"
    using nat_digits_digit [of _ k] by (fastforce simp: slug_char_def is_ascii_digit_def)
  have nd: "nat_digits k \<noteq> []" by (simp add: nat_digits.simps [of k])
  have "valid_slug rest"
  proof (rule valid_slugI)
    show "rest \<noteq> []" "hd rest \<noteq> 45" using ne facts(4) by (auto simp: rest_def)
    show "length rest \<le> 140"
      using facts(2) assms(2) nat_digits_length [OF k(2)] by (auto simp: rest_def)
    show "last rest \<noteq> 45" using facts(4) ne digits nd by (auto simp: rest_def)
    show "spaced rest"
      using facts(3,4) ne digits nd spaced_no_dash [of "nat_digits k"]
      by (auto simp: rest_def successively_append_iff successively_Cons)
    show "\<forall>c\<in>set rest. slug_char c \<or> c = 45" using facts(1) digits by (auto simp: rest_def)
  qed
  moreover have "58 \<notin> set rest"
    using valid_slug_chars(1) [OF \<open>valid_slug rest\<close>] by auto
  ultimately have "valid_group_id address"
    unfolding \<open>address = lit ''g:'' @ rest\<close> valid_group_id_def
    by (simp add: strip_prefix_def split_once_def)
  moreover have "address \<notin> set (map g_public_id t)"
    using free_suffix_free [of 1 "lit ''g:'' @ slug" "map g_public_id t"] by (simp add: address k_def)
  ultimately show ?thesis by simp
qed

theorem group_address_valid_and_fresh_witness:
  "\<exists>address. assign_group_public_id [] (lit ''Product Design'') = Inr address \<and> valid_group_id address"
proof -
  have *: "assign_group_public_id [] (lit ''Product Design'') = Inr (lit ''g:product-design'')"
    by (simp add: assign_group_public_id_def Let_def group_slug_def slug_char_def suffixed_def
        free_suffix.simps [of _ "[]"] to_ascii_lowercase_def str_simps)
  from group_address_valid_and_fresh [OF this] * show ?thesis by (simp add: lit_def)
qed

section \<open>Settings, invitations and retries\<close>

definition version_changed :: app_error where
  "version_changed = conflict ''group version changed; fetch the group and retry with its current version''"

text \<open>Group settings change by compare-and-swap: an update against the current version is
  stored, trimmed, under the next version; an update against any other version is refused, so of
  two writers holding the same version only the first succeeds.\<close>

theorem group_settings_cas:
  assumes "keyed g_conversation (groups s)" "find (\<lambda>g. g_conversation g = gid) (groups s) = Some g"
  shows "(v \<noteq> g_version g \<longrightarrow> update_settings_in gid st v s = Inl version_changed) \<and>
    (\<exists>s'. update_settings_in gid st (g_version g) s = Inr s' \<and>
       find (\<lambda>g. g_conversation g = gid) (groups s') = Some (g\<lparr>g_name := gs_name st,
         g_description := gs_description st, g_version := g_version g + 1\<rparr>) \<and>
       update_settings_in gid st' (g_version g) s' = Inl version_changed)"
proof -
  have g: "g \<in> set (groups s)" "g_conversation g = gid" using find_Some_in [OF assms(2)] by simp_all
  have rows: "rows_affected (\<lambda>x. g_conversation x = gid \<and> g_version x = w) (groups s) = (if w = g_version g then 1 else 0)" for w
  proof -
    have "(\<exists>x\<in>set (groups s). g_conversation x = gid \<and> g_version x = w) \<longleftrightarrow> w = g_version g"
      using g keyed_unique [OF assms(1)] by metis
    then show ?thesis using rows_affected_keyed [OF assms(1), of gid "\<lambda>x. g_version x = w"] by simp
  qed
  let ?f = "\<lambda>x. x\<lparr>g_name := gs_name st, g_description := gs_description st, g_version := g_version x + 1\<rparr>"
  let ?t = "sql_update (\<lambda>x. g_conversation x = gid \<and> g_version x = g_version g) ?f (groups s)"
  have upd: "update_settings_in gid st (g_version g) s = Inr (s\<lparr>groups := ?t\<rparr>)"
    using rows by (simp add: update_settings_in_def Let_def)
  have f: "find (\<lambda>x. g_conversation x = gid) ?t = Some (?f g)"
    using assms(2) g by (subst find_keyed_update) simp_all
  have "keyed g_conversation ?t" using assms(1) by (intro keyed_sql_update) simp_all
  moreover from f have "?f g \<in> set ?t" by (auto dest: find_Some_in)
  ultimately have "\<not> (\<exists>x\<in>set ?t. g_conversation x = gid \<and> g_version x = g_version g)"
    using g keyed_unique [of g_conversation ?t "?f g"] by fastforce
  then have r0: "rows_affected (\<lambda>x. g_conversation x = gid \<and> g_version x = g_version g) ?t = 0" by simp
  have "update_settings_in gid st' (g_version g) (s\<lparr>groups := ?t\<rparr>) = Inl version_changed"
    by (simp add: update_settings_in_def version_changed_def r0 del: rows_affected_0)
  moreover have "v \<noteq> g_version g \<Longrightarrow> update_settings_in gid st v s = Inl version_changed"
    using rows by (simp add: update_settings_in_def version_changed_def)
  ultimately show ?thesis using upd f by auto
qed

theorem group_settings_cas_witness:
  "update_settings_in 1 \<lparr>gs_name = lit ''dev'', gs_description = []\<rparr> 7 small_group = Inl version_changed"
  using group_settings_cas [of small_group 1 "\<lparr>g_conversation = 1, g_partition = accounts_partition,
      g_name = lit ''ops'', g_description = [], g_version = 1, g_public_id = lit ''g:ops''\<rparr>" 7]
  by (simp add: small_group_def keyed_def)

text \<open>Who has accepted, after invitations.\<close>

definition accepted_in :: "invitation_row list \<Rightarrow> uuid \<Rightarrow> actor_ref \<Rightarrow> bool" where
  "accepted_in t gid a = (\<exists>i. find (\<lambda>i. invitation_key i = (gid, a)) t = Some i \<and> i_status i = Accepted)"

lemma accepted_invite_one:
  "accepted_in (invite_one now part gid by_a v t) gid' a \<longleftrightarrow>
     accepted_in t gid' a \<or> (gid' = gid \<and> iv_actor v = a \<and> iv_accepted v)"
  unfolding accepted_in_def invite_one_def Let_def
  by (subst find_upsert) (auto simp: invitation_key_def split: option.splits)

lemma accepted_invite_fold:
  "accepted_in (fold (invite_one now part gid by_a) vs t) gid' a \<longleftrightarrow>
     accepted_in t gid' a \<or> (gid' = gid \<and> (\<exists>v\<in>set vs. iv_actor v = a \<and> iv_accepted v))"
  by (induction vs arbitrary: t) (auto simp: accepted_invite_one)

lemma keyed_invite_fold:
  "keyed invitation_key t \<Longrightarrow> keyed invitation_key (fold (invite_one now part gid by_a) vs t)"
proof (induction vs arbitrary: t)
  case (Cons v vs)
  have "keyed invitation_key (invite_one now part gid by_a v t)"
    unfolding invite_one_def Let_def by (intro keyed_upsert Cons.prems) (simp add: invitation_key_def)
  with Cons.IH show ?case by simp
qed simp

lemma is_eligible_iff:
  assumes "keyed invitation_key (invitations s)"
  shows "is_eligible s gid a \<longleftrightarrow> accepted_in (invitations s) gid a \<and> \<not> account_deleted_in s (ar_id a)"
proof
  assume "is_eligible s gid a"
  then obtain i where i: "i \<in> set (invitations s)" "i_status i = Accepted" "i_conversation i = gid" "i_actor i = a"
    "\<not> account_deleted_in s (ar_id a)"
    by (auto simp: is_eligible_def sql_exists_def eligible_group_members_def)
  with find_keyed [OF assms i(1)] show "accepted_in (invitations s) gid a \<and> \<not> account_deleted_in s (ar_id a)"
    by (auto simp: accepted_in_def invitation_key_def)
next
  assume "accepted_in (invitations s) gid a \<and> \<not> account_deleted_in s (ar_id a)"
  then show "is_eligible s gid a"
    by (auto simp: accepted_in_def is_eligible_def sql_exists_def eligible_group_members_def invitation_key_def
        dest!: find_Some_in)
qed

text \<open>Inviting makes members of exactly the accounts that join at once: afterwards an account
  belongs to the group when it did before or when it was named with immediate acceptance; everyone
  else named is only invited, and no other group is affected.\<close>

theorem inviting_membership:
  assumes "keyed invitation_key (invitations s)"
  shows "is_eligible (invite_in now part gid inviter vs s) gid' a \<longleftrightarrow>
    is_eligible s gid' a \<or>
    (gid' = gid \<and> (\<exists>v\<in>set vs. iv_actor v = a \<and> iv_accepted v) \<and> \<not> account_deleted_in s (ar_id a))"
proof -
  let ?s = "invite_in now part gid inviter vs s"
  have inv: "invitations ?s = fold (invite_one now part gid inviter) vs (invitations s)"
    by (simp add: invite_in_def Let_def)
  have "keyed invitation_key (invitations ?s)" unfolding inv by (rule keyed_invite_fold [OF assms])
  moreover have "account_deleted_in ?s = account_deleted_in s" by (simp add: account_deleted_in_def fun_eq_iff)
  ultimately show ?thesis
    using is_eligible_iff [OF assms] accepted_invite_fold by (auto simp: is_eligible_iff inv)
qed

theorem inviting_membership_witness:
  "\<not> is_eligible (invite_in 9 accounts_partition 1 ann [\<lparr>iv_actor = bob, iv_accepted = False\<rparr>] small_group) 1 bob"
  using inviting_membership [of small_group 9 accounts_partition 1 ann "[\<lparr>iv_actor = bob, iv_accepted = False\<rparr>]" 1 bob]
  by (simp add: keyed_def is_eligible_def example_simps)

section \<open>Retries\<close>

text \<open>What a retry must leave alone.\<close>

definition same_groups :: "db \<Rightarrow> db \<Rightarrow> bool" where
  "same_groups s s' \<longleftrightarrow> groups s' = groups s \<and> owners s' = owners s \<and> invitations s' = invitations s"

text \<open>A change keeps the log and the group's existence.\<close>

definition tame :: "uuid \<Rightarrow> (str \<Rightarrow> db \<Rightarrow> db app_result) \<Rightarrow> bool" where
  "tame gid change \<longleftrightarrow> (\<forall>part s s'. change part s = Inr s' \<longrightarrow>
     idempotency s' = idempotency s \<and> conversations s' = conversations s \<and>
     map g_conversation (groups s') = map g_conversation (groups s))"

lemma find_ids: "map key t' = map key t \<Longrightarrow> (find (\<lambda>x. key x = k) t' = None) = (find (\<lambda>x. key x = k) t = None)"
  by (auto simp: find_None_iff) (metis image_iff list.set_map)+

lemma lock_group_iff:
  "(\<exists>part. lock_group gid s = Inr part) \<longleftrightarrow> gid \<in> set (map c_id (conversations s)) \<and> gid \<in> set (map g_conversation (groups s))"
proof (cases "find (\<lambda>c. c_id c = gid \<and> sql_exists (\<lambda>g. g_conversation g = gid) (groups s)) (conversations s)")
  case None
  then have "\<not> (gid \<in> set (map c_id (conversations s)) \<and> gid \<in> set (map g_conversation (groups s)))"
    unfolding find_None_iff sql_exists_def by fastforce
  with None show ?thesis by (simp add: lock_group_def)
next
  case (Some c)
  from find_Some_in [OF this] have "gid \<in> set (map c_id (conversations s)) \<and> gid \<in> set (map g_conversation (groups s))"
    by (auto simp: sql_exists_def image_iff; metis)
  with Some show ?thesis by (simp add: lock_group_def)
qed

lemma details_iff: "(\<exists>d. group_details a gid s = Some d) \<longleftrightarrow> gid \<in> set (map g_conversation (groups s))"
proof (cases "find (\<lambda>g. g_conversation g = gid) (groups s)")
  case (Some g)
  then show ?thesis by (auto simp: group_details_def dest: find_Some_in)
next
  case None
  then have "gid \<notin> set (map g_conversation (groups s))" by (auto simp: find_None_iff)
  with None show ?thesis by (simp add: group_details_def)
qed

lemma finish_group_fields [simp]:
  "idempotency (finish_group now gid s) = idempotency s" "groups (finish_group now gid s) = groups s"
  "map c_id (conversations (finish_group now gid s)) = map c_id (conversations s)"
  by (simp_all add: finish_group_def Let_def sync_in_def map_key_sql_update)

lemma refresh_fields [simp]:
  "idempotency (refresh_directory_in now part as s) = idempotency s"
  "groups (refresh_directory_in now part as s) = groups s"
  "conversations (refresh_directory_in now part as s) = conversations s"
  by (simp_all add: refresh_directory_in_def)

lemma group_mutation_settles:
  assumes "group_mutation E a operation key h gid change s = Inr (d, s')"
    and "keyed idem_key_of (idempotency s)" "tame gid change"
  shows "\<exists>r. settled (idempotency s') (group_key a operation key) = Some (h, r)"
    and "\<exists>part. lock_group gid s' = Inr part"
proof -
  obtain part fresh s1 s2 where lock: "lock_group gid s = Inr part"
    and s1: "acquired E a operation key h s = Inr (fresh, s1)"
    and s2: "(if fresh then bind_ok (change part s1) (complete_group a operation key gid 200) else Inr s1) = Inr s2"
    and s': "s' = finish_group (e_now E) gid s2"
    using assms(1) by (auto simp: group_mutation_def details_or_not_found_def split: option.splits)
  obtain c t where c: "claim (e_now E) (e_lease E) (group_key a operation key) h (idempotency s) = Inr (c, t)"
    and fresh: "fresh = (c = Acquired)"
    and s1': "s1 = (refresh_directory_in (e_now E) accounts_partition [a] s)\<lparr>idempotency := t\<rparr>"
    using s1 by (auto simp: acquired_def claim_db_def)
  have "(\<exists>r. settled (idempotency s2) (group_key a operation key) = Some (h, r)) \<and>
      map c_id (conversations s2) = map c_id (conversations s) \<and> map g_conversation (groups s2) = map g_conversation (groups s)"
  proof (cases c)
    case Acquired
    then obtain x where x: "change part s1 = Inr x" and comp: "complete_group a operation key gid 200 x = Inr s2"
      using s2 fresh by auto
    have tx: "idempotency x = t" "conversations x = conversations s" "map g_conversation (groups x) = map g_conversation (groups s)"
      using assms(3) x by (auto simp: tame_def s1')
    obtain t2 where t2: "complete (group_key a operation key) ''conversation'' gid 200 t = Inr t2"
      and s2x: "s2 = x\<lparr>idempotency := t2\<rparr>"
      using comp tx by (auto simp: complete_group_def complete_db_def)
    have "settled t2 (group_key a operation key) = Some (h, gid)"
      using idem.settles [OF assms(2) c [unfolded Acquired] t2] .
    then show ?thesis using tx s2x by simp
  next
    case (Replay r)
    then have "settled (idempotency s) (group_key a operation key) = Some (h, r)" "t = idempotency s" "s2 = s1"
      using c s2 fresh by (simp_all add: claim_replay_iff)
    then show ?thesis by (simp add: s1')
  qed
  then show "\<exists>r. settled (idempotency s') (group_key a operation key) = Some (h, r)"
    and "\<exists>part. lock_group gid s' = Inr part"
    using lock lock_group_iff [of gid s] lock_group_iff [of gid s'] by (auto simp: s')
qed

lemma group_mutation_replay:
  assumes "settled (idempotency s) (group_key a operation key) = Some (h, r)" "\<exists>part. lock_group gid s = Inr part"
  shows "\<exists>d s'. group_mutation E a operation key h gid change s = Inr (d, s') \<and> same_groups s s'"
proof -
  obtain part where lock: "lock_group gid s = Inr part" using assms(2) ..
  let ?s1 = "refresh_directory_in (e_now E) accounts_partition [a] s"
  have "acquired E a operation key h s = Inr (False, ?s1)"
    using idem.replays [OF assms(1)] by (simp add: acquired_def claim_db_def)
  moreover obtain d where "group_details a gid (finish_group (e_now E) gid ?s1) = Some d"
    using details_iff lock_group_iff [of gid s] lock by fastforce
  ultimately have "group_mutation E a operation key h gid change s = Inr (d, finish_group (e_now E) gid ?s1)"
    using lock by (simp add: group_mutation_def details_or_not_found_def)
  then show ?thesis by (auto simp: same_groups_def)
qed

lemma tame_update: "tame gid (\<lambda>_. update_settings_in gid' st v)"
  by (auto simp: tame_def update_settings_in_def Let_def map_key_sql_update split: if_splits)

lemma bump_fields [simp]:
  "idempotency (bump gid s) = idempotency s" "conversations (bump gid s) = conversations s"
  "map g_conversation (groups (bump gid s)) = map g_conversation (groups s)"
  by (simp_all add: bump_def map_key_sql_update)

lemma tame_invite:
  "tame gid (\<lambda>part s. Inr (bump gid (invite_in now part gid a vs (refresh_directory_in now part as s))))"
  by (simp add: tame_def invite_in_def Let_def)

lemma tame_remove: "tame gid (\<lambda>_. remove_members_in gid ms)"
proof -
  have "idempotency (fold (remove_member_in gid) ms s) = idempotency s \<and>
      conversations (fold (remove_member_in gid) ms s) = conversations s \<and>
      groups (fold (remove_member_in gid) ms s) = groups s" for s
    by (induction ms arbitrary: s) (simp_all add: remove_member_in_def)
  then show ?thesis by (auto simp: tame_def remove_members_in_def Let_def)
qed

lemma set_owners_in_fields:
  "set_owners_in now b gid promote ms s = Inr s' \<Longrightarrow>
   idempotency s' = idempotency s \<and> conversations s' = conversations s \<and> groups s' = groups s"
proof (induction ms arbitrary: s)
  case (Cons m ms)
  then obtain s1 where s1: "(if promote then promote_in now b gid m s else Inr (demote_in gid m s)) = Inr s1"
    and rest: "set_owners_in now b gid promote ms s1 = Inr s'" by auto
  have "idempotency s1 = idempotency s \<and> conversations s1 = conversations s \<and> groups s1 = groups s"
    using s1 by (auto simp: promote_in_def demote_in_def split: if_splits)
  with Cons.IH [OF rest] show ?case by simp
qed simp

lemma tame_owners:
  "tame gid (\<lambda>_ s1. bind_ok (set_owners_in now b gid promote ms s1) (\<lambda>s2.
        bind_ok (require_an_owner gid s2) (\<lambda>_. Inr (bump gid s2))))"
  by (auto simp: tame_def dest: set_owners_in_fields)

lemmas tame_changes = tame_update tame_invite tame_remove tame_owners


end
