(* ===== verification/Conversations.thy ===== *)
theory Conversations
  imports Rows DM_Groups
begin

text \<open>
  Conversations (\<open>postgres/conversations.rs\<close>) and the paths that reach them (\<open>api/access.rs\<close>): one
  canonical direct conversation per set of accounts, who may read or write, listings, and the
  limits on starting conversations. A handler answers with what it shows after its transaction has
  committed: the outer result is the transaction, the inner one the response.
\<close>

section \<open>Access\<close>

datatype conversation_access = ParticipantAccess | CustodianAccess | InviteeAccess

definition is_custodian :: "db \<Rightarrow> actor_ref \<Rightarrow> str \<Rightarrow> bool" where
  "is_custodian s who silicon \<longleftrightarrow> ar_type who = Carbon \<and>
     sql_exists (\<lambda>a. a_uuid a = silicon \<and> a_custodian a = Some (ar_id who)) (accounts s)"

definition reads_as_custodian :: "db \<Rightarrow> actor_ref \<Rightarrow> uuid \<Rightarrow> bool" where
  "reads_as_custodian s caller conversation =
     sql_exists (\<lambda>p. p_conversation p = conversation \<and> ar_type (p_actor p) = Silicon \<and>
         is_custodian s caller (ar_id (p_actor p)))
       (effective_conversation_participants s)"

definition is_invitee :: "db \<Rightarrow> actor_ref \<Rightarrow> uuid \<Rightarrow> bool" where
  "is_invitee s caller conversation =
     sql_exists (\<lambda>i. i_conversation i = conversation \<and> i_status i = Pending \<and>
         (i_actor i = caller \<or>
          (ar_type (i_actor i) = Silicon \<and> is_custodian s caller (ar_id (i_actor i)))))
       (invitations s)"

definition conversation_access :: "db \<Rightarrow> actor_ref \<Rightarrow> uuid \<Rightarrow> conversation_access option" where
  "conversation_access s caller conversation =
     (if \<not> sql_exists (\<lambda>c. c_id c = conversation) (conversations s) then None
      else if is_participant s conversation caller then Some ParticipantAccess
      else if reads_as_custodian s caller conversation then Some CustodianAccess
      else if is_invitee s caller conversation then Some InviteeAccess
      else None)"

definition require_reader :: "db \<Rightarrow> actor_ref \<Rightarrow> uuid \<Rightarrow> unit app_result" where
  "require_reader s viewer conversation =
     (case conversation_access s viewer conversation of
        Some ParticipantAccess \<Rightarrow> Inr () | Some CustodianAccess \<Rightarrow> Inr () | _ \<Rightarrow> Inl NotFound)"

definition partition_of :: "db \<Rightarrow> uuid \<Rightarrow> str app_result" where
  "partition_of s conversation =
     (case find (\<lambda>c. c_id c = conversation) (conversations s) of
        None \<Rightarrow> Inl NotFound | Some c \<Rightarrow> Inr (c_partition c))"

text \<open>The view \<open>conversation_addresses\<close>: a group's public id; the sorted public ids of the two
  accounts of a current direct conversation, or the identifier of a superseded one.\<close>

definition shown_id :: "db \<Rightarrow> actor_ref \<Rightarrow> str" where
  "shown_id s a =
     (case find (\<lambda>x. a_uuid x = ar_id a \<and> \<not> a_deleted x) (accounts s) of
        Some x \<Rightarrow> (case a_id x of Some i \<Rightarrow> i | None \<Rightarrow> ar_id a) | None \<Rightarrow> ar_id a)"

definition direct_address :: "db \<Rightarrow> actor_ref list \<Rightarrow> str" where
  "direct_address s as =
     join_with (lit ''::'')
       (map snd (sort (map (\<lambda>a. (lit (type_str (ar_type a)), shown_id s a)) as)))"

definition conversation_address :: "uuid_lib \<Rightarrow> db \<Rightarrow> uuid \<Rightarrow> str option" where
  "conversation_address U s conversation =
     (case find (\<lambda>g. g_conversation g = conversation) (groups s) of
        Some g \<Rightarrow> Some (g_public_id g)
      | None \<Rightarrow>
         (case find (\<lambda>c. c_id c = conversation) (conversations s) of
            None \<Rightarrow> None
          | Some c \<Rightarrow>
              let ps = filter (\<lambda>p. p_conversation p = c_id c \<and> p_partition p = c_partition c) (participants s) in
              if length ps \<noteq> 2 then None
              else Some (if c_superseded_by c = None then direct_address s (map p_actor ps)
                         else uuid_show U (c_id c))))"

definition recipient_deleted_error :: app_error where
  "recipient_deleted_error = refused 409 ''recipient_deleted''
     ''The other account in this conversation was deleted. Its history stays readable; it takes no new messages.''"

definition superseded_error :: "str \<Rightarrow> app_error" where
  "superseded_error canonical = Refused 409 ''conversation_superseded''
     (lit ''This conversation is kept for its history; the same accounts now talk in '' @ canonical @ lit ''. Send there.'')"

definition require_current :: "uuid_lib \<Rightarrow> db \<Rightarrow> uuid \<Rightarrow> unit app_result" where
  "require_current U s conversation =
     (if sql_exists (\<lambda>c. c_id c = conversation \<and> \<not> c_is_group c \<and>
           sql_exists (\<lambda>p. p_conversation p = c_id c \<and> account_deleted_in s (ar_id (p_actor p))) (participants s))
         (conversations s)
      then Inl recipient_deleted_error
      else
        (case find (\<lambda>c. c_id c = conversation) (conversations s) of
           None \<Rightarrow> Inr ()
         | Some c \<Rightarrow>
            (case Option.bind (c_superseded_by c) (conversation_address U s) of
               None \<Rightarrow> Inr () | Some canonical \<Rightarrow> Inl (superseded_error canonical))))"

section \<open>Creation\<close>

definition canonical :: "nat list \<Rightarrow> conversation_row \<Rightarrow> bool" where
  "canonical h c \<longleftrightarrow> c_set_hash c = h \<and> \<not> c_is_group c \<and> c_superseded_by c = None"

definition canonical_direct_conversation :: "env \<Rightarrow> actor_ref list \<Rightarrow> db \<Rightarrow> uuid option" where
  "canonical_direct_conversation E ps s =
     map_option c_id (find (canonical (participant_set_hash (e_sha256 E) (canonicalize_participants ps)))
       (conversations s))"

definition conversations_started_last_hour :: "instant \<Rightarrow> actor_ref \<Rightarrow> db \<Rightarrow> nat" where
  "conversations_started_last_hour now a s =
     rows_affected (\<lambda>c. c_creator c = a \<and> \<not> c_is_group c \<and> c_created_at c > now - 3600 * second)
       (conversations s)"

definition participant_of :: "instant \<Rightarrow> uuid \<Rightarrow> actor_ref \<Rightarrow> participant_row" where
  "participant_of now conversation a =
     \<lparr>p_conversation = conversation, p_partition = accounts_partition, p_actor = a, p_added_at = now\<rparr>"

definition canonical_or_insert_in ::
  "env \<Rightarrow> actor_ref \<Rightarrow> actor_ref list \<Rightarrow> db \<Rightarrow> (uuid \<times> db) app_result" where
  "canonical_or_insert_in E creator ps s =
     (let h = participant_set_hash (e_sha256 E) ps in
      case find (canonical h) (conversations s) of
        Some c \<Rightarrow> Inr (c_id c, s)
      | None \<Rightarrow>
          let i = e_fresh E 0 in
          bind_ok (insert_row c_id
            \<lparr>c_id = i, c_partition = accounts_partition, c_set_hash = h, c_creator = creator, c_is_group = False,
             c_superseded_by = None, c_next_sequence = 1, c_next_bundle = 1, c_created_at = e_now E,
             c_updated_at = e_now E\<rparr> (conversations s)) (\<lambda>cs.
          bind_ok (fold_result (\<lambda>a. insert_row participant_row_key (participant_of (e_now E) i a)) ps
                     (participants s)) (\<lambda>rows.
            Inr (i, s\<lparr>conversations := cs, participants := rows\<rparr>))))"

definition create_key :: "actor_ref \<Rightarrow> str \<Rightarrow> idem_key" where
  "create_key a key = (accounts_partition, a, ''conversations.create'', key)"

definition create_conversation_in ::
  "env \<Rightarrow> actor_ref \<Rightarrow> actor_ref list \<Rightarrow> str \<Rightarrow> db \<Rightarrow> (uuid \<times> db) app_result" where
  "create_conversation_in E creator participants0 key s =
     (let ps = canonicalize_participants participants0 in
      if length ps < 2 then Inl (validation ''a conversation requires at least two unique participants'')
      else if length ps > max_conversation_participants
      then Inl (validation ''a conversation may contain at most 100 unique participants'')
      else if creator \<notin> set ps then Inl Forbidden
      else
        bind_ok (request_hash (e_digest E) (JObj [(lit ''participants'', JArr (map actor_json ps))])) (\<lambda>h.
        let s1 = refresh_directory_in (e_now E) accounts_partition ps s in
        bind_ok (claim_db (e_now E) (e_lease E) (create_key creator key) h s1) (\<lambda>(c, s2).
        case c of
          Replay i \<Rightarrow> Inr (i, s2)
        | Acquired \<Rightarrow>
            bind_ok (canonical_or_insert_in E creator ps s2) (\<lambda>(i, s3).
            bind_ok (complete_db (create_key creator key) ''conversation'' i 201 s3) (\<lambda>s4.
              Inr (i, s4))))))"

definition ensure_direct_conversation ::
  "env \<Rightarrow> actor_ref \<Rightarrow> actor_ref \<Rightarrow> db \<Rightarrow> (uuid \<times> db) app_result" where
  "ensure_direct_conversation E a b s =
     (let ps = canonicalize_participants [a, b] in
      if length ps \<noteq> 2 then Inl (validation ''a conversation needs two different accounts'')
      else canonical_or_insert_in E a ps (refresh_directory_in (e_now E) accounts_partition ps s))"

section \<open>Pages of conversations\<close>

record conversation =
  cv_id :: uuid
  cv_participants :: "actor_ref list"
  cv_visible_to_custodians :: "actor_ref list"
  cv_superseded_by :: "uuid option"
  cv_supersedes :: "uuid list"
  cv_group :: "group_details option"
  cv_last_message :: "message option"
  cv_created_at :: instant
  cv_updated_at :: instant

text \<open>The latest message that is not a member of a bundle.\<close>

definition is_member_item :: "db \<Rightarrow> uuid \<Rightarrow> bool" where
  "is_member_item s message = sql_exists (\<lambda>b. bi_message b = message \<and> bi_role b = Member) (bundle_items s)"

definition last_message_id :: "db \<Rightarrow> uuid \<Rightarrow> uuid option" where
  "last_message_id s conversation =
     (case sort_key (\<lambda>m. - m_sequence m)
         (filter (\<lambda>m. m_conversation m = conversation \<and> \<not> is_member_item s (m_id m)) (messages s)) of
        [] \<Rightarrow> None | m # _ \<Rightarrow> Some (m_id m))"

definition shown_participants :: "db \<Rightarrow> conversation_row \<Rightarrow> actor_ref list" where
  "shown_participants s c =
     remdups_adj (sort_key participant_key (map p_actor
       (filter (\<lambda>p. p_conversation p = c_id c \<and> (\<not> c_is_group c \<or> is_participant s (c_id c) (p_actor p)))
         (participants s))))"

definition shown_custodians :: "db \<Rightarrow> uuid \<Rightarrow> actor_ref list" where
  "shown_custodians s conversation =
     map (actor Carbon) (remdups_adj (sort (concat (map
       (\<lambda>p. [u. a \<leftarrow> accounts s, a_uuid a = ar_id (p_actor p), u \<leftarrow> flatten_option (a_custodian a),
             \<not> is_participant s conversation (actor Carbon u)])
       (filter (\<lambda>p. p_conversation p = conversation \<and> ar_type (p_actor p) = Silicon)
         (effective_conversation_participants s))))))"

definition map_participants :: "db \<Rightarrow> conversation_row \<Rightarrow> actor_ref list app_result" where
  "map_participants s c =
     map_result (\<lambda>a. bind_ok (parse_actor_id (ar_id a)) (\<lambda>i. Inr (actor (ar_type a) i))) (shown_participants s c)"

definition build_conversation :: "db \<Rightarrow> actor_ref \<Rightarrow> conversation_row \<Rightarrow> message option \<Rightarrow> conversation app_result" where
  "build_conversation s viewer c latest =
     bind_ok (map_participants s c) (\<lambda>ps.
     Inr \<lparr>cv_id = c_id c, cv_participants = ps,
      cv_visible_to_custodians = shown_custodians s (c_id c), cv_superseded_by = c_superseded_by c,
      cv_supersedes = sort (map c_id (filter (\<lambda>old. c_superseded_by old = Some (c_id c)) (conversations s))),
      cv_group = group_details viewer (c_id c) s, cv_last_message = latest,
      cv_created_at = c_created_at c, cv_updated_at = c_updated_at c\<rparr>)"

definition conversation_page ::
  "store_lib \<Rightarrow> db \<Rightarrow> actor_ref \<Rightarrow> conversation_row list \<Rightarrow> nat \<Rightarrow> (conversation list \<times> str option) app_result" where
  "conversation_page L s viewer records limit =
     bind_ok (map_result (map_participants s) (take limit records)) (\<lambda>_.
     bind_ok (fill_page (\<lambda>c. option_result (load_message L s) (last_message_id s (c_id c)))
        (\<lambda>latest. case latest of None \<Rightarrow> Inr 0 | Some m \<Rightarrow> message_payload_bytes L m)
        (build_conversation s viewer) (take limit records) [] 0) (\<lambda>items.
      if length items < length records \<and> items \<noteq> []
      then bind_ok (cursor_encode (sl_cursor L)
             (cursor_activity ''conversations'' (cv_updated_at (last items)) (cv_id (last items)))) (\<lambda>next.
             Inr (items, Some next))
      else Inr (items, None)))"

definition activity :: "conversation_row \<Rightarrow> instant \<times> uuid" where
  "activity c = (c_updated_at c, c_id c)"

definition listed_conversations :: "db \<Rightarrow> actor_ref \<Rightarrow> bool \<Rightarrow> conversation_row list" where
  "listed_conversations s subject groups_only =
     rev (sort_key activity (filter (\<lambda>c.
        sql_exists (\<lambda>p. p_conversation p = c_id c \<and> p_partition p = c_partition c \<and> p_actor p = subject)
          (effective_conversation_participants s) \<and>
        c_superseded_by c = None \<and> (\<not> groups_only \<or> c_is_group c)) (conversations s)))"

definition list_conversations ::
  "store_lib \<Rightarrow> db \<Rightarrow> actor_ref \<Rightarrow> actor_ref \<Rightarrow> page_request \<Rightarrow> bool \<Rightarrow> (conversation list \<times> str option) app_result" where
  "list_conversations L s viewer subject q groups_only =
     bind_ok (validated_limit q) (\<lambda>limit.
     bind_ok (option_result (\<lambda>v. cursor_decode (sl_cursor L) v ''conversations'') (pq_cursor q)) (\<lambda>cursor.
     if is_some_and (\<lambda>c. activity_position c = None) cursor
     then Inl (validation ''cursor is invalid for conversation pagination'')
     else conversation_page L s viewer
       (take (limit + 1) (behind activity (Option.bind cursor activity_position)
          (listed_conversations s subject groups_only))) limit))"

definition get_conversation :: "store_lib \<Rightarrow> db \<Rightarrow> actor_ref \<Rightarrow> uuid \<Rightarrow> conversation app_result" where
  "get_conversation L s viewer conversation =
     bind_ok (require_reader s viewer conversation) (\<lambda>_.
       case find (\<lambda>c. c_id c = conversation) (conversations s) of
         None \<Rightarrow> Inl NotFound
       | Some c \<Rightarrow> bind_ok (conversation_page L s viewer [c] 1) (\<lambda>(items, _).
           case items of [] \<Rightarrow> Inl NotFound | item # _ \<Rightarrow> Inr item))"

definition create_conversation ::
  "store_lib \<Rightarrow> env \<Rightarrow> actor_ref \<Rightarrow> actor_ref list \<Rightarrow> str \<Rightarrow> db \<Rightarrow> (conversation app_result \<times> db) app_result" where
  "create_conversation L E creator participants0 key s =
     bind_ok (create_conversation_in E creator participants0 key s) (\<lambda>(i, s').
       Inr (get_conversation L s' creator i, s'))"

section \<open>Reaching a conversation\<close>

definition first_contacts_per_hour :: nat where "first_contacts_per_hour = 100"

definition hex_digit :: "nat \<Rightarrow> uchar" where
  "hex_digit d = (if d < 10 then 48 + d else 87 + d)"

definition to_hex :: "nat list \<Rightarrow> str" where
  "to_hex bs = concat (map (\<lambda>b. [hex_digit (b div 16), hex_digit (b mod 16)]) bs)"

definition first_contact_error :: app_error where
  "first_contact_error = refused 429 ''first_contact_limit''
     ''You started 100 new conversations in the last hour, the most DM allows. Existing conversations keep working; start new ones later.''"

text \<open>The key of a conversation started by writing to a recipient.\<close>

definition recipient_chat_key :: "env \<Rightarrow> actor_ref list \<Rightarrow> str app_result" where
  "recipient_chat_key E ps =
     (case idempotency_key (lit ''recipient-chat:'' @
         to_hex (blake3 (e_digest E) (bytes (join_with (lit '','') (sort (map ar_id ps)))))) of
        Inl _ \<Rightarrow> Inl (validation ''invalid idempotency key'') | Inr k \<Rightarrow> Inr k)"

definition start_conversation ::
  "store_lib \<Rightarrow> env \<Rightarrow> actor_ref \<Rightarrow> account list \<Rightarrow> str option \<Rightarrow> db \<Rightarrow> uuid app_result \<times> db" where
  "start_conversation L E caller others key s =
     (let ps = map account_actor others @ [caller] in
      case canonical_direct_conversation E ps s of
        Some existing \<Rightarrow> (Inr existing, s)
      | None \<Rightarrow>
          then_with (each_result (\<lambda>other.
              if acc_deleted other then Inl (account_deleted (display_id other))
              else require_may_reach caller other s) others, s) (\<lambda>_ s.
          if conversations_started_last_hour (e_now E) caller s \<ge> first_contacts_per_hour
          then (Inl first_contact_error, s)
          else then_with (case key of Some k \<Rightarrow> Inr k | None \<Rightarrow> recipient_chat_key E ps, s) (\<lambda>k s.
            then_with (in_transaction (create_conversation L E caller ps k) s) (\<lambda>response s'.
              (map_sum id cv_id response, s')))))"

definition recipient_conversation ::
  "store_lib \<Rightarrow> env \<Rightarrow> accounts_service \<Rightarrow> actor_ref \<Rightarrow> str \<Rightarrow> bool \<Rightarrow> db \<Rightarrow> uuid app_result \<times> db" where
  "recipient_conversation L E A caller v create s0 =
     then_with (resolve (e_uuid E) A (e_now E) v s0) (\<lambda>recipient s.
       if acc_uuid recipient = ar_id caller
       then (Inl (validation ''the recipient must be another account (you cannot message yourself)''), s)
       else
         (case canonical_direct_conversation E [caller, account_actor recipient] s of
            Some i \<Rightarrow> (Inr i, s)
          | None \<Rightarrow>
              if \<not> create then (Inl NotFound, s)
              else start_conversation L E caller [recipient] None s))"

definition group_by_public_id :: "str \<Rightarrow> db \<Rightarrow> uuid option" where
  "group_by_public_id i s = map_option g_conversation (find (\<lambda>g. g_public_id g = i) (groups s))"

definition is_group :: "uuid \<Rightarrow> db \<Rightarrow> bool" where
  "is_group i s = sql_exists (\<lambda>g. g_conversation g = i) (groups s)"

definition conversation_by_stored_address :: "uuid_lib \<Rightarrow> str \<Rightarrow> db \<Rightarrow> uuid option" where
  "conversation_by_stored_address U v s =
     map_option c_id (find (\<lambda>c. conversation_address U s (c_id c) = Some v) (conversations s))"

definition group_id_error :: app_error where
  "group_id_error = validation ''expected a group id such as g:product-design (groups from before contract 4 keep a three-part id such as g:tos:product-design)''"

text \<open>Splitting at \<open>::\<close>.\<close>

fun split_pairs :: "str \<Rightarrow> str \<Rightarrow> str list" where
  "split_pairs acc [] = [rev acc]"
| "split_pairs acc [x] = [rev (x # acc)]"
| "split_pairs acc (x # y # ys) =
     (if x = 58 \<and> y = 58 then rev acc # split_pairs [] ys else split_pairs (x # acc) (y # ys))"

text \<open>The two accounts of a direct address, or the stored address when one of them is unknown,
  deleted or not an account id.\<close>

fun resolve_parts ::
  "env \<Rightarrow> accounts_service \<Rightarrow> str \<Rightarrow> str list \<Rightarrow> actor_ref list \<Rightarrow> db \<Rightarrow> uuid app_result \<times> db" where
  "resolve_parts E A v [] found s =
     (case canonical_direct_conversation E found s of None \<Rightarrow> (Inl NotFound, s) | Some i \<Rightarrow> (Inr i, s))"
| "resolve_parts E A v (part # parts) found s =
     (case resolve (e_uuid E) A (e_now E) part s of
        (Inr a, s') \<Rightarrow> resolve_parts E A v parts (found @ [account_actor a]) s'
      | (Inl e, s') \<Rightarrow>
          if error_code e \<in> {''account_not_found'', ''account_deleted'', ''validation_error''}
          then (case conversation_by_stored_address (e_uuid E) v s' of None \<Rightarrow> (Inl NotFound, s') | Some i \<Rightarrow> (Inr i, s'))
          else (Inl e, s'))"

definition resolve_address :: "env \<Rightarrow> accounts_service \<Rightarrow> str \<Rightarrow> db \<Rightarrow> uuid app_result \<times> db" where
  "resolve_address E A v s =
     (case uuid_parse (e_uuid E) v of
        Some i \<Rightarrow> (Inr i, s)
      | None \<Rightarrow>
          if prefix (lit ''g:'') v then
            (if \<not> valid_group_id v then Inl group_id_error
             else (case group_by_public_id v s of None \<Rightarrow> Inl NotFound | Some i \<Rightarrow> Inr i), s)
          else
            let parts = split_pairs [] v in
            if length parts \<noteq> 2 \<or> [] \<in> set parts
            then (Inl (validation ''a direct address is two account ids joined by ::, for example c:ada::si:scout''), s)
            else resolve_parts E A v parts [] s)"

definition resolve_conversation_path ::
  "store_lib \<Rightarrow> env \<Rightarrow> accounts_service \<Rightarrow> actor_ref \<Rightarrow> str \<Rightarrow> bool \<Rightarrow> db \<Rightarrow>
     (uuid \<times> conversation_access) app_result \<times> db" where
  "resolve_conversation_path L E A caller v create s =
     (case Option.bind (uuid_parse (e_uuid E) v) (\<lambda>i. map_option (Pair i) (conversation_access s caller i)) of
        Some found \<Rightarrow> (Inr found, s)
      | None \<Rightarrow>
          then_with (if prefix (lit ''g:'') v \<or> contains_str (lit ''::'') v then resolve_address E A v s
                     else recipient_conversation L E A caller v create s) (\<lambda>i s'.
            (case conversation_access s' caller i of None \<Rightarrow> Inl NotFound | Some access \<Rightarrow> Inr (i, access), s')))"

definition resolve_group_path ::
  "env \<Rightarrow> actor_ref \<Rightarrow> str \<Rightarrow> db \<Rightarrow> (uuid \<times> conversation_access) app_result" where
  "resolve_group_path E caller v s =
     bind_ok (case uuid_parse (e_uuid E) v of
         Some i \<Rightarrow> Inr i
       | None \<Rightarrow> if valid_group_id v
           then (case group_by_public_id v s of None \<Rightarrow> Inl NotFound | Some i \<Rightarrow> Inr i)
           else Inl group_id_error) (\<lambda>i.
     if \<not> is_group i s then Inl NotFound
     else (case conversation_access s caller i of None \<Rightarrow> Inl NotFound | Some access \<Rightarrow> Inr (i, access)))"

section \<open>One conversation per set of accounts\<close>

text \<open>The tables of conversations are sound: identifiers are unique and a set of accounts has at most
  one current direct conversation.\<close>

definition conversations_ok :: "db \<Rightarrow> bool" where
  "conversations_ok s \<longleftrightarrow> keyed c_id (conversations s) \<and>
     (\<forall>h. \<forall>c\<in>set (conversations s). \<forall>d\<in>set (conversations s). canonical h c \<longrightarrow> canonical h d \<longrightarrow> c = d)"

lemma claim_dbD:
  assumes "claim_db now lease k h s = Inr (c, s')"
  obtains t where "claim now lease k h (idempotency s) = Inr (c, t)" "s' = s\<lparr>idempotency := t\<rparr>"
  using assms by (auto simp: claim_db_def)

lemma complete_dbD:
  assumes "complete_db k ty r resp s = Inr s'"
  obtains t where "complete k ty r resp (idempotency s) = Inr t" "s' = s\<lparr>idempotency := t\<rparr>"
  using assms by (auto simp: complete_db_def)

text \<open>A claim under a key that no finished request has used is acquired.\<close>

lemma claim_db_new:
  assumes "claim_db now lease k h s = Inr (c, s')" "settled (idempotency s) k = None"
  shows "c = Acquired"
  using assms by (cases c) (auto elim!: claim_dbD simp: claim_replay_iff)

lemma refresh_directory_frame [simp]:
  "conversations (refresh_directory_in now part as s) = conversations s"
  "participants (refresh_directory_in now part as s) = participants s"
  "idempotency (refresh_directory_in now part as s) = idempotency s"
  "messages (refresh_directory_in now part as s) = messages s"
  "accounts (refresh_directory_in now part as s) = accounts s"
  by (simp_all add: refresh_directory_in_def)

lemma canonical_found:
  assumes "conversations_ok s" "c \<in> set (conversations s)" "canonical h c"
  shows "find (canonical h) (conversations s) = Some c"
proof -
  obtain d where d: "find (canonical h) (conversations s) = Some d"
    using assms by (cases "find (canonical h) (conversations s)") (auto simp: find_None_iff)
  with find_Some_in [OF d] assms show ?thesis by (auto simp: conversations_ok_def)
qed

lemma canonical_or_insert_ok:
  assumes "conversations_ok s" and "canonical_or_insert_in E creator ps s = Inr (i, s')"
  shows "conversations_ok s'"
    and "\<exists>c. find (canonical (participant_set_hash (e_sha256 E) ps)) (conversations s') = Some c \<and> c_id c = i"
    and "find (canonical (participant_set_hash (e_sha256 E) ps)) (conversations s) \<noteq> None \<Longrightarrow> s' = s"
    and "idempotency s' = idempotency s"
proof -
  define h where "h = participant_set_hash (e_sha256 E) ps"
  have "conversations_ok s' \<and> (\<exists>c. find (canonical h) (conversations s') = Some c \<and> c_id c = i) \<and>
    (find (canonical h) (conversations s) \<noteq> None \<longrightarrow> s' = s) \<and> idempotency s' = idempotency s"
  proof (cases "find (canonical h) (conversations s)")
    case (Some c)
    with assms show ?thesis by (auto simp: canonical_or_insert_in_def h_def [symmetric] Let_def)
  next
    case None
    define r where "r = \<lparr>c_id = e_fresh E 0, c_partition = accounts_partition, c_set_hash = h, c_creator = creator,
      c_is_group = False, c_superseded_by = None, c_next_sequence = 1, c_next_bundle = 1, c_created_at = e_now E,
      c_updated_at = e_now E\<rparr>"
    from None assms(2) obtain rows where new: "\<not> sql_exists (\<lambda>x. c_id x = c_id r) (conversations s)"
      and s': "s' = s\<lparr>conversations := conversations s @ [r], participants := rows\<rparr>" and i: "i = c_id r"
      by (auto simp: canonical_or_insert_in_def h_def [symmetric] r_def Let_def)
    have no: "\<forall>c\<in>set (conversations s). \<not> canonical h c" using None by (simp add: find_None_iff)
    have r: "canonical h' r \<longleftrightarrow> h' = h" for h' by (auto simp: canonical_def r_def)
    have "keyed c_id (conversations s @ [r])"
      using assms(1) new by (intro keyed_append_new) (simp_all add: conversations_ok_def)
    then have "conversations_ok s'" using assms(1) no r by (auto simp: conversations_ok_def s')
    moreover have "find (canonical h) (conversations s') = Some r"
      using None r by (simp add: s' find_append)
    ultimately show ?thesis using i None by (auto simp: s')
  qed
  then show "conversations_ok s'"
    and "\<exists>c. find (canonical (participant_set_hash (e_sha256 E) ps)) (conversations s') = Some c \<and> c_id c = i"
    and "find (canonical (participant_set_hash (e_sha256 E) ps)) (conversations s) \<noteq> None \<Longrightarrow> s' = s"
    and "idempotency s' = idempotency s"
    by (simp_all add: h_def)
qed

lemma conversations_ok_cong: "conversations s' = conversations s \<Longrightarrow> conversations_ok s' = conversations_ok s"
  by (simp add: conversations_ok_def)

lemma create_conversation_inE:
  assumes "create_conversation_in E a ps k s = Inr (i, s')"
  obtains s1 h c s2 where "conversations s1 = conversations s" "participants s1 = participants s"
    "idempotency s1 = idempotency s"
    "claim_db (e_now E) (e_lease E) (create_key a k) h s1 = Inr (c, s2)"
    "(case c of Replay i \<Rightarrow> Inr (i, s2) | Acquired \<Rightarrow> bind_ok (canonical_or_insert_in E a (canonicalize_participants ps) s2)
      (\<lambda>(i, s3). bind_ok (complete_db (create_key a k) ''conversation'' i 201 s3) (\<lambda>s4. Inr (i, s4)))) = Inr (i, s')"
proof -
  let ?s1 = "refresh_directory_in (e_now E) accounts_partition (canonicalize_participants ps) s"
  obtain h c s2 where "claim_db (e_now E) (e_lease E) (create_key a k) h ?s1 = Inr (c, s2)"
    "(case c of Replay i \<Rightarrow> Inr (i, s2) | Acquired \<Rightarrow> bind_ok (canonical_or_insert_in E a (canonicalize_participants ps) s2)
      (\<lambda>(i, s3). bind_ok (complete_db (create_key a k) ''conversation'' i 201 s3) (\<lambda>s4. Inr (i, s4)))) = Inr (i, s')"
    using assms by (auto simp: create_conversation_in_def Let_def split: if_splits)
  then show ?thesis by (intro that [of ?s1 h c s2]) simp_all
qed

lemma create_conversation_new:
  assumes "create_conversation_in E a ps k s = Inr (i, s')" and "settled (idempotency s) (create_key a k) = None"
    and "conversations_ok s"
  shows "conversations_ok s'"
    and "canonical_direct_conversation E ps s' = Some i"
    and "canonical_direct_conversation E ps s \<noteq> None \<Longrightarrow> conversations s' = conversations s \<and> participants s' = participants s"
proof -
  define ps' where "ps' = canonicalize_participants ps"
  obtain s1 h c s2 where fr: "conversations s1 = conversations s" "participants s1 = participants s"
    "idempotency s1 = idempotency s"
    and cl: "claim_db (e_now E) (e_lease E) (create_key a k) h s1 = Inr (c, s2)"
    and rest: "(case c of Replay i \<Rightarrow> Inr (i, s2) | Acquired \<Rightarrow> bind_ok (canonical_or_insert_in E a ps' s2)
      (\<lambda>(i, s3). bind_ok (complete_db (create_key a k) ''conversation'' i 201 s3) (\<lambda>s4. Inr (i, s4)))) = Inr (i, s')"
    using assms(1) unfolding ps'_def by (rule create_conversation_inE)
  have s1: "settled (idempotency s1) (create_key a k) = None" "conversations_ok s1"
    "conversations s1 = conversations s" "participants s1 = participants s"
    using assms(2,3) conversations_ok_cong [OF fr(1)] fr by simp_all
  have "c = Acquired" using claim_db_new [OF cl s1(1)] .
  with rest obtain s3 where ins: "canonical_or_insert_in E a ps' s2 = Inr (i, s3)"
    and co: "complete_db (create_key a k) ''conversation'' i 201 s3 = Inr s'" by auto
  have s2: "conversations s2 = conversations s1" "participants s2 = participants s1"
    using cl by (auto elim: claim_dbD)
  have s': "conversations s' = conversations s3" "participants s' = participants s3"
    using co by (auto elim: complete_dbD)
  have ok2: "conversations_ok s2" using s1(2) s2 conversations_ok_cong by blast
  note ok3 = canonical_or_insert_ok [OF ok2 ins]
  show "conversations_ok s'" using ok3(1) s' conversations_ok_cong by blast
  show "canonical_direct_conversation E ps s' = Some i"
    using ok3(2) by (auto simp: canonical_direct_conversation_def ps'_def s')
  show "conversations s' = conversations s \<and> participants s' = participants s"
    if "canonical_direct_conversation E ps s \<noteq> None"
  proof -
    have "find (canonical (participant_set_hash (e_sha256 E) ps')) (conversations s2) \<noteq> None"
      using that by (simp add: canonical_direct_conversation_def ps'_def s2 s1)
    from ok3(3) [OF this] show ?thesis by (simp add: s' s2 s1)
  qed
qed

lemma create_conversation_adds:
  assumes "create_conversation_in E a ps k s = Inr (i, s')"
  shows "\<exists>rs. conversations s' = conversations s @ rs \<and> length rs \<le> 1"
proof -
  obtain s1 h c s2 where s1: "conversations s1 = conversations s"
    and cl: "claim_db (e_now E) (e_lease E) (create_key a k) h s1 = Inr (c, s2)"
    and rest: "(case c of Replay i \<Rightarrow> Inr (i, s2) | Acquired \<Rightarrow> bind_ok (canonical_or_insert_in E a (canonicalize_participants ps) s2)
      (\<lambda>(i, s3). bind_ok (complete_db (create_key a k) ''conversation'' i 201 s3) (\<lambda>s4. Inr (i, s4)))) = Inr (i, s')"
    using assms by (rule create_conversation_inE)
  have s2: "conversations s2 = conversations s" using cl s1 by (auto elim: claim_dbD)
  show ?thesis
  proof (cases c)
    case Acquired
    with rest show ?thesis
      by (auto simp: canonical_or_insert_in_def Let_def s2 elim!: complete_dbD split: option.splits)
  qed (use rest s2 in auto)
qed


lemmas create_evaluation = create_conversation_in_def canonicalize_participants_def participant_key_def
  request_hash_def claim_db_def claim_def insert_or_ignore_def canonical_or_insert_in_def canonical_def
  participant_of_def participant_row_key_def complete_db_def complete_def idem_key_of_def claim_row_def
  create_key_def refresh_directory_in_def empty_db_def max_conversation_participants_def sql_exists_def
  sql_update_def rows_affected_def insert_row_def lit_def Let_def


text \<open>C22. A new direct conversation is only ever started with accounts that exist and may be reached: every
  Silicon among them has the caller in its circle or on its allow-list. The caller never has more than
  100 conversations started in the last hour, and at most one conversation is added.\<close>

theorem start_conversation_guarded:
  assumes "start_conversation L E caller others key s = (r, s')" and "conversations s' \<noteq> conversations s"
  shows "(\<forall>x\<in>set others. \<not> acc_deleted x \<and>
      (is_silicon x \<and> acc_uuid x \<noteq> ar_id caller \<longrightarrow> may_reach_silicon (acc_uuid x) (ar_id caller) s)) \<and>
    conversations_started_last_hour (e_now E) caller s' \<le> first_contacts_per_hour \<and>
    (\<exists>c. conversations s' = conversations s @ [c])"
proof -
  have none: "canonical_direct_conversation E (map account_actor others @ [caller]) s = None"
    using assms by (auto simp: start_conversation_def Let_def split: option.splits)
  let ?reach = "each_result (\<lambda>x. if acc_deleted x then Inl (account_deleted (display_id x)) else require_may_reach caller x s) others"
  have reach: "?reach = Inr ()"
    using assms none by (cases ?reach) (auto simp: start_conversation_def Let_def)
  have budget: "conversations_started_last_hour (e_now E) caller s < first_contacts_per_hour"
    using assms none reach by (auto simp: start_conversation_def Let_def simp del: each_result_ok split: if_splits)
  define ps where "ps = map account_actor others @ [caller]"
  have "start_conversation L E caller others key s =
      then_with (case key of Some k \<Rightarrow> Inr k | None \<Rightarrow> recipient_chat_key E ps, s) (\<lambda>k s.
            then_with (in_transaction (create_conversation L E caller ps k) s) (\<lambda>response s'.
              (map_sum id cv_id response, s')))"
    unfolding ps_def using none reach budget by (simp add: start_conversation_def Let_def del: each_result_ok)
  with assms obtain k i where tx: "create_conversation_in E caller ps k s = Inr (i, s')"
    by (auto simp: then_with_def in_transaction_def create_conversation_def split: sum.splits prod.splits option.splits)
  obtain rs where rs: "conversations s' = conversations s @ rs" "length rs \<le> 1"
    using create_conversation_adds [OF tx] by blast
  with assms(2) obtain c where c: "conversations s' = conversations s @ [c]" by (cases rs) auto
  have "conversations_started_last_hour (e_now E) caller s' \<le> Suc (conversations_started_last_hour (e_now E) caller s)"
    by (simp add: conversations_started_last_hour_def c rows_affected_def)
  moreover have "\<forall>x\<in>set others. \<not> acc_deleted x \<and>
      (is_silicon x \<and> acc_uuid x \<noteq> ar_id caller \<longrightarrow> may_reach_silicon (acc_uuid x) (ar_id caller) s)"
    using reach by (fastforce simp: require_may_reach_def split: if_splits)
  ultimately show ?thesis using budget c by auto
qed

theorem start_conversation_guarded_witness:
  "\<forall>L. \<exists>r s'. start_conversation L test_env ann [stored_account_view (new_account 0 (lit ''a8K'') Carbon)]
       (Some (lit ''key-0001'')) empty_db = (r, s') \<and>
     conversations_started_last_hour 9 ann s' \<le> first_contacts_per_hour"
proof
  fix L
  let ?run = "start_conversation L test_env ann [stored_account_view (new_account 0 (lit ''a8K'') Carbon)]
       (Some (lit ''key-0001'')) empty_db"
  have "\<exists>i s'. create_conversation_in test_env ann [bob, ann] (lit ''key-0001'') empty_db = Inr (i, s') \<and> conversations s' \<noteq> []"
    by (simp add: create_evaluation)
  then obtain i s' where tx: "create_conversation_in test_env ann [bob, ann] (lit ''key-0001'') empty_db = Inr (i, s')"
    "conversations s' \<noteq> []" by blast
  have "\<exists>r. ?run = (r, s')" using tx(1)
    by (simp add: start_conversation_def canonical_direct_conversation_def account_actor_def stored_account_view_def
        new_account_def require_may_reach_def is_silicon_def conversations_started_last_hour_def empty_db_def
        first_contacts_per_hour_def in_transaction_def create_conversation_def rows_affected_def Let_def)
  then obtain r where r: "?run = (r, s')" by blast
  have "conversations s' \<noteq> conversations empty_db" using tx(2) by (simp add: empty_db_def)
  from start_conversation_guarded [OF r this] r
  show "\<exists>r s'. ?run = (r, s') \<and> conversations_started_last_hour 9 ann s' \<le> first_contacts_per_hour"
    by auto
qed

text \<open>A superseded conversation of three accounts still takes writes: the check looks the canonical
  conversation up by its address, and only conversations of two accounts have one.\<close>

definition old_trio :: db where
  "old_trio = empty_db\<lparr>
     conversations := map (\<lambda>(i, by). \<lparr>c_id = i, c_partition = accounts_partition, c_set_hash = [1], c_creator = ann,
       c_is_group = False, c_superseded_by = by, c_next_sequence = 1, c_next_bundle = 1, c_created_at = 0,
       c_updated_at = 0\<rparr>) [(1, Some 2), (2, None)],
     participants := [participant_of 0 i a. i \<leftarrow> [1, 2], a \<leftarrow> [ann, bob, actor Carbon (lit ''eve'')]]\<rparr>"

theorem superseded_trio_takes_writes:
  "(\<exists>c\<in>set (conversations old_trio). c_id c = 1 \<and> c_superseded_by c = Some 2) \<and>
     require_current (e_uuid test_env) old_trio 1 = Inr ()"
  by (simp add: old_trio_def empty_db_def require_current_def account_deleted_in_def conversation_address_def
      participant_of_def sql_exists_def Let_def)

section \<open>Listing every conversation\<close>

record conversation_listing =
  ls_lib :: store_lib
  ls_db :: db
  ls_viewer :: actor_ref
  ls_subject :: actor_ref
  ls_groups :: bool
  ls_limit :: nat

definition latest_message :: "store_lib \<Rightarrow> db \<Rightarrow> conversation_row \<Rightarrow> message option app_result" where
  "latest_message L s c = option_result (load_message L s) (last_message_id s (c_id c))"

definition loads_conversation :: "store_lib \<Rightarrow> db \<Rightarrow> actor_ref \<Rightarrow> conversation_row \<Rightarrow> bool" where
  "loads_conversation L s viewer c \<longleftrightarrow>
     (\<exists>l b v. latest_message L s c = Inr l \<and>
        (case l of None \<Rightarrow> Inr 0 | Some m \<Rightarrow> message_payload_bytes L m) = Inr b \<and>
        build_conversation s viewer c l = Inr v)"

definition shown_conversation :: "conversation_listing \<Rightarrow> conversation_row \<Rightarrow> conversation" where
  "shown_conversation x c =
     projr (build_conversation (ls_db x) (ls_viewer x) c (projr (latest_message (ls_lib x) (ls_db x) c)))"

definition good_listing :: "conversation_listing \<Rightarrow> bool" where
  "good_listing x \<longleftrightarrow> cursor_lib_ok (sl_cursor (ls_lib x)) \<and> 1 \<le> ls_limit x \<and> ls_limit x \<le> 100 \<and>
     keyed c_id (conversations (ls_db x)) \<and>
     (\<forall>c\<in>set (listed_conversations (ls_db x) (ls_subject x) (ls_groups x)).
        loads_conversation (ls_lib x) (ls_db x) (ls_viewer x) c)"

definition activity_mark :: "conversation_listing \<Rightarrow> instant \<times> uuid \<Rightarrow> str" where
  "activity_mark x k = projr (cursor_encode (sl_cursor (ls_lib x)) (cursor_activity ''conversations'' (fst k) (snd k)))"

definition listing_page :: "conversation_listing \<Rightarrow> str option \<Rightarrow> (conversation list \<times> str option) app_result" where
  "listing_page x c =
     list_conversations (ls_lib x) (ls_db x) (ls_viewer x) (ls_subject x)
       \<lparr>pq_cursor = c, pq_limit = Some (ls_limit x)\<rparr> (ls_groups x)"

lemma activity_mark_decodes:
  assumes "cursor_lib_ok (sl_cursor (ls_lib x))"
  shows "cursor_encode (sl_cursor (ls_lib x)) (cursor_activity ''conversations'' (fst k) (snd k)) = Inr (activity_mark x k)"
    and "cursor_decode (sl_cursor (ls_lib x)) (activity_mark x k) ''conversations'' =
           Inr (cursor_activity ''conversations'' (fst k) (snd k))"
proof -
  obtain v where v: "cursor_encode (sl_cursor (ls_lib x)) (cursor_activity ''conversations'' (fst k) (snd k)) = Inr v"
    "cursor_decode (sl_cursor (ls_lib x)) v ''conversations'' = Inr (cursor_activity ''conversations'' (fst k) (snd k))"
    using cursor_encode_ok [OF assms, of "cursor_activity ''conversations'' (fst k) (snd k)" "''conversations''"]
    by (auto simp: cursor_activity_def valid_position_def)
  then show "cursor_encode (sl_cursor (ls_lib x)) (cursor_activity ''conversations'' (fst k) (snd k)) = Inr (activity_mark x k)"
    and "cursor_decode (sl_cursor (ls_lib x)) (activity_mark x k) ''conversations'' =
           Inr (cursor_activity ''conversations'' (fst k) (snd k))"
    by (simp_all add: activity_mark_def)
qed

lemma sorted_strict:
  assumes "sorted (map f xs)" "distinct (map f xs)"
  shows "sorted_wrt (\<lambda>x y. f x < f y) xs"
  using assms by (induction xs) (auto simp: less_le)

lemma listed_ordered:
  assumes "keyed c_id (conversations s)"
  shows "sorted_wrt (\<lambda>c d. activity d < activity c) (listed_conversations s subject groups_only)"
proof -
  define P :: "conversation_row \<Rightarrow> bool" where "P = (\<lambda>c. sql_exists (\<lambda>p. p_conversation p = c_id c \<and> p_partition p = c_partition c \<and> p_actor p = subject)
          (effective_conversation_participants s) \<and> c_superseded_by c = None \<and> (\<not> groups_only \<or> c_is_group c))"
  let ?xs = "sort_key activity (filter P (conversations s))"
  have "distinct (conversations s)" using assms by (simp add: keyed_def distinct_map)
  moreover have "inj_on activity (set (filter P (conversations s)))"
    using assms by (auto simp: keyed_def distinct_map inj_on_def activity_def)
  ultimately have "distinct (map activity ?xs)" by (simp add: distinct_map)
  then have "sorted_wrt (\<lambda>c d. activity c < activity d) ?xs" by (intro sorted_strict) simp_all
  then have "sorted_wrt (\<lambda>c d. activity d < activity c) (rev ?xs)" by (simp add: sorted_wrt_rev)
  then show ?thesis by (simp only: listed_conversations_def P_def)
qed

lemma build_conversation_position:
  "build_conversation s viewer c l = Inr v \<Longrightarrow> (cv_updated_at v, cv_id v) = activity c"
  by (auto simp: build_conversation_def activity_def)

lemma map_result_all: "(\<And>x. x \<in> set xs \<Longrightarrow> \<exists>y. f x = Inr y) \<Longrightarrow> \<exists>ys. map_result f xs = Inr ys"
  by (induction xs) force+

lemma listing_page_ok:
  assumes good: "good_listing x"
  shows "\<exists>n. listing_page x (map_option (activity_mark x) c) =
      Inr (map (shown_conversation x) (take n (behind activity c (listed_conversations (ls_db x) (ls_subject x) (ls_groups x)))),
           if n < length (behind activity c (listed_conversations (ls_db x) (ls_subject x) (ls_groups x)))
           then Some (activity_mark x (activity (behind activity c (listed_conversations (ls_db x) (ls_subject x) (ls_groups x)) ! (n - 1))))
           else None) \<and>
      (behind activity c (listed_conversations (ls_db x) (ls_subject x) (ls_groups x)) \<noteq> [] \<longrightarrow> 0 < n)"
proof -
  let ?L = "ls_lib x" and ?s = "ls_db x" and ?v = "ls_viewer x"
  define rest where "rest = behind activity c (listed_conversations ?s (ls_subject x) (ls_groups x))"
  have lib: "cursor_lib_ok (sl_cursor ?L)" and limit: "1 \<le> ls_limit x" "ls_limit x \<le> 100"
    using good by (simp_all add: good_listing_def)
  have loads: "loads_conversation ?L ?s ?v r" if "r \<in> set rest" for r
    using that good by (auto simp: good_listing_def rest_def behind_def)
  have row: "\<exists>l b. option_result (load_message ?L ?s) (last_message_id ?s (c_id r)) = Inr l \<and>
      (case l of None \<Rightarrow> Inr 0 | Some m \<Rightarrow> message_payload_bytes ?L m) = Inr b \<and>
      build_conversation ?s ?v r l = Inr (shown_conversation x r)" if "r \<in> set rest" for r
    using loads [OF that] by (auto simp: loads_conversation_def shown_conversation_def latest_message_def)
  obtain n where n: "fill_page (\<lambda>c. option_result (load_message ?L ?s) (last_message_id ?s (c_id c)))
        (\<lambda>latest. case latest of None \<Rightarrow> Inr 0 | Some m \<Rightarrow> message_payload_bytes ?L m)
        (build_conversation ?s ?v) (take (ls_limit x) (take (ls_limit x + 1) rest)) [] 0 = Inr (map (shown_conversation x) (take n rest))"
    "n \<le> length rest" "rest \<noteq> [] \<longrightarrow> 0 < n"
    "length (map (shown_conversation x) (take n rest)) < length (take (ls_limit x + 1) rest) \<longleftrightarrow> n < length rest"
    using lookahead_page [where rest = rest and f = "shown_conversation x" and limit = "ls_limit x", OF row]
      less_le_trans [OF zero_less_one limit(1)] by blast
  have "\<exists>p. map_participants ?s r = Inr p" if "r \<in> set (take (ls_limit x) (take (ls_limit x + 1) rest))" for r
    using loads [of r] in_set_takeD [OF in_set_takeD [OF that]] by (auto simp: loads_conversation_def build_conversation_def)
  then obtain ps where ps: "map_result (map_participants ?s) (take (ls_limit x) (take (ls_limit x + 1) rest)) = Inr ps"
    using map_result_all by blast
  have pos: "(cv_updated_at v, cv_id v) = activity (rest ! (n - 1))"
    if "n < length rest" "v = last (map (shown_conversation x) (take n rest))" for v
  proof -
    have "0 < n" using that(1) n(3) by auto
    then have "map (shown_conversation x) (take n rest) \<noteq> []" using that(1) by auto
    from last_conv_nth [OF this] that \<open>0 < n\<close> have v: "v = shown_conversation x (rest ! (n - 1))" by simp
    have "rest ! (n - 1) \<in> set rest" using that(1) by (intro nth_mem) simp
    from row [OF this] v show ?thesis using build_conversation_position by metis
  qed
  have page: "conversation_page ?L ?s ?v (take (ls_limit x + 1) rest) (ls_limit x) =
      Inr (map (shown_conversation x) (take n rest), if n < length rest then Some (activity_mark x (activity (rest ! (n - 1)))) else None)"
  proof (cases "n < length rest")
    case True
    moreover from True n(3) have "map (shown_conversation x) (take n rest) \<noteq> []" by auto
    ultimately show ?thesis
      using n(4) pos [OF True refl] activity_mark_decodes(1) [OF lib, of "activity (rest ! (n - 1))"]
      by (simp only: conversation_page_def ps n(1) bind_ok_simps) (metis bind_ok_simps(2) fst_conv snd_conv)
  next
    case False
    then show ?thesis using n(4) by (simp only: conversation_page_def ps n(1) bind_ok_simps) simp
  qed
  have "listing_page x (map_option (activity_mark x) c) = conversation_page ?L ?s ?v (take (ls_limit x + 1) rest) (ls_limit x)"
    using limit activity_mark_decodes(2) [OF lib]
    by (cases c) (simp_all add: listing_page_def list_conversations_def validated_limit_def is_some_and_def
        activity_position_def cursor_activity_def rest_def)
  with page n(3) show ?thesis unfolding rest_def [symmetric] by auto
qed

interpretation listing: keyset_pager good_listing
    "\<lambda>x. listed_conversations (ls_db x) (ls_subject x) (ls_groups x)" activity shown_conversation activity_mark listing_page
proof
  fix x
  assume "good_listing x"
  then show "sorted_wrt (\<lambda>r r'. activity r' < activity r) (listed_conversations (ls_db x) (ls_subject x) (ls_groups x))"
    by (intro listed_ordered) (simp add: good_listing_def)
qed (rule listing_page_ok)

end
