(* ===== verification/DM_Messages.thy ===== *)
theory DM_Messages
  imports Conversations
begin

text \<open>
  Messages and deliveries (\<open>postgres/messages.rs\<close>) with the triggers that number them
  (\<open>migrations/0002\<close>, \<open>0014\<close>, \<open>0020\<close>, \<open>0040\<close>): a message takes the next sequence of its
  conversation, and every delivery the next sequence of its account's stream.
\<close>

section \<open>Sequences\<close>

text \<open>Trigger \<open>assign_message_sequence\<close>.\<close>

definition assign_message_sequence :: "uuid \<Rightarrow> str \<Rightarrow> db \<Rightarrow> (int \<times> db) app_result" where
  "assign_message_sequence conversation part s =
     (let p = (\<lambda>c. c_id c = conversation \<and> c_partition c = part) in
      case find p (conversations s) of
        None \<Rightarrow> Inl NotFound
      | Some c \<Rightarrow>
          if \<not> is_i64 (c_next_sequence c + 1) then Inl (Database ''bigint out of range'')
          else Inr (c_next_sequence c,
                 s\<lparr>conversations := sql_update p (\<lambda>c. c\<lparr>c_next_sequence := c_next_sequence c + 1\<rparr>) (conversations s)\<rparr>))"

text \<open>Trigger \<open>assign_actor_delivery_sequence\<close>. The account's stream starts above its older
  deliveries; enqueueing the same source again is a no-op and takes no sequence.\<close>

fun same_source :: "uuid \<Rightarrow> delivery_kind \<Rightarrow> uuid \<Rightarrow> delivery_kind \<Rightarrow> bool" where
  "same_source m (MessageDelivery r) m' (MessageDelivery r') = (m = m' \<and> r = r')"
| "same_source m (StatusDelivery st _) m' (StatusDelivery st' _) = (m = m' \<and> st = st')"
| "same_source m (SystemDelivery e) m' (SystemDelivery e') = (e = e')"
| "same_source _ _ _ _ = False"

definition legacy_high :: "actor_ref \<Rightarrow> delivery_row list \<Rightarrow> int" where
  "legacy_high target ds = fold max (map d_sequence (filter (\<lambda>d. d_target d = target) ds)) 0"

definition open_stream :: "actor_ref \<Rightarrow> db \<Rightarrow> stream_row list" where
  "open_stream target s =
     (let high = legacy_high target (deliveries s) in
      insert_or_ignore s_actor \<lparr>s_actor = target, s_next = high + 1, s_floor = high\<rparr> (streams s))"

definition durable_invariant_error :: app_error where
  "durable_invariant_error = validation ''request violates a durable data invariant''"

definition insert_delivery_row ::
  "instant \<Rightarrow> uuid \<Rightarrow> str \<Rightarrow> actor_ref \<Rightarrow> delivery_kind \<Rightarrow> uuid \<Rightarrow> uuid \<Rightarrow> db \<Rightarrow> (bool \<times> db) app_result" where
  "insert_delivery_row now i part target kind conversation message s =
     (let s1 = s\<lparr>snapshots := insert_or_ignore snapshot_key
                  \<lparr>sn_partition = accounts_partition, sn_actor = target, sn_refreshed_at = now\<rparr> (snapshots s),
                streams := open_stream target s\<rparr> in
      if sql_exists (\<lambda>d. d_id d = i) (deliveries s) then Inl (conflict ''resource already exists'')
      else if sql_exists (\<lambda>d. d_partition d = part \<and> d_target d = target \<and>
                same_source (d_message d) (d_kind d) message kind) (deliveries s)
      then Inr (False, s1)
      else
        (case find (\<lambda>r. s_actor r = target) (streams s1) of
           None \<Rightarrow> Inl NotFound
         | Some r \<Rightarrow>
             if \<not> is_i64 (s_next r + 1) then Inl (Database ''bigint out of range'')
             else Inr (True, s1\<lparr>
               streams := sql_update (\<lambda>r. s_actor r = target) (\<lambda>r. r\<lparr>s_next := s_next r + 1\<rparr>) (streams s1),
               deliveries := deliveries s @ [\<lparr>d_id = i, d_partition = part, d_target = target,
                 d_sequence = s_next r, d_kind = kind, d_conversation = conversation, d_message = message, d_retain_until = None\<rparr>]\<rparr>)))"

text \<open>Trigger \<open>enqueue_ting_handoff\<close> (\<open>migrations/0031\<close>): every delivery of a message or a status leaves a
  handoff to the Ting service, which needs the public address of the conversation. The transaction of
  a send or a revision names the account that caused it.\<close>

fun status_name :: "message_status \<Rightarrow> string" where
  "status_name Waiting = ''waiting''"
| "status_name Sent = ''sent''"
| "status_name Delivered = ''delivered''"
| "status_name Read = ''read''"
| "status_name Failed = ''failed''"

fun handoff_event :: "delivery_kind \<Rightarrow> bool \<Rightarrow> string" where
  "handoff_event (StatusDelivery st _) gone = ''message.'' @ status_name st"
| "handoff_event (MessageDelivery revision) gone =
     (if revision = 1 then ''message.created'' else if gone then ''message.deleted'' else ''message.updated'')"
| "handoff_event (SystemDelivery _) gone = []"

fun handoff_originator :: "delivery_kind \<Rightarrow> actor_ref option \<Rightarrow> message_row \<Rightarrow> db \<Rightarrow> actor_ref option" where
  "handoff_originator (MessageDelivery _) origin m s = coalesce origin (Some (m_sender m))"
| "handoff_originator (StatusDelivery st receipt) origin m s =
     (if st \<in> {Delivered, Read}
      then map_option r_recipient (find (\<lambda>r. r_id r = receipt \<and> r_message r = m_id m \<and> r_partition r = m_partition m) (receipts s))
      else None)"
| "handoff_originator (SystemDelivery _) origin m s = None"

definition handoff_events :: "string list" where
  "handoff_events = [''message.created'', ''message.updated'', ''message.deleted'', ''message.delivered'',
     ''message.read'', ''message.failed'']"

definition new_handoff ::
  "instant \<Rightarrow> actor_ref option \<Rightarrow> delivery_row \<Rightarrow> message_row \<Rightarrow> str \<Rightarrow> string \<Rightarrow> db \<Rightarrow> ting_handoff_row" where
  "new_handoff now origin d m address event s =
     \<lparr>th_delivery = d_id d, th_partition = d_partition d, th_target = d_target d,
      th_conversation = d_conversation d, th_public_conversation = address,
      th_message_sequence = m_sequence m, th_delivery_sequence = d_sequence d, th_event = event,
      th_routing = (if m_sender m = d_target d then m_sender_address m else m_recipient_address m),
      th_created_at = now, th_originator = handoff_originator (d_kind d) origin m s,
      th_request_body = None, th_attempts = 0, th_next_attempt = now, th_last_error = None,
      th_lease = None, th_accepted = None, th_discarded_at = None, th_discard_reason = None\<rparr>"

definition enqueue_ting_handoff ::
  "uuid_lib \<Rightarrow> instant \<Rightarrow> actor_ref option \<Rightarrow> delivery_row \<Rightarrow> db \<Rightarrow> db app_result" where
  "enqueue_ting_handoff U now origin d s =
     (case d_kind d of SystemDelivery _ \<Rightarrow> Inr s | _ \<Rightarrow>
      case find (\<lambda>m. m_id m = d_message d) (messages s) of
        None \<Rightarrow> Inl durable_invariant_error
      | Some m \<Rightarrow>
         (case conversation_address U s (m_conversation m) of
            None \<Rightarrow> Inl durable_invariant_error
          | Some address \<Rightarrow>
             let gone = sql_exists (\<lambda>h. h_message h = m_id m \<and> h_deleted_at h \<noteq> None) (histories s);
                 event = handoff_event (d_kind d) gone in
             if event \<notin> set handoff_events \<or> m_sequence m \<le> 0 \<or> d_sequence d \<le> 0 then Inl durable_invariant_error
             else bind_ok (insert_row th_delivery (new_handoff now origin d m address event s) (ting_handoffs s))
                    (\<lambda>t. Inr (s\<lparr>ting_handoffs := t\<rparr>))))"

definition insert_delivery ::
  "uuid_lib \<Rightarrow> actor_ref option \<Rightarrow> instant \<Rightarrow> uuid \<Rightarrow> str \<Rightarrow> actor_ref \<Rightarrow> delivery_kind \<Rightarrow> uuid \<Rightarrow> uuid \<Rightarrow> db \<Rightarrow>
    (bool \<times> db) app_result" where
  "insert_delivery U origin now i part target kind conversation message s =
     bind_ok (insert_delivery_row now i part target kind conversation message s) (\<lambda>(inserted, s1).
       if inserted
       then bind_ok (enqueue_ting_handoff U now origin (last (deliveries s1)) s1) (\<lambda>s2. Inr (True, s2))
       else Inr (False, s1))"

definition notify_actor_in :: "actor_ref \<Rightarrow> db \<Rightarrow> db" where
  "notify_actor_in a s = s\<lparr>notified := notified s @ [ar_id a]\<rparr>"

section \<open>Sending\<close>

definition participant_records_in :: "uuid \<Rightarrow> db \<Rightarrow> actor_ref list" where
  "participant_records_in conversation s =
     sort_key participant_key (map p_actor
       (filter (\<lambda>p. p_conversation p = conversation) (effective_conversation_participants s)))"

definition parse_target :: "actor_ref \<Rightarrow> actor_ref app_result" where
  "parse_target a = bind_ok (parse_actor_id (ar_id a)) (\<lambda>i. Inr (actor (ar_type a) i))"

definition enqueue_one :: "env \<Rightarrow> actor_ref option \<Rightarrow> str \<Rightarrow> uuid \<Rightarrow> uuid \<Rightarrow> nat \<times> actor_ref \<Rightarrow> db \<Rightarrow> db app_result" where
  "enqueue_one E origin part conversation message = (\<lambda>(n, a) s.
     bind_ok (parse_target a) (\<lambda>target.
     bind_ok (insert_delivery (e_uuid E) origin (e_now E) (e_fresh E n) part target (MessageDelivery 1) conversation message s) (\<lambda>(_, s').
       Inr (notify_actor_in target s'))))"

definition enqueue_message_deliveries_in :: "env \<Rightarrow> actor_ref option \<Rightarrow> str \<Rightarrow> uuid \<Rightarrow> uuid \<Rightarrow> db \<Rightarrow> db app_result" where
  "enqueue_message_deliveries_in E origin part conversation message s =
     fold_result (enqueue_one E origin part conversation message)
       (enumerate 1 (participant_records_in conversation s)) s"

definition i16_max :: int where "i16_max = 32767"

definition attachment_key :: "attachment_row \<Rightarrow> uuid \<times> int" where
  "attachment_key r = (ma_message r, ma_position r)"

definition insert_attachment_in ::
  "uuid \<Rightarrow> attachment_kind \<Rightarrow> nat \<times> attachment \<Rightarrow> nat option \<Rightarrow> attachment_row list \<Rightarrow> attachment_row list app_result" where
  "insert_attachment_in message kind pa duration t =
     (case pa of (position, a) \<Rightarrow>
       if int position > i16_max then Inl (validation ''attachment position exceeds supported range'')
       else if is_some_and (\<lambda>n. int n > i64_max) (at_size a) then Inl (validation ''attachment size exceeds supported range'')
       else if is_some_and (\<lambda>n. int n > i64_max) duration then Inl (validation ''voice duration exceeds supported range'')
       else insert_row attachment_key
         \<lparr>ma_message = message, ma_position = int position, ma_kind = kind, ma_url = u_text (at_url a),
          ma_name = at_name a, ma_content_type = at_content_type a, ma_size = map_option int (at_size a),
          ma_duration = map_option int duration\<rparr> t)"

definition as_attachment :: "voice_attachment \<Rightarrow> attachment" where
  "as_attachment v = \<lparr>at_url = vo_url v, at_name = vo_name v, at_content_type = vo_content_type v, at_size = vo_size v\<rparr>"

definition insert_attachments_in :: "uuid \<Rightarrow> message_create \<Rightarrow> attachment_row list \<Rightarrow> attachment_row list app_result" where
  "insert_attachments_in message content t =
     bind_ok (fold_result (\<lambda>pa. insert_attachment_in message AttachmentKind pa None)
                (enumerate 0 (mc_attachments content)) t) (\<lambda>t'.
       case mc_voice content of
         None \<Rightarrow> Inr t'
       | Some v \<Rightarrow> insert_attachment_in message VoiceKind (100, as_attachment v) (vo_duration v) t')"

definition recipient_ok :: "env \<Rightarrow> uuid \<Rightarrow> message_create \<Rightarrow> db \<Rightarrow> bool" where
  "recipient_ok E conversation content s =
     (case mc_recipient_id content of
        None \<Rightarrow> True
      | Some recipient \<Rightarrow>
          list_ex (\<lambda>a. case parse_target a of Inl _ \<Rightarrow> False | Inr b \<Rightarrow> addresses (e_uuid E) recipient b)
            (participant_records_in conversation s))"

definition new_message ::
  "env \<Rightarrow> str \<Rightarrow> uuid \<Rightarrow> actor_ref \<Rightarrow> message_create \<Rightarrow> nat list \<Rightarrow> str option \<Rightarrow> int \<Rightarrow> message_row" where
  "new_message E part conversation sender content h via_app seq =
     \<lparr>m_id = e_fresh E 0, m_conversation = conversation, m_partition = part, m_sender = sender, m_sequence = seq,
      m_status = Sent, m_text = mc_text content, m_transcript = mc_voice_transcript content, m_hash = h,
      m_metadata = mc_metadata content, m_reply_to = mc_reply_to content,
      m_sender_address = sender_address (e_uuid E) content, m_recipient_address = mc_recipient_id content,
      m_via_app = via_app, m_created_at = e_now E, m_delivered_at = None, m_read_at = None, m_failure_reason = None\<rparr>"

text \<open>The foreign key of a reply: a message of the same conversation.\<close>

definition reply_ok :: "str \<Rightarrow> uuid \<Rightarrow> uuid option \<Rightarrow> db \<Rightarrow> bool" where
  "reply_ok part conversation reply s =
     (case reply of None \<Rightarrow> True
      | Some r \<Rightarrow> sql_exists (\<lambda>m. m_id m = r \<and> m_conversation m = conversation \<and> m_partition m = part) (messages s))"

definition insert_message_in ::
  "env \<Rightarrow> str \<Rightarrow> uuid \<Rightarrow> actor_ref \<Rightarrow> message_create \<Rightarrow> nat list \<Rightarrow> str option \<Rightarrow> db \<Rightarrow> (uuid \<times> db) app_result" where
  "insert_message_in E part conversation sender content h via_app s =
     (if \<not> recipient_ok E conversation content s
      then Inl (validation ''recipient_id must address a participant in this conversation; ISI requires a silicon'')
      else
        bind_ok (assign_message_sequence conversation part s) (\<lambda>(seq, s1).
        if \<not> reply_ok part conversation (mc_reply_to content) s1 then Inl NotFound
        else
          let m = new_message E part conversation sender content h via_app seq in
          bind_ok (insert_row m_id m (messages s1)) (\<lambda>ms.
          bind_ok (insert_attachments_in (m_id m) content (attachments s1)) (\<lambda>as.
          bind_ok (case mc_gif content of None \<Rightarrow> Inr (gifs s1)
                   | Some g \<Rightarrow> insert_row mg_message \<lparr>mg_message = m_id m, mg_gif = g\<rparr> (gifs s1)) (\<lambda>gs.
            Inr (m_id m, s1\<lparr>messages := ms, attachments := as, gifs := gs,
              conversations := sql_update (\<lambda>c. c_id c = conversation \<and> c_partition c = part)
                (\<lambda>c. c\<lparr>c_updated_at := e_now E\<rparr>) (conversations s1)\<rparr>))))))"

definition recent_gif_key :: "recent_gif_row \<Rightarrow> str \<times> str \<times> str" where
  "recent_gif_key r = (rg_partition r, rg_carbon r, gif_provider_id (rg_gif r))"

definition update_recent_gif_in :: "instant \<Rightarrow> str \<Rightarrow> actor_ref \<Rightarrow> uuid \<Rightarrow> gif option \<Rightarrow> db \<Rightarrow> db" where
  "update_recent_gif_in now part sender message g s =
     (case g of
        None \<Rightarrow> s
      | Some gif \<Rightarrow>
          if ar_type sender \<noteq> Carbon then s
          else s\<lparr>recent_gifs := upsert recent_gif_key
            \<lparr>rg_partition = part, rg_carbon = ar_id sender, rg_gif = gif, rg_message = message, rg_used_at = now\<rparr>
            (\<lambda>r. r\<lparr>rg_gif := gif, rg_message := message, rg_used_at := now\<rparr>) (recent_gifs s)\<rparr>)"

text \<open>An update of drafts advances their versions; trigger \<open>allocate_draft_version\<close> keeps the counter of
  a participant in step and refuses an update when it is not.\<close>

definition counter_of :: "draft_row \<Rightarrow> draft_counter_row \<Rightarrow> bool" where
  "counter_of d c \<longleftrightarrow> dc_conversation c = dr_conversation d \<and> dc_actor c = dr_actor d"

definition advance_drafts ::
  "(draft_row \<Rightarrow> bool) \<Rightarrow> (draft_row \<Rightarrow> draft_row) \<Rightarrow> db \<Rightarrow> (nat \<times> db) app_result" where
  "advance_drafts p f s =
     (if \<exists>d\<in>set (drafts s). p d \<and> \<not> sql_exists (\<lambda>c. counter_of d c \<and> dc_version c = dr_version d) (draft_counters s)
      then Inl durable_invariant_error
      else if \<exists>d\<in>set (drafts s). p d \<and> \<not> is_i64 (dr_version d + 1) then Inl (Database ''bigint out of range'')
      else Inr (rows_affected p (drafts s),
        s\<lparr>drafts := sql_update p (\<lambda>d. (f d)\<lparr>dr_version := dr_version d + 1\<rparr>) (drafts s),
          draft_counters := sql_update (\<lambda>c. sql_exists (\<lambda>d. p d \<and> counter_of d c) (drafts s))
            (\<lambda>c. c\<lparr>dc_version := dc_version c + 1\<rparr>) (draft_counters s)\<rparr>))"

definition own_draft :: "uuid \<Rightarrow> actor_ref \<Rightarrow> draft_row \<Rightarrow> bool" where
  "own_draft conversation a d \<longleftrightarrow> dr_conversation d = conversation \<and> dr_actor d = a"

definition drop_draft :: "uuid \<Rightarrow> actor_ref \<Rightarrow> db \<Rightarrow> db" where
  "drop_draft conversation a s =
     s\<lparr>draft_attachments := sql_delete (\<lambda>r. da_conversation r = conversation \<and> da_actor r = a) (draft_attachments s),
       draft_gifs := sql_delete (\<lambda>r. dg_conversation r = conversation \<and> dg_actor r = a) (draft_gifs s),
       drafts := sql_delete (own_draft conversation a) (drafts s)\<rparr>"

text \<open>The draft that matches a sent message, by the digest of its content, is cleared with the send.\<close>

definition matches_sent :: "nat list \<Rightarrow> nat list option \<Rightarrow> draft_row \<Rightarrow> bool" where
  "matches_sent h legacy d \<longleftrightarrow>
     (dr_hash_version d \<in> {2, 3} \<and> dr_hash d = h) \<or> (dr_hash_version d = 1 \<and> legacy = Some (dr_hash d))"

definition clear_matching_draft :: "uuid \<Rightarrow> actor_ref \<Rightarrow> nat list \<Rightarrow> nat list option \<Rightarrow> db \<Rightarrow> db app_result" where
  "clear_matching_draft conversation a h legacy s =
     bind_ok (advance_drafts (\<lambda>d. own_draft conversation a d \<and> matches_sent h legacy d)
                (\<lambda>d. d\<lparr>dr_hash_version := 3\<rparr>) s) (\<lambda>(n, s').
       Inr (if n = 1 then drop_draft conversation a s' else s'))"

definition send_key :: "actor_ref \<Rightarrow> str \<Rightarrow> idem_key" where
  "send_key a key = (accounts_partition, a, ''messages.create'', key)"

definition send_request_json :: "env \<Rightarrow> uuid \<Rightarrow> message_create \<Rightarrow> json" where
  "send_request_json E conversation content = JObj
     ([(lit ''conversation_id'', JStr (uuid_show (e_uuid E) conversation)),
       (lit ''content_hash'', JArr (map json_nat (content_digest (e_digest E) (e_uuid E) content)))] @
      field_if ''routing_hash'' (\<lambda>h. JArr (map json_nat h)) (routing_digest (e_digest E) (e_uuid E) content))"

definition accept_message ::
  "env \<Rightarrow> str \<Rightarrow> uuid \<Rightarrow> actor_ref \<Rightarrow> message_create \<Rightarrow> str option \<Rightarrow> db \<Rightarrow> (uuid \<times> db) app_result" where
  "accept_message E part conversation sender content via_app s =
     (let h = content_digest (e_digest E) (e_uuid E) content;
          legacy = (if mc_metadata content = [] \<and> mc_reply_to content = None
                    then Some (legacy_content_digest (e_digest E) content) else None) in
      bind_ok (insert_message_in E part conversation sender content h via_app s) (\<lambda>(i, s1).
      bind_ok (enqueue_message_deliveries_in E (Some sender) part conversation i s1) (\<lambda>s2.
      bind_ok (clear_matching_draft conversation sender h legacy
                 (update_recent_gif_in (e_now E) part sender i (mc_gif content) s2)) (\<lambda>s3.
        Inr (i, s3)))))"

definition send_message_in ::
  "env \<Rightarrow> uuid \<Rightarrow> actor_ref \<Rightarrow> message_create \<Rightarrow> str \<Rightarrow> str option \<Rightarrow> db \<Rightarrow> (uuid \<times> db) app_result" where
  "send_message_in E conversation sender content key via_app s =
     bind_ok (case message_validate (e_uuid E) content of Inl e \<Rightarrow> Inl (validation e) | Inr _ \<Rightarrow> Inr ()) (\<lambda>_.
     if is_some_and (\<lambda>i. \<not> addresses (e_uuid E) i sender) (mc_sender_id content) then Inl Forbidden
     else
       bind_ok (request_hash (e_digest E) (send_request_json E conversation content)) (\<lambda>h.
       bind_ok (require_participant s sender conversation) (\<lambda>part.
       let s1 = refresh_directory_in (e_now E) accounts_partition [sender]
                  (refresh_directory_in (e_now E) part [sender] s) in
       bind_ok (claim_db (e_now E) (e_lease E) (send_key sender key) h s1) (\<lambda>(c, s2).
       case c of
         Replay i \<Rightarrow> Inr (i, s2)
       | Acquired \<Rightarrow>
           bind_ok (accept_message E part conversation sender content via_app s2) (\<lambda>(i, s3).
           bind_ok (complete_db (send_key sender key) ''message'' i 202 s3) (\<lambda>s4. Inr (i, s4)))))))"

definition send_message ::
  "store_lib \<Rightarrow> env \<Rightarrow> uuid \<Rightarrow> actor_ref \<Rightarrow> message_create \<Rightarrow> str \<Rightarrow> str option \<Rightarrow> db \<Rightarrow> (message app_result \<times> db) app_result" where
  "send_message L E conversation sender content key via_app s =
     bind_ok (send_message_in E conversation sender content key via_app s) (\<lambda>(i, s').
       Inr (load_message L s' i, s'))"

section \<open>Reading\<close>

definition listed_messages :: "db \<Rightarrow> uuid \<Rightarrow> bool \<Rightarrow> message_row list" where
  "listed_messages s conversation include_members =
     rev (sort_key m_sequence (filter (\<lambda>m. m_conversation m = conversation \<and>
       (include_members \<or> \<not> is_member_item s (m_id m))) (messages s)))"

definition list_messages ::
  "store_lib \<Rightarrow> db \<Rightarrow> actor_ref \<Rightarrow> uuid \<Rightarrow> page_request \<Rightarrow> bool \<Rightarrow> (message list \<times> str option) app_result" where
  "list_messages L s viewer conversation q include_members =
     bind_ok (require_reader s viewer conversation) (\<lambda>_.
     bind_ok (validated_limit q) (\<lambda>limit.
     bind_ok (option_result (\<lambda>v. cursor_decode (sl_cursor L) v ''messages'') (pq_cursor q)) (\<lambda>cursor.
     if is_some_and (\<lambda>c. cursor_sequence c = None) cursor
     then Inl (validation ''cursor is invalid for message pagination'')
     else
       let ids = map m_id (take (limit + 1) (behind m_sequence (Option.bind cursor cursor_sequence)
                   (listed_messages s conversation include_members))) in
       bind_ok (fill_page (load_message L s) (message_payload_bytes L) (\<lambda>_. Inr) (take limit ids) [] 0) (\<lambda>items.
         if length items < length ids \<and> items \<noteq> []
         then bind_ok (cursor_encode (sl_cursor L) (cursor_new ''messages'' (msg_sequence (last items)))) (\<lambda>next.
                Inr (items, Some next))
         else Inr (items, None)))))"

definition recent_gifs_page :: "store_lib \<Rightarrow> actor_ref \<Rightarrow> db \<Rightarrow> gif list app_result" where
  "recent_gifs_page L a s =
     (if ar_type a = Silicon then Inr []
      else
        let own = filter (\<lambda>r. rg_carbon r = ar_id a) (recent_gifs s);
            newest = [r. r \<leftarrow> own, find (\<lambda>x. gif_provider_id (rg_gif x) = gif_provider_id (rg_gif r))
                         (rev (sort_key rg_used_at (rev own))) = Some r] in
        map_result (\<lambda>r.
            bind_ok (parse_url L ''recent GIF URL'' (u_text (gif_url (rg_gif r)))) (\<lambda>u.
            bind_ok (option_result (\<lambda>v. parse_url L ''recent GIF preview URL'' (u_text v)) (gif_preview_url (rg_gif r))) (\<lambda>preview.
              Inr \<lparr>gif_provider_id = gif_provider_id (rg_gif r), gif_url = u, gif_preview_url = preview,
                   gif_title = gif_title (rg_gif r)\<rparr>)))
          (take 20 (rev (sort_key (\<lambda>r. (rg_used_at r, gif_provider_id (rg_gif r))) newest))))"

section \<open>Messages are numbered without gaps\<close>

definition sequences_ok :: "db \<Rightarrow> bool" where
  "sequences_ok s \<longleftrightarrow> keyed c_id (conversations s) \<and> keyed m_id (messages s) \<and>
     m_conversation ` set (messages s) \<subseteq> c_id ` set (conversations s) \<and>
     (\<forall>c\<in>set (conversations s). 1 \<le> c_next_sequence c \<and>
        map m_sequence (filter (\<lambda>m. m_conversation m = c_id c) (messages s)) = [1..c_next_sequence c - 1])"

lemma sql_update_twice:
  assumes "\<And>r. p r \<Longrightarrow> p (f r)"
  shows "sql_update p g (sql_update p f t) = sql_update p (\<lambda>r. g (f r)) t"
  using assms by (auto simp: sql_update_def)

lemma updated_row:
  assumes "keyed key t" "r \<in> set t" "p r" "d \<in> set (sql_update p f t)" "key d = key r"
    and "\<And>x. p x \<Longrightarrow> key (f x) = key x"
  shows "d = f r"
proof -
  obtain x where x: "x \<in> set t" "d = (if p x then f x else x)" using assms(4) by (auto simp: sql_update_def)
  then have "key x = key r" using assms(5,6) by (auto split: if_splits)
  then have "x = r" using keyed_unique [OF assms(1)] x(1) assms(2) by blast
  with x(2) assms(3) show ?thesis by simp
qed

lemma insert_message_inE:
  assumes "insert_message_in E part conversation sender content h via_app s = Inr (i, s')"
  obtains c as gs where "c \<in> set (conversations s)" "c_id c = conversation" "c_partition c = part"
    "i = e_fresh E 0" "\<forall>x\<in>set (messages s). m_id x \<noteq> i"
    "s' = s\<lparr>conversations := sql_update (\<lambda>c. c_id c = conversation \<and> c_partition c = part)
              (\<lambda>c. c\<lparr>c_next_sequence := c_next_sequence c + 1, c_updated_at := e_now E\<rparr>) (conversations s),
            messages := messages s @ [new_message E part conversation sender content h via_app (c_next_sequence c)],
            attachments := as, gifs := gs\<rparr>"
    "insert_attachments_in i content (attachments s) = Inr as"
    "(case mc_gif content of None \<Rightarrow> Inr (gifs s) | Some g \<Rightarrow> insert_row mg_message \<lparr>mg_message = i, mg_gif = g\<rparr> (gifs s)) = Inr gs"
proof -
  let ?p = "\<lambda>c. c_id c = conversation \<and> c_partition c = part"
  obtain seq s1 where a: "assign_message_sequence conversation part s = Inr (seq, s1)"
    using assms by (auto simp: insert_message_in_def split: if_splits)
  then obtain c where c: "find ?p (conversations s) = Some c" "seq = c_next_sequence c"
    "s1 = s\<lparr>conversations := sql_update ?p (\<lambda>c. c\<lparr>c_next_sequence := c_next_sequence c + 1\<rparr>) (conversations s)\<rparr>"
    by (auto simp: assign_message_sequence_def Let_def split: option.splits if_splits)
  let ?m = "new_message E part conversation sender content h via_app seq"
  have m: "m_id ?m = e_fresh E 0" by (simp add: new_message_def)
  have "bind_ok (insert_row m_id ?m (messages s1)) (\<lambda>ms. bind_ok (insert_attachments_in (m_id ?m) content (attachments s1)) (\<lambda>as.
      bind_ok (case mc_gif content of None \<Rightarrow> Inr (gifs s1)
        | Some g \<Rightarrow> insert_row mg_message \<lparr>mg_message = m_id ?m, mg_gif = g\<rparr> (gifs s1)) (\<lambda>gs.
      Inr (m_id ?m, s1\<lparr>messages := ms, attachments := as, gifs := gs,
        conversations := sql_update ?p (\<lambda>c. c\<lparr>c_updated_at := e_now E\<rparr>) (conversations s1)\<rparr>)))) = Inr (i, s')"
    using assms a by (simp only: insert_message_in_def Let_def bind_ok_simps prod.case split: if_splits) auto
  then obtain ms as gs where "insert_row m_id ?m (messages s1) = Inr ms"
    and ins: "insert_attachments_in (e_fresh E 0) content (attachments s1) = Inr as"
    "(case mc_gif content of None \<Rightarrow> Inr (gifs s1)
       | Some g \<Rightarrow> insert_row mg_message \<lparr>mg_message = e_fresh E 0, mg_gif = g\<rparr> (gifs s1)) = Inr gs"
    "Inr (e_fresh E 0, s1\<lparr>messages := ms, attachments := as, gifs := gs,
        conversations := sql_update ?p (\<lambda>c. c\<lparr>c_updated_at := e_now E\<rparr>) (conversations s1)\<rparr>) = Inr (i, s')"
    by (simp only: bind_ok_Inr_iff m) blast
  then have ms: "ms = messages s1 @ [?m]" "\<not> sql_exists (\<lambda>x. m_id x = e_fresh E 0) (messages s1)"
    by (simp_all add: m)
  from find_Some_in [OF c(1)] have "c \<in> set (conversations s)" "c_id c = conversation" "c_partition c = part" by auto
  moreover have "sql_update ?p (\<lambda>c. c\<lparr>c_updated_at := e_now E\<rparr>) (conversations s1) =
      sql_update ?p (\<lambda>c. c\<lparr>c_next_sequence := c_next_sequence c + 1, c_updated_at := e_now E\<rparr>) (conversations s)"
    unfolding c(3) by (simp, subst sql_update_twice) simp_all
  moreover have "gifs s1 = gifs s" "attachments s1 = attachments s" by (simp_all add: c(3))
  note ins = ins [unfolded this]
  ultimately show ?thesis
    using ins ms c(2,3) by (intro that [where c = c and as = as and gs = gs]) (auto simp: sql_exists_def)
qed

lemma sequences_insert_message:
  assumes "sequences_ok s" "insert_message_in E part conversation sender content h via_app s = Inr (i, s')"
  shows "sequences_ok s'"
proof -
  obtain c as gs where c: "c \<in> set (conversations s)" "c_id c = conversation" "c_partition c = part"
    and new: "\<forall>x\<in>set (messages s). m_id x \<noteq> i" "i = e_fresh E 0"
    and s': "s' = s\<lparr>conversations := sql_update (\<lambda>c. c_id c = conversation \<and> c_partition c = part)
              (\<lambda>c. c\<lparr>c_next_sequence := c_next_sequence c + 1, c_updated_at := e_now E\<rparr>) (conversations s),
            messages := messages s @ [new_message E part conversation sender content h via_app (c_next_sequence c)],
            attachments := as, gifs := gs\<rparr>"
    using assms(2) by (rule insert_message_inE)
  let ?m = "new_message E part conversation sender content h via_app (c_next_sequence c)"
  have ids: "m_id ?m = i" "m_conversation ?m = conversation" "m_sequence ?m = c_next_sequence c"
    using new by (simp_all add: new_message_def)
  have k: "keyed c_id (conversations s)" using assms(1) by (simp add: sequences_ok_def)
  have row: "1 \<le> c_next_sequence d \<and> map m_sequence (filter (\<lambda>m. m_conversation m = c_id d) (messages s')) = [1..c_next_sequence d - 1]"
    if d: "d \<in> set (conversations s')" for d
  proof (cases "c_id d = conversation")
    case True
    then have d': "d = c\<lparr>c_next_sequence := c_next_sequence c + 1, c_updated_at := e_now E\<rparr>"
      using d c by (intro updated_row [OF k]) (simp_all add: s')
    have "1 \<le> c_next_sequence c" "map m_sequence (filter (\<lambda>m. m_conversation m = conversation) (messages s)) = [1..c_next_sequence c - 1]"
      using assms(1) c by (auto simp: sequences_ok_def)
    then show ?thesis using upto_rec2 [of 1 "c_next_sequence c"] by (simp add: d' s' c(2) ids)
  next
    case False
    then have "d \<in> set (conversations s)" using d by (auto simp: s' set_sql_update)
    with False assms(1) show ?thesis by (auto simp: sequences_ok_def s' ids)
  qed
  have "keyed c_id (conversations s')" using k by (auto simp: s' intro!: keyed_sql_update)
  moreover have "keyed m_id (messages s')"
    using assms(1) new ids by (auto simp: s' sequences_ok_def sql_exists_def intro!: keyed_append_new)
  moreover have "c_id ` set (conversations s') = c_id ` set (conversations s)"
    by (simp only: set_map [symmetric]) (simp add: s' map_key_sql_update)
  then have "m_conversation ` set (messages s') \<subseteq> c_id ` set (conversations s')"
    using assms(1) c(1,2) ids by (auto simp: sequences_ok_def s')
  ultimately show ?thesis using row by (simp add: sequences_ok_def)
qed

text \<open>Anything that keeps the counters and the identity, place and number of every message keeps the
  numbering.\<close>

lemma sequences_ok_cong:
  assumes "map (\<lambda>c. (c_id c, c_next_sequence c)) (conversations s') = map (\<lambda>c. (c_id c, c_next_sequence c)) (conversations s)"
    and "map (\<lambda>m. (m_id m, m_conversation m, m_sequence m)) (messages s') = map (\<lambda>m. (m_id m, m_conversation m, m_sequence m)) (messages s)"
  shows "sequences_ok s' = sequences_ok s"
proof -
  have c: "map c_id (conversations s') = map c_id (conversations s)"
    using arg_cong [OF assms(1), of "map fst"] by (simp add: comp_def)
  have m: "map m_id (messages s') = map m_id (messages s)"
    using arg_cong [OF assms(2), of "map fst"] by (simp add: comp_def)
  have f: "map m_sequence (filter (\<lambda>m. m_conversation m = k) ms) =
      map (\<lambda>(i, v, n). n) (filter (\<lambda>(i, v, n). v = k) (map (\<lambda>m. (m_id m, m_conversation m, m_sequence m)) ms))" for k ms
    by (induction ms) auto
  let ?Q = "\<lambda>ms x. 1 \<le> snd x \<and> map m_sequence (filter (\<lambda>m. m_conversation m = fst x) ms) = [1..snd x - 1]"
  have q: "?Q (messages s') = ?Q (messages s)" unfolding f assms(2) ..
  have all: "(\<forall>c\<in>set cs. 1 \<le> c_next_sequence c \<and>
        map m_sequence (filter (\<lambda>m. m_conversation m = c_id c) ms) = [1..c_next_sequence c - 1]) \<longleftrightarrow>
      (\<forall>x\<in>set (map (\<lambda>c. (c_id c, c_next_sequence c)) cs). ?Q ms x)" for cs ms
    by simp
  have v: "m_conversation ` set (messages s') = m_conversation ` set (messages s)"
    using arg_cong [OF assms(2), of "\<lambda>xs. (\<lambda>(i, v, n). v) ` set xs"] by (simp add: image_image)
  have ci: "c_id ` set (conversations s') = c_id ` set (conversations s)"
    using arg_cong [OF c, of set] by simp
  show ?thesis unfolding sequences_ok_def keyed_def all assms(1) c m q v ci ..
qed

section \<open>Delivery streams have no gaps\<close>

definition streams_ok :: "db \<Rightarrow> bool" where
  "streams_ok s \<longleftrightarrow> keyed s_actor (streams s) \<and> keyed d_id (deliveries s) \<and>
     (\<forall>r\<in>set (streams s). 0 \<le> s_floor r \<and> s_floor r < s_next r \<and>
        map d_sequence (filter (\<lambda>d. d_target d = s_actor r \<and> s_floor r < d_sequence d) (deliveries s)) =
          [s_floor r + 1..s_next r - 1] \<and>
        (\<forall>d\<in>set (deliveries s). d_target d = s_actor r \<longrightarrow> d_sequence d < s_next r \<and>
           (s_floor r < d_sequence d \<longrightarrow> d_retain_until d = None)))"

lemma fold_max_bound: "(x::int) \<le> fold max xs x \<and> (\<forall>y\<in>set xs. y \<le> fold max xs x)"
proof (induction xs arbitrary: x)
  case (Cons y xs)
  from Cons [of "max y x"] show ?case by fastforce
qed simp

lemma legacy_high_bound: "0 \<le> legacy_high a ds" "d \<in> set ds \<Longrightarrow> d_target d = a \<Longrightarrow> d_sequence d \<le> legacy_high a ds"
  using fold_max_bound [of 0 "map d_sequence (filter (\<lambda>d. d_target d = a) ds)"] by (auto simp: legacy_high_def)

lemma streams_open:
  assumes "streams_ok s"
  shows "streams_ok (s\<lparr>snapshots := sn, streams := open_stream a s\<rparr>)"
proof (cases "sql_exists (\<lambda>r. s_actor r = a) (streams s)")
  case True
  then have "open_stream a s = streams s" by (simp add: open_stream_def Let_def insert_or_ignore_def)
  with assms show ?thesis by (simp add: streams_ok_def)
next
  case False
  let ?h = "legacy_high a (deliveries s)"
  let ?r = "\<lparr>s_actor = a, s_next = ?h + 1, s_floor = ?h\<rparr>"
  have o: "open_stream a s = streams s @ [?r]"
    using False by (simp add: open_stream_def Let_def insert_or_ignore_def)
  have "keyed s_actor (streams s @ [?r])"
    using assms False by (intro keyed_append_new) (simp_all add: streams_ok_def)
  moreover have "filter (\<lambda>d. d_target d = a \<and> ?h < d_sequence d) (deliveries s) = []"
    using legacy_high_bound(2) by (fastforce simp: filter_empty_conv)
  moreover have "\<forall>d\<in>set (deliveries s). d_target d = a \<longrightarrow> d_sequence d < ?h + 1 \<and> (?h < d_sequence d \<longrightarrow> d_retain_until d = None)"
    using legacy_high_bound(2) by fastforce
  ultimately show ?thesis
    using assms legacy_high_bound(1) [of a "deliveries s"] by (auto simp: streams_ok_def o)
qed

lemma insert_delivery_rowE:
  assumes "insert_delivery_row now i part target kind conversation message s = Inr (b, s')"
  obtains s1 where "s1 = s\<lparr>snapshots := insert_or_ignore snapshot_key
        \<lparr>sn_partition = accounts_partition, sn_actor = target, sn_refreshed_at = now\<rparr> (snapshots s),
      streams := open_stream target s\<rparr>"
    "\<not> b \<Longrightarrow> s' = s1 \<and> sql_exists (\<lambda>d. d_partition d = part \<and> d_target d = target \<and>
        same_source (d_message d) (d_kind d) message kind) (deliveries s)"
    "b \<Longrightarrow> \<exists>r. r \<in> set (streams s1) \<and> s_actor r = target \<and> (\<forall>d\<in>set (deliveries s). d_id d \<noteq> i) \<and>
      \<not> sql_exists (\<lambda>d. d_partition d = part \<and> d_target d = target \<and>
        same_source (d_message d) (d_kind d) message kind) (deliveries s) \<and>
      s' = s1\<lparr>streams := sql_update (\<lambda>r. s_actor r = target) (\<lambda>r. r\<lparr>s_next := s_next r + 1\<rparr>) (streams s1),
        deliveries := deliveries s @ [\<lparr>d_id = i, d_partition = part, d_target = target,
          d_sequence = s_next r, d_kind = kind, d_conversation = conversation, d_message = message, d_retain_until = None\<rparr>]\<rparr>"
  using assms unfolding insert_delivery_row_def Let_def
  by (auto simp: sql_exists_def split: if_splits option.splits dest: find_Some_in)

lemma streams_insert_delivery_row:
  assumes "streams_ok s" and "insert_delivery_row now i part target kind conversation message s = Inr (b, s')"
  shows "streams_ok s'"
proof -
  obtain s1 where s1: "s1 = s\<lparr>snapshots := insert_or_ignore snapshot_key
        \<lparr>sn_partition = accounts_partition, sn_actor = target, sn_refreshed_at = now\<rparr> (snapshots s),
      streams := open_stream target s\<rparr>"
    and skip: "\<not> b \<Longrightarrow> s' = s1"
    and ins: "b \<Longrightarrow> \<exists>r. r \<in> set (streams s1) \<and> s_actor r = target \<and> (\<forall>d\<in>set (deliveries s). d_id d \<noteq> i) \<and>
      s' = s1\<lparr>streams := sql_update (\<lambda>r. s_actor r = target) (\<lambda>r. r\<lparr>s_next := s_next r + 1\<rparr>) (streams s1),
        deliveries := deliveries s @ [\<lparr>d_id = i, d_partition = part, d_target = target,
          d_sequence = s_next r, d_kind = kind, d_conversation = conversation, d_message = message, d_retain_until = None\<rparr>]\<rparr>"
    using assms(2) by (rule insert_delivery_rowE) blast
  have ok: "streams_ok s1" unfolding s1 by (rule streams_open [OF assms(1)])
  show ?thesis
  proof (cases b)
    case False
    with skip ok show ?thesis by simp
  next
    case True
    then obtain r where r: "r \<in> set (streams s1)" "s_actor r = target" "\<forall>d\<in>set (deliveries s). d_id d \<noteq> i"
      and s': "s' = s1\<lparr>streams := sql_update (\<lambda>r. s_actor r = target) (\<lambda>r. r\<lparr>s_next := s_next r + 1\<rparr>) (streams s1),
        deliveries := deliveries s @ [\<lparr>d_id = i, d_partition = part, d_target = target,
          d_sequence = s_next r, d_kind = kind, d_conversation = conversation, d_message = message, d_retain_until = None\<rparr>]\<rparr>"
      using ins by blast
    have ds: "deliveries s1 = deliveries s" by (simp add: s1)
    have k: "keyed s_actor (streams s1)" using ok by (simp add: streams_ok_def)
    have row: "0 \<le> s_floor q \<and> s_floor q < s_next q \<and>
        map d_sequence (filter (\<lambda>d. d_target d = s_actor q \<and> s_floor q < d_sequence d) (deliveries s')) =
          [s_floor q + 1..s_next q - 1] \<and>
        (\<forall>d\<in>set (deliveries s'). d_target d = s_actor q \<longrightarrow> d_sequence d < s_next q \<and>
           (s_floor q < d_sequence d \<longrightarrow> d_retain_until d = None))"
      if q: "q \<in> set (streams s')" for q
    proof (cases "s_actor q = target")
      case True
      then have q': "q = r\<lparr>s_next := s_next r + 1\<rparr>"
        using q r by (intro updated_row [OF k]) (simp_all add: s')
      have "0 \<le> s_floor r" "s_floor r < s_next r"
        "map d_sequence (filter (\<lambda>d. d_target d = target \<and> s_floor r < d_sequence d) (deliveries s)) = [s_floor r + 1..s_next r - 1]"
        "\<forall>d\<in>set (deliveries s). d_target d = target \<longrightarrow> d_sequence d < s_next r \<and> (s_floor r < d_sequence d \<longrightarrow> d_retain_until d = None)"
        using ok r by (auto simp: streams_ok_def ds)
      then show ?thesis using upto_rec2 [of "s_floor r + 1" "s_next r"] by (auto simp: q' s' r(2))
    next
      case False
      then have "q \<in> set (streams s1)" using q by (auto simp: s' set_sql_update)
      with False ok show ?thesis by (auto simp: streams_ok_def s' ds)
    qed
    have "keyed s_actor (streams s')" using k by (auto simp: s' intro!: keyed_sql_update)
    moreover have "keyed d_id (deliveries s')"
      using ok r(3) by (auto simp: s' streams_ok_def ds sql_exists_def intro!: keyed_append_new)
    ultimately show ?thesis using row by (simp add: streams_ok_def)
  qed
qed

text \<open>An inserted delivery leaves its handoff, and that is all the trigger writes.\<close>

lemma insert_deliveryE:
  assumes "insert_delivery U origin now i part target kind conversation message s = Inr (b, s')"
  obtains s1 t where "insert_delivery_row now i part target kind conversation message s = Inr (b, s1)"
    "s' = s1\<lparr>ting_handoffs := t\<rparr>"
proof -
  have frame: "\<exists>t. s2 = s1\<lparr>ting_handoffs := t\<rparr>" if "enqueue_ting_handoff U now origin d s1 = Inr s2" for d s1 s2
  proof -
    have "\<exists>t. s1 = s1\<lparr>ting_handoffs := t\<rparr>" by (intro exI [of _ "ting_handoffs s1"]) simp
    then show ?thesis
      using that by (auto simp: enqueue_ting_handoff_def Let_def split: delivery_kind.splits option.splits if_splits)
  qed
  obtain s1 where row: "insert_delivery_row now i part target kind conversation message s = Inr (b, s1)"
    and rest: "if b then enqueue_ting_handoff U now origin (last (deliveries s1)) s1 = Inr s' else s' = s1"
    using assms by (auto simp: insert_delivery_def split: if_splits)
  have "\<exists>t. s' = s1\<lparr>ting_handoffs := t\<rparr>"
  proof (cases b)
    case False
    with rest have "s' = s1\<lparr>ting_handoffs := ting_handoffs s1\<rparr>" by simp
    then show ?thesis ..
  qed (use rest frame in simp)
  with row that show ?thesis by blast
qed

lemma streams_insert_delivery:
  assumes "streams_ok s" and "insert_delivery U origin now i part target kind conversation message s = Inr (b, s')"
  shows "streams_ok s'"
  using assms(2)
proof (rule insert_deliveryE)
  fix s1 t
  assume "insert_delivery_row now i part target kind conversation message s = Inr (b, s1)" "s' = s1\<lparr>ting_handoffs := t\<rparr>"
  with streams_insert_delivery_row [OF assms(1)] show ?thesis by (simp add: streams_ok_def)
qed

lemma streams_ok_cong: "streams s' = streams s \<Longrightarrow> deliveries s' = deliveries s \<Longrightarrow> streams_ok s' = streams_ok s"
  by (simp add: streams_ok_def)

section \<open>The fan-out of a message\<close>

text \<open>What the outbox touches, and what it leaves alone.\<close>

definition but_outbox :: "db \<Rightarrow> db" where
  "but_outbox s = s\<lparr>snapshots := [], streams := [], deliveries := [], ting_handoffs := [], notified := []\<rparr>"

definition but_drafts :: "db \<Rightarrow> db" where
  "but_drafts s = s\<lparr>recent_gifs := [], draft_attachments := [], draft_gifs := [], drafts := [], draft_counters := []\<rparr>"

lemma but_outboxD:
  assumes "but_outbox s' = but_outbox s"
  shows "messages s' = messages s" "conversations s' = conversations s" "participants s' = participants s"
    "accounts s' = accounts s" "invitations s' = invitations s" "receipts s' = receipts s"
    "idempotency s' = idempotency s" "attachments s' = attachments s" "gifs s' = gifs s"
    "bundle_items s' = bundle_items s" "histories s' = histories s" "drafts s' = drafts s"
    "draft_counters s' = draft_counters s" "bundles s' = bundles s"
  using assms by (cases s; cases s'; simp add: but_outbox_def)+

lemma but_draftsD:
  assumes "but_drafts s' = but_drafts s"
  shows "messages s' = messages s" "conversations s' = conversations s" "participants s' = participants s"
    "accounts s' = accounts s" "invitations s' = invitations s" "receipts s' = receipts s"
    "idempotency s' = idempotency s" "attachments s' = attachments s" "gifs s' = gifs s"
    "bundle_items s' = bundle_items s" "histories s' = histories s" "streams s' = streams s"
    "deliveries s' = deliveries s" "bundles s' = bundles s"
  using assms by (cases s; cases s'; simp add: but_drafts_def)+

lemma insert_delivery_frame:
  assumes "insert_delivery U origin now i part target kind conversation message s = Inr (b, s')"
  shows "but_outbox s' = but_outbox s"
  using assms
  by (rule insert_deliveryE) (auto simp: insert_delivery_row_def Let_def but_outbox_def split: if_splits option.splits)

lemma notify_frame: "but_outbox (notify_actor_in a s) = but_outbox s"
  by (simp add: notify_actor_in_def but_outbox_def)

text \<open>The fan-out of an event to a list of accounts, whatever the event is: each step enqueues one delivery
  of the same source for its account.\<close>

definition delivery_of :: "str \<Rightarrow> uuid \<Rightarrow> uuid \<Rightarrow> delivery_kind \<Rightarrow> delivery_row \<Rightarrow> bool" where
  "delivery_of part conversation message kind d \<longleftrightarrow> d_partition d = part \<and> d_message d = message \<and>
     d_conversation d = conversation \<and> d_kind d = kind"

lemma insert_delivery_new:
  assumes "insert_delivery U origin now i part target kind conversation message s = Inr (b, s')"
    and "\<forall>d\<in>set (deliveries s). d_target d = target \<longrightarrow> \<not> same_source (d_message d) (d_kind d) message kind"
  shows "\<exists>q. deliveries s' = deliveries s @ [q] \<and> d_target q = target \<and> delivery_of part conversation message kind q"
  using assms(1)
  by (rule insert_deliveryE)
    (use assms(2) in \<open>auto simp: insert_delivery_row_def Let_def delivery_of_def sql_exists_def split: if_splits option.splits\<close>)

locale fan_out =
  fixes step :: "'x \<Rightarrow> db \<Rightarrow> db app_result" and target :: "'x \<Rightarrow> actor_ref"
    and part :: str and conversation message :: uuid and kind :: delivery_kind
  assumes step_delivers: "step x s = Inr s' \<Longrightarrow> \<exists>U origin now i b s1.
    insert_delivery U origin now i part (target x) kind conversation message s = Inr (b, s1) \<and> s' = notify_actor_in (target x) s1"
begin

lemma frame:
  assumes "fold_result step xs s = Inr s'"
  shows "but_outbox s' = but_outbox s"
proof (rule fold_result_induct [OF assms, where P = "\<lambda>t. but_outbox t = but_outbox s"])
  fix x s1 s2
  assume "but_outbox s1 = but_outbox s" "step x s1 = Inr s2"
  with step_delivers show "but_outbox s2 = but_outbox s" by (metis insert_delivery_frame notify_frame)
qed simp

lemma keeps_streams:
  assumes "fold_result step xs s = Inr s'" and "streams_ok s"
  shows "streams_ok s'"
proof (rule fold_result_induct [OF assms(1), where P = streams_ok, OF assms(2)])
  fix x s1 s2
  assume ok: "streams_ok s1" and one: "step x s1 = Inr s2"
  from step_delivers [OF one] obtain U origin now i b s3 where
    "insert_delivery U origin now i part (target x) kind conversation message s1 = Inr (b, s3)" "s2 = notify_actor_in (target x) s3" by blast
  with streams_insert_delivery [OF ok] show "streams_ok s2" by (simp add: notify_actor_in_def streams_ok_def)
qed

lemma reaches_all:
  assumes "fold_result step xs s = Inr s'" and "distinct (map target xs)"
    and "\<forall>d\<in>set (deliveries s). d_target d \<in> set (map target xs) \<longrightarrow> \<not> same_source (d_message d) (d_kind d) message kind"
  shows "\<exists>ds. deliveries s' = deliveries s @ ds \<and> map d_target ds = map target xs \<and>
    (\<forall>d\<in>set ds. delivery_of part conversation message kind d)"
  using assms
proof (induction xs arbitrary: s)
  case Nil
  then show ?case by simp
next
  case (Cons x xs)
  from Cons.prems(1) obtain s1 where one: "step x s = Inr s1" and rest: "fold_result step xs s1 = Inr s'" by auto
  from step_delivers [OF one] obtain U origin now i b s2 where
    ins: "insert_delivery U origin now i part (target x) kind conversation message s = Inr (b, s2)" and s1: "s1 = notify_actor_in (target x) s2"
    by blast
  obtain q where q: "deliveries s1 = deliveries s @ [q]" "d_target q = target x" "delivery_of part conversation message kind q"
    using insert_delivery_new [OF ins] Cons.prems(3) by (auto simp: s1 notify_actor_in_def)
  have "\<forall>d\<in>set (deliveries s1). d_target d \<in> set (map target xs) \<longrightarrow> \<not> same_source (d_message d) (d_kind d) message kind"
    using Cons.prems(2,3) q by auto
  with Cons.IH [OF rest] Cons.prems(2) obtain ds where
    "deliveries s' = deliveries s1 @ ds" "map d_target ds = map target xs" "\<forall>d\<in>set ds. delivery_of part conversation message kind d"
    by auto
  with q show ?case by (intro exI [of _ "q # ds"]) simp
qed

end

definition enqueue_target :: "nat \<times> actor_ref \<Rightarrow> actor_ref" where
  "enqueue_target x = (case parse_target (snd x) of Inl _ \<Rightarrow> snd x | Inr t \<Rightarrow> t)"

interpretation sending: fan_out "enqueue_one E origin part conversation message" enqueue_target part conversation message "MessageDelivery 1"
  for E origin part conversation message
  by unfold_locales (force simp: enqueue_one_def enqueue_target_def)

lemma enqueue_targets: "\<forall>a\<in>set (map snd xs). parse_target a = Inr a \<Longrightarrow> map enqueue_target xs = map snd xs"
  by (auto simp: enqueue_target_def)

lemma clear_draft_frame:
  assumes "clear_matching_draft conversation a h legacy s = Inr s'"
  shows "but_drafts s' = but_drafts s"
  using assms
  by (auto simp: clear_matching_draft_def advance_drafts_def but_drafts_def drop_draft_def split: if_splits)

lemma recent_gif_frame: "but_drafts (update_recent_gif_in now part a i g s) = but_drafts s"
  by (simp add: update_recent_gif_in_def but_drafts_def split: option.splits)

text \<open>What accepting a message changes.\<close>

lemma accept_messageE:
  assumes "accept_message E part conversation sender content via_app s = Inr (i, s')"
  obtains s1 s2 where
    "insert_message_in E part conversation sender content (content_digest (e_digest E) (e_uuid E) content) via_app s = Inr (i, s1)"
    "fold_result (enqueue_one E (Some sender) part conversation i) (enumerate 1 (participant_records_in conversation s1)) s1 = Inr s2"
    "but_outbox s2 = but_outbox s1" "but_drafts s' = but_drafts s2"
proof -
  obtain s1 s2 h l where
    i: "insert_message_in E part conversation sender content (content_digest (e_digest E) (e_uuid E) content) via_app s = Inr (i, s1)"
    and q: "fold_result (enqueue_one E (Some sender) part conversation i) (enumerate 1 (participant_records_in conversation s1)) s1 = Inr s2"
    and c: "clear_matching_draft conversation sender h l (update_recent_gif_in (e_now E) part sender i (mc_gif content) s2) = Inr s'"
    using assms by (auto simp: accept_message_def enqueue_message_deliveries_in_def Let_def)
  from i q sending.frame [OF q] clear_draft_frame [OF c] recent_gif_frame show ?thesis by (intro that) simp_all
qed

section \<open>Who takes part does not change\<close>

text \<open>The part of a conversation row that membership depends on.\<close>

definition membership_row :: "conversation_row \<Rightarrow> uuid \<times> str \<times> bool" where
  "membership_row c = (c_id c, c_partition c, c_is_group c)"

definition same_membership :: "db \<Rightarrow> db \<Rightarrow> bool" where
  "same_membership s' s \<longleftrightarrow> map membership_row (conversations s') = map membership_row (conversations s) \<and>
     participants s' = participants s \<and> invitations s' = invitations s \<and> accounts s' = accounts s"

lemma effective_cong:
  assumes "same_membership s' s"
  shows "effective_conversation_participants s' = effective_conversation_participants s"
proof -
  have acc: "account_deleted_in s' = account_deleted_in s" "eligible_group_members s' = eligible_group_members s"
    using assms by (simp_all add: fun_eq_iff account_deleted_in_def eligible_group_members_def same_membership_def)
  have ex: "sql_exists (\<lambda>c. c_id c = k \<and> c_partition c = q \<and> (\<not> c_is_group c \<or> B)) cs \<longleftrightarrow>
      (\<exists>x\<in>set (map membership_row cs). fst x = k \<and> fst (snd x) = q \<and> (\<not> snd (snd x) \<or> B))" for k q B cs
    by (auto simp: sql_exists_def membership_row_def)
  show ?thesis
    unfolding effective_conversation_participants_def ex acc
    using assms by (simp add: same_membership_def)
qed

lemma participant_records_cong: "same_membership s' s \<Longrightarrow> participant_records_in k s' = participant_records_in k s"
  by (simp add: participant_records_in_def effective_cong)

lemma require_participant_cong: "same_membership s' s \<Longrightarrow> require_participant s' a k = require_participant s a k"
  by (simp add: require_participant_def effective_cong)

lemma same_membership_trans: "same_membership s2 s1 \<Longrightarrow> same_membership s1 s \<Longrightarrow> same_membership s2 s"
  by (simp add: same_membership_def)

lemma participant_records_member:
  "a \<in> set (participant_records_in k s) \<longleftrightarrow> is_participant s k a"
  by (auto simp: participant_records_in_def is_participant_def sql_exists_def)

lemma participant_records_distinct:
  assumes "keyed participant_row_key (participants s)"
  shows "distinct (participant_records_in k s)"
proof -
  have "distinct (map p_actor (filter (\<lambda>p. p_conversation p = k) (filter Q ps)))"
    if "keyed participant_row_key ps" for Q ps
    using that by (induction ps) (auto simp: keyed_def participant_row_key_def image_iff)
  from this [OF assms] show ?thesis
    by (simp add: participant_records_in_def effective_conversation_participants_def del: filter_filter)
qed

section \<open>Messaging state\<close>

text \<open>The invariant of the messaging tables: numbering, streams, the keys of the roster, identifiers
  stored in normal form, and deliveries that refer to a message.\<close>

definition messaging_ok :: "db \<Rightarrow> bool" where
  "messaging_ok s \<longleftrightarrow> sequences_ok s \<and> streams_ok s \<and> keyed participant_row_key (participants s) \<and>
     (\<forall>p\<in>set (participants s). parse_target (p_actor p) = Inr (p_actor p)) \<and>
     (\<forall>d\<in>set (deliveries s). (\<exists>e. d_kind d = SystemDelivery e) \<or> (\<exists>m\<in>set (messages s). m_id m = d_message d))"

lemma messaging_okD:
  assumes "messaging_ok s"
  shows "sequences_ok s" "streams_ok s" "keyed participant_row_key (participants s)"
    "a \<in> set (participant_records_in k s) \<Longrightarrow> parse_target a = Inr a"
    "d \<in> set (deliveries s) \<Longrightarrow> d_kind d = MessageDelivery n \<Longrightarrow> \<exists>m\<in>set (messages s). m_id m = d_message d"
  using assms
  by (auto simp: messaging_ok_def participant_records_in_def effective_conversation_participants_def)

lemma require_participantD:
  assumes "require_participant s a k = Inr part"
  shows "\<exists>p\<in>set (participants s). p_conversation p = k \<and> p_actor p = a \<and> p_partition p = part"
    and "\<exists>c\<in>set (conversations s). c_id c = k \<and> c_partition c = part" and "is_participant s k a"
proof -
  obtain p where p: "find (\<lambda>p. p_conversation p = k \<and> p_actor p = a) (effective_conversation_participants s) = Some p"
    "p_partition p = part" using assms by (auto simp: require_participant_def split: option.splits)
  with find_Some_in [OF p(1)] show "\<exists>p\<in>set (participants s). p_conversation p = k \<and> p_actor p = a \<and> p_partition p = part"
    and "\<exists>c\<in>set (conversations s). c_id c = k \<and> c_partition c = part" and "is_participant s k a"
    by (auto simp: effective_conversation_participants_def is_participant_def sql_exists_def)
qed

lemma insert_message_membership:
  assumes "insert_message_in E part conversation sender content h via_app s = Inr (i, s1)"
  shows "same_membership s1 s" "deliveries s1 = deliveries s" "streams s1 = streams s" "idempotency s1 = idempotency s"
    "receipts s1 = receipts s"
  using assms by (auto elim!: insert_message_inE simp: same_membership_def sql_update_def membership_row_def)

lemma counters_cong:
  assumes "same_membership s' s" "map c_next_sequence (conversations s') = map c_next_sequence (conversations s)"
  shows "map (\<lambda>c. (c_id c, c_next_sequence c)) (conversations s') = map (\<lambda>c. (c_id c, c_next_sequence c)) (conversations s)"
proof -
  have "map (\<lambda>c. (c_id c, c_next_sequence c)) cs = zip (map fst (map membership_row cs)) (map c_next_sequence cs)" for cs
    by (induction cs) (simp_all add: membership_row_def)
  moreover have "map membership_row (conversations s') = map membership_row (conversations s)"
    using assms(1) by (simp add: same_membership_def)
  ultimately show ?thesis using assms(2) by (simp only:)
qed

lemma messaging_ok_frame:
  assumes "same_membership s' s" "map c_next_sequence (conversations s') = map c_next_sequence (conversations s)"
    "messages s' = messages s" "streams s' = streams s" "deliveries s' = deliveries s"
  shows "messaging_ok s' = messaging_ok s"
proof -
  note counters_cong [OF assms(1,2)]
  then have "sequences_ok s' = sequences_ok s" using assms(3) by (intro sequences_ok_cong) simp_all
  with assms show ?thesis by (simp add: messaging_ok_def streams_ok_def same_membership_def)
qed

text \<open>A new message and its fan-out, whatever else the transaction writes in between.\<close>

lemma new_message_fan_out:
  assumes ok: "messaging_ok s" and ins: "insert_message_in E part conversation sender content h via_app s = Inr (i, s1)"
    and mid: "same_membership s2 s1" "map c_next_sequence (conversations s2) = map c_next_sequence (conversations s1)"
      "messages s2 = messages s1" "streams s2 = streams s1" "deliveries s2 = deliveries s1"
    and enq: "fold_result (enqueue_one F origin part conversation i) (enumerate 1 (participant_records_in conversation s2)) s2 = Inr s3"
  shows "messaging_ok s3" and "same_membership s3 s"
    and "\<exists>c\<in>set (conversations s). c_id c = conversation \<and> c_partition c = part \<and>
      i = e_fresh E 0 \<and> (\<forall>x\<in>set (messages s). m_id x \<noteq> i) \<and>
      messages s3 = messages s @ [new_message E part conversation sender content h via_app (c_next_sequence c)]"
    and "\<exists>ds. deliveries s3 = deliveries s @ ds \<and> map d_target ds = participant_records_in conversation s \<and>
      (\<forall>d\<in>set ds. delivery_of part conversation i (MessageDelivery 1) d)"
proof -
  note fr = but_outboxD [OF sending.frame [OF enq]] and same = insert_message_membership [OF ins]
  have mem: "same_membership s2 s" by (rule same_membership_trans [OF mid(1) same(1)])
  note rec = participant_records_cong [OF mem]
  show mem3: "same_membership s3 s" using mem fr by (simp add: same_membership_def)
  obtain c as gs where c: "c \<in> set (conversations s)" "c_id c = conversation" "c_partition c = part" "i = e_fresh E 0"
    and new: "\<forall>x\<in>set (messages s). m_id x \<noteq> i"
    and ms: "messages s1 = messages s @ [new_message E part conversation sender content h via_app (c_next_sequence c)]"
    using ins by (rule insert_message_inE) simp
  with fr mid(3) show "\<exists>c\<in>set (conversations s). c_id c = conversation \<and> c_partition c = part \<and>
      i = e_fresh E 0 \<and> (\<forall>x\<in>set (messages s). m_id x \<noteq> i) \<and>
      messages s3 = messages s @ [new_message E part conversation sender content h via_app (c_next_sequence c)]"
    by auto
  have nodel: "\<forall>d\<in>set (deliveries s2). d_target d \<in> T \<longrightarrow> \<not> same_source (d_message d) (d_kind d) i (MessageDelivery 1)" for T
  proof (intro ballI impI)
    fix d assume "d \<in> set (deliveries s2)"
    then show "\<not> same_source (d_message d) (d_kind d) i (MessageDelivery 1)"
      using messaging_okD(5) [OF ok] new by (cases "d_kind d") (auto simp: same mid)
  qed
  have tg: "map enqueue_target (enumerate 1 (participant_records_in conversation s2)) = participant_records_in conversation s"
    using enqueue_targets [of "enumerate 1 (participant_records_in conversation s2)"] messaging_okD(4) [OF ok] by (simp add: rec)
  obtain ds where ds: "deliveries s3 = deliveries s2 @ ds" "map d_target ds = participant_records_in conversation s"
    "\<forall>d\<in>set ds. delivery_of part conversation i (MessageDelivery 1) d"
    using sending.reaches_all [OF enq, unfolded tg, OF participant_records_distinct [OF messaging_okD(3) [OF ok]] nodel] that by blast
  with same mid show "\<exists>ds. deliveries s3 = deliveries s @ ds \<and> map d_target ds = participant_records_in conversation s \<and>
      (\<forall>d\<in>set ds. delivery_of part conversation i (MessageDelivery 1) d)" by auto
  have seq1: "sequences_ok s1" by (rule sequences_insert_message [OF messaging_okD(1) [OF ok] ins])
  note counters_cong [OF mid(1,2)]
  then have "sequences_ok s2" using seq1 sequences_ok_cong [of s2 s1] mid(3) by simp
  then have "sequences_ok s3" using fr by (simp add: sequences_ok_def)
  moreover have "streams_ok s2" using messaging_okD(2) [OF ok] same mid by (simp add: streams_ok_def)
  then have "streams_ok s3" by (rule sending.keeps_streams [OF enq])
  moreover have "(\<exists>e. d_kind d = SystemDelivery e) \<or> (\<exists>m\<in>set (messages s3). m_id m = d_message d)"
    if "d \<in> set (deliveries s3)" for d
  proof -
    from that consider "d \<in> set (deliveries s)" | "d \<in> set ds" using ds(1) same mid by auto
    then show ?thesis
    proof cases
      case 1
      with ok fr mid ms show ?thesis by (auto simp: messaging_ok_def)
    next
      case 2
      with ds(3) fr mid ms c show ?thesis by (auto simp: delivery_of_def new_message_def)
    qed
  qed
  ultimately show "messaging_ok s3" using ok mem3 by (auto simp: messaging_ok_def same_membership_def)
qed

lemma accept_message_effect:
  assumes ok: "messaging_ok s" and acc: "accept_message E part conversation sender content via_app s = Inr (i, s')"
  shows "messaging_ok s'" and "same_membership s' s" and "idempotency s' = idempotency s" and "receipts s' = receipts s"
    and "\<exists>c\<in>set (conversations s). c_id c = conversation \<and> c_partition c = part \<and>
      i = e_fresh E 0 \<and> (\<forall>x\<in>set (messages s). m_id x \<noteq> i) \<and>
      messages s' = messages s @ [new_message E part conversation sender content
        (content_digest (e_digest E) (e_uuid E) content) via_app (c_next_sequence c)]"
    and "\<exists>ds. deliveries s' = deliveries s @ ds \<and> map d_target ds = participant_records_in conversation s \<and>
      (\<forall>d\<in>set ds. delivery_of part conversation i (MessageDelivery 1) d)"
proof -
  let ?h = "content_digest (e_digest E) (e_uuid E) content"
  obtain s1 s2 where ins: "insert_message_in E part conversation sender content ?h via_app s = Inr (i, s1)"
    and enq: "fold_result (enqueue_one E (Some sender) part conversation i) (enumerate 1 (participant_records_in conversation s1)) s1 = Inr s2"
    and fr: "but_outbox s2 = but_outbox s1" "but_drafts s' = but_drafts s2"
    using acc by (rule accept_messageE)
  note fr1 = but_outboxD [OF fr(1)] and fr2 = but_draftsD [OF fr(2)] and same = insert_message_membership [OF ins]
  have "same_membership s1 s1" by (simp add: same_membership_def)
  note eff = new_message_fan_out [OF ok ins this refl refl refl refl enq]
  show "same_membership s' s" using eff(2) fr2 by (simp add: same_membership_def)
  show "idempotency s' = idempotency s" "receipts s' = receipts s" using same fr1 fr2 by simp_all
  show "messaging_ok s'" using eff(1) messaging_ok_frame [of s' s2] fr2 by (simp add: same_membership_def)
  show "\<exists>c\<in>set (conversations s). c_id c = conversation \<and> c_partition c = part \<and>
      i = e_fresh E 0 \<and> (\<forall>x\<in>set (messages s). m_id x \<noteq> i) \<and>
      messages s' = messages s @ [new_message E part conversation sender content ?h via_app (c_next_sequence c)]"
    using eff(3) fr2 by simp
  show "\<exists>ds. deliveries s' = deliveries s @ ds \<and> map d_target ds = participant_records_in conversation s \<and>
      (\<forall>d\<in>set ds. delivery_of part conversation i (MessageDelivery 1) d)"
    using eff(4) fr2 by simp
qed

lemma send_messageE:
  assumes "send_message_in E conversation sender content key via_app s = Inr (i, s')"
  obtains h part s1 c s2 where "message_validate (e_uuid E) content = Inr ()"
    "\<not> is_some_and (\<lambda>i. \<not> addresses (e_uuid E) i sender) (mc_sender_id content)"
    "request_hash (e_digest E) (send_request_json E conversation content) = Inr h"
    "require_participant s sender conversation = Inr part"
    "s1 = refresh_directory_in (e_now E) accounts_partition [sender] (refresh_directory_in (e_now E) part [sender] s)"
    "claim_db (e_now E) (e_lease E) (send_key sender key) h s1 = Inr (c, s2)"
    "(case c of Replay i \<Rightarrow> Inr (i, s2) | Acquired \<Rightarrow> bind_ok (accept_message E part conversation sender content via_app s2)
       (\<lambda>(i, s3). bind_ok (complete_db (send_key sender key) ''message'' i 202 s3) (\<lambda>s4. Inr (i, s4)))) = Inr (i, s')"
proof (cases "message_validate (e_uuid E) content")
  case (Inr u)
  with assms show ?thesis by (auto simp: send_message_in_def Let_def split: if_splits intro: that)
qed (use assms in \<open>simp add: send_message_in_def\<close>)

lemma refresh_membership [simp]: "same_membership (refresh_directory_in now part as s) s"
  by (simp add: same_membership_def refresh_directory_in_def)

lemma refresh_messaging [simp]:
  "streams (refresh_directory_in now part as s) = streams s"
  "deliveries (refresh_directory_in now part as s) = deliveries s"
  "receipts (refresh_directory_in now part as s) = receipts s"
  by (simp_all add: refresh_directory_in_def)

lemma refresh_messaging_ok [simp]: "messaging_ok (refresh_directory_in now part as s) = messaging_ok s"
  by (rule messaging_ok_frame) simp_all

lemma idempotency_messaging [simp]: "messaging_ok (s\<lparr>idempotency := t\<rparr>) = messaging_ok s"
  by (intro messaging_ok_frame) (simp_all add: same_membership_def)

text \<open>A send under a new key: what it does, step by step.\<close>

lemma send_message_new:
  assumes "send_message_in E conversation sender content key via_app s = Inr (i, s')"
    and "settled (idempotency s) (send_key sender key) = None"
  obtains h part s2 s3 t where "request_hash (e_digest E) (send_request_json E conversation content) = Inr h"
    "require_participant s sender conversation = Inr part"
    "same_membership s2 s" "messages s2 = messages s" "conversations s2 = conversations s"
    "deliveries s2 = deliveries s" "messaging_ok s2 = messaging_ok s" "receipts s2 = receipts s" "groups s2 = groups s"
    "claim (e_now E) (e_lease E) (send_key sender key) h (idempotency s) = Inr (Acquired, idempotency s2)"
    "accept_message E part conversation sender content via_app s2 = Inr (i, s3)"
    "complete (send_key sender key) ''message'' i 202 (idempotency s3) = Inr t" "s' = s3\<lparr>idempotency := t\<rparr>"
proof -
  obtain h part s1 c s2 where h: "request_hash (e_digest E) (send_request_json E conversation content) = Inr h"
    and part: "require_participant s sender conversation = Inr part"
    and s1: "s1 = refresh_directory_in (e_now E) accounts_partition [sender] (refresh_directory_in (e_now E) part [sender] s)"
    and cl: "claim_db (e_now E) (e_lease E) (send_key sender key) h s1 = Inr (c, s2)"
    and rest: "(case c of Replay i \<Rightarrow> Inr (i, s2) | Acquired \<Rightarrow> bind_ok (accept_message E part conversation sender content via_app s2)
       (\<lambda>(i, s3). bind_ok (complete_db (send_key sender key) ''message'' i 202 s3) (\<lambda>s4. Inr (i, s4)))) = Inr (i, s')"
    using assms(1) by (rule send_messageE)
  have c: "c = Acquired" using cl assms(2) by (intro claim_db_new [OF cl]) (simp add: s1)
  then obtain s3 where acc: "accept_message E part conversation sender content via_app s2 = Inr (i, s3)"
    and co: "complete_db (send_key sender key) ''message'' i 202 s3 = Inr s'" using rest by auto
  obtain t where t: "claim (e_now E) (e_lease E) (send_key sender key) h (idempotency s1) = Inr (c, t)" "s2 = s1\<lparr>idempotency := t\<rparr>"
    using cl by (rule claim_dbD)
  obtain t' where t': "complete (send_key sender key) ''message'' i 202 (idempotency s3) = Inr t'" "s' = s3\<lparr>idempotency := t'\<rparr>"
    using co by (rule complete_dbD)
  have "same_membership s2 s" by (simp add: t(2) s1 same_membership_def)
  moreover have "claim (e_now E) (e_lease E) (send_key sender key) h (idempotency s) = Inr (Acquired, idempotency s2)"
    using t c by (simp add: s1)
  ultimately show ?thesis using h part acc t' by (intro that) (simp_all add: t(2) s1)
qed

text \<open>A request that was settled under the hash of its content is replayed.\<close>

lemma send_message_replay:
  assumes "message_validate (e_uuid F) content = Inr ()"
    "\<not> is_some_and (\<lambda>i. \<not> addresses (e_uuid F) i sender) (mc_sender_id content)"
    "request_hash (e_digest F) (send_request_json F conversation content) = Inr h"
    "require_participant s sender conversation = Inr part"
    "settled (idempotency s) (send_key sender key) = Some (h, i)"
  shows "\<exists>s'. send_message_in F conversation sender content key via_app s = Inr (i, s') \<and>
    messages s' = messages s \<and> deliveries s' = deliveries s \<and> receipts s' = receipts s"
proof -
  let ?s1 = "refresh_directory_in (e_now F) accounts_partition [sender] (refresh_directory_in (e_now F) part [sender] s)"
  have "claim (e_now F) (e_lease F) (send_key sender key) h (idempotency ?s1) = Inr (Replay i, idempotency ?s1)"
    using assms(5) by (simp add: claim_replay_iff)
  then have "claim_db (e_now F) (e_lease F) (send_key sender key) h ?s1 = Inr (Replay i, ?s1)"
    by (simp add: claim_db_def)
  with assms(1-4) have "send_message_in F conversation sender content key via_app s = Inr (i, ?s1)"
    by (simp add: send_message_in_def Let_def)
  then show ?thesis by simp
qed

text \<open>C2. A message is accepted once and reaches everyone: a send under a new key adds one message with
  the next number of its conversation and one delivery for each account that takes part, the sender
  included, and nothing else to either table; repeating the request answers with the same message and
  adds nothing.\<close>

theorem send_message_exactly_once:
  assumes "messaging_ok s" "keyed idem_key_of (idempotency s)"
    and "send_message_in E conversation sender content key via_app s = Inr (i, s')"
    and "settled (idempotency s) (send_key sender key) = None"
    and "e_digest F = e_digest E" "e_uuid F = e_uuid E"
  shows "messaging_ok s' \<and>
    (\<exists>c m. c \<in> set (conversations s) \<and> c_id c = conversation \<and> messages s' = messages s @ [m] \<and>
       m_id m = i \<and> m_conversation m = conversation \<and> m_sender m = sender \<and> m_sequence m = c_next_sequence c \<and>
       m_text m = mc_text content \<and> m_status m = Sent) \<and>
    (\<exists>ds. deliveries s' = deliveries s @ ds \<and> map d_target ds = participant_records_in conversation s \<and>
       (\<forall>d\<in>set ds. d_message d = i \<and> d_conversation d = conversation)) \<and>
    (\<exists>s''. send_message_in F conversation sender content key via' s' = Inr (i, s'') \<and>
       messages s'' = messages s' \<and> deliveries s'' = deliveries s')"
proof -
  obtain h part s2 s3 t where h: "request_hash (e_digest E) (send_request_json E conversation content) = Inr h"
    and part: "require_participant s sender conversation = Inr part"
    and s2: "same_membership s2 s" "messages s2 = messages s" "conversations s2 = conversations s"
    "deliveries s2 = deliveries s" "messaging_ok s2 = messaging_ok s"
    and cl: "claim (e_now E) (e_lease E) (send_key sender key) h (idempotency s) = Inr (Acquired, idempotency s2)"
    and acc: "accept_message E part conversation sender content via_app s2 = Inr (i, s3)"
    and co: "complete (send_key sender key) ''message'' i 202 (idempotency s3) = Inr t" and s': "s' = s3\<lparr>idempotency := t\<rparr>"
    using assms(3,4) by (rule send_message_new)
  have ok2: "messaging_ok s2" using s2(5) assms(1) by simp
  note eff = accept_message_effect [OF ok2 acc]
  have valid: "message_validate (e_uuid E) content = Inr ()"
    "\<not> is_some_and (\<lambda>i. \<not> addresses (e_uuid E) i sender) (mc_sender_id content)"
    using assms(3) by (auto elim: send_messageE)
  have settled: "settled (idempotency s') (send_key sender key) = Some (h, i)"
    using idem.settles [OF assms(2) cl] co by (simp add: s' eff(3))
  have mem: "same_membership s' s"
    using eff(2) s2(1) same_membership_trans by (simp add: s' same_membership_def)
  have "\<exists>s''. send_message_in F conversation sender content key via' s' = Inr (i, s'') \<and>
       messages s'' = messages s' \<and> deliveries s'' = deliveries s' \<and> receipts s'' = receipts s'"
    by (rule send_message_replay [OF _ _ _ _ settled])
      (use valid h part assms(5,6) in \<open>simp_all add: send_request_json_def require_participant_cong [OF mem]\<close>)
  moreover have "messaging_ok s'" using eff(1) by (simp add: s')
  moreover have "\<exists>ds. deliveries s' = deliveries s @ ds \<and> map d_target ds = participant_records_in conversation s \<and>
       (\<forall>d\<in>set ds. d_message d = i \<and> d_conversation d = conversation)"
    using eff(6) s2 participant_records_cong [OF s2(1)] by (auto simp: s' delivery_of_def)
  moreover obtain c where "c \<in> set (conversations s)" "c_id c = conversation" "i = e_fresh E 0"
      "messages s' = messages s @ [new_message E part conversation sender content
        (content_digest (e_digest E) (e_uuid E) content) via_app (c_next_sequence c)]"
    using eff(5) s2 by (auto simp: s')
  ultimately show ?thesis by (auto simp: new_message_def)
qed

text \<open>A direct conversation of two accounts and a first message, used in examples.\<close>

definition chat :: db where
  "chat = empty_db\<lparr>
     conversations := [\<lparr>c_id = 1, c_partition = accounts_partition, c_set_hash = [1], c_creator = ann,
       c_is_group = False, c_superseded_by = None, c_next_sequence = 1, c_next_bundle = 1, c_created_at = 0,
       c_updated_at = 0\<rparr>],
     participants := [participant_of 0 1 bob, participant_of 0 1 ann]\<rparr>"

definition hello :: message_create where
  "hello = empty_content\<lparr>mc_text := Some (lit ''hi'')\<rparr>"

lemmas chat_simps = chat_def empty_db_def participant_of_def participant_row_key_def parse_target_def parse_actor_id_def
  identifier_try_from_def effective_conversation_participants_def account_deleted_in_def sql_exists_def Let_def
  trim_def is_whitespace_def is_control_def lit_def str_len_def bytes_def utf8_char_def

lemma chat_ok: "messaging_ok chat"
  by (simp add: messaging_ok_def sequences_ok_def streams_ok_def keyed_def chat_simps)

lemmas handoff_evaluation = insert_delivery_def insert_delivery_row_def enqueue_ting_handoff_def new_handoff_def handoff_events_def
  conversation_address_def direct_address_def shown_id_def coalesce_def

lemmas send_evaluation = send_message_in_def message_validate_def hello_def empty_content_def flatten_option_def
  too_long_def validate_attachments_def validate_gif_def is_some_and_def request_hash_def require_participant_def
  claim_db_def claim_def insert_or_ignore_def claim_row_def idem_key_of_def send_key_def accept_message_def
  insert_message_in_def recipient_ok_def assign_message_sequence_def reply_ok_def new_message_def insert_row_def
  insert_attachments_in_def enqueue_message_deliveries_in_def enqueue_one_def participant_records_in_def
  participant_key_def handoff_evaluation open_stream_def legacy_high_def snapshot_key_def notify_actor_in_def
  update_recent_gif_in_def clear_matching_draft_def advance_drafts_def complete_db_def complete_def
  refresh_directory_in_def rows_affected_def sql_update_def is_i64_def i64_min_def i64_max_def chat_simps
  limit_defs

theorem send_message_exactly_once_witness:
  "\<exists>i s' s''. send_message_in test_env 1 ann hello (lit ''key-0001'') None chat = Inr (i, s') \<and>
     length (messages s') = 1 \<and> map d_target (deliveries s') = [bob, ann] \<and>
     send_message_in test_env 1 ann hello (lit ''key-0001'') None s' = Inr (i, s'')"
proof -
  let ?run = "send_message_in test_env 1 ann hello (lit ''key-0001'') None chat"
  have "\<exists>i s'. ?run = Inr (i, s')" by (simp add: send_evaluation)
  then obtain i s' where run: "?run = Inr (i, s')" by blast
  have idem: "keyed idem_key_of (idempotency chat)" "settled (idempotency chat) (send_key ann (lit ''key-0001'')) = None"
    by (simp_all add: chat_simps settled_def)
  have "messages chat = []" "deliveries chat = []" "participant_records_in 1 chat = [bob, ann]"
    by (simp_all add: chat_simps participant_records_in_def participant_key_def)
  with send_message_exactly_once [OF chat_ok idem(1) run idem(2) refl refl, of None] run show ?thesis by auto
qed

section \<open>Only addressable conversations take messages\<close>

definition address_row :: "conversation_row \<Rightarrow> uuid \<times> str \<times> bool" where
  "address_row c = (c_id c, c_partition c, c_superseded_by c = None)"

lemma find_map_cong:
  assumes "map f xs = map f ys" "\<And>x. P x = Q (f x)"
  shows "map_option f (find P xs) = map_option f (find P ys)"
proof -
  have "map_option f (find P zs) = find Q (map f zs)" for zs
    by (induction zs) (simp_all add: assms(2))
  then show ?thesis using assms(1) by metis
qed

lemma address_cong:
  assumes "map address_row (conversations s') = map address_row (conversations s)"
    "participants s' = participants s" "groups s' = groups s"
  shows "conversation_address U s' k = None \<longleftrightarrow> conversation_address U s k = None"
proof -
  have "map_option address_row (find (\<lambda>c. c_id c = k) (conversations s')) =
      map_option address_row (find (\<lambda>c. c_id c = k) (conversations s))"
    by (rule find_map_cong [OF assms(1), where Q = "\<lambda>x. fst x = k"]) (simp add: address_row_def)
  then show ?thesis
    by (auto simp: conversation_address_def assms(2,3) address_row_def Let_def split: option.splits)
qed

lemma first_delivery_address:
  assumes "insert_delivery U origin now i part target (MessageDelivery r) k message s = Inr (b, s')"
    and "\<forall>d\<in>set (deliveries s). \<not> same_source (d_message d) (d_kind d) message (MessageDelivery r)"
  shows "\<exists>m\<in>set (messages s). m_id m = message \<and> conversation_address U s (m_conversation m) \<noteq> None"
proof -
  obtain b1 s1 where row: "insert_delivery_row now i part target (MessageDelivery r) k message s = Inr (b1, s1)"
    and rest: "if b1 then enqueue_ting_handoff U now origin (last (deliveries s1)) s1 = Inr s' else s1 = s'"
    using assms(1) by (auto simp: insert_delivery_def split: if_splits)
  have new: "b1" "d_message (last (deliveries s1)) = message" "d_kind (last (deliveries s1)) = MessageDelivery r"
    "messages s1 = messages s" "conversations s1 = conversations s" "participants s1 = participants s" "groups s1 = groups s"
    using row assms(2) by (auto simp: insert_delivery_row_def Let_def sql_exists_def split: if_splits option.splits)
  from rest new have "enqueue_ting_handoff U now origin (last (deliveries s1)) s1 = Inr s'" by simp
  then obtain m where m: "find (\<lambda>m. m_id m = message) (messages s) = Some m" "conversation_address U s1 (m_conversation m) \<noteq> None"
    by (auto simp: enqueue_ting_handoff_def new split: option.splits)
  with find_Some_in [OF m(1)] address_cong [of s1 s U "m_conversation m"] show ?thesis by (auto simp: new)
qed

lemma accepted_has_address:
  assumes ok: "messaging_ok s" and acc: "accept_message E part k sender content via_app s = Inr (i, s')"
    and member: "is_participant s k a"
  shows "conversation_address (e_uuid E) s k \<noteq> None"
proof -
  let ?h = "content_digest (e_digest E) (e_uuid E) content"
  obtain s1 s2 where ins: "insert_message_in E part k sender content ?h via_app s = Inr (i, s1)"
    and enq: "fold_result (enqueue_one E (Some sender) part k i) (enumerate 1 (participant_records_in k s1)) s1 = Inr s2"
    using acc by (rule accept_messageE)
  note same = insert_message_membership [OF ins]
  obtain c as gs where "c \<in> set (conversations s)" and i: "i = e_fresh E 0" "\<forall>x\<in>set (messages s). m_id x \<noteq> i" and s1: "s1 = s\<lparr>conversations :=
      sql_update (\<lambda>c. c_id c = k \<and> c_partition c = part)
              (\<lambda>c. c\<lparr>c_next_sequence := c_next_sequence c + 1, c_updated_at := e_now E\<rparr>) (conversations s),
      messages := messages s @ [new_message E part k sender content ?h via_app (c_next_sequence c)],
      attachments := as, gifs := gs\<rparr>"
    using ins by (rule insert_message_inE) (rule that, assumption+)
  have "participant_records_in k s1 \<noteq> []"
    using member participant_records_member [of a k s] participant_records_cong [OF same(1)] by fastforce
  then obtain x xs where xs: "participant_records_in k s1 = x # xs" by (cases "participant_records_in k s1") auto
  from enq obtain t where "enqueue_one E (Some sender) part k i (1, x) s1 = Inr t" by (auto simp: xs)
  then obtain target b t' where
    one: "insert_delivery (e_uuid E) (Some sender) (e_now E) (e_fresh E 1) part target (MessageDelivery 1) k i s1 = Inr (b, t')"
    by (auto simp: enqueue_one_def)
  have "\<forall>d\<in>set (deliveries s1). \<not> same_source (d_message d) (d_kind d) i (MessageDelivery 1)"
  proof
    fix d assume "d \<in> set (deliveries s1)"
    then show "\<not> same_source (d_message d) (d_kind d) i (MessageDelivery 1)"
      using messaging_okD(5) [OF ok] i(2) by (cases "d_kind d") (auto simp: same)
  qed
  from first_delivery_address [OF one this] obtain m where "m \<in> set (messages s1)" "m_id m = i"
    "conversation_address (e_uuid E) s1 (m_conversation m) \<noteq> None" by blast
  then have "conversation_address (e_uuid E) s1 k \<noteq> None" using i(2) by (auto simp: s1 new_message_def)
  moreover have "map address_row (conversations s1) = map address_row (conversations s)"
    by (simp add: s1 sql_update_def address_row_def)
  ultimately show ?thesis using address_cong [of s1 s "e_uuid E" k] by (simp del: not_None_eq add: s1)
qed

text \<open>C39. Only addressable conversations take messages: a direct conversation of any number of accounts
  other than two has no public address, and every new send to it is refused, whoever sends whatever.\<close>

theorem unaddressable_takes_no_messages:
  assumes "messaging_ok s" "settled (idempotency s) (send_key sender key) = None"
    and "\<forall>g\<in>set (groups s). g_conversation g \<noteq> k"
    and "\<forall>c\<in>set (conversations s). c_id c = k \<longrightarrow>
      length (filter (\<lambda>p. p_conversation p = k \<and> p_partition p = c_partition c) (participants s)) \<noteq> 2"
  shows "\<exists>e. send_message_in E k sender content key via_app s = Inl e"
proof (rule ccontr)
  assume "\<not> ?thesis"
  then obtain i s' where run: "send_message_in E k sender content key via_app s = Inr (i, s')" by (metis sum.exhaust surj_pair)
  obtain h part s2 s3 t where part: "require_participant s sender k = Inr part"
    and s2: "same_membership s2 s" "messages s2 = messages s" "conversations s2 = conversations s"
    "deliveries s2 = deliveries s" "messaging_ok s2 = messaging_ok s" "receipts s2 = receipts s" "groups s2 = groups s"
    and acc: "accept_message E part k sender content via_app s2 = Inr (i, s3)"
    using run assms(2) by (rule send_message_new) (rule that, assumption+)
  have "is_participant s2 k sender"
    using require_participantD(3) [OF part] by (simp add: is_participant_def effective_cong [OF s2(1)])
  from accepted_has_address [OF _ acc this] s2 assms(1) have "conversation_address (e_uuid E) s2 k \<noteq> None" by simp
  then have "conversation_address (e_uuid E) s k \<noteq> None"
    using address_cong [of s2 s "e_uuid E" k] s2 by (simp del: not_None_eq add: same_membership_def)
  moreover have "find (\<lambda>g. g_conversation g = k) (groups s) = None" using assms(3) by (simp add: find_None_iff)
  moreover have "\<exists>c\<in>set (conversations s). c_id c = k"
    using require_participantD(2) [OF part] by blast
  ultimately show False
    using assms(4) by (auto simp: conversation_address_def Let_def split: option.splits if_splits dest!: find_Some_in)
qed

lemma old_trio_ok: "messaging_ok old_trio"
  by (simp add: messaging_ok_def sequences_ok_def streams_ok_def keyed_def old_trio_def empty_db_def participant_of_def
      participant_row_key_def parse_target_def parse_actor_id_def identifier_try_from_def Let_def
      trim_def is_whitespace_def is_control_def lit_def str_len_def bytes_def utf8_char_def)

theorem unaddressable_takes_no_messages_witness:
  "require_participant old_trio ann 2 = Inr accounts_partition \<and>
   (\<exists>e. send_message_in test_env 2 ann hello (lit ''key-0001'') None old_trio = Inl e)"
proof
  show "require_participant old_trio ann 2 = Inr accounts_partition"
    by (simp add: require_participant_def old_trio_def chat_simps)
  show "\<exists>e. send_message_in test_env 2 ann hello (lit ''key-0001'') None old_trio = Inl e"
    by (rule unaddressable_takes_no_messages [OF old_trio_ok])
      (simp_all add: old_trio_def empty_db_def settled_def participant_of_def)
qed

end
