(* ===== verification/Receipts.thy ===== *)
theory Receipts
  imports DM_Messages
begin

text \<open>
  Receipts (\<open>record_receipt\<close> of \<open>postgres/messages.rs\<close>) and the trigger that advances the aggregate status
  of a message (\<open>migrations/0020\<close>): each device of a recipient acknowledges a message as delivered or
  read, and the sender hears of each new aggregate status.
\<close>

section \<open>Recording\<close>

definition validate_device_id :: "str \<Rightarrow> unit app_result" where
  "validate_device_id d =
     guard_ok (\<not> (d = [] \<or> str_len d > 255 \<or> list_ex is_control d))
       (validation ''device_id must contain 1 to 255 non-control characters'')"

definition receipt_key :: "receipt_row \<Rightarrow> uuid \<times> actor_ref \<times> str" where
  "receipt_key r = (r_message r, r_recipient r, r_device r)"

definition advance_receipt :: "instant \<Rightarrow> receipt_status \<Rightarrow> receipt_row \<Rightarrow> receipt_row" where
  "advance_receipt now status r =
     r\<lparr>r_status := (if r_status r = ReceiptRead then ReceiptRead else status),
       r_read_at := (if r_status r = ReceiptRead then r_read_at r
                     else if status = ReceiptRead then Some (max (r_delivered_at r) now) else None)\<rparr>"

text \<open>The recipients of a message: the other accounts it was first delivered to.\<close>

definition recipients :: "message_row \<Rightarrow> db \<Rightarrow> actor_ref list" where
  "recipients m s = map d_target (filter (\<lambda>d. d_message d = m_id m \<and> d_kind d = MessageDelivery 1 \<and>
     d_conversation d = m_conversation m \<and> d_target d \<noteq> m_sender m) (deliveries s))"

definition acknowledged :: "receipt_status set \<Rightarrow> uuid \<Rightarrow> actor_ref \<Rightarrow> receipt_row list \<Rightarrow> bool" where
  "acknowledged sts message a rs = sql_exists (\<lambda>r. r_message r = message \<and> r_recipient r = a \<and> r_status r \<in> sts) rs"

definition all_acknowledged :: "receipt_status set \<Rightarrow> message_row \<Rightarrow> db \<Rightarrow> bool" where
  "all_acknowledged sts m s \<longleftrightarrow> recipients m s \<noteq> [] \<and>
     (\<forall>a\<in>set (recipients m s). acknowledged sts (m_id m) a (receipts s))"

text \<open>Trigger \<open>advance_message_aggregate_status\<close>.\<close>

definition mark_read :: "instant \<Rightarrow> message_row \<Rightarrow> message_row" where
  "mark_read now m = m\<lparr>m_status := Read, m_delivered_at := coalesce (m_delivered_at m) (Some now),
     m_read_at := coalesce (m_read_at m) (Some (case m_delivered_at m of None \<Rightarrow> now | Some t \<Rightarrow> max t now))\<rparr>"

definition mark_delivered :: "instant \<Rightarrow> message_row \<Rightarrow> message_row" where
  "mark_delivered now m = m\<lparr>m_status := Delivered, m_delivered_at := coalesce (m_delivered_at m) (Some now)\<rparr>"

definition advance_message_aggregate_status :: "instant \<Rightarrow> uuid \<Rightarrow> db \<Rightarrow> db" where
  "advance_message_aggregate_status now message s =
     s\<lparr>messages := sql_update (\<lambda>m. m_id m = message)
         (\<lambda>m. if all_acknowledged {ReceiptRead} m s
              then (if m_status m \<notin> {Read, Failed} then mark_read now m else m)
              else if all_acknowledged {ReceiptDelivered, ReceiptRead} m s
              then (if m_status m \<in> {Waiting, Sent} then mark_delivered now m else m)
              else m) (messages s)\<rparr>"

definition enqueue_message_status_delivery_in ::
  "env \<Rightarrow> str \<Rightarrow> uuid \<Rightarrow> uuid \<Rightarrow> uuid \<Rightarrow> message_status \<Rightarrow> actor_ref \<Rightarrow> db \<Rightarrow> db app_result" where
  "enqueue_message_status_delivery_in E part conversation message receipt status sender s =
     bind_ok (insert_delivery (e_uuid E) None (e_now E) (e_fresh E 1) part sender (StatusDelivery status receipt) conversation message s)
       (\<lambda>(inserted, s'). Inr (if inserted then notify_actor_in sender s' else s'))"

definition put_receipt :: "env \<Rightarrow> str \<Rightarrow> uuid \<Rightarrow> uuid \<Rightarrow> actor_ref \<Rightarrow> str \<Rightarrow> receipt_status \<Rightarrow> db \<Rightarrow> uuid \<times> db" where
  "put_receipt E part conversation message recipient device status s =
     (let existing = find (\<lambda>r. receipt_key r = (message, recipient, device)) (receipts s);
          i = (case existing of Some r \<Rightarrow> r_id r | None \<Rightarrow> e_fresh E 0) in
      (i, advance_message_aggregate_status (e_now E) message
            (s\<lparr>receipts := upsert receipt_key
               \<lparr>r_id = i, r_message = message, r_conversation = conversation, r_partition = part,
                r_recipient = recipient, r_device = device, r_status = status, r_delivered_at = e_now E,
                r_read_at = (if status = ReceiptRead then Some (e_now E) else None)\<rparr>
               (advance_receipt (e_now E) status) (receipts s)\<rparr>)))"

definition record_receipt_without_payload ::
  "env \<Rightarrow> uuid \<Rightarrow> uuid \<Rightarrow> actor_ref \<Rightarrow> str \<Rightarrow> receipt_status \<Rightarrow> db \<Rightarrow> db app_result" where
  "record_receipt_without_payload E conversation message recipient device status s =
     bind_ok (validate_device_id device) (\<lambda>_.
     bind_ok (require_participant s recipient conversation) (\<lambda>part.
     case find (\<lambda>m. m_id m = message \<and> m_conversation m = conversation \<and> m_partition m = part) (messages s) of
       None \<Rightarrow> Inl NotFound
     | Some m \<Rightarrow>
         bind_ok (parse_target (m_sender m)) (\<lambda>sender.
         if sender = recipient then Inl (validation ''a message sender cannot acknowledge their own message'')
         else
           let (receipt, s1) = put_receipt E part conversation message recipient device status s in
           (case find (\<lambda>m. m_id m = message) (messages s1) of
              None \<Rightarrow> Inl (Database ''no rows returned'')
            | Some m' \<Rightarrow>
                if m_status m' \<noteq> m_status m \<and> m_status m' \<in> {Delivered, Read}
                then enqueue_message_status_delivery_in E part conversation message receipt (m_status m') sender s1
                else Inr s1))))"

definition record_receipt ::
  "store_lib \<Rightarrow> env \<Rightarrow> uuid \<Rightarrow> uuid \<Rightarrow> actor_ref \<Rightarrow> str \<Rightarrow> receipt_status \<Rightarrow> db \<Rightarrow> (message app_result \<times> db) app_result" where
  "record_receipt L E conversation message recipient device status s =
     bind_ok (record_receipt_without_payload E conversation message recipient device status s) (\<lambda>s'.
       Inr (load_message L s' message, s'))"

section \<open>Statuses follow receipts\<close>

text \<open>The trigger \<open>enforce_message_update_policy\<close>: the moves a status may make.\<close>

fun status_allowed :: "message_status \<Rightarrow> message_status \<Rightarrow> bool" where
  "status_allowed Waiting st \<longleftrightarrow> True"
| "status_allowed Sent st \<longleftrightarrow> st \<in> {Sent, Delivered, Read, Failed}"
| "status_allowed Delivered st \<longleftrightarrow> st \<in> {Delivered, Read}"
| "status_allowed st st' \<longleftrightarrow> st' = st"

text \<open>The status of a message is what its receipts say: read when every other account it went to has
  read it on some device, delivered when every one has at least received it, sent otherwise.\<close>

definition status_settled :: "db \<Rightarrow> message_row \<Rightarrow> bool" where
  "status_settled s m \<longleftrightarrow> m_status m =
     (if all_acknowledged {ReceiptRead} m s then Read
      else if all_acknowledged {ReceiptDelivered, ReceiptRead} m s then Delivered else Sent)"

definition receipts_ok :: "db \<Rightarrow> bool" where
  "receipts_ok s \<longleftrightarrow> keyed receipt_key (receipts s) \<and> (\<forall>m\<in>set (messages s). status_settled s m) \<and>
     r_message ` set (receipts s) \<subseteq> m_id ` set (messages s)"

text \<open>The acknowledgements a list of receipts carries.\<close>

definition acks :: "receipt_row list \<Rightarrow> (uuid \<times> actor_ref \<times> receipt_status) set" where
  "acks rs = (\<lambda>r. (r_message r, r_recipient r, r_status r)) ` set rs"

lemma acknowledged_acks: "acknowledged sts message a rs \<longleftrightarrow> (\<exists>st\<in>sts. (message, a, st) \<in> acks rs)"
  by (auto simp: acknowledged_def sql_exists_def acks_def)

lemma all_acknowledged_cong:
  assumes "recipients m s' = recipients m s" "\<And>a st. (m_id m, a, st) \<in> acks (receipts s') \<longleftrightarrow> (m_id m, a, st) \<in> acks (receipts s)"
  shows "all_acknowledged sts m s' = all_acknowledged sts m s"
  using assms by (simp add: all_acknowledged_def acknowledged_acks)

lemma all_acknowledged_mono:
  assumes "recipients m s' = recipients m s" "\<And>a st. st \<in> sts \<Longrightarrow> (m_id m, a, st) \<in> acks (receipts s) \<Longrightarrow>
      \<exists>st'\<in>sts'. (m_id m, a, st') \<in> acks (receipts s')" "all_acknowledged sts m s"
  shows "all_acknowledged sts' m s'"
  using assms by (fastforce simp: all_acknowledged_def acknowledged_acks)

lemma all_acknowledged_row:
  "m_id m' = m_id m \<Longrightarrow> m_conversation m' = m_conversation m \<Longrightarrow> m_sender m' = m_sender m \<Longrightarrow>
     all_acknowledged sts m' s = all_acknowledged sts m s"
  by (simp add: all_acknowledged_def recipients_def)

text \<open>A receipt never withdraws an acknowledgement, and concerns one message only.\<close>

definition put_receipts :: "env \<Rightarrow> str \<Rightarrow> uuid \<Rightarrow> uuid \<Rightarrow> actor_ref \<Rightarrow> str \<Rightarrow> receipt_status \<Rightarrow> db \<Rightarrow> receipt_row list" where
  "put_receipts E part conversation message recipient device status s =
     upsert receipt_key
       \<lparr>r_id = fst (put_receipt E part conversation message recipient device status s), r_message = message,
        r_conversation = conversation, r_partition = part, r_recipient = recipient, r_device = device,
        r_status = status, r_delivered_at = e_now E, r_read_at = (if status = ReceiptRead then Some (e_now E) else None)\<rparr>
       (advance_receipt (e_now E) status) (receipts s)"

lemma put_receipt_eq:
  "snd (put_receipt E part conversation message recipient device status s) =
     advance_message_aggregate_status (e_now E) message
       (s\<lparr>receipts := put_receipts E part conversation message recipient device status s\<rparr>)"
  by (simp add: put_receipt_def put_receipts_def Let_def)

lemma put_receipts_acks:
  assumes "(k, a, st) \<in> acks (receipts s)"
  shows "(k, a, st) \<in> acks (put_receipts E part conversation message recipient device status s) \<or>
    st = ReceiptDelivered \<and> k = message \<and> a = recipient \<and>
      (k, a, status) \<in> acks (put_receipts E part conversation message recipient device status s)"
proof -
  obtain r where r: "r \<in> set (receipts s)" "r_message r = k" "r_recipient r = a" "r_status r = st"
    using assms by (auto simp: acks_def)
  let ?k = "(message, recipient, device)" and ?rs = "put_receipts E part conversation message recipient device status s"
  show ?thesis
  proof (cases "receipt_key r = ?k")
    case True
    then have "advance_receipt (e_now E) status r \<in> set ?rs"
      using r(1) by (auto simp: put_receipts_def set_upsert receipt_key_def sql_exists_def)
    then have "(k, a, r_status (advance_receipt (e_now E) status r)) \<in> acks ?rs"
      using r unfolding acks_def by (intro image_eqI) (simp_all add: advance_receipt_def)
    with r True show ?thesis by (cases st) (simp_all add: advance_receipt_def receipt_key_def)
  next
    case False
    then have "r \<in> set ?rs" using r(1) by (auto simp: put_receipts_def set_upsert receipt_key_def)
    with r show ?thesis unfolding acks_def by (intro disjI1 image_eqI) simp_all
  qed
qed

lemma put_receipts_other:
  "k \<noteq> message \<Longrightarrow> (k, a, st) \<in> acks (put_receipts E part conversation message recipient device status s) \<longleftrightarrow>
     (k, a, st) \<in> acks (receipts s)"
  by (force simp: acks_def put_receipts_def set_upsert advance_receipt_def receipt_key_def)

lemma put_receipts_keyed:
  "keyed receipt_key (receipts s) \<Longrightarrow>
     keyed receipt_key (put_receipts E part conversation message recipient device status s)"
  by (auto simp: put_receipts_def receipt_key_def advance_receipt_def intro!: keyed_upsert)

lemma put_receipts_messages:
  "r_message ` set (put_receipts E part conversation message recipient device status s) \<subseteq>
     insert message (r_message ` set (receipts s))"
  by (auto simp: put_receipts_def set_upsert advance_receipt_def receipt_key_def)

text \<open>One step of the aggregate restores the settled status of the message it concerns.\<close>

definition advanced :: "instant \<Rightarrow> db \<Rightarrow> message_row \<Rightarrow> message_row" where
  "advanced now s m = (if all_acknowledged {ReceiptRead} m s
     then (if m_status m \<notin> {Read, Failed} then mark_read now m else m)
     else if all_acknowledged {ReceiptDelivered, ReceiptRead} m s
     then (if m_status m \<in> {Waiting, Sent} then mark_delivered now m else m) else m)"

lemma aggregate_eq:
  "advance_message_aggregate_status now message s = s\<lparr>messages := sql_update (\<lambda>m. m_id m = message) (advanced now s) (messages s)\<rparr>"
  by (simp add: advance_message_aggregate_status_def advanced_def [abs_def])

lemma advanced_fields [simp]:
  "m_id (advanced now s m) = m_id m" "m_conversation (advanced now s m) = m_conversation m"
  "m_sender (advanced now s m) = m_sender m" "m_sequence (advanced now s m) = m_sequence m"
  "m_partition (advanced now s m) = m_partition m"
  by (simp_all add: advanced_def mark_read_def mark_delivered_def)

lemma advanced_settled:
  assumes "m_status m \<in> {Sent, Delivered, Read}"
    and "m_status m = Read \<Longrightarrow> all_acknowledged {ReceiptRead} m s"
    and "m_status m = Delivered \<Longrightarrow> all_acknowledged {ReceiptDelivered, ReceiptRead} m s"
  shows "status_settled s (advanced now s m) \<and> status_allowed (m_status m) (m_status (advanced now s m))"
proof -
  have "all_acknowledged sts (advanced now s m) s = all_acknowledged sts m s" for sts
    by (rule all_acknowledged_row) simp_all
  then have "status_settled s (advanced now s m) \<longleftrightarrow> m_status (advanced now s m) =
     (if all_acknowledged {ReceiptRead} m s then Read
      else if all_acknowledged {ReceiptDelivered, ReceiptRead} m s then Delivered else Sent)"
    by (simp add: status_settled_def)
  moreover have "all_acknowledged {ReceiptRead} m s \<Longrightarrow> all_acknowledged {ReceiptDelivered, ReceiptRead} m s"
    by (rule all_acknowledged_mono) auto
  ultimately show ?thesis using assms
    by (cases "m_status m") (simp_all add: advanced_def mark_read_def mark_delivered_def)
qed

lemma advanced_noop: "status_settled s m \<Longrightarrow> advanced now s m = m"
  by (auto simp: status_settled_def advanced_def split: if_splits)

lemma settledD:
  assumes "status_settled s m"
  shows "m_status m \<in> {Sent, Delivered, Read}"
    "m_status m = Read \<Longrightarrow> all_acknowledged {ReceiptRead} m s"
    "m_status m = Delivered \<Longrightarrow> all_acknowledged {ReceiptDelivered, ReceiptRead} m s"
  using assms by (auto simp: status_settled_def split: if_splits)

lemma recipients_cong: "deliveries s' = deliveries s \<Longrightarrow> recipients m s' = recipients m s"
  by (simp add: recipients_def)

lemma settled_cong:
  assumes "deliveries s' = deliveries s" "\<And>a st. (m_id m, a, st) \<in> acks (receipts s') \<longleftrightarrow> (m_id m, a, st) \<in> acks (receipts s)"
  shows "status_settled s' m = status_settled s m"
  using all_acknowledged_cong [OF recipients_cong [OF assms(1)] assms(2)] by (simp add: status_settled_def)

lemma put_receipt_ok:
  assumes ok: "receipts_ok s" and i: "i \<in> m_id ` set (messages s)"
    and s1: "s1 = snd (put_receipt E part k i a dev st s)"
  shows "receipts_ok s1"
    and "\<exists>f. messages s1 = sql_update (\<lambda>m. m_id m = i) f (messages s) \<and>
      (\<forall>m\<in>set (messages s). m_id (f m) = m_id m \<and> m_conversation (f m) = m_conversation m \<and>
        m_partition (f m) = m_partition m \<and> m_sender (f m) = m_sender m \<and> m_sequence (f m) = m_sequence m \<and>
        status_allowed (m_status m) (m_status (f m)))"
proof -
  let ?s0 = "s\<lparr>receipts := put_receipts E part k i a dev st s\<rparr>"
  let ?f = "advanced (e_now E) ?s0"
  have eq: "s1 = ?s0\<lparr>messages := sql_update (\<lambda>m. m_id m = i) ?f (messages s)\<rparr>"
    by (simp add: s1 put_receipt_eq aggregate_eq)
  have old: "status_settled s m" if "m \<in> set (messages s)" for m using ok that by (simp add: receipts_ok_def)
  have step: "status_settled ?s0 (?f m) \<and> status_allowed (m_status m) (m_status (?f m))"
    if m: "m \<in> set (messages s)" "m_id m = i" for m
  proof (rule advanced_settled)
    show "m_status m \<in> {Sent, Delivered, Read}" using settledD(1) [OF old [OF m(1)]] .
    show "all_acknowledged {ReceiptRead} m ?s0" if "m_status m = Read"
      by (rule all_acknowledged_mono [OF _ _ settledD(2) [OF old [OF m(1)] that]])
        (auto simp: recipients_def dest!: put_receipts_acks [where E = E and part = part and conversation = k and
          message = i and recipient = a and device = dev and status = st])
    show "all_acknowledged {ReceiptDelivered, ReceiptRead} m ?s0" if "m_status m = Delivered"
    proof (rule all_acknowledged_mono [OF _ _ settledD(3) [OF old [OF m(1)] that]])
      fix b st' assume "(m_id m, b, st') \<in> acks (receipts s)"
      then have "\<exists>st''. (m_id m, b, st'') \<in> acks (receipts ?s0)" 
        using put_receipts_acks [where E = E and part = part and conversation = k and
          message = i and recipient = a and device = dev and status = st] by simp blast
      then show "\<exists>st'\<in>{ReceiptDelivered, ReceiptRead}. (m_id m, b, st') \<in> acks (receipts ?s0)"
      proof
        fix st'' assume "(m_id m, b, st'') \<in> acks (receipts ?s0)"
        then show ?thesis by (cases st'') auto
      qed
    qed (simp add: recipients_def)
  qed
  have allowed: "status_allowed st st" for st by (cases st) simp_all
  have "status_settled ?s0 m" if "m \<in> set (messages s)" "m_id m \<noteq> i" for m
  proof -
    have "status_settled ?s0 m = status_settled s m"
      by (rule settled_cong) (use that(2) in \<open>simp_all add: put_receipts_other\<close>)
    then show ?thesis using old [OF that(1)] by simp
  qed
  with step have "\<forall>m\<in>set (messages s1). status_settled ?s0 m" by (auto simp: eq set_sql_update)
  then have "\<forall>m\<in>set (messages s1). status_settled s1 m"
    using settled_cong [of s1 ?s0] by (simp add: eq)
  moreover have "m_id ` set (messages s1) = m_id ` set (messages s)"
    by (simp only: set_map [symmetric]) (simp add: eq map_key_sql_update)
  then have "r_message ` set (receipts s1) \<subseteq> m_id ` set (messages s1)"
    using put_receipts_messages [of E part k i a dev st s] ok i unfolding receipts_ok_def by (simp add: eq) blast
  moreover have "keyed receipt_key (receipts s1)"
    using ok put_receipts_keyed [of s] by (simp add: eq receipts_ok_def)
  ultimately show "receipts_ok s1" by (simp add: receipts_ok_def)
  let ?g = "\<lambda>m. if m_id m = i then ?f m else m"
  have "messages s1 = sql_update (\<lambda>m. m_id m = i) ?g (messages s)" by (simp add: eq sql_update_def)
  with step allowed show "\<exists>f. messages s1 = sql_update (\<lambda>m. m_id m = i) f (messages s) \<and>
      (\<forall>m\<in>set (messages s). m_id (f m) = m_id m \<and> m_conversation (f m) = m_conversation m \<and>
        m_partition (f m) = m_partition m \<and> m_sender (f m) = m_sender m \<and> m_sequence (f m) = m_sequence m \<and>
        status_allowed (m_status m) (m_status (f m)))"
    by (intro exI [of _ ?g]) auto
qed

text \<open>A receipt that is already there changes no acknowledgement and no status.\<close>

lemma put_receipts_has:
  "\<exists>r\<in>set (put_receipts E part k i a dev st s). receipt_key r = (i, a, dev) \<and> r_status r \<in> {ReceiptRead, st}"
proof (cases "\<exists>r\<in>set (receipts s). receipt_key r = (i, a, dev)")
  case True
  then obtain r where r: "r \<in> set (receipts s)" "receipt_key r = (i, a, dev)" by blast
  then have "advance_receipt (e_now E) st r \<in> set (put_receipts E part k i a dev st s)"
    by (auto simp: put_receipts_def set_upsert sql_exists_def receipt_key_def)
  moreover have "receipt_key (advance_receipt (e_now E) st r) = (i, a, dev)" "r_status (advance_receipt (e_now E) st r) \<in> {ReceiptRead, st}"
    using r(2) by (simp_all add: advance_receipt_def receipt_key_def)
  ultimately show ?thesis by blast
qed (auto simp: put_receipts_def set_upsert sql_exists_def receipt_key_def)

lemma put_receipts_again:
  assumes "keyed receipt_key (receipts s)" "r \<in> set (receipts s)" "receipt_key r = (i, a, dev)" "r_status r \<in> {ReceiptRead, st}"
  shows "acks (put_receipts E part k i a dev st s) = acks (receipts s)"
proof -
  have only: "x = r" if "x \<in> set (receipts s)" "receipt_key x = (i, a, dev)" for x
    using keyed_unique [OF assms(1) that(1) assms(2)] that(2) assms(3) by simp
  have "put_receipts E part k i a dev st s =
      sql_update (\<lambda>x. receipt_key x = (i, a, dev)) (advance_receipt (e_now E) st) (receipts s)"
    using assms(2,3) by (auto simp: put_receipts_def upsert_def sql_exists_def receipt_key_def)
  moreover have "(r_message x, r_recipient x, r_status x) = (\<lambda>x. (r_message x, r_recipient x, r_status x))
      (if receipt_key x = (i, a, dev) then advance_receipt (e_now E) st x else x)" if "x \<in> set (receipts s)" for x
    using only [OF that] assms(4) by (auto simp: advance_receipt_def)
  ultimately have "map (\<lambda>x. (r_message x, r_recipient x, r_status x)) (put_receipts E part k i a dev st s) =
      map (\<lambda>x. (r_message x, r_recipient x, r_status x)) (receipts s)"
    by (simp add: sql_update_def)
  from arg_cong [OF this, of set] show ?thesis by (simp add: acks_def)
qed

lemma put_receipt_again:
  assumes ok: "receipts_ok s" and r: "r \<in> set (receipts s)" "receipt_key r = (i, a, dev)" "r_status r \<in> {ReceiptRead, st}"
  shows "snd (put_receipt E part k i a dev st s) = s\<lparr>receipts := put_receipts E part k i a dev st s\<rparr>"
proof -
  let ?s0 = "s\<lparr>receipts := put_receipts E part k i a dev st s\<rparr>"
  have k: "keyed receipt_key (receipts s)" using ok by (simp add: receipts_ok_def)
  have "status_settled ?s0 m" if "m \<in> set (messages s)" for m
  proof -
    have "status_settled ?s0 m = status_settled s m"
      by (rule settled_cong) (simp_all add: put_receipts_again [OF k r])
    then show ?thesis using ok that by (simp add: receipts_ok_def)
  qed
  then have "sql_update (\<lambda>m. m_id m = i) (advanced (e_now E) ?s0) (messages s) = messages s"
    by (simp add: sql_update_def map_idI advanced_noop)
  then show ?thesis by (simp add: put_receipt_eq aggregate_eq)
qed

lemma status_delivery_effect:
  assumes "enqueue_message_status_delivery_in E part k i r st sender s = Inr s'"
  shows "but_outbox s' = but_outbox s" "streams_ok s \<Longrightarrow> streams_ok s'"
    "\<exists>ds. deliveries s' = deliveries s @ ds \<and> length ds \<le> 1 \<and>
       (\<forall>d\<in>set ds. d_target d = sender \<and> d_message d = i \<and> d_kind d = StatusDelivery st r)"
proof -
  obtain b s1 where ins: "insert_delivery (e_uuid E) None (e_now E) (e_fresh E 1) part sender (StatusDelivery st r) k i s = Inr (b, s1)"
    and s': "s' = (if b then notify_actor_in sender s1 else s1)"
    using assms by (auto simp: enqueue_message_status_delivery_in_def)
  show "but_outbox s' = but_outbox s" using insert_delivery_frame [OF ins] by (simp add: s' notify_frame)
  show "streams_ok s'" if "streams_ok s"
    using streams_insert_delivery [OF that ins] by (simp add: s' notify_actor_in_def streams_ok_def)
  show "\<exists>ds. deliveries s' = deliveries s @ ds \<and> length ds \<le> 1 \<and>
       (\<forall>d\<in>set ds. d_target d = sender \<and> d_message d = i \<and> d_kind d = StatusDelivery st r)"
    using ins
    by (rule insert_deliveryE) (auto simp: s' notify_actor_in_def insert_delivery_row_def Let_def split: if_splits option.splits)
qed

text \<open>What recording a receipt does: the receipt and the aggregate, then at most a word to the sender.\<close>

lemma record_receiptE:
  assumes "record_receipt_without_payload E k i a dev st s = Inr s'"
  obtains part m s1 ds where "validate_device_id dev = Inr ()" "require_participant s a k = Inr part"
    "find (\<lambda>m. m_id m = i \<and> m_conversation m = k \<and> m_partition m = part) (messages s) = Some m"
    "parse_target (m_sender m) \<noteq> Inr a" "s1 = snd (put_receipt E part k i a dev st s)"
    "but_outbox s' = but_outbox s1" "streams_ok s1 \<Longrightarrow> streams_ok s'"
    "deliveries s' = deliveries s1 @ ds" "length ds \<le> 1"
    "\<forall>d\<in>set ds. parse_target (m_sender m) = Inr (d_target d) \<and> d_message d = i \<and> (\<exists>st' r. d_kind d = StatusDelivery st' r)"
    "(\<exists>m'. find (\<lambda>m. m_id m = i) (messages s1) = Some m' \<and> m_status m' = m_status m) \<longrightarrow> ds = []"
proof -
  obtain part m sender where pre: "validate_device_id dev = Inr ()" "require_participant s a k = Inr part"
    "find (\<lambda>m. m_id m = i \<and> m_conversation m = k \<and> m_partition m = part) (messages s) = Some m"
    "parse_target (m_sender m) = Inr sender" "sender \<noteq> a"
    using assms by (auto simp: record_receipt_without_payload_def split: option.splits if_splits)
  let ?s1 = "snd (put_receipt E part k i a dev st s)" and ?r = "fst (put_receipt E part k i a dev st s)"
  from assms pre obtain m' where m': "find (\<lambda>m. m_id m = i) (messages ?s1) = Some m'"
    and rest: "(if m_status m' \<noteq> m_status m \<and> m_status m' \<in> {Delivered, Read}
      then enqueue_message_status_delivery_in E part k i ?r (m_status m') sender ?s1 else Inr ?s1) = Inr s'"
    by (auto simp: record_receipt_without_payload_def case_prod_unfold Let_def split: option.splits)
  show ?thesis
  proof (cases "m_status m' \<noteq> m_status m \<and> m_status m' \<in> {Delivered, Read}")
    case True
    with rest have enq: "enqueue_message_status_delivery_in E part k i ?r (m_status m') sender ?s1 = Inr s'" by simp
    from status_delivery_effect(3) [OF enq] obtain ds where "deliveries s' = deliveries ?s1 @ ds" "length ds \<le> 1"
      "\<forall>d\<in>set ds. d_target d = sender \<and> d_message d = i \<and> d_kind d = StatusDelivery (m_status m') ?r" by blast
    with pre status_delivery_effect(1,2) [OF enq] True m' show ?thesis
      by (intro that [of part m ?s1 ds]) auto
  next
    case False
    with rest have "s' = ?s1" by (metis sum.inject(2))
    with pre show ?thesis by (intro that [of part m ?s1 "[]"]) auto
  qed
qed

lemma receipts_ok_outbox:
  assumes "but_outbox s' = but_outbox s" "deliveries s' = deliveries s @ ds"
    and "\<forall>d\<in>set ds. \<exists>st r. d_kind d = StatusDelivery st r"
  shows "receipts_ok s' = receipts_ok s"
proof -
  note fr = but_outboxD [OF assms(1)]
  have "recipients m s' = recipients m s" for m
    using assms(2,3) by (auto simp: recipients_def filter_empty_conv)
  then show ?thesis by (simp add: receipts_ok_def status_settled_def all_acknowledged_def fr)
qed

lemma receipt_membership:
  assumes "s1 = snd (put_receipt E part k i a dev st s)"
  shows "same_membership s1 s" "deliveries s1 = deliveries s" "streams s1 = streams s" "conversations s1 = conversations s"
    "receipts s1 = put_receipts E part k i a dev st s" "idempotency s1 = idempotency s"
  by (simp_all add: assms put_receipt_eq aggregate_eq same_membership_def)

lemma find_same_row:
  assumes "keyed m_id ms" "find (\<lambda>m. m_id m = i \<and> P m) ms = Some m"
    and "\<And>m. m \<in> set ms \<Longrightarrow> m_id (f m) = m_id m \<and> P (f m) = P m"
  shows "find (\<lambda>m. m_id m = i \<and> P m) (sql_update (\<lambda>m. m_id m = i) f ms) = Some (f m)"
  using assms by (induction ms) (auto simp: sql_update_def keyed_def split: if_splits)

lemma status_allowed_refl [simp]: "status_allowed st st"
  by (cases st) simp_all

lemma record_receipt_again:
  assumes ok: "receipts_ok s" "r \<in> set (receipts s)" "receipt_key r = (i, a, dev)" "r_status r \<in> {ReceiptRead, st}"
    and keyed: "keyed m_id (messages s)"
    and pre: "validate_device_id dev = Inr ()" "require_participant s a k = Inr part"
      "find (\<lambda>m. m_id m = i \<and> m_conversation m = k \<and> m_partition m = part) (messages s) = Some m"
      "parse_target (m_sender m) = Inr sender" "sender \<noteq> a"
  shows "record_receipt_without_payload F k i a dev st s =
    Inr (s\<lparr>receipts := put_receipts F part k i a dev st s\<rparr>)"
proof -
  let ?s1 = "s\<lparr>receipts := put_receipts F part k i a dev st s\<rparr>"
  have m: "m \<in> set (messages s)" "m_id m = i" using find_Some_in [OF pre(3)] by auto
  then have "find (\<lambda>m. m_id m = i) (messages ?s1) = Some m" using find_keyed [OF keyed m(1)] by simp
  then show ?thesis using pre put_receipt_again [OF ok, of F part k]
    by (simp add: record_receipt_without_payload_def case_prod_unfold Let_def)
qed

lemma record_receiptD:
  assumes "record_receipt_without_payload E k i a dev st s = Inr s'"
  shows "\<exists>part m sender. find (\<lambda>m. m_id m = i \<and> m_conversation m = k \<and> m_partition m = part) (messages s) = Some m \<and>
    require_participant s a k = Inr part \<and> parse_target (m_sender m) = Inr sender"
  using assms by (auto simp: record_receipt_without_payload_def split: option.splits if_splits)

lemma record_receipt_runs:
  assumes "validate_device_id dev = Inr ()" "require_participant s a k = Inr part"
    "find (\<lambda>m. m_id m = i \<and> m_conversation m = k \<and> m_partition m = part) (messages s) = Some m"
    "parse_target (m_sender m) = Inr sender" "sender \<noteq> a" "snd (put_receipt E part k i a dev st s) = s1"
    "find (\<lambda>m. m_id m = i) (messages s1) = Some m'" "m_status m' \<noteq> m_status m" "m_status m' \<in> {Delivered, Read}"
  shows "record_receipt_without_payload E k i a dev st s =
    enqueue_message_status_delivery_in E part k i (fst (put_receipt E part k i a dev st s)) (m_status m') sender s1"
  using assms unfolding record_receipt_without_payload_def case_prod_unfold Let_def by simp

text \<open>Receipts keep the numbering of messages and streams, and settle the status of their message.\<close>

lemma receipt_keeps:
  assumes "messaging_ok s" "receipts_ok s"
    and "record_receipt_without_payload E k i a dev st s = Inr s'"
  shows "messaging_ok s'" "receipts_ok s'"
proof -
  obtain part m s1 ds where pre: "validate_device_id dev = Inr ()" "require_participant s a k = Inr part"
      "find (\<lambda>m. m_id m = i \<and> m_conversation m = k \<and> m_partition m = part) (messages s) = Some m"
      "parse_target (m_sender m) \<noteq> Inr a" and s1: "s1 = snd (put_receipt E part k i a dev st s)"
    and out: "but_outbox s' = but_outbox s1" "streams_ok s1 \<Longrightarrow> streams_ok s'" "deliveries s' = deliveries s1 @ ds" "length ds \<le> 1"
    and ds: "\<forall>d\<in>set ds. parse_target (m_sender m) = Inr (d_target d) \<and> d_message d = i \<and> (\<exists>st' r. d_kind d = StatusDelivery st' r)"
    using assms(3) by (rule record_receiptE) blast
  note fr = but_outboxD [OF out(1)] and same = receipt_membership [OF s1]
  have i: "i \<in> m_id ` set (messages s)" using find_Some_in [OF pre(3)] by auto
  obtain f where ms: "messages s1 = sql_update (\<lambda>m. m_id m = i) f (messages s)"
    and f: "\<And>m. m \<in> set (messages s) \<Longrightarrow> m_id (f m) = m_id m \<and> m_conversation (f m) = m_conversation m \<and>
        m_partition (f m) = m_partition m \<and> m_sender (f m) = m_sender m \<and> m_sequence (f m) = m_sequence m \<and>
        status_allowed (m_status m) (m_status (f m))"
    using put_receipt_ok(2) [OF assms(2) i s1] by blast
  have "receipts_ok s1" by (rule put_receipt_ok(1) [OF assms(2) i s1])
  then show "receipts_ok s'" using receipts_ok_outbox [OF out(1,3)] ds by blast
  have seqs: "sequences_ok s1 = sequences_ok s"
    by (rule sequences_ok_cong) (use f in \<open>simp_all add: same ms sql_update_def comp_def\<close>)
  have seqs': "sequences_ok s' = sequences_ok s1" by (simp add: sequences_ok_def fr)
  have "map m_id (messages s1) = map m_id (messages s)" using f by (simp add: ms sql_update_def)
  then have ids: "m_id ` set (messages s1) = m_id ` set (messages s)" by (metis set_map)
  have "streams_ok s1" using messaging_okD(2) [OF assms(1)] by (simp add: streams_ok_def same)
  moreover have "\<forall>d\<in>set (deliveries s'). (\<exists>e. d_kind d = SystemDelivery e) \<or> (\<exists>m\<in>set (messages s1). m_id m = d_message d)"
  proof
    fix d assume "d \<in> set (deliveries s')"
    then consider "d \<in> set (deliveries s)" | "d \<in> set ds" using out(3) same(2) by auto
    then show "(\<exists>e. d_kind d = SystemDelivery e) \<or> (\<exists>m\<in>set (messages s1). m_id m = d_message d)"
    proof cases
      case 1
      then have "(\<exists>e. d_kind d = SystemDelivery e) \<or> (\<exists>m\<in>set (messages s). m_id m = d_message d)"
        using assms(1) by (simp add: messaging_ok_def)
      then show ?thesis using ids by (metis imageE imageI)
    next
      case 2
      with ds i ids show ?thesis by (metis imageE)
    qed
  qed
  ultimately show "messaging_ok s'"
    using assms(1) seqs seqs' out(2) same(1) by (auto simp: messaging_ok_def fr same_membership_def)
qed

text \<open>C7. Receipts and statuses agree: after any receipt a message is read exactly when every other
  account it went to has read it, delivered when each has received it, and sent otherwise; a status
  only moves forward, nothing else of a message changes, the sender hears of it in at most one
  delivery, and repeating the receipt succeeds and changes neither messages nor deliveries.\<close>

theorem receipts_settle_statuses:
  assumes "messaging_ok s" "receipts_ok s"
    and "record_receipt_without_payload E k i a dev st s = Inr s'"
  shows "messaging_ok s' \<and> receipts_ok s' \<and>
    list_all2 (\<lambda>m m'. m_id m' = m_id m \<and> m_conversation m' = m_conversation m \<and> m_sequence m' = m_sequence m \<and>
      m_sender m' = m_sender m \<and> status_allowed (m_status m) (m_status m')) (messages s) (messages s') \<and>
    (\<exists>ds. deliveries s' = deliveries s @ ds \<and> length ds \<le> 1) \<and>
    (\<exists>s''. record_receipt_without_payload F k i a dev st s' = Inr s'' \<and>
       messages s'' = messages s' \<and> deliveries s'' = deliveries s')"
proof -
  obtain part m s1 ds where pre: "validate_device_id dev = Inr ()" "require_participant s a k = Inr part"
      "find (\<lambda>m. m_id m = i \<and> m_conversation m = k \<and> m_partition m = part) (messages s) = Some m"
      "parse_target (m_sender m) \<noteq> Inr a" and s1: "s1 = snd (put_receipt E part k i a dev st s)"
    and out: "but_outbox s' = but_outbox s1" "streams_ok s1 \<Longrightarrow> streams_ok s'" "deliveries s' = deliveries s1 @ ds" "length ds \<le> 1"
    and ds: "\<forall>d\<in>set ds. parse_target (m_sender m) = Inr (d_target d) \<and> d_message d = i \<and> (\<exists>st' r. d_kind d = StatusDelivery st' r)"
    using assms(3) by (rule record_receiptE) blast
  note fr = but_outboxD [OF out(1)] and same = receipt_membership [OF s1]
  have m: "m \<in> set (messages s)" "m_id m = i" "m_conversation m = k" "m_partition m = part"
    using find_Some_in [OF pre(3)] by auto
  then have i: "i \<in> m_id ` set (messages s)" by blast
  obtain f where ms: "messages s1 = sql_update (\<lambda>m. m_id m = i) f (messages s)"
    and f: "\<And>m. m \<in> set (messages s) \<Longrightarrow> m_id (f m) = m_id m \<and> m_conversation (f m) = m_conversation m \<and>
        m_partition (f m) = m_partition m \<and> m_sender (f m) = m_sender m \<and> m_sequence (f m) = m_sequence m \<and>
        status_allowed (m_status m) (m_status (f m))"
    using put_receipt_ok(2) [OF assms(2) i s1] by blast
  note ok' = receipt_keeps(2) [OF assms] and msg' = receipt_keeps(1) [OF assms]
  have rel: "list_all2 (\<lambda>m m'. m_id m' = m_id m \<and> m_conversation m' = m_conversation m \<and> m_sequence m' = m_sequence m \<and>
      m_sender m' = m_sender m \<and> status_allowed (m_status m) (m_status m')) (messages s) (messages s')"
    using f by (auto simp: fr ms sql_update_def list.rel_map intro!: list.rel_refl_strong)
  obtain r where r: "r \<in> set (receipts s')" "receipt_key r = (i, a, dev)" "r_status r \<in> {ReceiptRead, st}"
    using put_receipts_has [of E part k i a dev st s] by (auto simp: fr same)
  have k1: "keyed m_id (messages s)" "keyed m_id (messages s')"
    using messaging_okD(1) [OF assms(1)] messaging_okD(1) [OF msg'] by (simp_all add: sequences_ok_def)
  have fnd: "find (\<lambda>m. m_id m = i \<and> (m_conversation m = k \<and> m_partition m = part)) (messages s') = Some (f m)"
    unfolding fr ms by (rule find_same_row [OF k1(1)]) (use pre(3) f in auto)
  have mem': "same_membership s' s" using same(1) fr by (simp add: same_membership_def)
  obtain sender where sender: "parse_target (m_sender m) = Inr sender"
    using record_receiptD [OF assms(3)] pre(2,3) by auto
  have "record_receipt_without_payload F k i a dev st s' = Inr (s'\<lparr>receipts := put_receipts F part k i a dev st s'\<rparr>)"
    by (rule record_receipt_again [OF ok' r k1(2) pre(1) _ fnd, where sender = sender])
      (use pre sender f [OF m(1)] in \<open>simp_all add: require_participant_cong [OF mem']\<close>)
  with msg' ok' rel out(3,4) show ?thesis by (auto simp: same)
qed

text \<open>The conversation of the example with its first message, sent by Ann and delivered to both.\<close>

definition chat_sent :: db where
  "chat_sent = chat\<lparr>
     conversations := [(hd (conversations chat))\<lparr>c_next_sequence := 2\<rparr>],
     messages := [new_message test_env accounts_partition 1 ann hello [] None 1],
     streams := [\<lparr>s_actor = bob, s_next = 2, s_floor = 0\<rparr>, \<lparr>s_actor = ann, s_next = 2, s_floor = 0\<rparr>],
     deliveries := [\<lparr>d_id = 10, d_partition = accounts_partition, d_target = bob, d_sequence = 1,
         d_kind = MessageDelivery 1, d_conversation = 1, d_message = e_fresh test_env 0, d_retain_until = None\<rparr>,
       \<lparr>d_id = 11, d_partition = accounts_partition, d_target = ann, d_sequence = 1,
         d_kind = MessageDelivery 1, d_conversation = 1, d_message = e_fresh test_env 0, d_retain_until = None\<rparr>]\<rparr>"

lemma chat_sent_ok: "messaging_ok chat_sent" "receipts_ok chat_sent"
  by (simp_all add: messaging_ok_def sequences_ok_def streams_ok_def receipts_ok_def status_settled_def
      all_acknowledged_def acknowledged_def recipients_def keyed_def chat_sent_def new_message_def hello_def empty_content_def chat_simps)

lemma chat_read:
  defines "s1 \<equiv> chat_sent\<lparr>receipts := put_receipts test_env accounts_partition 1 (e_fresh test_env 0) bob (lit ''phone'') ReceiptRead chat_sent,
    messages := [mark_read (e_now test_env) (hd (messages chat_sent))]\<rparr>"
  shows "snd (put_receipt test_env accounts_partition 1 (e_fresh test_env 0) bob (lit ''phone'') ReceiptRead chat_sent) = s1"
    and "\<exists>s'. enqueue_message_status_delivery_in test_env accounts_partition 1 (e_fresh test_env 0) r Read ann s1 = Inr s' \<and>
      messages s' = [mark_read (e_now test_env) (hd (messages chat_sent))] \<and> length (deliveries s') = 3"
proof -
  have "put_receipts test_env accounts_partition 1 (e_fresh test_env 0) bob (lit ''phone'') ReceiptRead chat_sent =
      [\<lparr>r_id = fst (put_receipt test_env accounts_partition 1 (e_fresh test_env 0) bob (lit ''phone'') ReceiptRead chat_sent),
        r_message = e_fresh test_env 0, r_conversation = 1, r_partition = accounts_partition, r_recipient = bob,
        r_device = lit ''phone'', r_status = ReceiptRead, r_delivered_at = e_now test_env, r_read_at = Some (e_now test_env)\<rparr>]"
    by (simp add: put_receipts_def upsert_def sql_exists_def chat_sent_def chat_def empty_db_def)
  then show "snd (put_receipt test_env accounts_partition 1 (e_fresh test_env 0) bob (lit ''phone'') ReceiptRead chat_sent) = s1"
    by (simp add: s1_def put_receipt_eq aggregate_eq advanced_def sql_update_def all_acknowledged_def recipients_def
        acknowledged_def sql_exists_def chat_sent_def chat_def empty_db_def new_message_def)
  show "\<exists>s'. enqueue_message_status_delivery_in test_env accounts_partition 1 (e_fresh test_env 0) r Read ann s1 = Inr s' \<and>
      messages s' = [mark_read (e_now test_env) (hd (messages chat_sent))] \<and> length (deliveries s') = 3"
    by (simp add: s1_def enqueue_message_status_delivery_in_def handoff_evaluation insert_row_def Let_def new_message_def mark_read_def participant_of_def open_stream_def legacy_high_def
        insert_or_ignore_def sql_exists_def sql_update_def is_i64_def i64_min_def i64_max_def notify_actor_in_def
        chat_sent_def chat_def empty_db_def)
qed

lemma mark_read_fields: "m_id (mark_read now m) = m_id m" "m_status (mark_read now m) = Read"
  by (simp_all add: mark_read_def)

lemma chat_sent_facts:
  "validate_device_id (lit ''phone'') = Inr ()" "require_participant chat_sent bob 1 = Inr accounts_partition"
  "find (\<lambda>m. m_id m = e_fresh test_env 0 \<and> m_conversation m = 1 \<and> m_partition m = accounts_partition)
     (messages chat_sent) = Some (hd (messages chat_sent))"
  "parse_target ann = Inr ann" "m_sender (hd (messages chat_sent)) = ann" "m_status (hd (messages chat_sent)) = Sent"
  "m_id (hd (messages chat_sent)) = e_fresh test_env 0"
  by (simp_all add: validate_device_id_def require_participant_def new_message_def chat_sent_def chat_simps)

theorem receipts_settle_statuses_witness:
  "\<exists>s' s''. record_receipt_without_payload test_env 1 (e_fresh test_env 0) bob (lit ''phone'') ReceiptRead chat_sent = Inr s' \<and>
     map m_status (messages s') = [Read] \<and> length (deliveries s') = 3 \<and> receipts_ok s' \<and>
     record_receipt_without_payload test_env 1 (e_fresh test_env 0) bob (lit ''phone'') ReceiptRead s' = Inr s'' \<and>
     messages s'' = messages s' \<and> deliveries s'' = deliveries s'"
proof -
  let ?run = "record_receipt_without_payload test_env 1 (e_fresh test_env 0) bob (lit ''phone'') ReceiptRead"
  let ?m = "hd (messages chat_sent)"
  have "?run chat_sent = enqueue_message_status_delivery_in test_env accounts_partition 1 (e_fresh test_env 0)
      (fst (put_receipt test_env accounts_partition 1 (e_fresh test_env 0) bob (lit ''phone'') ReceiptRead chat_sent))
      (m_status (mark_read (e_now test_env) ?m)) ann
      (chat_sent\<lparr>receipts := put_receipts test_env accounts_partition 1 (e_fresh test_env 0) bob (lit ''phone'') ReceiptRead chat_sent,
        messages := [mark_read (e_now test_env) ?m]\<rparr>)"
    by (rule record_receipt_runs [OF chat_sent_facts(1-3) _ _ chat_read(1)]) (simp_all add: chat_sent_facts mark_read_fields)
  moreover have "m_status (mark_read (e_now test_env) ?m) = Read" by (simp add: mark_read_def)
  ultimately have run: "?run chat_sent = enqueue_message_status_delivery_in test_env accounts_partition 1 (e_fresh test_env 0)
      (fst (put_receipt test_env accounts_partition 1 (e_fresh test_env 0) bob (lit ''phone'') ReceiptRead chat_sent)) Read ann
      (chat_sent\<lparr>receipts := put_receipts test_env accounts_partition 1 (e_fresh test_env 0) bob (lit ''phone'') ReceiptRead chat_sent,
        messages := [mark_read (e_now test_env) ?m]\<rparr>)" by (simp only:)
  have "\<exists>s'. ?run chat_sent = Inr s' \<and> messages s' = [mark_read (e_now test_env) ?m] \<and> length (deliveries s') = 3"
    unfolding run by (rule chat_read(2))
  then obtain s' where s': "?run chat_sent = Inr s'" "messages s' = [mark_read (e_now test_env) ?m]" "length (deliveries s') = 3"
    by blast
  have "map m_status (messages s') = [Read]" unfolding s'(2) by (simp add: mark_read_def)
  moreover obtain s'' where "receipts_ok s'" "?run s' = Inr s''" "messages s'' = messages s'" "deliveries s'' = deliveries s'"
    using receipts_settle_statuses [OF chat_sent_ok s'(1), of test_env] by (elim conjE exE) (rule that)
  ultimately show ?thesis using s' by (intro exI conjI)
qed

end
