(* ===== verification/Sync.thy ===== *)
theory Sync
  imports Receipts Protocol
begin

text \<open>
  Synchronization: the authoritative stream of an account (\<open>postgres/sync.rs\<close>), the signed cursors and
  the long poll of \<open>GET /api/v1/sync\<close> (\<open>api/sync.rs\<close>), and the compaction of the outbox
  (\<open>postgres/delivery.rs\<close>). JSON, base64 and the keyed hash are parameters. The service is refined to
  a log: an account's deliveries in order, of which a client reads slices.
\<close>

section \<open>Scanning the stream\<close>

record sync_event =
  ev_id :: uuid
  ev_sequence :: int
  ev_kind :: string
  ev_conversation :: str
  ev_message :: str

record sync_scan =
  sc_events :: "sync_event list"
  sc_position :: int
  sc_has_more :: bool

definition sync_reset_required :: app_error where
  "sync_reset_required = SyncResetRequired (lit ''Synchronization history expired or the environment changed. Request /api/v1/sync?reset=true, refresh conversations and messages, then resume from its cursor.'')"

definition sync_head :: "actor_ref \<Rightarrow> db \<Rightarrow> int \<times> int" where
  "sync_head a s =
     (case find (\<lambda>r. s_actor r = a) (streams s) of None \<Rightarrow> (0, 0) | Some r \<Rightarrow> (s_next r - 1, s_floor r))"

fun delivery_kind_name :: "delivery_kind \<Rightarrow> string" where
  "delivery_kind_name (MessageDelivery _) = ''message''"
| "delivery_kind_name (StatusDelivery _ _) = ''message_status''"
| "delivery_kind_name (SystemDelivery _) = ''system_event''"

text \<open>The references a scan may show: of messages, to an account that takes part in the conversation now.\<close>

definition delivery_authorized :: "db \<Rightarrow> delivery_row \<Rightarrow> bool" where
  "delivery_authorized s d \<longleftrightarrow> delivery_kind_name (d_kind d) \<in> {''message'', ''message_status''} \<and>
     is_participant s (d_conversation d) (d_target d)"

definition sync_rows :: "db \<Rightarrow> actor_ref \<Rightarrow> int \<Rightarrow> int \<Rightarrow> delivery_row list" where
  "sync_rows s a after upper =
     sort_key d_sequence (filter (\<lambda>d. d_target d = a \<and> after < d_sequence d \<and> d_sequence d \<le> upper) (deliveries s))"

definition event_message :: "db \<Rightarrow> delivery_row \<Rightarrow> str option" where
  "event_message s d =
     Option.bind (map_option m_sequence (find (\<lambda>m. m_id m = d_message d) (messages s))) message_code"

definition sync_event_of :: "uuid_lib \<Rightarrow> delivery_row \<Rightarrow> str \<Rightarrow> sync_event" where
  "sync_event_of U d message =
     \<lparr>ev_id = d_id d, ev_sequence = d_sequence d, ev_kind = delivery_kind_name (d_kind d),
      ev_conversation = uuid_show U (d_conversation d), ev_message = message\<rparr>"

fun scan_rows ::
  "uuid_lib \<Rightarrow> db \<Rightarrow> delivery_row list \<Rightarrow> int \<Rightarrow> sync_event list \<Rightarrow> (sync_event list \<times> int) app_result" where
  "scan_rows U s [] position events = Inr (events, position)"
| "scan_rows U s (d # ds) position events =
     (if checked_i64 (position + 1) \<noteq> Some (d_sequence d) then Inl sync_reset_required
      else if delivery_authorized s d then
        (case event_message s d of
           None \<Rightarrow> Inl (Internal ''sync event lost its message'')
         | Some message \<Rightarrow> scan_rows U s ds (d_sequence d) (events @ [sync_event_of U d message]))
      else scan_rows U s ds (d_sequence d) events)"

definition sync_events :: "uuid_lib \<Rightarrow> actor_ref \<Rightarrow> int \<Rightarrow> int \<Rightarrow> nat \<Rightarrow> db \<Rightarrow> sync_scan app_result" where
  "sync_events U a after upper limit s =
     (if after < 0 \<or> upper < after \<or> \<not> (1 \<le> limit \<and> limit \<le> 100)
      then Inl (validation ''invalid synchronization bounds'')
      else
        let rows = take (limit + 1) (sync_rows s a after upper); has_more = length rows > limit in
        bind_ok (scan_rows U s (take limit rows) after []) (\<lambda>(events, position).
          if \<not> has_more \<and> position \<noteq> upper then Inl sync_reset_required
          else Inr \<lparr>sc_events = events, sc_position = position, sc_has_more = has_more\<rparr>))"

section \<open>Cursors\<close>

record sync_cursor =
  sy_version :: nat
  sy_scope :: str
  sy_position :: int
  sy_upper :: "int option"
  sy_expires_at :: int

record sync_lib =
  sy_base64 :: base64_lib
  sy_to_vec :: "sync_cursor \<Rightarrow> nat list option"
  sy_from_slice :: "nat list \<Rightarrow> sync_cursor option"
  sy_keyed_hash :: "nat list \<Rightarrow> nat list \<Rightarrow> nat list"

definition cursor_seconds :: int where "cursor_seconds = 24 * 60 * 60"
definition max_wait_seconds :: nat where "max_wait_seconds = 30"
definition cursor_version :: nat where "cursor_version = 2"

definition cursor_scope :: "env \<Rightarrow> actor_ref \<Rightarrow> str app_result" where
  "cursor_scope E a =
     (case to_json (e_digest E) (JArr [JStr (lit ''accounts''), JStr (lit (type_str (ar_type a))), JStr (ar_id a)]) of
        None \<Rightarrow> Inl (Internal ''scope serialization failed'')
      | Some bs \<Rightarrow> Inr (to_hex (blake3 (e_digest E) bs)))"

definition encode_cursor :: "sync_lib \<Rightarrow> nat list \<Rightarrow> sync_cursor \<Rightarrow> str app_result" where
  "encode_cursor L key c =
     (case sy_to_vec L c of
        None \<Rightarrow> Inl (Internal ''cursor serialization failed'')
      | Some body \<Rightarrow> Inr (b64_encode (sy_base64 L) body @ 46 # b64_encode (sy_base64 L) (sy_keyed_hash L key body)))"

definition invalid_cursor :: app_error where
  "invalid_cursor = validation ''invalid synchronization cursor''"

definition decode_cursor :: "sync_lib \<Rightarrow> nat list \<Rightarrow> str \<Rightarrow> int \<Rightarrow> str \<Rightarrow> sync_cursor app_result" where
  "decode_cursor L key scope now v =
     (if str_len v > 2048 then Inl invalid_cursor
      else
       (case split_once 46 v of
          None \<Rightarrow> Inl invalid_cursor
        | Some (body0, signature0) \<Rightarrow>
           (case b64_decode (sy_base64 L) body0 of
              None \<Rightarrow> Inl invalid_cursor
            | Some body \<Rightarrow>
               (case b64_decode (sy_base64 L) signature0 of
                  None \<Rightarrow> Inl invalid_cursor
                | Some signature \<Rightarrow>
                    if sy_keyed_hash L key body \<noteq> signature then Inl sync_reset_required
                    else
                      (case sy_from_slice L body of
                         None \<Rightarrow> Inl invalid_cursor
                       | Some c \<Rightarrow>
                           if sy_version c \<noteq> cursor_version \<or> sy_position c < 0 \<or>
                              is_some_and (\<lambda>u. u < sy_position c) (sy_upper c)
                           then Inl invalid_cursor
                           else if sy_scope c \<noteq> scope \<or> sy_expires_at c \<le> now then Inl sync_reset_required
                           else Inr c)))))"

section \<open>The endpoint\<close>

record sync_query =
  sq_cursor :: "str option"
  sq_limit :: "nat option"
  sq_reset :: bool
  sq_wait :: "nat option"

record sync_page =
  sp_events :: "sync_event list"
  sp_cursor :: str
  sp_has_more :: bool
  sp_upper :: int

definition unix_timestamp :: "instant \<Rightarrow> int" where
  "unix_timestamp t = t div second"

definition next_cursor :: "int \<Rightarrow> str \<Rightarrow> sync_cursor option \<Rightarrow> int \<Rightarrow> bool \<Rightarrow> int \<Rightarrow> sync_cursor" where
  "next_cursor now scope previous position has_more upper =
     \<lparr>sy_version = cursor_version, sy_scope = scope, sy_position = position,
      sy_upper = (if has_more then Some upper else None),
      sy_expires_at = (case filter_option (\<lambda>c. sy_upper c \<noteq> None) previous of
         None \<Rightarrow> now + cursor_seconds | Some c \<Rightarrow> sy_expires_at c)\<rparr>"

definition page ::
  "sync_lib \<Rightarrow> nat list \<Rightarrow> env \<Rightarrow> actor_ref \<Rightarrow> sync_query \<Rightarrow> nat \<Rightarrow> db \<Rightarrow> sync_page app_result" where
  "page L key E a q limit s =
     bind_ok (cursor_scope E a) (\<lambda>scope.
     let now = unix_timestamp (e_now E) in
     bind_ok (option_result (decode_cursor L key scope now) (sq_cursor q)) (\<lambda>cursor.
     let (head, floor) = sync_head a s;
         after = (case cursor of None \<Rightarrow> floor | Some c \<Rightarrow> sy_position c);
         upper = (case Option.bind cursor sy_upper of None \<Rightarrow> head | Some u \<Rightarrow> u) in
     if after > head \<or> upper > head \<or> after < floor then Inl sync_reset_required
     else
       bind_ok (if sq_reset q then Inr ([], head, False, head)
                else bind_ok (sync_events (e_uuid E) a after upper limit s) (\<lambda>scan.
                  Inr (sc_events scan, sc_position scan, sc_has_more scan, upper))) (\<lambda>(events, position, has_more, upper).
       bind_ok (encode_cursor L key (next_cursor now scope cursor position has_more upper)) (\<lambda>v.
         Inr \<lparr>sp_events = events, sp_cursor = v, sp_has_more = has_more, sp_upper = upper\<rparr>))))"

text \<open>The long poll reads again at each wake-up that reaches it before the deadline; \<open>wakes\<close> lists the
  state it finds each time.\<close>

fun poll ::
  "sync_lib \<Rightarrow> nat list \<Rightarrow> actor_ref \<Rightarrow> sync_query \<Rightarrow> nat \<Rightarrow> instant \<Rightarrow> env \<Rightarrow> db \<Rightarrow> (env \<times> db) list \<Rightarrow>
     sync_page app_result" where
  "poll L key a q limit deadline E s [] = page L key E a q limit s"
| "poll L key a q limit deadline E s ((E', s') # wakes) =
     bind_ok (page L key E a q limit s) (\<lambda>p.
       if sp_events p \<noteq> [] \<or> sp_has_more p \<or> sq_reset q \<or> e_now E \<ge> deadline then Inr p
       else poll L key a q limit deadline E' s' wakes)"

definition events ::
  "sync_lib \<Rightarrow> nat list \<Rightarrow> actor_ref \<Rightarrow> sync_query \<Rightarrow> env \<Rightarrow> db \<Rightarrow> (env \<times> db) list \<Rightarrow> sync_page app_result" where
  "events L key a q E s wakes =
     bind_ok (validated_limit \<lparr>pq_cursor = None, pq_limit = sq_limit q\<rparr>) (\<lambda>limit.
     if sq_reset q \<and> sq_cursor q \<noteq> None then Inl (validation ''reset cannot be combined with cursor'')
     else
       let wait = (case sq_wait q of None \<Rightarrow> 0 | Some w \<Rightarrow> w) in
       if wait > max_wait_seconds then Inl (validation ''wait must be 0 to 30 seconds'')
       else poll L key a q limit (e_now E + int wait * second) E s wakes)"

section \<open>Compaction\<close>

text \<open>Acknowledged deliveries and finished or abandoned idempotency records are deleted when they expire.\<close>

definition expired_delivery :: "instant \<Rightarrow> delivery_row \<Rightarrow> bool" where
  "expired_delivery now d = is_some_and (\<lambda>t. t \<le> now) (d_retain_until d)"

definition expired_record :: "instant \<Rightarrow> idem_row \<Rightarrow> bool" where
  "expired_record now r \<longleftrightarrow> id_expires r \<le> now \<and>
     (id_status r = Completed \<or> is_some_and (\<lambda>t. t \<le> now) (id_lease_expires r))"

definition compact_delivery_state :: "instant \<Rightarrow> db \<Rightarrow> nat \<times> db" where
  "compact_delivery_state now s =
     (saturating_add (rows_affected (expired_delivery now) (deliveries s))
        (rows_affected (expired_record now) (idempotency s)),
      s\<lparr>deliveries := sql_delete (expired_delivery now) (deliveries s),
        idempotency := sql_delete (expired_record now) (idempotency s)\<rparr>)"

section \<open>The log of an account\<close>

text \<open>The abstract state a client synchronizes with: the deliveries of its account above the floor of
  its stream, in the order they were written.\<close>

definition account_log :: "actor_ref \<Rightarrow> db \<Rightarrow> delivery_row list" where
  "account_log a s = filter (\<lambda>d. d_target d = a \<and> snd (sync_head a s) < d_sequence d) (deliveries s)"

definition log_slice :: "int \<Rightarrow> int \<Rightarrow> delivery_row list \<Rightarrow> delivery_row list" where
  "log_slice after upper = filter (\<lambda>d. after < d_sequence d \<and> d_sequence d \<le> upper)"

definition shown_events :: "uuid_lib \<Rightarrow> db \<Rightarrow> delivery_row list \<Rightarrow> sync_event list" where
  "shown_events U s ds = map (\<lambda>d. sync_event_of U d (the (event_message s d))) (filter (delivery_authorized s) ds)"

text \<open>The counters of the tables fit their columns.\<close>

definition counters_fit :: "db \<Rightarrow> bool" where
  "counters_fit s \<longleftrightarrow> (\<forall>c\<in>set (conversations s). is_i64 (c_next_sequence c)) \<and> (\<forall>r\<in>set (streams s). is_i64 (s_next r))"

lemma upto_window: "filter (\<lambda>x. l < x \<and> x \<le> u) [a..b] = [max a (l + 1)..min b u]"
proof -
  have "set (filter (\<lambda>x. l < x \<and> x \<le> u) [a..b]) = set [max a (l + 1)..min b u]" by auto
  then show ?thesis by (intro sorted_distinct_set_unique) (simp_all add: sorted_wrt_filter)
qed

lemma sync_head_stream:
  assumes "streams_ok s" "r \<in> set (streams s)" "s_actor r = a"
  shows "sync_head a s = (s_next r - 1, s_floor r)"
  using find_keyed [of s_actor "streams s" r] assms by (simp add: sync_head_def streams_ok_def)

lemma account_log_sequences:
  assumes "streams_ok s" "r \<in> set (streams s)" "s_actor r = a"
  shows "map d_sequence (account_log a s) = [s_floor r + 1..s_next r - 1]"
  using assms sync_head_stream [OF assms] by (auto simp: account_log_def streams_ok_def)

lemma sync_rows_slice:
  assumes "streams_ok s" "r \<in> set (streams s)" "s_actor r = a" "s_floor r \<le> after" "upper < s_next r"
  shows "sync_rows s a after upper = log_slice after upper (account_log a s)"
    and "map d_sequence (sync_rows s a after upper) = [after + 1..upper]"
proof -
  let ?f = "\<lambda>d. after < d_sequence d \<and> d_sequence d \<le> upper"
  have head: "snd (sync_head a s) = s_floor r" using sync_head_stream [OF assms(1-3)] by simp
  have eq: "filter (\<lambda>d. d_target d = a \<and> ?f d) (deliveries s) = log_slice after upper (account_log a s)"
    using assms(4) by (auto simp: log_slice_def account_log_def head intro!: filter_cong)
  have seqs: "map d_sequence (log_slice after upper (account_log a s)) = [after + 1..upper]"
    using account_log_sequences [OF assms(1-3)] upto_window [of after upper "s_floor r + 1" "s_next r - 1"] assms(4,5)
    by (simp add: log_slice_def filter_map [symmetric, unfolded comp_def, of d_sequence "\<lambda>x. after < x \<and> x \<le> upper"])
  then have "sorted (map d_sequence (log_slice after upper (account_log a s)))" by (simp add: sorted_upto)
  then show "sync_rows s a after upper = log_slice after upper (account_log a s)"
    by (simp add: sync_rows_def eq sorted_sort_id sort_key_id_if_sorted)
  with seqs show "map d_sequence (sync_rows s a after upper) = [after + 1..upper]" by simp
qed

lemma scan_contiguous:
  assumes "map d_sequence ds = [position + 1..position + int (length ds)]"
    and "\<forall>d\<in>set ds. is_i64 (d_sequence d)" "\<forall>d\<in>set ds. delivery_authorized s d \<longrightarrow> event_message s d \<noteq> None"
  shows "scan_rows U s ds position evs = Inr (evs @ shown_events U s ds, position + int (length ds))"
  using assms
proof (induction ds arbitrary: position evs)
  case Nil
  then show ?case by (simp add: shown_events_def)
next
  case (Cons d ds)
  have "[position + 1..position + int (length (d # ds))] = (position + 1) # [position + 1 + 1..position + 1 + int (length ds)]"
    using upto_rec1 [of "position + 1" "position + int (length (d # ds))"] by (simp add: algebra_simps)
  with Cons.prems(1) have d: "d_sequence d = position + 1"
    and rest: "map d_sequence ds = [position + 1 + 1..position + 1 + int (length ds)]" by simp_all
  have "checked_i64 (position + 1) = Some (d_sequence d)" using Cons.prems(2) d by simp
  moreover have "scan_rows U s ds (position + 1) evs' = Inr (evs' @ shown_events U s ds, position + 1 + int (length ds))" for evs'
    by (rule Cons.IH [OF rest]) (use Cons.prems in auto)
  ultimately show ?case
    using Cons.prems(3) d by (auto simp: shown_events_def)
qed

lemma message_code_positive: "is_i64 n \<Longrightarrow> 1 \<le> n \<Longrightarrow> message_code n \<noteq> None"
  using is_i64_between [of n "n - 1"] by (simp add: message_code_def checked_i64_def)

lemma event_message_found:
  assumes "messaging_ok s" "counters_fit s" "d \<in> set (deliveries s)" "delivery_authorized s d"
  shows "event_message s d \<noteq> None"
proof -
  have "\<not> (\<exists>e. d_kind d = SystemDelivery e)" using assms(4) by (auto simp: delivery_authorized_def)
  then obtain m where m: "m \<in> set (messages s)" "m_id m = d_message d"
    using assms(1,3) by (auto simp: messaging_ok_def)
  have seqs: "sequences_ok s" by (rule messaging_okD(1) [OF assms(1)])
  then obtain c where c: "c \<in> set (conversations s)" "c_id c = m_conversation m" using m(1) by (auto simp: sequences_ok_def)
  have "m_sequence m \<in> set (map m_sequence (filter (\<lambda>x. m_conversation x = c_id c) (messages s)))" using m(1) c(2) by auto
  then have "1 \<le> m_sequence m" "m_sequence m \<le> c_next_sequence c"
    using seqs c(1) by (auto simp: sequences_ok_def simp del: set_map)
  moreover have "is_i64 (c_next_sequence c)" using assms(2) c(1) by (simp add: counters_fit_def)
  ultimately have "message_code (m_sequence m) \<noteq> None"
    using is_i64_between [of "c_next_sequence c" "m_sequence m"] by (intro message_code_positive) simp_all
  moreover have "find (\<lambda>x. m_id x = d_message d) (messages s) = Some m"
    using find_keyed [of m_id "messages s" m] seqs m by (simp add: sequences_ok_def)
  ultimately show ?thesis by (simp add: event_message_def)
qed

lemma take_upto:
  assumes "map f xs = [a + 1..u]"
  shows "take n xs = filter (\<lambda>x. f x \<le> a + int n) xs"
  using assms
proof (induction xs arbitrary: a n)
  case (Cons x xs)
  then have u: "a + 1 \<le> u" by (metis list.simps(8,9) upto_empty not_less list.distinct(1) map_is_Nil_conv)
  with Cons.prems have x: "f x = a + 1" and xs: "map f xs = [a + 1 + 1..u]" by (simp_all add: upto_rec1)
  show ?case
  proof (cases n)
    case 0
    have "\<forall>y\<in>set xs. f y \<in> set [a + 1 + 1..u]" unfolding xs [symmetric] by simp
    then have "filter (\<lambda>y. f y \<le> a) xs = []" by (auto simp: filter_empty_conv)
    with 0 x show ?thesis by simp
  next
    case (Suc m)
    with x Cons.IH [OF xs, of m] show ?thesis by (simp add: algebra_simps)
  qed
qed simp

text \<open>The slice of the log a scan covers.\<close>

lemma sync_events_slice:
  assumes ok: "messaging_ok s" "counters_fit s" and r: "r \<in> set (streams s)" "s_actor r = a"
    and bounds: "s_floor r \<le> after" "after \<le> upper" "upper < s_next r" "1 \<le> limit" "limit \<le> 100"
  shows "sync_events U a after upper limit s = Inr
    \<lparr>sc_events = shown_events U s (log_slice after (min upper (after + int limit)) (account_log a s)),
     sc_position = min upper (after + int limit), sc_has_more = (after + int limit < upper)\<rparr>"
proof -
  have st: "streams_ok s" by (rule messaging_okD(2) [OF ok(1)])
  have fl: "0 \<le> s_floor r" using st r by (auto simp: streams_ok_def)
  let ?mid = "min upper (after + int limit)"
  let ?rows = "sync_rows s a after upper" and ?now = "sync_rows s a after ?mid"
  note rows = sync_rows_slice [OF st r bounds(1,3)]
  have mid: "?mid < s_next r" using bounds by simp
  note now = sync_rows_slice [OF st r bounds(1) mid]
  have len: "length ?rows = nat (upper - after)" "length ?now = nat (?mid - after)"
    using arg_cong [OF rows(2), of length] arg_cong [OF now(2), of length] by simp_all
  have tk: "take limit (take (limit + 1) ?rows) = ?now"
    using take_upto [OF rows(2), of limit] by (simp add: now(1) rows(1) log_slice_def min_absorb1 conj_ac)
  have "d_sequence d \<in> set [after + 1..?mid]" if "d \<in> set ?now" for d
    unfolding now(2) [symmetric] using that by simp
  moreover have "is_i64 (s_next r)" using ok(2) r(1) by (simp add: counters_fit_def)
  ultimately have fit: "\<forall>d\<in>set ?now. is_i64 (d_sequence d)"
    using is_i64_between [of "s_next r"] bounds mid fl by fastforce
  have found: "\<forall>d\<in>set ?now. delivery_authorized s d \<longrightarrow> event_message s d \<noteq> None"
    using event_message_found [OF ok] by (auto simp: sync_rows_def)
  have "map d_sequence ?now = [after + 1..after + int (length ?now)]"
    using bounds by (simp add: now(2) len(2))
  from scan_contiguous [OF this fit found]
  have "scan_rows U s ?now after [] = Inr (shown_events U s ?now, ?mid)"
    using bounds len(2) by simp
  moreover have "length (take (limit + 1) ?rows) > limit \<longleftrightarrow> after + int limit < upper"
    using len(1) by (simp add: min_def) linarith
  ultimately show ?thesis
    using bounds fl unfolding sync_events_def Let_def tk by (auto simp: now(1))
qed

text \<open>C6. A scan shows the client a slice of its account's log: between a position above the floor and a
  bound below the head it never asks for a reset, it advances by at most the limit, it says whether
  more is left, and it shows exactly the references of the slice the account may see now.\<close>

theorem sync_refines_log:
  assumes "messaging_ok s" "counters_fit s" "r \<in> set (streams s)" "s_actor r = a"
    and "s_floor r \<le> after" "after \<le> upper" "upper < s_next r" "1 \<le> limit" "limit \<le> 100"
  shows "sync_events U a after upper limit s = Inr
    \<lparr>sc_events = shown_events U s (log_slice after (min upper (after + int limit)) (account_log a s)),
     sc_position = min upper (after + int limit), sc_has_more = (after + int limit < upper)\<rparr> \<and>
    map d_sequence (log_slice after (min upper (after + int limit)) (account_log a s)) =
      [after + 1..min upper (after + int limit)]"
proof -
  have st: "streams_ok s" by (rule messaging_okD(2) [OF assms(1)])
  have "min upper (after + int limit) < s_next r" using assms(7) by simp
  from sync_rows_slice [OF st assms(3,4,5) this] sync_events_slice [OF assms] show ?thesis by simp
qed

lemma chat_sent_fits: "counters_fit chat_sent"
  by (simp add: counters_fit_def chat_sent_def chat_def is_i64_def i64_min_def i64_max_def)

theorem sync_refines_log_witness:
  "sync_events (e_uuid test_env) bob 0 1 50 chat_sent = Inr
    \<lparr>sc_events = shown_events (e_uuid test_env) chat_sent (account_log bob chat_sent), sc_position = 1, sc_has_more = False\<rparr> \<and>
   length (account_log bob chat_sent) = 1"
proof -
  let ?r = "\<lparr>s_actor = bob, s_next = 2, s_floor = 0\<rparr>"
  have r: "?r \<in> set (streams chat_sent)" by (simp add: chat_sent_def)
  have log: "log_slice 0 (min 1 (0 + int 50)) (account_log bob chat_sent) = account_log bob chat_sent"
    "length (account_log bob chat_sent) = 1"
    by (simp_all add: account_log_def log_slice_def sync_head_def chat_sent_def chat_def lit_def)
  from sync_refines_log [OF chat_sent_ok(1) chat_sent_fits r, where a = bob and after = 0 and upper = 1 and limit = 50 and U = "e_uuid test_env"]
  show ?thesis unfolding log(1) by (simp add: log(2))
qed

section \<open>Catching up\<close>

text \<open>What the cursors rely on: the codecs read back what they write, base64 has no dot, and the cursor
  of an account is short enough to be accepted.\<close>

definition sync_lib_ok :: "sync_lib \<Rightarrow> nat list \<Rightarrow> str \<Rightarrow> bool" where
  "sync_lib_ok L key scope \<longleftrightarrow> base64_ok (sy_base64 L) \<and> (\<forall>bs. 46 \<notin> set (b64_encode (sy_base64 L) bs)) \<and>
     (\<forall>c. \<exists>body. sy_to_vec L c = Some body \<and> sy_from_slice L body = Some c) \<and>
     (\<forall>c body. sy_scope c = scope \<longrightarrow> sy_to_vec L c = Some body \<longrightarrow>
        str_len (b64_encode (sy_base64 L) body @ 46 # b64_encode (sy_base64 L) (sy_keyed_hash L key body)) \<le> 2048)"

lemma split_once_first: "c \<notin> set a \<Longrightarrow> split_once c (a @ c # b) = Some (a, b)"
  by (induction a) (simp_all add: split_once_def)

lemma sync_cursor_decodes:
  assumes "sync_lib_ok L key (sy_scope c)"
  obtains v where "encode_cursor L key c = Inr v"
    "decode_cursor L key scope now v =
       (if sy_version c \<noteq> cursor_version \<or> sy_position c < 0 \<or> is_some_and (\<lambda>u. u < sy_position c) (sy_upper c)
        then Inl invalid_cursor
        else if sy_scope c \<noteq> scope \<or> sy_expires_at c \<le> now then Inl sync_reset_required else Inr c)"
proof -
  obtain body where body: "sy_to_vec L c = Some body" "sy_from_slice L body = Some c"
    using assms unfolding sync_lib_ok_def by blast
  let ?enc = "b64_encode (sy_base64 L)"
  let ?v = "?enc body @ 46 # ?enc (sy_keyed_hash L key body)"
  have "str_len ?v \<le> 2048" using assms body(1) by (auto simp: sync_lib_ok_def)
  moreover have "split_once 46 ?v = Some (?enc body, ?enc (sy_keyed_hash L key body))"
    using assms by (intro split_once_first) (auto simp: sync_lib_ok_def)
  moreover have "b64_decode (sy_base64 L) (?enc x) = Some x" for x using assms by (simp add: sync_lib_ok_def base64_ok_def)
  ultimately show ?thesis using body
    by (intro that [of ?v]) (auto simp: encode_cursor_def decode_cursor_def)
qed

text \<open>A client that follows the cursors until nothing is left.\<close>

fun catch_up :: "nat \<Rightarrow> (str option \<Rightarrow> sync_page app_result) \<Rightarrow> str option \<Rightarrow> (sync_event list \<times> str option) app_result" where
  "catch_up 0 request cursor = Inr ([], cursor)"
| "catch_up (Suc n) request cursor = bind_ok (request cursor) (\<lambda>p.
     if sp_has_more p
     then bind_ok (catch_up n request (Some (sp_cursor p))) (\<lambda>(evs, c). Inr (sp_events p @ evs, c))
     else Inr (sp_events p, Some (sp_cursor p)))"

definition sync_request :: "sync_lib \<Rightarrow> nat list \<Rightarrow> env \<Rightarrow> actor_ref \<Rightarrow> nat \<Rightarrow> db \<Rightarrow> str option \<Rightarrow> sync_page app_result" where
  "sync_request L key E a limit s cursor =
     page L key E a \<lparr>sq_cursor = cursor, sq_limit = Some limit, sq_reset = False, sq_wait = None\<rparr> limit s"

lemma page_slice:
  assumes lib: "sync_lib_ok L key scope" "cursor_scope E a = Inr scope"
    and ok: "messaging_ok s" "counters_fit s" and r: "r \<in> set (streams s)" "s_actor r = a"
    and bounds: "s_floor r \<le> after" "after \<le> upper" "upper < s_next r" "1 \<le> limit" "limit \<le> 100"
    and cursor: "option_result (decode_cursor L key scope (unix_timestamp (e_now E))) v = Inr c"
      "after = (case c of None \<Rightarrow> s_floor r | Some c \<Rightarrow> sy_position c)"
      "upper = (case Option.bind c sy_upper of None \<Rightarrow> s_next r - 1 | Some u \<Rightarrow> u)"
  defines "mid \<equiv> min upper (after + int limit)"
  shows "\<exists>v'. sync_request L key E a limit s v = Inr
      \<lparr>sp_events = shown_events (e_uuid E) s (log_slice after mid (account_log a s)), sp_cursor = v',
       sp_has_more = (mid < upper), sp_upper = upper\<rparr> \<and>
    option_result (decode_cursor L key scope (unix_timestamp (e_now E))) (Some v') =
      Inr (Some (next_cursor (unix_timestamp (e_now E)) scope c mid (mid < upper) upper))"
proof -
  let ?now = "unix_timestamp (e_now E)"
  let ?n = "next_cursor ?now scope c mid (mid < upper) upper"
  have head: "sync_head a s = (s_next r - 1, s_floor r)"
    by (rule sync_head_stream [OF messaging_okD(2) [OF ok(1)] r])
  have fl: "0 \<le> s_floor r" using messaging_okD(2) [OF ok(1)] r by (auto simp: streams_ok_def)
  have scan: "sync_events (e_uuid E) a after upper limit s = Inr
    \<lparr>sc_events = shown_events (e_uuid E) s (log_slice after mid (account_log a s)),
     sc_position = mid, sc_has_more = (mid < upper)\<rparr>"
    using sync_events_slice [OF ok r bounds, of "e_uuid E"] by (auto simp: mid_def)
  have live: "?now < sy_expires_at ?n"
  proof (cases "filter_option (\<lambda>c. sy_upper c \<noteq> None) c")
    case None
    then show ?thesis by (simp add: next_cursor_def cursor_seconds_def)
  next
    case (Some p)
    then have p: "c = Some p" by (cases c) (auto simp: filter_option_def split: if_splits)
    with cursor(1) have "sy_expires_at p > ?now"
      by (auto simp: option_result_def decode_cursor_def split: option.splits if_splits prod.splits)
    with Some show ?thesis by (simp add: next_cursor_def)
  qed
  obtain v' where v': "encode_cursor L key ?n = Inr v'"
    "decode_cursor L key scope ?now v' = Inr ?n"
    by (rule sync_cursor_decodes [of L key ?n scope ?now])
      (use lib(1) fl bounds live in \<open>auto simp: next_cursor_def cursor_version_def is_some_and_def mid_def\<close>)
  have "sync_request L key E a limit s v = Inr
      \<lparr>sp_events = shown_events (e_uuid E) s (log_slice after mid (account_log a s)), sp_cursor = v',
       sp_has_more = (mid < upper), sp_upper = upper\<rparr>"
    unfolding sync_request_def page_def lib(2) bind_ok_simps Let_def sync_query.simps cursor(1) head prod.case
      cursor(2,3) [symmetric] scan
    using bounds by (simp add: v'(1))
  with v'(2) show ?thesis by auto
qed

lemma sorted_halves: "sorted (map f xs) \<Longrightarrow> filter (\<lambda>x. f x \<le> m) xs @ filter (\<lambda>x. m < f x) xs = xs"
proof (induction xs)
  case (Cons x xs)
  show ?case
  proof (cases "f x \<le> m")
    case False
    with Cons.prems have "filter (\<lambda>x. f x \<le> m) xs = []" by (fastforce simp: filter_empty_conv)
    with False Cons show ?thesis by simp
  qed (use Cons in simp)
qed simp

lemma log_slice_split:
  assumes "streams_ok s" "r \<in> set (streams s)" "s_actor r = a" "s_floor r \<le> after" "upper < s_next r"
    and "after \<le> mid" "mid \<le> upper"
  shows "log_slice after mid (account_log a s) @ log_slice mid upper (account_log a s) = log_slice after upper (account_log a s)"
proof -
  let ?xs = "log_slice after upper (account_log a s)"
  have "sorted (map d_sequence ?xs)"
    using sync_rows_slice [OF assms(1-5)] by (metis sorted_upto)
  from sorted_halves [OF this, of mid] assms(6,7) show ?thesis
    by (simp add: log_slice_def conj_ac cong: conj_cong)
qed

lemma shown_events_append: "shown_events U s (xs @ ys) = shown_events U s xs @ shown_events U s ys"
  by (simp add: shown_events_def)

lemma catch_up_from:
  assumes lib: "sync_lib_ok L key scope" "cursor_scope E a = Inr scope"
    and ok: "messaging_ok s" "counters_fit s" and r: "r \<in> set (streams s)" "s_actor r = a"
    and bounds: "s_floor r \<le> after" "after \<le> upper" "upper < s_next r" "1 \<le> limit" "limit \<le> 100"
    and cursor: "option_result (decode_cursor L key scope (unix_timestamp (e_now E))) v = Inr c"
      "after = (case c of None \<Rightarrow> s_floor r | Some c \<Rightarrow> sy_position c)"
      "upper = (case Option.bind c sy_upper of None \<Rightarrow> s_next r - 1 | Some u \<Rightarrow> u)"
    and fuel: "nat (upper - after) < n"
  shows "\<exists>v' c'. catch_up n (sync_request L key E a limit s) v =
      Inr (shown_events (e_uuid E) s (log_slice after upper (account_log a s)), Some v') \<and>
    decode_cursor L key scope (unix_timestamp (e_now E)) v' = Inr c' \<and> sy_position c' = upper \<and> sy_upper c' = None"
  using bounds cursor fuel
proof (induction n arbitrary: after v c)
  case 0
  then show ?case by simp
next
  case (Suc n)
  let ?now = "unix_timestamp (e_now E)"
  let ?mid = "min upper (after + int limit)"
  let ?c = "next_cursor ?now scope c ?mid (?mid < upper) upper"
  obtain v' where req: "sync_request L key E a limit s v = Inr
      \<lparr>sp_events = shown_events (e_uuid E) s (log_slice after ?mid (account_log a s)), sp_cursor = v',
       sp_has_more = (?mid < upper), sp_upper = upper\<rparr>"
    and dec: "option_result (decode_cursor L key scope ?now) (Some v') = Inr (Some ?c)"
    using page_slice [OF lib ok r Suc.prems(1-8)] by blast
  have st: "streams_ok s" by (rule messaging_okD(2) [OF ok(1)])
  show ?case
  proof (cases "?mid < upper")
    case False
    then have "?mid = upper" by simp
    with req dec show ?thesis by (auto simp: next_cursor_def)
  next
    case True
    have more: "sy_position ?c = ?mid" "sy_upper ?c = Some upper" using True by (simp_all add: next_cursor_def)
    have "\<exists>v'' c'. catch_up n (sync_request L key E a limit s) (Some v') =
        Inr (shown_events (e_uuid E) s (log_slice ?mid upper (account_log a s)), Some v'') \<and>
      decode_cursor L key scope ?now v'' = Inr c' \<and> sy_position c' = upper \<and> sy_upper c' = None"
      by (rule Suc.IH [OF _ _ Suc.prems(3-5) dec]) (use Suc.prems True more in auto)
    moreover have "log_slice after ?mid (account_log a s) @ log_slice ?mid upper (account_log a s) = log_slice after upper (account_log a s)"
      by (rule log_slice_split [OF st r Suc.prems(1,3)]) (use Suc.prems in auto)
    ultimately show ?thesis using req True by (auto simp: shown_events_append [symmetric])
  qed
qed

text \<open>C5. A client always catches up: starting without a cursor and following the cursors it is given, it
  receives every reference of its account's log that it may see, once and in order, after as many
  requests as there are pages; it never meets a reset, and its last cursor stands at the head, so
  that nothing is missed when it resumes there.\<close>

theorem sync_catches_up:
  assumes "sync_lib_ok L key scope" "cursor_scope E a = Inr scope"
    and "messaging_ok s" "counters_fit s" and "r \<in> set (streams s)" "s_actor r = a" "1 \<le> limit" "limit \<le> 100"
    and "nat (s_next r - 1 - s_floor r) < n"
  shows "\<exists>v c. catch_up n (sync_request L key E a limit s) None =
      Inr (shown_events (e_uuid E) s (account_log a s), Some v) \<and>
    decode_cursor L key scope (unix_timestamp (e_now E)) v = Inr c \<and> sy_position c = s_next r - 1 \<and> sy_upper c = None"
proof -
  have st: "streams_ok s" by (rule messaging_okD(2) [OF assms(3)])
  have fl: "s_floor r \<le> s_next r - 1" using st assms(5) by (auto simp: streams_ok_def)
  have "d_sequence d \<in> set [s_floor r + 1..s_next r - 1]" if "d \<in> set (account_log a s)" for d
    unfolding account_log_sequences [OF st assms(5,6), symmetric] using that by simp
  then have "log_slice (s_floor r) (s_next r - 1) (account_log a s) = account_log a s"
    unfolding log_slice_def by (intro filter_True) fastforce
  moreover have "\<exists>v c. catch_up n (sync_request L key E a limit s) None =
      Inr (shown_events (e_uuid E) s (log_slice (s_floor r) (s_next r - 1) (account_log a s)), Some v) \<and>
    decode_cursor L key scope (unix_timestamp (e_now E)) v = Inr c \<and> sy_position c = s_next r - 1 \<and> sy_upper c = None"
    by (rule catch_up_from [OF assms(1-6) _ fl _ assms(7,8), where c = None]) (use assms(9) in simp_all)
  ultimately show ?thesis by simp
qed

text \<open>Codecs for examples: base64 shifts every byte past the dot, JSON is a flat list of numbers.\<close>

fun flat_cursor :: "nat list \<Rightarrow> sync_cursor option" where
  "flat_cursor (v # ps # p # us # u # es # e # scope) =
     (let signed = (\<lambda>t n. if t = 1 then - int n else int n) in
      Some \<lparr>sy_version = v, sy_scope = scope, sy_position = signed ps p,
        sy_upper = (if us = 2 then None else Some (signed us u)), sy_expires_at = signed es e\<rparr>)"
| "flat_cursor _ = None"

definition cursor_flat :: "sync_cursor \<Rightarrow> nat list option" where
  "cursor_flat c = (let sign = (\<lambda>x::int. if x < 0 then 1 else 0) in
     Some ([sy_version c, sign (sy_position c), nat \<bar>sy_position c\<bar>,
       case sy_upper c of None \<Rightarrow> 2 | Some u \<Rightarrow> sign u, case sy_upper c of None \<Rightarrow> 0 | Some u \<Rightarrow> nat \<bar>u\<bar>,
       sign (sy_expires_at c), nat \<bar>sy_expires_at c\<bar>] @ sy_scope c))"

definition sample_sync_lib :: sync_lib where
  "sample_sync_lib = \<lparr>sy_base64 = \<lparr>b64_encode = map (\<lambda>b. b + 47), b64_decode = (\<lambda>v. Some (map (\<lambda>b. b - 47) v))\<rparr>,
     sy_to_vec = cursor_flat, sy_from_slice = flat_cursor, sy_keyed_hash = (\<lambda>key body. key)\<rparr>"

lemma str_len_bound: "str_len v \<le> 4 * length v"
  by (induction v) (auto simp: str_len_def bytes_Cons utf8_char_def)

lemma sample_sync_lib_ok: "sync_lib_ok sample_sync_lib [7] []"
proof -
  have "flat_cursor (the (cursor_flat c)) = Some c" for c
    by (cases c; cases "sy_upper c") (auto simp: cursor_flat_def Let_def)
  moreover have "str_len (map (\<lambda>b. b + 47) body @ 46 # map (\<lambda>b. b + 47) [7]) \<le> 2048"
    if "sy_scope c = []" "cursor_flat c = Some body" for c body
    using that order_trans [OF str_len_bound, of "map (\<lambda>b. b + 47) body @ 46 # map (\<lambda>b. b + 47) [7]"]
    by (auto simp: cursor_flat_def Let_def)
  ultimately show ?thesis
    by (auto simp: sync_lib_ok_def base64_ok_def sample_sync_lib_def comp_def cursor_flat_def Let_def)
qed

theorem sync_catches_up_witness:
  "\<exists>v. catch_up 2 (sync_request sample_sync_lib [7] test_env bob 50 chat_sent) None =
     Inr (shown_events (e_uuid test_env) chat_sent (account_log bob chat_sent), Some v)"
proof -
  let ?r = "\<lparr>s_actor = bob, s_next = 2, s_floor = 0\<rparr>"
  have r: "?r \<in> set (streams chat_sent)" by (simp add: chat_sent_def)
  have scope: "cursor_scope test_env bob = Inr []" by (simp add: cursor_scope_def to_hex_def)
  from sync_catches_up [OF sample_sync_lib_ok scope chat_sent_ok(1) chat_sent_fits r, where limit = 50 and n = 2]
  show ?thesis by auto
qed

section \<open>Compaction keeps the streams\<close>

lemma compact_streams_ok:
  assumes "streams_ok s"
  shows "streams_ok (snd (compact_delivery_state now s))"
proof -
  have "filter (\<lambda>d. d_target d = s_actor r \<and> s_floor r < d_sequence d) (sql_delete (expired_delivery now) (deliveries s)) =
      filter (\<lambda>d. d_target d = s_actor r \<and> s_floor r < d_sequence d) (deliveries s)" if "r \<in> set (streams s)" for r
    using assms that unfolding sql_delete_def filter_filter
    by (intro filter_cong) (auto simp: streams_ok_def expired_delivery_def is_some_and_def split: option.splits)
  with assms show ?thesis by (auto simp: streams_ok_def compact_delivery_state_def sql_simps)
qed

end
