(* ===== verification/Drafts.thy ===== *)
theory Drafts
  imports DM_Messages
begin

text \<open>
  Synchronized drafts (\<open>postgres/drafts.rs\<close>): one draft per participant, replaced only by a client that
  has seen its current version, with the trigger that keeps a version counter beyond the life of the
  draft (\<open>migrations/0014\<close>).
\<close>

section \<open>Loading\<close>

record draft =
  df_metadata :: json_map
  df_reply_to :: "uuid option"
  df_conversation :: uuid
  df_actor_id :: str
  df_version :: int
  df_message_content :: "str option"
  df_attachments :: "attachment list"
  df_voice :: "voice_attachment option"
  df_voice_transcript :: "str option"
  df_gif :: "gif option"
  df_updated_at :: instant

definition attachment_from_record :: "store_lib \<Rightarrow> draft_attachment_row \<Rightarrow> attachment app_result" where
  "attachment_from_record L r =
     (if da_duration r \<noteq> None then Inl (Internal ''non-voice draft attachment loaded with a duration'')
      else bind_ok (option_result (stored_u64 ''draft attachment size'') (da_size r)) (\<lambda>sz.
        bind_ok (parse_url L ''draft attachment permanent URL'' (da_url r)) (\<lambda>u.
          Inr \<lparr>at_url = u, at_name = da_name r, at_content_type = da_content_type r, at_size = sz\<rparr>)))"

definition voice_attachment_from_record :: "store_lib \<Rightarrow> draft_attachment_row \<Rightarrow> voice_attachment app_result" where
  "voice_attachment_from_record L r =
     bind_ok (option_result (stored_u64 ''draft voice size'') (da_size r)) (\<lambda>sz.
     bind_ok (option_result (stored_u64 ''draft voice duration'') (da_duration r)) (\<lambda>duration.
       if is_some_and (\<lambda>d. \<not> (1 \<le> d \<and> d \<le> max_voice_duration)) duration
       then Inl (Internal ''draft voice duration is outside the supported range'')
       else bind_ok (parse_url L ''draft voice permanent URL'' (da_url r)) (\<lambda>u.
         Inr \<lparr>vo_url = u, vo_name = da_name r, vo_content_type = da_content_type r, vo_size = sz,
              vo_duration = duration\<rparr>)))"

definition gif_from_record :: "store_lib \<Rightarrow> gif \<Rightarrow> gif app_result" where
  "gif_from_record L g =
     bind_ok (parse_url L ''draft GIF URL'' (u_text (gif_url g))) (\<lambda>u.
     bind_ok (option_result (\<lambda>v. parse_url L ''draft GIF preview URL'' (u_text v)) (gif_preview_url g)) (\<lambda>preview.
       Inr \<lparr>gif_provider_id = gif_provider_id g, gif_url = u, gif_preview_url = preview, gif_title = gif_title g\<rparr>))"

fun draft_children ::
  "store_lib \<Rightarrow> draft_attachment_row list \<Rightarrow> attachment list \<Rightarrow> voice_attachment option \<Rightarrow>
     (attachment list \<times> voice_attachment option) app_result" where
  "draft_children L [] as v = Inr (as, v)"
| "draft_children L (r # rs) as v =
     (case da_kind r of
        VoiceKind \<Rightarrow> bind_ok (voice_attachment_from_record L r) (\<lambda>a. draft_children L rs as (Some a))
      | AttachmentKind \<Rightarrow> bind_ok (attachment_from_record L r) (\<lambda>a. draft_children L rs (as @ [a]) v))"

definition draft_at :: "str \<Rightarrow> uuid \<Rightarrow> actor_ref \<Rightarrow> draft_row \<Rightarrow> bool" where
  "draft_at part k a d \<longleftrightarrow> own_draft k a d \<and> dr_partition d = part"

definition load_draft_in :: "store_lib \<Rightarrow> str \<Rightarrow> actor_ref \<Rightarrow> uuid \<Rightarrow> db \<Rightarrow> draft app_result" where
  "load_draft_in L part a k s =
     (case find (draft_at part k a) (drafts s) of
        None \<Rightarrow> Inl NotFound
      | Some d \<Rightarrow>
          bind_ok (draft_children L (sort_key da_position
            (filter (\<lambda>r. da_conversation r = k \<and> da_actor r = a) (draft_attachments s))) [] None) (\<lambda>(as, v).
          bind_ok (option_result (\<lambda>r. gif_from_record L (dg_gif r))
            (find (\<lambda>r. dg_conversation r = k \<and> dg_actor r = a) (draft_gifs s))) (\<lambda>g.
          bind_ok (case identifier_try_from (ar_id (dr_actor d)) of
              Inl _ \<Rightarrow> Inl (Internal ''invalid draft actor ID loaded from DM database'') | Inr i \<Rightarrow> Inr i) (\<lambda>i.
            Inr \<lparr>df_metadata = dr_metadata d, df_reply_to = dr_reply_to d, df_conversation = dr_conversation d,
                 df_actor_id = i, df_version = dr_version d, df_message_content = dr_text d, df_attachments = as,
                 df_voice = v, df_voice_transcript = dr_transcript d, df_gif = g, df_updated_at = dr_updated_at d\<rparr>))))"

definition get_draft :: "store_lib \<Rightarrow> actor_ref \<Rightarrow> uuid \<Rightarrow> db \<Rightarrow> draft app_result" where
  "get_draft L owner k s = bind_ok (require_participant s owner k) (\<lambda>part. load_draft_in L part owner k s)"

section \<open>Saving\<close>

definition conversion_error :: app_error where
  "conversion_error = validation ''out of range integral type conversion attempted''"

definition draft_attachment_key :: "draft_attachment_row \<Rightarrow> uuid \<times> actor_ref \<times> int" where
  "draft_attachment_key r = (da_conversation r, da_actor r, da_position r)"

definition insert_draft_attachment ::
  "uuid \<Rightarrow> actor_ref \<Rightarrow> attachment_kind \<Rightarrow> nat \<times> attachment \<Rightarrow> nat option \<Rightarrow> draft_attachment_row list \<Rightarrow>
     draft_attachment_row list app_result" where
  "insert_draft_attachment k owner kind pa duration t =
     (case pa of (position, a) \<Rightarrow>
       if int position > i16_max then Inl (Internal ''out of range integral type conversion attempted'')
       else if is_some_and (\<lambda>n. int n > i64_max) (at_size a) then Inl conversion_error
       else if is_some_and (\<lambda>n. int n > i64_max) duration then Inl conversion_error
       else insert_row draft_attachment_key
         \<lparr>da_conversation = k, da_actor = owner, da_position = int position, da_kind = kind, da_url = u_text (at_url a),
          da_name = at_name a, da_content_type = at_content_type a, da_size = map_option int (at_size a),
          da_duration = map_option int duration\<rparr> t)"

definition insert_draft_children :: "uuid \<Rightarrow> actor_ref \<Rightarrow> draft_input \<Rightarrow> db \<Rightarrow> db app_result" where
  "insert_draft_children k a input s =
     bind_ok (fold_result (\<lambda>pa. insert_draft_attachment k a AttachmentKind pa None)
                (enumerate 0 (di_attachments input)) (draft_attachments s)) (\<lambda>t.
     bind_ok (case di_voice input of None \<Rightarrow> Inr t
              | Some v \<Rightarrow> insert_draft_attachment k a VoiceKind (100, as_attachment v) (vo_duration v) t) (\<lambda>t'.
     bind_ok (case di_gif input of None \<Rightarrow> Inr (draft_gifs s)
              | Some g \<Rightarrow> insert_row (\<lambda>r. (dg_conversation r, dg_actor r))
                  \<lparr>dg_conversation = k, dg_actor = a, dg_gif = g\<rparr> (draft_gifs s)) (\<lambda>gs.
       Inr (s\<lparr>draft_attachments := t', draft_gifs := gs\<rparr>))))"

definition delete_draft_children_by_owner :: "uuid \<Rightarrow> actor_ref \<Rightarrow> db \<Rightarrow> db" where
  "delete_draft_children_by_owner k a s =
     s\<lparr>draft_attachments := sql_delete (\<lambda>r. da_conversation r = k \<and> da_actor r = a) (draft_attachments s),
       draft_gifs := sql_delete (\<lambda>r. dg_conversation r = k \<and> dg_actor r = a) (draft_gifs s)\<rparr>"

text \<open>Trigger \<open>allocate_draft_version\<close> on an insert: the version continues where the counter of the
  participant stands.\<close>

definition counter_key :: "draft_counter_row \<Rightarrow> uuid \<times> actor_ref" where
  "counter_key c = (dc_conversation c, dc_actor c)"

definition counter_version :: "uuid \<Rightarrow> actor_ref \<Rightarrow> db \<Rightarrow> int" where
  "counter_version k a s = (case find (\<lambda>c. counter_key c = (k, a)) (draft_counters s) of None \<Rightarrow> 0 | Some c \<Rightarrow> dc_version c)"

definition with_input :: "instant \<Rightarrow> nat list \<Rightarrow> draft_input \<Rightarrow> draft_row \<Rightarrow> draft_row" where
  "with_input now h input d = d\<lparr>dr_text := di_message_content input, dr_transcript := di_voice_transcript input,
     dr_hash_version := 3, dr_hash := h, dr_metadata := di_metadata input, dr_reply_to := di_reply_to input,
     dr_updated_at := now\<rparr>"

definition insert_draft_in ::
  "instant \<Rightarrow> str \<Rightarrow> uuid \<Rightarrow> actor_ref \<Rightarrow> nat list \<Rightarrow> draft_input \<Rightarrow> db \<Rightarrow> db app_result" where
  "insert_draft_in now part k a h input s =
     (let version = counter_version k a s + 1 in
      if \<not> is_i64 version then Inl (Database ''bigint out of range'')
      else if \<not> reply_ok part k (di_reply_to input) s then Inl NotFound
      else
        bind_ok (insert_row (\<lambda>d. (dr_conversation d, dr_actor d))
          (with_input now h input
            \<lparr>dr_conversation = k, dr_partition = part, dr_actor = a, dr_version = version, dr_text = None,
             dr_transcript = None, dr_hash_version = 3, dr_hash = h, dr_metadata = [], dr_reply_to = None,
             dr_updated_at = now\<rparr>) (drafts s)) (\<lambda>ds.
        Inr (s\<lparr>drafts := ds, draft_counters := upsert counter_key
          \<lparr>dc_conversation = k, dc_actor = a, dc_version = 1\<rparr> (\<lambda>c. c\<lparr>dc_version := dc_version c + 1\<rparr>) (draft_counters s)\<rparr>)))"

definition update_draft_in ::
  "instant \<Rightarrow> str \<Rightarrow> uuid \<Rightarrow> actor_ref \<Rightarrow> nat list \<Rightarrow> draft_input \<Rightarrow> db \<Rightarrow> db app_result" where
  "update_draft_in now part k a h input s =
     (if \<not> reply_ok part k (di_reply_to input) s then Inl NotFound
      else bind_ok (advance_drafts (draft_at part k a) (with_input now h input) s) (\<lambda>(_, s').
        Inr (delete_draft_children_by_owner k a s')))"

datatype put_draft_outcome = SavedDraft draft | DraftConflict draft

definition write_draft ::
  "env \<Rightarrow> str \<Rightarrow> uuid \<Rightarrow> actor_ref \<Rightarrow> int option \<Rightarrow> draft_input \<Rightarrow> db \<Rightarrow> db option app_result" where
  "write_draft E part k a expected input s =
     (let h = draft_content_digest (e_digest E) (e_uuid E) input in
      case find (draft_at part k a) (drafts s) of
        None \<Rightarrow>
          if (case expected of None \<Rightarrow> 0 | Some v \<Rightarrow> v) = 0
          then bind_ok (insert_draft_in (e_now E) part k a h input s) (\<lambda>s'. Inr (Some s'))
          else Inl (conflict ''draft was deleted after the supplied version was observed'')
      | Some d \<Rightarrow>
          if expected = Some (dr_version d)
          then bind_ok (update_draft_in (e_now E) part k a h input s) (\<lambda>s'. Inr (Some s'))
          else Inr None)"

definition put_draft ::
  "store_lib \<Rightarrow> env \<Rightarrow> uuid \<Rightarrow> actor_ref \<Rightarrow> int option \<Rightarrow> draft_input \<Rightarrow> db \<Rightarrow> (put_draft_outcome \<times> db) app_result" where
  "put_draft L E k a expected input s =
     bind_ok (case draft_validate input of Inl e \<Rightarrow> Inl (validation e) | Inr _ \<Rightarrow> Inr ()) (\<lambda>_.
     bind_ok (partition_of s k) (\<lambda>part.
     if \<not> (sql_exists (\<lambda>p. p_conversation p = k \<and> p_partition p = part \<and> p_actor p = a) (participants s) \<and>
           sql_exists (\<lambda>p. p_conversation p = k \<and> p_partition p = part \<and> p_actor p = a)
             (effective_conversation_participants s))
     then Inl NotFound
     else
       bind_ok (write_draft E part k a expected input s) (\<lambda>written.
       case written of
         None \<Rightarrow> bind_ok (load_draft_in L part a k s) (\<lambda>d. Inr (DraftConflict d, s))
       | Some s1 \<Rightarrow>
           bind_ok (insert_draft_children k a input s1) (\<lambda>s2.
           bind_ok (load_draft_in L part a k s2) (\<lambda>d. Inr (SavedDraft d, s2))))))"

definition delete_draft :: "env \<Rightarrow> actor_ref \<Rightarrow> uuid \<Rightarrow> db \<Rightarrow> db app_result" where
  "delete_draft E a k s =
     bind_ok (require_participant s a k) (\<lambda>part.
     bind_ok (advance_drafts (draft_at part k a) (\<lambda>d. d\<lparr>dr_updated_at := e_now E\<rparr>) s) (\<lambda>(n, s1).
       if n = 0 then Inr s
       else
         let s2 = delete_draft_children_by_owner k a s1 in
         Inr (s2\<lparr>drafts := sql_delete (draft_at part k a) (drafts s2)\<rparr>)))"

section \<open>Versions\<close>

definition draft_owner :: "draft_row \<Rightarrow> uuid \<times> actor_ref" where
  "draft_owner d = (dr_conversation d, dr_actor d)"

text \<open>The draft tables are sound: one draft and one counter per participant, the counter stands at the
  version of the draft, and children belong to a draft.\<close>

definition drafts_ok :: "db \<Rightarrow> bool" where
  "drafts_ok s \<longleftrightarrow> keyed draft_owner (drafts s) \<and> keyed counter_key (draft_counters s) \<and>
     (\<forall>d\<in>set (drafts s). \<exists>c\<in>set (draft_counters s). counter_key c = draft_owner d \<and> dc_version c = dr_version d) \<and>
     (\<forall>c\<in>set (draft_counters s). 1 \<le> dc_version c) \<and>
     (\<forall>r\<in>set (draft_attachments s). (da_conversation r, da_actor r) \<in> draft_owner ` set (drafts s)) \<and>
     (\<forall>r\<in>set (draft_gifs s). (dg_conversation r, dg_actor r) \<in> draft_owner ` set (drafts s))"

lemma drafts_okD:
  assumes "drafts_ok s"
  shows "keyed draft_owner (drafts s)" "keyed counter_key (draft_counters s)"
    "d \<in> set (drafts s) \<Longrightarrow> counter_version (dr_conversation d) (dr_actor d) s = dr_version d"
    "0 \<le> counter_version k a s"
proof -
  show k: "keyed draft_owner (drafts s)" "keyed counter_key (draft_counters s)" using assms by (simp_all add: drafts_ok_def)
  show "counter_version (dr_conversation d) (dr_actor d) s = dr_version d" if d: "d \<in> set (drafts s)"
  proof -
    obtain c where c: "c \<in> set (draft_counters s)" "counter_key c = draft_owner d" "dc_version c = dr_version d"
      using assms d unfolding drafts_ok_def by blast
    have "find (\<lambda>x. counter_key x = counter_key c) (draft_counters s) = Some c" by (rule find_keyed [OF k(2) c(1)])
    with c(2,3) show ?thesis by (simp add: counter_version_def draft_owner_def)
  qed
  show "0 \<le> counter_version k a s"
    using assms by (force simp: counter_version_def drafts_ok_def split: option.splits dest: find_Some_in)
qed

lemma counter_of_iff: "counter_of d c \<longleftrightarrow> counter_key c = draft_owner d"
  by (auto simp: counter_of_def counter_key_def draft_owner_def)

text \<open>An update of one participant's draft moves its version and its counter by one.\<close>

definition one_owner :: "(draft_row \<Rightarrow> bool) \<Rightarrow> uuid \<Rightarrow> actor_ref \<Rightarrow> bool" where
  "one_owner p k a \<longleftrightarrow> (\<forall>d. p d \<longrightarrow> draft_owner d = (k, a))"

lemma rows_affected_one:
  assumes "keyed draft_owner t" "one_owner p k a"
  shows "rows_affected p t = (if \<exists>d\<in>set t. p d then 1 else 0)"
proof -
  have "rows_affected p t = rows_affected (\<lambda>d. draft_owner d = (k, a) \<and> p d) t"
    using assms(2) unfolding rows_affected_def one_owner_def by (intro arg_cong [where f = length] filter_cong) auto
  then show ?thesis using rows_affected_keyed [OF assms(1), of "(k, a)" p] assms(2) by (auto simp: one_owner_def)
qed

lemma advance_drafts_rows:
  assumes ok: "drafts_ok s" and adv: "advance_drafts p f s = Inr (n, s')" and p: "one_owner p k a"
  shows "n = (if \<exists>d\<in>set (drafts s). p d then 1 else 0)"
    "draft_counters s' = sql_update (\<lambda>c. counter_key c = (k, a) \<and> n = 1) (\<lambda>c. c\<lparr>dc_version := dc_version c + 1\<rparr>) (draft_counters s)"
    "drafts s' = sql_update p (\<lambda>d. (f d)\<lparr>dr_version := dr_version d + 1\<rparr>) (drafts s)"
    "draft_attachments s' = draft_attachments s" "draft_gifs s' = draft_gifs s"
    "n = 1 \<Longrightarrow> \<exists>c\<in>set (draft_counters s). counter_key c = (k, a)"
proof -
  show n: "n = (if \<exists>d\<in>set (drafts s). p d then 1 else 0)"
    using adv rows_affected_one [OF drafts_okD(1) [OF ok] p] by (auto simp: advance_drafts_def split: if_splits)
  show "drafts s' = sql_update p (\<lambda>d. (f d)\<lparr>dr_version := dr_version d + 1\<rparr>) (drafts s)"
    "draft_attachments s' = draft_attachments s" "draft_gifs s' = draft_gifs s"
    using adv by (auto simp: advance_drafts_def split: if_splits)
  have "draft_counters s' = sql_update (\<lambda>c. sql_exists (\<lambda>d. p d \<and> counter_of d c) (drafts s))
            (\<lambda>c. c\<lparr>dc_version := dc_version c + 1\<rparr>) (draft_counters s)"
    using adv by (auto simp: advance_drafts_def split: if_splits)
  moreover have "sql_exists (\<lambda>d. p d \<and> counter_of d c) (drafts s) \<longleftrightarrow> counter_key c = (k, a) \<and> n = 1" for c
    using p n by (auto simp: sql_exists_def counter_of_iff one_owner_def)
  ultimately show "draft_counters s' = sql_update (\<lambda>c. counter_key c = (k, a) \<and> n = 1) (\<lambda>c. c\<lparr>dc_version := dc_version c + 1\<rparr>) (draft_counters s)"
    by simp
  assume "n = 1"
  then obtain d where "d \<in> set (drafts s)" "p d" using n by (metis zero_neq_one)
  then show "\<exists>c\<in>set (draft_counters s). counter_key c = (k, a)"
    using adv p by (fastforce simp: advance_drafts_def counter_of_iff sql_exists_def one_owner_def split: if_splits)
qed

lemma advance_drafts_counter:
  assumes ok: "drafts_ok s" and adv: "advance_drafts p f s = Inr (n, s')" and p: "one_owner p k a"
  shows "counter_version j b s' = (if (j, b) = (k, a) then counter_version j b s + int n else counter_version j b s)"
proof -
  note rows = advance_drafts_rows [OF ok adv p]
  have fnd: "find (\<lambda>c. counter_key c = x) (draft_counters s') =
      map_option (\<lambda>c. if counter_key c = (k, a) \<and> n = 1 then c\<lparr>dc_version := dc_version c + 1\<rparr> else c)
        (find (\<lambda>c. counter_key c = x) (draft_counters s))" for x
    unfolding rows(2) by (rule find_keyed_update) (simp add: counter_key_def)
  show ?thesis
  proof (cases "(j, b) = (k, a) \<and> n = 1")
    case True
    then obtain c where c: "c \<in> set (draft_counters s)" "counter_key c = (k, a)" using rows(6) by blast
    then have "find (\<lambda>x. counter_key x = (k, a)) (draft_counters s) = Some c"
      using find_keyed [OF drafts_okD(2) [OF ok] c(1)] by simp
    with True c(2) show ?thesis by (simp add: counter_version_def fnd)
  next
    case False
    with rows(1) show ?thesis
      by (auto simp: counter_version_def fnd split: option.splits if_splits dest: find_Some_in)
  qed
qed

lemma advance_drafts_ok:
  assumes ok: "drafts_ok s" and adv: "advance_drafts p f s = Inr (n, s')" and p: "one_owner p k a"
    and f: "\<And>d. draft_owner (f d) = draft_owner d"
  shows "drafts_ok s'" "draft_owner ` set (drafts s') = draft_owner ` set (drafts s)"
proof -
  note rows = advance_drafts_rows [OF ok adv p] and kd = drafts_okD(1) [OF ok] and kc = drafts_okD(2) [OF ok]
  let ?up = "\<lambda>d. (f d)\<lparr>dr_version := dr_version d + 1\<rparr>"
  have up: "draft_owner (?up d) = draft_owner d" for d using f [of d] by (simp add: draft_owner_def)
  show owners: "draft_owner ` set (drafts s') = draft_owner ` set (drafts s)"
    using arg_cong [OF map_key_sql_update [of p draft_owner ?up "drafts s"], of set] up by (simp add: rows(3))
  have "\<exists>c\<in>set (draft_counters s'). counter_key c = draft_owner d \<and> dc_version c = dr_version d" if d: "d \<in> set (drafts s')" for d
  proof -
    obtain d0 where d0: "d0 \<in> set (drafts s)" "d = (if p d0 then ?up d0 else d0)" using d by (auto simp: rows(3) sql_update_def)
    obtain c where c: "c \<in> set (draft_counters s)" "counter_key c = draft_owner d0" "dc_version c = dr_version d0"
      using ok d0(1) unfolding drafts_ok_def by blast
    have moved: "p d0 \<longleftrightarrow> counter_key c = (k, a) \<and> n = 1"
    proof
      assume "counter_key c = (k, a) \<and> n = 1"
      moreover from this obtain d1 where d1: "d1 \<in> set (drafts s)" "p d1" using rows(1) by (metis zero_neq_one)
      ultimately have "draft_owner d1 = draft_owner d0" using p c(2) by (simp add: one_owner_def)
      with keyed_unique [OF kd d1(1) d0(1)] d1(2) show "p d0" by simp
    qed (use p c(2) d0(1) rows(1) in \<open>auto simp: one_owner_def\<close>)
    let ?c = "if counter_key c = (k, a) \<and> n = 1 then c\<lparr>dc_version := dc_version c + 1\<rparr> else c"
    have "?c \<in> set (draft_counters s')" using c(1) by (auto simp: rows(2) sql_update_def)
    moreover have "counter_key ?c = draft_owner d" "dc_version ?c = dr_version d"
      using c(2,3) moved up [of d0] by (auto simp: d0(2) counter_key_def)
    ultimately show ?thesis by blast
  qed
  moreover have "\<forall>c\<in>set (draft_counters s'). 1 \<le> dc_version c"
    using ok by (auto simp: rows(2) set_sql_update drafts_ok_def)
  moreover have "keyed draft_owner (drafts s')" using kd up by (simp add: rows(3) keyed_sql_update)
  moreover have "keyed counter_key (draft_counters s')" using kc by (auto simp: rows(2) counter_key_def intro!: keyed_sql_update)
  ultimately show "drafts_ok s'" using ok by (simp add: drafts_ok_def owners rows(4,5))
qed

lemma drafts_ok_iff:
  "drafts_ok s \<longleftrightarrow> keyed draft_owner (drafts s) \<and> keyed counter_key (draft_counters s) \<and>
     (\<forall>d\<in>set (drafts s). counter_version (dr_conversation d) (dr_actor d) s = dr_version d \<and> 1 \<le> dr_version d) \<and>
     (\<forall>c\<in>set (draft_counters s). 1 \<le> dc_version c) \<and>
     (\<forall>r\<in>set (draft_attachments s). (da_conversation r, da_actor r) \<in> draft_owner ` set (drafts s)) \<and>
     (\<forall>r\<in>set (draft_gifs s). (dg_conversation r, dg_actor r) \<in> draft_owner ` set (drafts s))" (is "?l \<longleftrightarrow> ?r")
proof
  assume ok: ?l
  have "1 \<le> dr_version d" if "d \<in> set (drafts s)" for d
    using ok that unfolding drafts_ok_def by (metis (full_types))
  with ok drafts_okD(3) [OF ok] show ?r by (simp add: drafts_ok_def)
next
  assume r: ?r
  have "\<exists>c\<in>set (draft_counters s). counter_key c = draft_owner d \<and> dc_version c = dr_version d" if "d \<in> set (drafts s)" for d
  proof -
    have v: "counter_version (dr_conversation d) (dr_actor d) s = dr_version d" "1 \<le> dr_version d" using r that by auto
    then obtain c where c: "find (\<lambda>c. counter_key c = draft_owner d) (draft_counters s) = Some c" "dc_version c = dr_version d"
      by (auto simp: counter_version_def draft_owner_def split: option.splits)
    with find_Some_in [OF c(1)] show ?thesis by blast
  qed
  with r show ?l by (simp add: drafts_ok_def)
qed

lemma insert_draft_effect:
  assumes ok: "drafts_ok s" and ins: "insert_draft_in now part k a h input s = Inr s'"
  shows "drafts_ok s'" "counter_version j b s' = (if (j, b) = (k, a) then counter_version k a s + 1 else counter_version j b s)"
    "\<exists>d. drafts s' = drafts s @ [d] \<and> draft_at part k a d \<and> dr_version d = counter_version k a s + 1 \<and>
       dr_text d = di_message_content input \<and> dr_transcript d = di_voice_transcript input \<and>
       dr_metadata d = di_metadata input \<and> dr_reply_to d = di_reply_to input"
    "(k, a) \<notin> draft_owner ` set (drafts s)" "draft_attachments s' = draft_attachments s" "draft_gifs s' = draft_gifs s"
proof -
  let ?up = "\<lambda>c. c\<lparr>dc_version := dc_version c + 1\<rparr>" and ?c = "\<lparr>dc_conversation = k, dc_actor = a, dc_version = 1\<rparr>"
  let ?d = "with_input now h input \<lparr>dr_conversation = k, dr_partition = part, dr_actor = a,
      dr_version = counter_version k a s + 1, dr_text = None, dr_transcript = None, dr_hash_version = 3, dr_hash = h,
      dr_metadata = [], dr_reply_to = None, dr_updated_at = now\<rparr>"
  have new: "\<not> sql_exists (\<lambda>x. draft_owner x = draft_owner ?d) (drafts s)"
    and s': "s' = s\<lparr>drafts := drafts s @ [?d], draft_counters := upsert counter_key ?c ?up (draft_counters s)\<rparr>"
    using ins by (auto simp: insert_draft_in_def Let_def draft_owner_def split: if_splits)
  have own: "draft_owner ?d = (k, a)" by (simp add: with_input_def draft_owner_def)
  show fresh: "(k, a) \<notin> draft_owner ` set (drafts s)" using new by (auto simp: sql_exists_def own)
  show "draft_attachments s' = draft_attachments s" "draft_gifs s' = draft_gifs s" by (simp_all add: s')
  show "\<exists>d. drafts s' = drafts s @ [d] \<and> draft_at part k a d \<and> dr_version d = counter_version k a s + 1 \<and>
       dr_text d = di_message_content input \<and> dr_transcript d = di_voice_transcript input \<and>
       dr_metadata d = di_metadata input \<and> dr_reply_to d = di_reply_to input"
    by (intro exI [of _ ?d]) (simp add: s' with_input_def draft_at_def own_draft_def)
  have ck: "counter_key ?c = (k, a)" by (simp add: counter_key_def)
  have dc: "draft_counters s' = upsert counter_key ?c ?up (draft_counters s)" by (simp add: s')
  have fnd: "find (\<lambda>x. counter_key x = y) (draft_counters s') =
      (case find (\<lambda>x. counter_key x = y) (draft_counters s) of
         None \<Rightarrow> if y = counter_key ?c then Some ?c else None | Some x \<Rightarrow> Some (if y = counter_key ?c then ?up x else x))" for y
    unfolding dc by (rule find_upsert) (simp add: counter_key_def)
  show cnt: "counter_version j b s' = (if (j, b) = (k, a) then counter_version k a s + 1 else counter_version j b s)" for j b
    by (auto simp: counter_version_def fnd ck split: option.splits)
  have kc: "keyed counter_key (draft_counters s')"
    using drafts_okD(2) [OF ok] by (auto simp: s' counter_key_def intro!: keyed_upsert)
  have "counter_version (dr_conversation d) (dr_actor d) s' = dr_version d \<and> 1 \<le> dr_version d"
    if d: "d \<in> set (drafts s')" for d
  proof (cases "draft_owner d = (k, a)")
    case True
    then have "d = ?d" using d fresh by (force simp: s')
    then show ?thesis using cnt drafts_okD(4) [OF ok, of k a] by (simp add: with_input_def)
  next
    case False
    then have "d \<in> set (drafts s)" using d own by (auto simp: s')
    with ok False cnt show ?thesis by (auto simp: drafts_ok_iff draft_owner_def)
  qed
  moreover have "\<forall>c\<in>set (draft_counters s'). 1 \<le> dc_version c"
    using ok by (auto simp: s' set_upsert drafts_ok_def)
  moreover have "keyed draft_owner (drafts s')"
    using drafts_okD(1) [OF ok] new by (simp add: s' keyed_append_new)
  ultimately show "drafts_ok s'" using ok kc by (auto simp: drafts_ok_iff s')
qed

lemma one_owner_at: "one_owner (draft_at part k a) k a" "one_owner (\<lambda>d. own_draft k a d \<and> P d) k a"
  by (auto simp: one_owner_def draft_at_def own_draft_def draft_owner_def)

lemma with_input_owner: "draft_owner (with_input now h input d) = draft_owner d"
  by (simp add: with_input_def draft_owner_def)

lemma delete_children_ok:
  assumes "drafts_ok s"
  shows "drafts_ok (delete_draft_children_by_owner k a s)"
  using assms by (auto simp: drafts_ok_def delete_draft_children_by_owner_def sql_simps)

lemma update_draft_effect:
  assumes ok: "drafts_ok s" and up: "update_draft_in now part k a h input s = Inr s'"
    and d: "d \<in> set (drafts s)" "draft_at part k a d"
  shows "drafts_ok s'" "counter_version j b s' = (if (j, b) = (k, a) then counter_version k a s + 1 else counter_version j b s)"
    "drafts s' = sql_update (draft_at part k a) (\<lambda>d. (with_input now h input d)\<lparr>dr_version := dr_version d + 1\<rparr>) (drafts s)"
    "draft_attachments s' = sql_delete (\<lambda>r. da_conversation r = k \<and> da_actor r = a) (draft_attachments s)"
    "draft_gifs s' = sql_delete (\<lambda>r. dg_conversation r = k \<and> dg_actor r = a) (draft_gifs s)"
proof -
  obtain n s1 where adv: "advance_drafts (draft_at part k a) (with_input now h input) s = Inr (n, s1)"
    and s': "s' = delete_draft_children_by_owner k a s1"
    using up by (auto simp: update_draft_in_def split: if_splits)
  note rows = advance_drafts_rows [OF ok adv one_owner_at(1)] and cnt = advance_drafts_counter [OF ok adv one_owner_at(1)]
  have ok1: "drafts_ok s1" by (rule advance_drafts_ok(1) [OF ok adv one_owner_at(1)]) (rule with_input_owner)
  show "drafts_ok s'" unfolding s' by (rule delete_children_ok [OF ok1])
  have "n = 1" using rows(1) d by auto
  then show "counter_version j b s' = (if (j, b) = (k, a) then counter_version k a s + 1 else counter_version j b s)"
    using cnt by (auto simp: s' delete_draft_children_by_owner_def counter_version_def)
  show "drafts s' = sql_update (draft_at part k a) (\<lambda>d. (with_input now h input d)\<lparr>dr_version := dr_version d + 1\<rparr>) (drafts s)"
    "draft_attachments s' = sql_delete (\<lambda>r. da_conversation r = k \<and> da_actor r = a) (draft_attachments s)"
    "draft_gifs s' = sql_delete (\<lambda>r. dg_conversation r = k \<and> dg_actor r = a) (draft_gifs s)"
    using rows by (simp_all add: s' delete_draft_children_by_owner_def)
qed

text \<open>What a write leaves: a draft with the next version and the new content, no children yet, and every
  other draft as it was.\<close>

definition draft_written :: "str \<Rightarrow> uuid \<Rightarrow> actor_ref \<Rightarrow> draft_input \<Rightarrow> db \<Rightarrow> db \<Rightarrow> bool" where
  "draft_written part k a input s s' \<longleftrightarrow> drafts_ok s' \<and>
     (\<forall>j b. counter_version j b s' = (if (j, b) = (k, a) then counter_version k a s + 1 else counter_version j b s)) \<and>
     (\<exists>d\<in>set (drafts s'). draft_at part k a d \<and> dr_version d = counter_version k a s + 1 \<and>
        dr_text d = di_message_content input \<and> dr_transcript d = di_voice_transcript input \<and>
        dr_metadata d = di_metadata input \<and> dr_reply_to d = di_reply_to input) \<and>
     filter (\<lambda>d. draft_owner d \<noteq> (k, a)) (drafts s') = filter (\<lambda>d. draft_owner d \<noteq> (k, a)) (drafts s) \<and>
     (\<forall>r\<in>set (draft_attachments s'). (da_conversation r, da_actor r) \<noteq> (k, a)) \<and>
     (\<forall>r\<in>set (draft_gifs s'). (dg_conversation r, dg_actor r) \<noteq> (k, a))"

lemma insert_draft_written:
  assumes ok: "drafts_ok s" and ins: "insert_draft_in now part k a h input s = Inr s'"
  shows "draft_written part k a input s s'"
proof -
  note eff = insert_draft_effect [OF ok ins]
  from eff(3) obtain d where d: "drafts s' = drafts s @ [d]" "draft_at part k a d" "dr_version d = counter_version k a s + 1"
    "dr_text d = di_message_content input" "dr_transcript d = di_voice_transcript input"
    "dr_metadata d = di_metadata input" "dr_reply_to d = di_reply_to input" by blast
  have "draft_owner d = (k, a)" using one_owner_at(1) d(2) unfolding one_owner_def by blast
  moreover have "\<forall>r\<in>set (draft_attachments s'). (da_conversation r, da_actor r) \<noteq> (k, a)"
    "\<forall>r\<in>set (draft_gifs s'). (dg_conversation r, dg_actor r) \<noteq> (k, a)"
    using ok eff(4-6) unfolding drafts_ok_def by metis+
  ultimately show ?thesis using eff(1,2,4) d by (auto simp: draft_written_def)
qed

lemma update_draft_written:
  assumes ok: "drafts_ok s" and up: "update_draft_in now part k a h input s = Inr s'"
    and d: "d \<in> set (drafts s)" "draft_at part k a d"
  shows "draft_written part k a input s s'"
proof -
  note eff = update_draft_effect [OF ok up d]
  have v: "dr_version d = counter_version k a s"
    using drafts_okD(3) [OF ok d(1)] d(2) by (simp add: draft_at_def own_draft_def)
  let ?d = "(with_input now h input d)\<lparr>dr_version := dr_version d + 1\<rparr>"
  have "?d \<in> set (drafts s')" using d by (auto simp: eff(3) set_sql_update)
  moreover have "draft_at part k a ?d" using d(2) by (simp add: draft_at_def own_draft_def with_input_def)
  moreover have "filter (\<lambda>d. draft_owner d \<noteq> (k, a)) (drafts s') = filter (\<lambda>d. draft_owner d \<noteq> (k, a)) (drafts s)"
    unfolding eff(3) by (rule filter_sql_update) (auto simp: draft_at_def own_draft_def draft_owner_def with_input_def)
  moreover have "dr_version ?d = counter_version k a s + 1" "dr_text ?d = di_message_content input"
    "dr_transcript ?d = di_voice_transcript input" "dr_metadata ?d = di_metadata input" "dr_reply_to ?d = di_reply_to input"
    using v by (simp_all add: with_input_def)
  ultimately show ?thesis unfolding draft_written_def using eff(1,2,4,5) by (auto simp: sql_simps)
qed

lemma write_draft_effect:
  assumes ok: "drafts_ok s" and w: "write_draft E part k a expected input s = Inr (Some s')"
  shows "draft_written part k a input s s'"
    and "(expected = Some (counter_version k a s) \<and> (\<exists>d\<in>set (drafts s). draft_at part k a d)) \<or>
     (expected \<in> {None, Some 0} \<and> (k, a) \<notin> draft_owner ` set (drafts s))"
proof -
  let ?h = "draft_content_digest (e_digest E) (e_uuid E) input"
  consider (new) "insert_draft_in (e_now E) part k a ?h input s = Inr s'" "(case expected of None \<Rightarrow> 0 | Some v \<Rightarrow> v) = 0"
    | (old) d where "find (draft_at part k a) (drafts s) = Some d" "update_draft_in (e_now E) part k a ?h input s = Inr s'"
      "expected = Some (dr_version d)"
    using w by (auto simp: write_draft_def Let_def split: option.splits if_splits)
  then have "draft_written part k a input s s' \<and> ((expected = Some (counter_version k a s) \<and> (\<exists>d\<in>set (drafts s). draft_at part k a d)) \<or>
     (expected \<in> {None, Some 0} \<and> (k, a) \<notin> draft_owner ` set (drafts s)))"
  proof cases
    case new
    then have "expected \<in> {None, Some 0}" by (auto split: option.splits)
    with insert_draft_written [OF ok new(1)] insert_draft_effect(4) [OF ok new(1)] show ?thesis by blast
  next
    case old
    then have d: "d \<in> set (drafts s)" "draft_at part k a d" using find_Some_in [OF old(1)] by auto
    moreover have "dr_version d = counter_version k a s"
      using drafts_okD(3) [OF ok d(1)] d(2) by (simp add: draft_at_def own_draft_def)
    ultimately show ?thesis using update_draft_written [OF ok old(2) d] old(3) by auto
  qed
  then show "draft_written part k a input s s'"
    and "(expected = Some (counter_version k a s) \<and> (\<exists>d\<in>set (drafts s). draft_at part k a d)) \<or>
     (expected \<in> {None, Some 0} \<and> (k, a) \<notin> draft_owner ` set (drafts s))"
    by blast+
qed

section \<open>Saved content reads back\<close>

definition child_row :: "uuid \<Rightarrow> actor_ref \<Rightarrow> attachment_kind \<Rightarrow> nat option \<Rightarrow> nat \<times> attachment \<Rightarrow> draft_attachment_row" where
  "child_row k a kind duration pa = \<lparr>da_conversation = k, da_actor = a, da_position = int (fst pa), da_kind = kind,
     da_url = u_text (at_url (snd pa)), da_name = at_name (snd pa), da_content_type = at_content_type (snd pa),
     da_size = map_option int (at_size (snd pa)), da_duration = map_option int duration\<rparr>"

definition child_rows :: "uuid \<Rightarrow> actor_ref \<Rightarrow> draft_input \<Rightarrow> draft_attachment_row list" where
  "child_rows k a input = map (child_row k a AttachmentKind None) (enumerate 0 (di_attachments input)) @
     (case di_voice input of None \<Rightarrow> [] | Some v \<Rightarrow> [child_row k a VoiceKind (vo_duration v) (100, as_attachment v)])"

lemma insert_draft_attachment_ok:
  "insert_draft_attachment k a kind pa duration t = Inr t' \<Longrightarrow> t' = t @ [child_row k a kind duration pa]"
  by (auto simp: insert_draft_attachment_def child_row_def split: prod.splits if_splits)

lemma insert_draft_attachments_ok:
  "fold_result (\<lambda>pa. insert_draft_attachment k a kind pa duration) xs t = Inr t' \<Longrightarrow>
     t' = t @ map (child_row k a kind duration) xs"
proof (induction xs arbitrary: t)
  case (Cons x xs)
  then obtain t1 where t1: "insert_draft_attachment k a kind x duration t = Inr t1"
    "fold_result (\<lambda>pa. insert_draft_attachment k a kind pa duration) xs t1 = Inr t'" by auto
  from Cons.IH [OF t1(2)] insert_draft_attachment_ok [OF t1(1)] show ?case by simp
qed simp

lemma insert_draft_children_ok:
  assumes "insert_draft_children k a input s = Inr s'"
  shows "s' = s\<lparr>draft_attachments := draft_attachments s @ child_rows k a input,
    draft_gifs := draft_gifs s @ map (\<lambda>g. \<lparr>dg_conversation = k, dg_actor = a, dg_gif = g\<rparr>) (flatten_option (di_gif input))\<rparr>"
proof -
  obtain t t' gs where t: "fold_result (\<lambda>pa. insert_draft_attachment k a AttachmentKind pa None)
      (enumerate 0 (di_attachments input)) (draft_attachments s) = Inr t"
    and t': "(case di_voice input of None \<Rightarrow> Inr t
      | Some v \<Rightarrow> insert_draft_attachment k a VoiceKind (100, as_attachment v) (vo_duration v) t) = Inr t'"
    and gs: "(case di_gif input of None \<Rightarrow> Inr (draft_gifs s)
      | Some g \<Rightarrow> insert_row (\<lambda>r. (dg_conversation r, dg_actor r)) \<lparr>dg_conversation = k, dg_actor = a, dg_gif = g\<rparr> (draft_gifs s)) = Inr gs"
    and s': "s' = s\<lparr>draft_attachments := t', draft_gifs := gs\<rparr>"
    using assms by (auto simp: insert_draft_children_def)
  have "t' = draft_attachments s @ child_rows k a input"
    using t' insert_draft_attachments_ok [OF t]
    by (auto simp: child_rows_def split: option.splits dest: insert_draft_attachment_ok)
  moreover have "gs = draft_gifs s @ map (\<lambda>g. \<lparr>dg_conversation = k, dg_actor = a, dg_gif = g\<rparr>) (flatten_option (di_gif input))"
    using gs by (auto simp: flatten_option_def split: option.splits)
  ultimately show ?thesis by (simp add: s')
qed

lemma content_eta:
  "\<lparr>at_url = at_url x, at_name = at_name x, at_content_type = at_content_type x, at_size = at_size x\<rparr> = x"
  "\<lparr>vo_url = vo_url v, vo_name = vo_name v, vo_content_type = vo_content_type v, vo_size = vo_size v, vo_duration = vo_duration v\<rparr> = v"
  "\<lparr>gif_provider_id = gif_provider_id g, gif_url = gif_url g, gif_preview_url = gif_preview_url g, gif_title = gif_title g\<rparr> = g"
  by simp_all

lemma draft_children_attachments:
  assumes "\<forall>x\<in>set xs. sl_url L (u_text (at_url (snd x))) = Some (at_url (snd x))"
  shows "draft_children L (map (child_row k a AttachmentKind None) xs @ rs) as v =
    draft_children L rs (as @ map snd xs) v"
  using assms
proof (induction xs arbitrary: as)
  case (Cons x xs)
  have "option_result (stored_u64 f) (map_option int n) = Inr n" for f n
    by (cases n) (simp_all add: stored_u64_def)
  with Cons show ?case by (simp add: child_row_def attachment_from_record_def parse_url_def content_eta)
qed simp

lemma draft_children_read:
  assumes "draft_validate input = Inr u"
    and "\<forall>u\<in>content_urls (di_attachments input) (di_voice input) (di_gif input). sl_url L (u_text u) = Some u"
  shows "draft_children L (child_rows k a input) [] None = Inr (di_attachments input, di_voice input)"
    and "sorted (map da_position (child_rows k a input))"
proof -
  have size: "option_result (stored_u64 f) (map_option int n) = Inr n" for f n
    by (cases n) (simp_all add: stored_u64_def)
  have val: "validate_attachments (di_attachments input) (di_voice input) = Inr ()"
    using assms(1) by (auto simp: draft_validate_def split: if_splits)
  have at: "\<forall>x\<in>set (enumerate 0 (di_attachments input)). sl_url L (u_text (at_url (snd x))) = Some (at_url (snd x))"
    using assms(2) by (auto simp: content_urls_def in_set_enumerate_eq)
  show "draft_children L (child_rows k a input) [] None = Inr (di_attachments input, di_voice input)"
  proof (cases "di_voice input")
    case None
    with draft_children_attachments [OF at, of k a "[]" "[]" None] show ?thesis by (simp add: child_rows_def)
  next
    case (Some v)
    have "sl_url L (u_text (vo_url v)) = Some (vo_url v)" using assms(2) Some by (simp add: content_urls_def)
    moreover have "\<not> is_some_and (\<lambda>d. \<not> (1 \<le> d \<and> d \<le> max_voice_duration)) (vo_duration v)"
      using val Some by (cases "vo_duration v") (auto simp: validate_attachments_def split: if_splits)
    ultimately have "draft_children L [child_row k a VoiceKind (vo_duration v) (100, as_attachment v)] as None = Inr (as, Some v)" for as
      by (simp add: child_row_def voice_attachment_from_record_def as_attachment_def parse_url_def size content_eta)
    with draft_children_attachments [OF at, of k a _ "[]" None] Some show ?thesis by (simp add: child_rows_def)
  qed
  have "length (di_attachments input) \<le> 100" using val by (auto simp: validate_attachments_def max_attachments_def split: if_splits)
  moreover have "map (da_position \<circ> child_row k a AttachmentKind None) (enumerate 0 (di_attachments input)) =
      map int [0..<length (di_attachments input)]"
    by (rule nth_equalityI) (simp_all add: child_row_def nth_enumerate_eq)
  ultimately show "sorted (map da_position (child_rows k a input))"
    by (auto simp: child_rows_def sorted_append child_row_def sorted_map comp_def split: option.splits)
qed

lemma gif_read:
  assumes "\<forall>u\<in>content_urls as v gif. sl_url L (u_text u) = Some u"
  shows "option_result (gif_from_record L) gif = Inr gif"
proof (cases gif)
  case (Some g)
  with assms show ?thesis
    by (cases g; cases "gif_preview_url g") (auto simp: content_urls_def gif_from_record_def parse_url_def)
qed simp

lemma require_participant_at:
  assumes "keyed c_id (conversations s)" "partition_of s k = Inr part"
    and "sql_exists (\<lambda>p. p_conversation p = k \<and> p_partition p = part \<and> p_actor p = a) (effective_conversation_participants s)"
  shows "require_participant s a k = Inr part"
proof -
  let ?P = "\<lambda>p. p_conversation p = k \<and> p_actor p = a"
  obtain c where c: "c \<in> set (conversations s)" "c_id c = k" "c_partition c = part"
    using assms(2) by (auto simp: partition_of_def split: option.splits dest: find_Some_in)
  obtain p where p: "find ?P (effective_conversation_participants s) = Some p"
    using assms(3) by (cases "find ?P (effective_conversation_participants s)") (auto simp: find_None_iff sql_exists_def)
  from find_Some_in [OF p] obtain c' where "c' \<in> set (conversations s)" "c_id c' = k" "c_partition c' = p_partition p"
    by (auto simp: effective_conversation_participants_def sql_exists_def)
  with keyed_unique [OF assms(1) _ c(1)] c have "p_partition p = part" by metis
  with p show ?thesis by (simp add: require_participant_def)
qed

lemma put_draftE:
  assumes "put_draft L E k a expected input s = Inr (outcome, s')"
  obtains (conflict) part d where "draft_validate input = Inr ()" "partition_of s k = Inr part"
      "sql_exists (\<lambda>p. p_conversation p = k \<and> p_partition p = part \<and> p_actor p = a) (effective_conversation_participants s)"
      "write_draft E part k a expected input s = Inr None" "load_draft_in L part a k s = Inr d" "outcome = DraftConflict d" "s' = s"
    | (saved) part s1 d where "draft_validate input = Inr ()" "partition_of s k = Inr part"
      "sql_exists (\<lambda>p. p_conversation p = k \<and> p_partition p = part \<and> p_actor p = a) (effective_conversation_participants s)"
      "write_draft E part k a expected input s = Inr (Some s1)" "insert_draft_children k a input s1 = Inr s'"
      "load_draft_in L part a k s' = Inr d" "outcome = SavedDraft d"
proof -
  have "draft_validate input = Inr ()" using assms by (cases "draft_validate input") (auto simp: put_draft_def)
  with assms obtain part written where pre: "partition_of s k = Inr part"
      "sql_exists (\<lambda>p. p_conversation p = k \<and> p_partition p = part \<and> p_actor p = a) (effective_conversation_participants s)"
    and w: "write_draft E part k a expected input s = Inr written"
    and rest: "(case written of
         None \<Rightarrow> bind_ok (load_draft_in L part a k s) (\<lambda>d. Inr (DraftConflict d, s))
       | Some s1 \<Rightarrow> bind_ok (insert_draft_children k a input s1) (\<lambda>s2.
           bind_ok (load_draft_in L part a k s2) (\<lambda>d. Inr (SavedDraft d, s2)))) = Inr (outcome, s')"
    by (auto simp: put_draft_def split: if_splits)
  show ?thesis
  proof (cases written)
    case None
    with rest \<open>draft_validate input = Inr ()\<close> pre w show ?thesis by (auto intro: conflict)
  next
    case (Some s1)
    with rest \<open>draft_validate input = Inr ()\<close> pre w show ?thesis by (auto intro: saved)
  qed
qed

lemma write_draft_frame:
  assumes "write_draft E part k a expected input s = Inr (Some s')"
  shows "but_drafts s' = but_drafts s"
proof -
  have "but_drafts s1 = but_drafts s" if "advance_drafts p f s = Inr (n, s1)" for p f n s1
    using that by (auto simp: advance_drafts_def but_drafts_def split: if_splits)
  with assms show ?thesis
    by (auto simp: write_draft_def insert_draft_in_def update_draft_in_def Let_def but_drafts_def
        delete_draft_children_by_owner_def split: option.splits if_splits)
qed

lemma children_keep_drafts:
  assumes "insert_draft_children k a input s = Inr s'"
  shows "drafts s' = drafts s" "draft_counters s' = draft_counters s" "but_drafts s' = but_drafts s"
  using insert_draft_children_ok [OF assms] by (simp_all add: but_drafts_def)

lemma children_keep_ok:
  assumes "insert_draft_children k a input s = Inr s'" "drafts_ok s" "(k, a) \<in> draft_owner ` set (drafts s)"
  shows "drafts_ok s'"
proof -
  have "\<forall>r\<in>set (child_rows k a input). (da_conversation r, da_actor r) = (k, a)"
    by (auto simp: child_rows_def child_row_def split: option.splits)
  then show ?thesis
    using assms(2,3) unfolding insert_draft_children_ok [OF assms(1)] by (auto simp: drafts_ok_def simp del: prod.inject)
qed

text \<open>What is loaded after a save is what was saved.\<close>

lemma load_saved:
  assumes w: "draft_written part k a input s s1" and ch: "insert_draft_children k a input s1 = Inr s'"
    and ld: "load_draft_in L part a k s' = Inr d"
  shows "df_version d = counter_version k a s + 1" "df_message_content d = di_message_content input"
    "df_voice_transcript d = di_voice_transcript input" "df_metadata d = di_metadata input" "df_reply_to d = di_reply_to input"
    "draft_validate input = Inr u \<Longrightarrow>
       \<forall>u\<in>content_urls (di_attachments input) (di_voice input) (di_gif input). sl_url L (u_text u) = Some u \<Longrightarrow>
       df_attachments d = di_attachments input \<and> df_voice d = di_voice input \<and> df_gif d = di_gif input"
proof -
  obtain r where r: "r \<in> set (drafts s1)" "draft_at part k a r" "dr_version r = counter_version k a s + 1"
    "dr_text r = di_message_content input" "dr_transcript r = di_voice_transcript input"
    "dr_metadata r = di_metadata input" "dr_reply_to r = di_reply_to input"
    using w unfolding draft_written_def by blast
  have ok1: "drafts_ok s1" using w by (simp add: draft_written_def)
  note s' = insert_draft_children_ok [OF ch]
  have fnd: "find (draft_at part k a) (drafts s') = Some r"
  proof (cases "find (draft_at part k a) (drafts s')")
    case None
    with r(1,2) show ?thesis by (auto simp: s' find_None_iff)
  next
    case (Some r')
    then have "r' \<in> set (drafts s1)" "draft_owner r' = draft_owner r"
      using find_Some_in [OF Some] r(2) by (auto simp: s' draft_at_def own_draft_def draft_owner_def)
    with keyed_unique [OF drafts_okD(1) [OF ok1] _ r(1)] Some show ?thesis by metis
  qed
  then show "df_version d = counter_version k a s + 1" "df_message_content d = di_message_content input"
    "df_voice_transcript d = di_voice_transcript input" "df_metadata d = di_metadata input" "df_reply_to d = di_reply_to input"
    using ld r by (auto simp: load_draft_in_def split: prod.splits)
  assume val: "draft_validate input = Inr u"
    and urls: "\<forall>u\<in>content_urls (di_attachments input) (di_voice input) (di_gif input). sl_url L (u_text u) = Some u"
  have none: "\<forall>r\<in>set (draft_attachments s1). \<not> (da_conversation r = k \<and> da_actor r = a)"
    "\<forall>r\<in>set (draft_gifs s1). \<not> (dg_conversation r = k \<and> dg_actor r = a)"
    using w by (auto simp: draft_written_def)
  have "filter (\<lambda>r. da_conversation r = k \<and> da_actor r = a) (child_rows k a input) = child_rows k a input"
    by (rule filter_True) (auto simp: child_rows_def child_row_def split: option.splits)
  then have at: "sort_key da_position (filter (\<lambda>r. da_conversation r = k \<and> da_actor r = a) (draft_attachments s')) = child_rows k a input"
    using none(1) draft_children_read(2) [OF val urls, of k a] by (simp add: s' filter_empty_conv sort_key_id_if_sorted)
  have "find (\<lambda>r. dg_conversation r = k \<and> dg_actor r = a) (draft_gifs s1) = None"
    using none(2) by (simp add: find_None_iff)
  then have g: "di_gif input = map_option dg_gif (find (\<lambda>r. dg_conversation r = k \<and> dg_actor r = a) (draft_gifs s'))"
    by (cases "di_gif input") (simp_all add: s' find_append flatten_option_def)
  have "option_result (\<lambda>r. gif_from_record L (dg_gif r)) (find (\<lambda>r. dg_conversation r = k \<and> dg_actor r = a) (draft_gifs s')) =
      option_result (gif_from_record L) (di_gif input)"
    unfolding g by (cases "find (\<lambda>r. dg_conversation r = k \<and> dg_actor r = a) (draft_gifs s')") simp_all
  then show "df_attachments d = di_attachments input \<and> df_voice d = di_voice input \<and> df_gif d = di_gif input"
    using ld draft_children_read(1) [OF val urls, of k a] gif_read [OF urls]
    by (auto simp: load_draft_in_def fnd at split: prod.splits)
qed

section \<open>Compare and swap\<close>

lemma saved_reads_back:
  assumes "keyed c_id (conversations s)" "partition_of s k = Inr part"
      "sql_exists (\<lambda>p. p_conversation p = k \<and> p_partition p = part \<and> p_actor p = a) (effective_conversation_participants s)"
    and "write_draft E part k a expected input s = Inr (Some s1)" "insert_draft_children k a input s1 = Inr s'"
    and "load_draft_in L part a k s' = Inr d"
  shows "get_draft L a k s' = Inr d"
proof -
  have fr: "but_drafts s' = but_drafts s"
    using write_draft_frame [OF assms(4)] children_keep_drafts(3) [OF assms(5)] by simp
  have "require_participant s' a k = Inr part"
    using require_participant_at [OF assms(1-3)] but_draftsD [OF fr]
    by (subst require_participant_cong [of s' s]) (simp_all add: same_membership_def)
  with assms(6) show ?thesis by (simp add: get_draft_def)
qed

text \<open>C18. A draft is never overwritten unseen: a save takes effect only when the client named the current
  version of the draft, or there was none; otherwise nothing changes and the client receives the
  current draft. A save that takes effect gets the version after the last one the participant ever
  had, is what a later read returns, and leaves the drafts of everyone else alone.\<close>

theorem draft_compare_and_swap:
  assumes "drafts_ok s" "keyed c_id (conversations s)" "put_draft L E k a expected input s = Inr (outcome, s')"
  shows "drafts_ok s' \<and> filter (\<lambda>d. draft_owner d \<noteq> (k, a)) (drafts s') = filter (\<lambda>d. draft_owner d \<noteq> (k, a)) (drafts s) \<and>
    (case outcome of
       DraftConflict d \<Rightarrow> s' = s \<and> get_draft L a k s = Inr d \<and> expected \<noteq> Some (df_version d)
     | SavedDraft d \<Rightarrow> get_draft L a k s' = Inr d \<and> df_version d = counter_version k a s + 1 \<and>
         counter_version k a s' = df_version d \<and>
         (expected = Some (df_version d - 1) \<or> (expected \<in> {None, Some 0} \<and> (k, a) \<notin> draft_owner ` set (drafts s))))"
  using assms(3)
proof (cases rule: put_draftE)
  case (conflict part d)
  obtain r where r: "find (draft_at part k a) (drafts s) = Some r" "expected \<noteq> Some (dr_version r)"
    using conflict(4) by (auto simp: write_draft_def Let_def split: option.splits if_splits)
  then have "df_version d = dr_version r" using conflict(5) by (auto simp: load_draft_in_def split: prod.splits)
  with r conflict require_participant_at [OF assms(2) conflict(2,3)] assms(1) show ?thesis by (simp add: get_draft_def)
next
  case (saved part s1 d)
  note w = write_draft_effect [OF assms(1) saved(4)] and ld = load_saved [OF _ saved(5,6)]
  have "get_draft L a k s' = Inr d" by (rule saved_reads_back [OF assms(2) saved(2-6)])
  moreover have "(k, a) \<in> draft_owner ` set (drafts s1)"
    using w(1) by (force simp: draft_written_def draft_at_def own_draft_def draft_owner_def)
  then have "drafts_ok s'" using children_keep_ok [OF saved(5)] w(1) by (simp add: draft_written_def)
  moreover have "counter_version k a s' = counter_version k a s + 1"
    using w(1) children_keep_drafts(2) [OF saved(5)] by (simp add: draft_written_def counter_version_def)
  moreover have "filter (\<lambda>d. draft_owner d \<noteq> (k, a)) (drafts s') = filter (\<lambda>d. draft_owner d \<noteq> (k, a)) (drafts s)"
    using w(1) children_keep_drafts(1) [OF saved(5)] by (simp add: draft_written_def)
  ultimately show ?thesis using ld(1) [OF w(1)] w(2) saved(7) by auto
qed

text \<open>C37. What is saved reads back: the draft a save returns and every later read until the next change has
  the text, transcript, attachments in their order, voice, GIF, metadata and reply that were given.\<close>

theorem draft_roundtrip:
  assumes "drafts_ok s" "keyed c_id (conversations s)" "put_draft L E k a expected input s = Inr (SavedDraft d, s')"
    and "\<forall>u\<in>content_urls (di_attachments input) (di_voice input) (di_gif input). sl_url L (u_text u) = Some u"
  shows "get_draft L a k s' = Inr d \<and> df_message_content d = di_message_content input \<and>
    df_voice_transcript d = di_voice_transcript input \<and> df_attachments d = di_attachments input \<and>
    df_voice d = di_voice input \<and> df_gif d = di_gif input \<and> df_metadata d = di_metadata input \<and>
    df_reply_to d = di_reply_to input"
  using assms(3)
proof (cases rule: put_draftE)
  case (saved part s1 d1)
  note w = write_draft_effect(1) [OF assms(1) saved(4)]
  note ld = load_saved [OF w saved(5,6)]
  from saved_reads_back [OF assms(2) saved(2-6)] saved(7) ld(2-5) ld(6) [OF saved(1) assms(4)] show ?thesis by simp
qed simp

section \<open>Versions are never reused\<close>

text \<open>Everything that changes drafts: saving, deleting, and sending, which clears the draft that was sent.\<close>

inductive draft_step :: "db \<Rightarrow> db \<Rightarrow> bool" where
  saves: "put_draft L E k a expected input s = Inr (outcome, s') \<Longrightarrow> draft_step s s'"
| deletes: "delete_draft E a k s = Inr s' \<Longrightarrow> draft_step s s'"
| sends: "send_message_in E k a content key via_app s = Inr (i, s') \<Longrightarrow> draft_step s s'"

definition draft_tables :: "db \<Rightarrow> draft_row list \<times> draft_counter_row list \<times> draft_attachment_row list \<times> draft_gif_row list" where
  "draft_tables s = (drafts s, draft_counters s, draft_attachments s, draft_gifs s)"

lemma drafts_ok_cong: "draft_tables s' = draft_tables s \<Longrightarrow> drafts_ok s' = drafts_ok s"
  by (simp add: draft_tables_def drafts_ok_def)

lemma counter_version_cong: "draft_tables s' = draft_tables s \<Longrightarrow> counter_version k a s' = counter_version k a s"
  by (simp add: draft_tables_def counter_version_def)

text \<open>A step keeps the tables sound and moves no counter back.\<close>

definition counters_advance :: "db \<Rightarrow> db \<Rightarrow> bool" where
  "counters_advance s s' \<longleftrightarrow> drafts_ok s' \<and> (\<forall>j b. counter_version j b s \<le> counter_version j b s')"

lemma drop_owner_ok:
  assumes "drafts_ok s" "\<And>d. d \<in> set (drafts s) \<Longrightarrow> q d \<Longrightarrow> draft_owner d = (k, a)"
  shows "counters_advance s (s\<lparr>draft_attachments := sql_delete (\<lambda>r. da_conversation r = k \<and> da_actor r = a) (draft_attachments s),
    draft_gifs := sql_delete (\<lambda>r. dg_conversation r = k \<and> dg_actor r = a) (draft_gifs s), drafts := sql_delete q (drafts s)\<rparr>)"
    (is "counters_advance s ?s'")
proof -
  have owners: "x \<in> draft_owner ` set (drafts ?s')" if "x \<in> draft_owner ` set (drafts s)" "x \<noteq> (k, a)" for x
    using that assms(2) by (auto simp: sql_simps)
  have "keyed draft_owner (drafts ?s')" using drafts_okD(1) [OF assms(1)] by (simp add: keyed_sql_delete)
  moreover have "\<forall>r\<in>set (draft_attachments ?s'). (da_conversation r, da_actor r) \<in> draft_owner ` set (drafts ?s')"
    using assms(1) owners by (simp add: drafts_ok_def sql_simps)
  moreover have "\<forall>r\<in>set (draft_gifs ?s'). (dg_conversation r, dg_actor r) \<in> draft_owner ` set (drafts ?s')"
    using assms(1) owners by (simp add: drafts_ok_def sql_simps)
  ultimately have "drafts_ok ?s'" using assms(1) by (simp add: drafts_ok_def sql_simps)
  then show ?thesis by (simp add: counters_advance_def counter_version_def)
qed

lemma counters_advance_trans: "counters_advance s1 s2 \<Longrightarrow> counters_advance s2 s3 \<Longrightarrow> counters_advance s1 s3"
  unfolding counters_advance_def by (meson order_trans)

lemma advance_drafts_counters:
  assumes "drafts_ok s" "advance_drafts p f s = Inr (n, s')" "one_owner p k a" "\<And>d. draft_owner (f d) = draft_owner d"
  shows "counters_advance s s'"
  using advance_drafts_ok(1) [OF assms] advance_drafts_counter [OF assms(1-3)] by (simp add: counters_advance_def)

lemma clear_draft_counters:
  assumes ok: "drafts_ok s" and cl: "clear_matching_draft k a h legacy s = Inr s'"
  shows "counters_advance s s'"
proof -
  obtain n s1 where adv: "advance_drafts (\<lambda>d. own_draft k a d \<and> matches_sent h legacy d) (\<lambda>d. d\<lparr>dr_hash_version := 3\<rparr>) s = Inr (n, s1)"
    and s': "s' = (if n = 1 then drop_draft k a s1 else s1)"
    using cl by (auto simp: clear_matching_draft_def)
  have c1: "counters_advance s s1"
    by (rule advance_drafts_counters [OF ok adv one_owner_at(2)]) (simp add: draft_owner_def)
  then have "drafts_ok s1" by (simp add: counters_advance_def)
  then have "counters_advance s1 (drop_draft k a s1)"
    unfolding drop_draft_def by (rule drop_owner_ok) (simp add: own_draft_def draft_owner_def)
  with c1 show ?thesis by (auto simp: s' intro: counters_advance_trans)
qed

lemma send_draft_tables:
  assumes "insert_message_in E part k a content h via_app s = Inr (i, s1)"
    and "fold_result (enqueue_one E origin part k i) xs s1 = Inr s2"
  shows "draft_tables s2 = draft_tables s"
proof -
  have "draft_tables s1 = draft_tables s"
    using assms(1) by (auto elim!: insert_message_inE simp: draft_tables_def)
  moreover have "draft_tables s2 = draft_tables s1"
    using sending.frame [OF assms(2)] by (cases s1; cases s2) (simp add: draft_tables_def but_outbox_def)
  ultimately show ?thesis by simp
qed

lemma send_counters:
  assumes ok: "drafts_ok s" and send: "send_message_in E k a content key via_app s = Inr (i, s')"
  shows "counters_advance s s'"
proof -
  obtain h part s1 c s2 where s1: "s1 = refresh_directory_in (e_now E) accounts_partition [a] (refresh_directory_in (e_now E) part [a] s)"
    and cl: "claim_db (e_now E) (e_lease E) (send_key a key) h s1 = Inr (c, s2)"
    and rest: "(case c of Replay i \<Rightarrow> Inr (i, s2) | Acquired \<Rightarrow> bind_ok (accept_message E part k a content via_app s2)
       (\<lambda>(i, s3). bind_ok (complete_db (send_key a key) ''message'' i 202 s3) (\<lambda>s4. Inr (i, s4)))) = Inr (i, s')"
    using send by (rule send_messageE)
  have t2: "draft_tables s2 = draft_tables s"
    using cl by (auto elim!: claim_dbD simp: s1 draft_tables_def refresh_directory_in_def)
  have id: "counters_advance s x" if "draft_tables x = draft_tables s" for x
    using ok drafts_ok_cong [OF that] counter_version_cong [OF that] by (simp add: counters_advance_def)
  show ?thesis
  proof (cases c)
    case (Replay j)
    with rest id [OF t2] show ?thesis by simp
  next
    case Acquired
    with rest obtain s3 where acc: "accept_message E part k a content via_app s2 = Inr (i, s3)"
      and co: "complete_db (send_key a key) ''message'' i 202 s3 = Inr s'" by auto
    from acc obtain h' s4 s5 l where
      ins: "insert_message_in E part k a content h' via_app s2 = Inr (i, s4)"
      and q: "fold_result (enqueue_one E (Some a) part k i) (enumerate 1 (participant_records_in k s4)) s4 = Inr s5"
      and clr: "clear_matching_draft k a h' l (update_recent_gif_in (e_now E) part a i (mc_gif content) s5) = Inr s3"
      by (auto simp: accept_message_def enqueue_message_deliveries_in_def Let_def)
    let ?s6 = "update_recent_gif_in (e_now E) part a i (mc_gif content) s5"
    have "draft_tables ?s6 = draft_tables s5"
      by (simp add: update_recent_gif_in_def draft_tables_def split: option.splits)
    with send_draft_tables [OF ins q] t2 have "counters_advance s ?s6" by (intro id) simp
    moreover from this have "counters_advance ?s6 s3" using clear_draft_counters [OF _ clr] by (simp add: counters_advance_def)
    moreover have "draft_tables s' = draft_tables s3" using co by (auto elim!: complete_dbD simp: draft_tables_def)
    ultimately show ?thesis
      using drafts_ok_cong [of s' s3] counter_version_cong [of s' s3] counters_advance_trans [of s ?s6 s3]
      by (simp add: counters_advance_def)
  qed
qed

lemma put_counters:
  assumes ok: "drafts_ok s" and put: "put_draft L E k a expected input s = Inr (outcome, s')"
  shows "counters_advance s s'"
    and "outcome = SavedDraft d \<Longrightarrow> df_version d = counter_version k a s + 1 \<and> counter_version k a s' = df_version d \<and>
      (expected \<in> {None, Some 0} \<or> expected = Some (counter_version k a s))"
proof -
  have *: "counters_advance s s' \<and> (outcome = SavedDraft d \<longrightarrow> df_version d = counter_version k a s + 1 \<and>
      counter_version k a s' = df_version d \<and> (expected \<in> {None, Some 0} \<or> expected = Some (counter_version k a s)))" for d
    using put
  proof (cases rule: put_draftE)
    case (conflict part d)
    with ok show ?thesis by (simp add: counters_advance_def)
  next
    case (saved part s1 d1)
    note w = write_draft_effect [OF ok saved(4)]
    have "(k, a) \<in> draft_owner ` set (drafts s1)"
      using w(1) by (force simp: draft_written_def draft_at_def own_draft_def draft_owner_def)
    then have "drafts_ok s'" using children_keep_ok [OF saved(5)] w(1) by (simp add: draft_written_def)
    moreover have "counter_version j b s' = (if (j, b) = (k, a) then counter_version k a s + 1 else counter_version j b s)" for j b
      using w(1) children_keep_drafts(2) [OF saved(5)] by (simp add: draft_written_def counter_version_def)
    ultimately show ?thesis using load_saved(1) [OF w(1) saved(5,6)] w(2) saved(7) by (auto simp: counters_advance_def)
  qed
  show "counters_advance s s'"
    and "outcome = SavedDraft d \<Longrightarrow> df_version d = counter_version k a s + 1 \<and> counter_version k a s' = df_version d \<and>
      (expected \<in> {None, Some 0} \<or> expected = Some (counter_version k a s))"
    using * by blast+
qed

lemma delete_counters:
  assumes ok: "drafts_ok s" and del: "delete_draft E a k s = Inr s'"
  shows "counters_advance s s'"
proof -
  let ?drop = "\<lambda>part s1. (delete_draft_children_by_owner k a s1)\<lparr>drafts := sql_delete (draft_at part k a) (drafts s1)\<rparr>"
  obtain part n s1 where adv: "advance_drafts (draft_at part k a) (\<lambda>d. d\<lparr>dr_updated_at := e_now E\<rparr>) s = Inr (n, s1)"
    and s': "s' = (if n = 0 then s else ?drop part s1)"
    using del by (auto simp: delete_draft_def Let_def delete_draft_children_by_owner_def split: if_splits)
  have c1: "counters_advance s s1"
    by (rule advance_drafts_counters [OF ok adv one_owner_at(1)]) (simp add: draft_owner_def)
  then have "drafts_ok s1" by (simp add: counters_advance_def)
  then have "counters_advance s1 (?drop part s1)"
    using drop_owner_ok [of s1 "draft_at part k a" k a]
    by (simp add: delete_draft_children_by_owner_def draft_at_def own_draft_def draft_owner_def)
  with c1 have "counters_advance s (?drop part s1)" by (rule counters_advance_trans)
  moreover have "counters_advance s s" using ok by (simp add: counters_advance_def)
  ultimately show ?thesis by (simp add: s')
qed

lemma draft_steps_counters:
  assumes "draft_step\<^sup>*\<^sup>* s s'" "drafts_ok s"
  shows "counters_advance s s'"
  using assms
proof (induction rule: rtranclp_induct)
  case base
  then show ?case by (simp add: counters_advance_def)
next
  case (step s1 s2)
  then have adv: "counters_advance s s1" by simp
  then have ok: "drafts_ok s1" by (simp add: counters_advance_def)
  from step.hyps(2) have "counters_advance s1 s2"
  proof cases
    case (saves L E k a expected input outcome)
    from ok saves show ?thesis by (rule put_counters(1))
  next
    case (deletes E a k)
    from ok deletes show ?thesis by (rule delete_counters)
  next
    case (sends E k a content key via_app i)
    from ok sends show ?thesis by (rule send_counters)
  qed
  with adv show ?case by (rule counters_advance_trans)
qed

text \<open>C19. A version names one saved draft for ever: whatever happens in between, deletion and sending
  included, a later save has a higher version, and a client that still holds the earlier version can
  no longer save with it.\<close>

theorem draft_versions_never_reused:
  assumes "drafts_ok s" "put_draft L E k a expected input s = Inr (SavedDraft d, s1)" "draft_step\<^sup>*\<^sup>* s1 s2"
    and "put_draft L' E' k a expected' input' s2 = Inr (SavedDraft d', s3)"
  shows "df_version d < df_version d' \<and>
    put_draft L'' E'' k a (Some (df_version d)) input'' s3 \<noteq> Inr (SavedDraft d'', s4)"
proof -
  note p1 = put_counters [OF assms(1,2)]
  have ok1: "drafts_ok s1" using p1(1) by (simp add: counters_advance_def)
  note adv = draft_steps_counters [OF assms(3) ok1]
  then have ok2: "drafts_ok s2" by (simp add: counters_advance_def)
  note p2 = put_counters [OF ok2 assms(4)]
  have ok3: "drafts_ok s3" using p2(1) by (simp add: counters_advance_def)
  have "df_version d = counter_version k a s1" "df_version d' = counter_version k a s2 + 1" "counter_version k a s3 = df_version d'"
    using p1(2) [OF refl] p2(2) [OF refl] by simp_all
  moreover have "counter_version k a s1 \<le> counter_version k a s2" using adv by (simp add: counters_advance_def)
  ultimately have lt: "df_version d < df_version d'" "df_version d < counter_version k a s3" by simp_all
  moreover have "1 \<le> df_version d" using p1(2) [OF refl] drafts_okD(4) [OF assms(1), of k a] by simp
  ultimately show ?thesis using put_counters(2) [OF ok3, where d = d'' and outcome = "SavedDraft d''"] by fastforce
qed

text \<open>A draft with an attachment, saved in the example conversation.\<close>

definition file_url :: url where
  "file_url = \<lparr>u_scheme = ''https'', u_host = Some (lit ''x.io''), u_username = [], u_password = None, u_text = lit ''https://x.io/a''\<rparr>"

definition sample_store_lib :: store_lib where
  "sample_store_lib = \<lparr>sl_url = (\<lambda>_. Some file_url), sl_message_json = (\<lambda>_. Some []), sl_cursor = sample_cursor_lib\<rparr>"

definition half_written :: draft_input where
  "half_written = \<lparr>di_metadata = [], di_reply_to = None, di_message_content = Some (lit ''he''),
     di_attachments = [\<lparr>at_url = file_url, at_name = None, at_content_type = None, at_size = Some 3\<rparr>],
     di_voice = None, di_voice_transcript = None, di_gif = None\<rparr>"

lemma chat_drafts_ok: "drafts_ok chat" "keyed c_id (conversations chat)"
  by (simp_all add: drafts_ok_def chat_def empty_db_def keyed_def)

lemmas draft_evaluation = put_draft_def write_draft_def draft_validate_def half_written_def too_long_def
  validate_attachments_def validate_attachment_metadata_def validate_gif_def partition_of_def insert_draft_in_def counter_version_def reply_ok_def insert_row_def
  insert_draft_children_def insert_draft_attachment_def load_draft_in_def draft_at_def own_draft_def with_input_def
  attachment_from_record_def parse_url_def stored_u64_def sample_store_lib_def file_url_def i16_max_def max_text_characters_def
  max_attachments_def max_attachment_bytes_def is_i64_def i64_min_def i64_max_def chat_simps

lemma first_save:
  "\<exists>d s'. put_draft sample_store_lib test_env 1 ann None half_written chat = Inr (SavedDraft d, s')"
  by (simp add: draft_evaluation)

theorem draft_compare_and_swap_witness:
  "\<exists>d s'. put_draft sample_store_lib test_env 1 ann None half_written chat = Inr (SavedDraft d, s') \<and>
     df_version d = 1 \<and> get_draft sample_store_lib ann 1 s' = Inr d"
proof -
  obtain d s' where put: "put_draft sample_store_lib test_env 1 ann None half_written chat = Inr (SavedDraft d, s')"
    using first_save by blast
  moreover have "counter_version 1 ann chat = 0" by (simp add: counter_version_def chat_def empty_db_def)
  then have "df_version d = 1" "get_draft sample_store_lib ann 1 s' = Inr d"
    using draft_compare_and_swap [OF chat_drafts_ok put] by auto
  ultimately show ?thesis by (intro exI conjI)
qed

lemma half_written_urls:
  "\<forall>u\<in>content_urls (di_attachments half_written) (di_voice half_written) (di_gif half_written). sl_url sample_store_lib (u_text u) = Some u"
  by (simp add: half_written_def content_urls_def sample_store_lib_def)

theorem draft_roundtrip_witness:
  "\<exists>d s'. put_draft sample_store_lib test_env 1 ann None half_written chat = Inr (SavedDraft d, s') \<and>
     df_attachments d = di_attachments half_written \<and> df_message_content d = Some (lit ''he'')"
proof -
  obtain d s' where put: "put_draft sample_store_lib test_env 1 ann None half_written chat = Inr (SavedDraft d, s')"
    using first_save by blast
  moreover have "df_attachments d = di_attachments half_written" "df_message_content d = Some (lit ''he'')"
    using draft_roundtrip [OF chat_drafts_ok put half_written_urls] by (auto simp: half_written_def)
  ultimately show ?thesis by (intro exI conjI)
qed

text \<open>The second save names the first version.\<close>

lemma second_save:
  "\<exists>d s1 d' s2. put_draft sample_store_lib test_env 1 ann None half_written chat = Inr (SavedDraft d, s1) \<and>
     put_draft sample_store_lib test_env 1 ann (Some 1) half_written s1 = Inr (SavedDraft d', s2)"
  by (simp add: draft_evaluation update_draft_in_def advance_drafts_def counter_of_def counter_key_def upsert_def
      delete_draft_children_by_owner_def sql_delete_def sql_update_def rows_affected_def)

theorem draft_versions_never_reused_witness:
  "\<exists>d s1 d' s2. put_draft sample_store_lib test_env 1 ann None half_written chat = Inr (SavedDraft d, s1) \<and>
     put_draft sample_store_lib test_env 1 ann (Some 1) half_written s1 = Inr (SavedDraft d', s2) \<and>
     df_version d < df_version d'"
proof -
  obtain d s1 d' s2 where put: "put_draft sample_store_lib test_env 1 ann None half_written chat = Inr (SavedDraft d, s1)"
     "put_draft sample_store_lib test_env 1 ann (Some 1) half_written s1 = Inr (SavedDraft d', s2)"
    using second_save by blast
  moreover have "df_version d < df_version d'"
    using draft_versions_never_reused [OF chat_drafts_ok(1) put(1) rtranclp.rtrancl_refl put(2)] by blast
  ultimately show ?thesis by (intro exI conjI)
qed

end
