(* ===== verification/Revisions.thy ===== *)
theory Revisions
  imports Receipts Drafts
begin

text \<open>
  Reading and revising one message (\<open>postgres/revisions.rs\<close>) with the table that keeps former contents and
  the triggers that guard it (\<open>migrations/0025\<close>). Revisions are refined to a log per message: its
  contents in order and the instant of its deletion.
\<close>

section \<open>Reading one message\<close>

definition get_message :: "store_lib \<Rightarrow> db \<Rightarrow> actor_ref \<Rightarrow> uuid \<Rightarrow> uuid \<Rightarrow> message app_result" where
  "get_message L s a conversation i =
     bind_ok (require_reader s a conversation) (\<lambda>_.
     bind_ok (load_message L s i) (\<lambda>m.
       if msg_conversation m \<noteq> conversation then Inl NotFound else Inr m))"

section \<open>Revising\<close>

datatype reviser = SenderReviser | CustodianOfSender

definition custodian_read_only_error :: app_error where
  "custodian_read_only_error = forbidden ''custodian_read_only''
     (lit ''A custodian may tombstone its Silicon's messages but never edit them: DM never lets anyone write as a Silicon.'')"

definition not_message_sender_error :: app_error where
  "not_message_sender_error = forbidden ''not_message_sender''
     (lit ''Only the message's sender can change it (and the custodian of a Silicon can tombstone that Silicon's messages).'')"

text \<open>A stored routing address may name an account by the identifier it had before the identities
  were linked.\<close>

definition linked_route :: "db \<Rightarrow> str option \<Rightarrow> str option" where
  "linked_route s address =
     (case address of
        None \<Rightarrow> None
      | Some a \<Rightarrow>
          let (isi, base) = (case rsplit_once 64 a of Some (i, b) \<Rightarrow> (Some i, b) | None \<Rightarrow> (None, a)) in
          if \<not> contains_str (lit '':'') base then Some a
          else Some (case (map_of (identity_links s) base, isi) of
              (Some u, Some i) \<Rightarrow> i @ 64 # u | (Some u, None) \<Rightarrow> u | (None, _) \<Rightarrow> a))"

definition may_revise :: "db \<Rightarrow> reviser \<Rightarrow> actor_ref \<Rightarrow> message_row \<Rightarrow> bool" where
  "may_revise s reviser a m =
     (case reviser of
        SenderReviser \<Rightarrow> m_sender m = a
      | CustodianOfSender \<Rightarrow> ar_type (m_sender m) = Silicon \<and>
          sql_exists (\<lambda>x. a_uuid x = ar_id (m_sender m) \<and> a_custodian x = Some (ar_id a)) (accounts s))"

definition routing_changed :: "env \<Rightarrow> db \<Rightarrow> message_row \<Rightarrow> message_create \<Rightarrow> bool" where
  "routing_changed E s m c \<longleftrightarrow>
     is_some_and (\<lambda>i. Some i \<noteq> linked_route s (m_sender_address m)) (sender_address (e_uuid E) c) \<or>
     is_some_and (\<lambda>i. Some i \<noteq> linked_route s (m_recipient_address m)) (mc_recipient_id c)"

definition is_deleted :: "db \<Rightarrow> uuid \<Rightarrow> bool" where
  "is_deleted s i = sql_exists (\<lambda>h. h_message h = i \<and> h_deleted_at h \<noteq> None) (histories s)"

definition check_reply :: "db \<Rightarrow> uuid \<Rightarrow> uuid \<Rightarrow> uuid option \<Rightarrow> unit app_result" where
  "check_reply s conversation i reply =
     (case reply of
        None \<Rightarrow> Inr ()
      | Some r \<Rightarrow>
          if r = i then Inl (validation ''a message cannot reply to itself'')
          else if sql_exists (\<lambda>m. m_id m = r \<and> m_conversation m = conversation) (messages s) then Inr ()
          else Inl NotFound)"

text \<open>An edit keeps the content it replaces; the first one keeps a reference to the original. The trigger
  \<open>guard_message_history\<close> refuses an update of a deleted message, a deletion that changes the content,
  and an edit that does not append the prior content.\<close>

definition guard_message_history :: "history_row \<Rightarrow> history_row \<Rightarrow> bool" where
  "guard_message_history old new \<longleftrightarrow> h_message new = h_message old \<and> h_deleted_at old = None \<and>
     (if h_deleted_at new \<noteq> None
      then h_content new = h_content old \<and> h_history new = h_history old \<and> h_updated_at new = h_updated_at old
      else h_history new \<noteq> [] \<and> butlast (h_history new) = h_history old \<and> fst (last (h_history new)) = h_content old)"

definition edited :: "instant \<Rightarrow> message_row \<Rightarrow> message_create \<Rightarrow> history_row \<Rightarrow> history_row" where
  "edited now m c h = h\<lparr>h_history := h_history h @
       [(h_content h, case h_updated_at h of Some t \<Rightarrow> t | None \<Rightarrow> m_created_at m)],
     h_content := Some c, h_updated_at := Some now\<rparr>"

definition first_edit :: "instant \<Rightarrow> message_row \<Rightarrow> message_create \<Rightarrow> history_row" where
  "first_edit now m c = \<lparr>h_message = m_id m, h_content = Some c, h_history = [(None, m_created_at m)],
     h_updated_at = Some now, h_deleted_at = None\<rparr>"

definition put_history :: "history_row \<Rightarrow> (history_row \<Rightarrow> history_row) \<Rightarrow> db \<Rightarrow> db app_result" where
  "put_history new f s =
     (if sql_exists (\<lambda>h. h_message h = h_message new \<and> \<not> guard_message_history h (f h)) (histories s)
      then Inl (Database ''deleted messages cannot be changed'')
      else Inr (s\<lparr>histories := upsert h_message new f (histories s)\<rparr>))"

definition write_history :: "instant \<Rightarrow> message_row \<Rightarrow> message_create option \<Rightarrow> db \<Rightarrow> db app_result" where
  "write_history now m content s =
     (case content of
        Some c \<Rightarrow> put_history (first_edit now m c) (edited now m c) s
      | None \<Rightarrow> put_history \<lparr>h_message = m_id m, h_content = None, h_history = [], h_updated_at = None,
                  h_deleted_at = Some now\<rparr> (\<lambda>h. h\<lparr>h_deleted_at := Some now\<rparr>) s)"

fun revision_of :: "delivery_kind \<Rightarrow> int option" where
  "revision_of (MessageDelivery r) = Some r"
| "revision_of _ = None"

definition next_revision :: "uuid \<Rightarrow> db \<Rightarrow> int" where
  "next_revision i s =
     fold max (List.map_filter (\<lambda>d. revision_of (d_kind d)) (filter (\<lambda>d. d_message d = i) (deliveries s))) 0 + 1"

definition announce_one :: "env \<Rightarrow> actor_ref \<Rightarrow> str \<Rightarrow> uuid \<Rightarrow> uuid \<Rightarrow> int \<Rightarrow> nat \<times> actor_ref \<Rightarrow> db \<Rightarrow> db app_result" where
  "announce_one E reviser part conversation i revision = (\<lambda>(n, target) s.
     bind_ok (insert_delivery (e_uuid E) (Some reviser) (e_now E) (e_fresh E n) part target (MessageDelivery revision) conversation i s) (\<lambda>(_, s').
       Inr (notify_actor_in target s')))"

definition announce_revision :: "env \<Rightarrow> actor_ref \<Rightarrow> str \<Rightarrow> uuid \<Rightarrow> uuid \<Rightarrow> db \<Rightarrow> db app_result" where
  "announce_revision E reviser part conversation i s =
     (let revision = next_revision i s;
          s1 = s\<lparr>conversations := sql_update (\<lambda>c. c_id c = conversation) (\<lambda>c. c\<lparr>c_updated_at := e_now E\<rparr>) (conversations s)\<rparr> in
      if \<not> is_i64 revision then Inl (Database ''bigint out of range'')
      else fold_result (announce_one E reviser part conversation i revision)
             (enumerate 0 (participant_records_in conversation s1)) s1)"

definition revise_key :: "actor_ref \<Rightarrow> bool \<Rightarrow> str \<Rightarrow> idem_key" where
  "revise_key a edit key = (accounts_partition, a, if edit then ''messages.edit'' else ''messages.delete'', key)"

definition revise_request_json :: "env \<Rightarrow> uuid \<Rightarrow> uuid \<Rightarrow> message_create option \<Rightarrow> json" where
  "revise_request_json E i conversation content =
     JArr [JStr (uuid_show (e_uuid E) i), JStr (uuid_show (e_uuid E) conversation),
           json_opt (idempotency_content (e_uuid E)) content]"

definition revisable :: "env \<Rightarrow> actor_ref \<Rightarrow> reviser \<Rightarrow> message_create option \<Rightarrow> unit app_result" where
  "revisable E a reviser content =
     (if reviser = CustodianOfSender \<and> content \<noteq> None then Inl custodian_read_only_error
      else (case content of
         None \<Rightarrow> Inr ()
       | Some c \<Rightarrow>
           bind_ok (case message_validate (e_uuid E) c of Inl e \<Rightarrow> Inl (validation e) | Inr _ \<Rightarrow> Inr ()) (\<lambda>_.
             if is_some_and (\<lambda>i. \<not> addresses (e_uuid E) i a) (mc_sender_id c) then Inl Forbidden else Inr ())))"

definition revised_partition :: "db \<Rightarrow> actor_ref \<Rightarrow> reviser \<Rightarrow> uuid \<Rightarrow> str app_result" where
  "revised_partition s a reviser conversation =
     (case reviser of
        SenderReviser \<Rightarrow> require_participant s a conversation
      | CustodianOfSender \<Rightarrow> bind_ok (require_reader s a conversation) (\<lambda>_. partition_of s conversation))"

definition apply_revision ::
  "env \<Rightarrow> actor_ref \<Rightarrow> str \<Rightarrow> uuid \<Rightarrow> message_row \<Rightarrow> message_create option \<Rightarrow> db \<Rightarrow> db app_result" where
  "apply_revision E a part conversation m content s =
     (if is_deleted s (m_id m) then Inl (conflict ''message has been deleted'')
      else
        bind_ok (check_reply s conversation (m_id m) (Option.bind content mc_reply_to)) (\<lambda>_.
        bind_ok (write_history (e_now E) m content s) (announce_revision E a part conversation (m_id m))))"

definition revise_message_in ::
  "env \<Rightarrow> actor_ref \<Rightarrow> reviser \<Rightarrow> uuid \<Rightarrow> uuid \<Rightarrow> str \<Rightarrow> message_create option \<Rightarrow> db \<Rightarrow> db app_result" where
  "revise_message_in E a reviser conversation i key content s =
     bind_ok (revisable E a reviser content) (\<lambda>_.
     bind_ok (revised_partition s a reviser conversation) (\<lambda>part.
     bind_ok (request_hash (e_digest E) (revise_request_json E i conversation content)) (\<lambda>h.
     case find (\<lambda>m. m_id m = i \<and> m_conversation m = conversation \<and> m_partition m = part) (messages s) of
       None \<Rightarrow> Inl NotFound
     | Some m \<Rightarrow>
         if \<not> may_revise s reviser a m then Inl not_message_sender_error
         else
           let s1 = refresh_directory_in (e_now E) part [a] s in
           if is_some_and (routing_changed E s1 m) content
           then Inl (validation ''message routing cannot change in an edit; send a new message'')
           else
             let s2 = refresh_directory_in (e_now E) accounts_partition [a] s1; k = revise_key a (content \<noteq> None) key in
             bind_ok (claim_db (e_now E) (e_lease E) k h s2) (\<lambda>(c, s3).
             case c of
               Replay _ \<Rightarrow> Inr s3
             | Acquired \<Rightarrow>
                 bind_ok (apply_revision E a part conversation m content s3) (\<lambda>s4.
                   complete_db k ''message'' i 200 s4)))))"

definition revise_message ::
  "store_lib \<Rightarrow> env \<Rightarrow> actor_ref \<Rightarrow> reviser \<Rightarrow> uuid \<Rightarrow> uuid \<Rightarrow> str \<Rightarrow> message_create option \<Rightarrow> db \<Rightarrow>
     (message app_result \<times> db) app_result" where
  "revise_message L E a reviser conversation i key content s =
     bind_ok (revise_message_in E a reviser conversation i key content s) (\<lambda>s'. Inr (load_message L s' i, s'))"

section \<open>The log of a message\<close>

text \<open>The abstract state of a message: its contents in order, the original first, and when it was deleted.\<close>

definition histories_ok :: "db \<Rightarrow> bool" where
  "histories_ok s \<longleftrightarrow> keyed h_message (histories s)"

definition message_log :: "db \<Rightarrow> uuid \<Rightarrow> message_create option list \<times> instant option" where
  "message_log s i =
     (case find (\<lambda>h. h_message h = i) (histories s) of
        None \<Rightarrow> ([None], None)
      | Some h \<Rightarrow> (map fst (h_history h) @ [h_content h], h_deleted_at h))"

fun log_revise :: "instant \<Rightarrow> message_create option \<Rightarrow> message_create option list \<times> instant option \<Rightarrow>
    message_create option list \<times> instant option" where
  "log_revise now (Some c) (vs, d) = (vs @ [Some c], d)"
| "log_revise now None (vs, d) = (vs, Some now)"

lemma is_deleted_log:
  assumes "histories_ok s"
  shows "is_deleted s i \<longleftrightarrow> snd (message_log s i) \<noteq> None"
proof (cases "find (\<lambda>h. h_message h = i) (histories s)")
  case None
  moreover from None have "\<forall>h\<in>set (histories s). h_message h \<noteq> i" by (auto simp: find_None_iff)
  ultimately show ?thesis by (auto simp: is_deleted_def message_log_def sql_exists_def)
next
  case (Some h)
  then have h: "h \<in> set (histories s)" "h_message h = i" using find_Some_in [OF Some] by auto
  have "is_deleted s i \<longleftrightarrow> h_deleted_at h \<noteq> None"
  proof
    assume "is_deleted s i"
    then obtain x where x: "x \<in> set (histories s)" "h_message x = h_message h" "h_deleted_at x \<noteq> None"
      using h(2) by (auto simp: is_deleted_def sql_exists_def)
    from keyed_unique [OF assms [unfolded histories_ok_def] x(1) h(1) x(2)] x(3) show "h_deleted_at h \<noteq> None" by simp
  qed (use h in \<open>auto simp: is_deleted_def sql_exists_def\<close>)
  with Some show ?thesis by (simp add: message_log_def)
qed

text \<open>The guards of the table never refuse what the handler writes.\<close>

lemma put_history_log:
  assumes "histories_ok s" "\<not> is_deleted s i" "h_message new = i"
    and "\<And>h. h_message h = i \<Longrightarrow> h_deleted_at h = None \<Longrightarrow> guard_message_history h (f h)"
    and "log_revise now content ([None], None) = (map fst (h_history new) @ [h_content new], h_deleted_at new)"
    and "\<And>h. h_deleted_at h = None \<Longrightarrow> log_revise now content (map fst (h_history h) @ [h_content h], h_deleted_at h) =
      (map fst (h_history (f h)) @ [h_content (f h)], h_deleted_at (f h))"
    and "\<And>h. h_message (f h) = h_message h"
  shows "\<exists>s'. put_history new f s = Inr s' \<and> s' = s\<lparr>histories := histories s'\<rparr> \<and> histories_ok s' \<and>
    message_log s' = (message_log s)(i := log_revise now content (message_log s i))"
proof -
  let ?s = "s\<lparr>histories := upsert h_message new f (histories s)\<rparr>"
  have alive: "h_deleted_at h = None" if "h \<in> set (histories s)" "h_message h = i" for h
    using assms(2) that by (auto simp: is_deleted_def sql_exists_def)
  have "put_history new f s = Inr ?s" using alive assms(3,4) by (auto simp: put_history_def sql_exists_def)
  moreover have "histories_ok ?s" using assms(1,7) by (auto simp: histories_ok_def)
  moreover have "message_log ?s j = ((message_log s)(i := log_revise now content (message_log s i))) j" for j
    using assms(5) assms(6) assms(7) alive assms(3)
    by (auto simp: message_log_def find_upsert split: option.splits dest: find_Some_in)
  ultimately show ?thesis by (intro exI [of _ ?s]) auto
qed

lemma write_history_log:
  assumes "histories_ok s" "\<not> is_deleted s (m_id m)"
  shows "\<exists>s'. write_history now m content s = Inr s' \<and> s' = s\<lparr>histories := histories s'\<rparr> \<and> histories_ok s' \<and>
    message_log s' = (message_log s)(m_id m := log_revise now content (message_log s (m_id m)))"
proof (cases content)
  case None
  show ?thesis unfolding write_history_def None option.case
    by (rule put_history_log [OF assms]) (auto simp: guard_message_history_def)
next
  case (Some c)
  show ?thesis unfolding write_history_def Some option.case
    by (rule put_history_log [OF assms]) (auto simp: guard_message_history_def first_edit_def edited_def)
qed

section \<open>Announcing a revision\<close>

interpretation announcing: fan_out "announce_one E reviser part conversation i revision" snd part conversation i "MessageDelivery revision"
  for E reviser part conversation i revision
  by unfold_locales (force simp: announce_one_def)

lemma next_revision_new:
  assumes "d \<in> set (deliveries s)"
  shows "\<not> same_source (d_message d) (d_kind d) i (MessageDelivery (next_revision i s))"
proof
  assume same: "same_source (d_message d) (d_kind d) i (MessageDelivery (next_revision i s))"
  then have d: "d_message d = i" "d_kind d = MessageDelivery (next_revision i s)" by (cases "d_kind d"; simp)+
  let ?rs = "List.map_filter (\<lambda>d. revision_of (d_kind d)) (filter (\<lambda>d. d_message d = i) (deliveries s))"
  have "next_revision i s \<in> set ?rs" using assms d by (force simp: List.map_filter_def)
  then show False using fold_max_bound [of 0 ?rs] by (auto simp: next_revision_def)
qed

lemma announce_effect:
  assumes ok: "messaging_ok s" and ann: "announce_revision E reviser part k i s = Inr s'" and m: "m \<in> set (messages s)" "m_id m = i"
  shows "messaging_ok s'" "same_membership s' s" "messages s' = messages s" "histories s' = histories s"
    "idempotency s' = idempotency s"
    "\<exists>ds. deliveries s' = deliveries s @ ds \<and> map d_target ds = participant_records_in k s \<and>
       (\<forall>d\<in>set ds. delivery_of part k i (MessageDelivery (next_revision i s)) d)"
proof -
  let ?s1 = "s\<lparr>conversations := sql_update (\<lambda>c. c_id c = k) (\<lambda>c. c\<lparr>c_updated_at := e_now E\<rparr>) (conversations s)\<rparr>"
  let ?xs = "enumerate 0 (participant_records_in k ?s1)"
  have run: "fold_result (announce_one E reviser part k i (next_revision i s)) ?xs ?s1 = Inr s'"
    using ann by (auto simp: announce_revision_def Let_def split: if_splits)
  note fr = but_outboxD [OF announcing.frame [OF run]]
  have same1: "same_membership ?s1 s" by (auto simp: same_membership_def sql_update_def membership_row_def)
  have ok1: "messaging_ok ?s1"
    using ok messaging_ok_frame [OF same1] by (auto simp: sql_update_def)
  show same: "same_membership s' s" using same1 fr by (simp add: same_membership_def)
  show "messages s' = messages s" "histories s' = histories s" "idempotency s' = idempotency s" using fr by simp_all
  have rec: "participant_records_in k ?s1 = participant_records_in k s" by (rule participant_records_cong [OF same1])
  have tg: "map snd ?xs = participant_records_in k s" by (simp add: rec)
  obtain ds where ds: "deliveries s' = deliveries s @ ds" "map d_target ds = participant_records_in k s"
    "\<forall>d\<in>set ds. delivery_of part k i (MessageDelivery (next_revision i s)) d"
    using announcing.reaches_all [OF run, unfolded tg, OF participant_records_distinct [OF messaging_okD(3) [OF ok]]]
      next_revision_new [of _ s i] by auto
  then show "\<exists>ds. deliveries s' = deliveries s @ ds \<and> map d_target ds = participant_records_in k s \<and>
       (\<forall>d\<in>set ds. delivery_of part k i (MessageDelivery (next_revision i s)) d)" by blast
  have "sequences_ok s'" using messaging_okD(1) [OF ok1] fr by (simp add: sequences_ok_def)
  moreover have "streams_ok s'" by (rule announcing.keeps_streams [OF run messaging_okD(2) [OF ok1]])
  moreover have "(\<exists>e. d_kind d = SystemDelivery e) \<or> (\<exists>m\<in>set (messages s'). m_id m = d_message d)"
    if "d \<in> set (deliveries s')" for d
    using that ok ds m fr by (auto simp: messaging_ok_def delivery_of_def)
  ultimately show "messaging_ok s'" using ok same by (auto simp: messaging_ok_def same_membership_def)
qed

section \<open>What a revision does\<close>

lemma revise_messageE:
  assumes "revise_message_in E a reviser k i key content s = Inr s'"
  obtains part h m s2 c s3 where "revisable E a reviser content = Inr ()" "revised_partition s a reviser k = Inr part"
    "request_hash (e_digest E) (revise_request_json E i k content) = Inr h"
    "find (\<lambda>m. m_id m = i \<and> m_conversation m = k \<and> m_partition m = part) (messages s) = Some m"
    "may_revise s reviser a m"
    "s2 = refresh_directory_in (e_now E) accounts_partition [a] (refresh_directory_in (e_now E) part [a] s)"
    "claim_db (e_now E) (e_lease E) (revise_key a (content \<noteq> None) key) h s2 = Inr (c, s3)"
    "(case c of Replay _ \<Rightarrow> Inr s3 | Acquired \<Rightarrow> bind_ok (apply_revision E a part k m content s3) (\<lambda>s4.
        complete_db (revise_key a (content \<noteq> None) key) ''message'' i 200 s4)) = Inr s'"
  using assms by (auto simp: revise_message_in_def Let_def simp del: not_None_eq split: option.splits if_splits)

lemma refresh_histories [simp]: "histories (refresh_directory_in now part as s) = histories s"
  by (simp add: refresh_directory_in_def)

lemma message_log_cong: "histories s' = histories s \<Longrightarrow> message_log s' = message_log s"
  by (simp add: fun_eq_iff message_log_def)

lemma revise_messageD:
  assumes "revise_message_in E a reviser k i key content s = Inr s'"
  obtains part m where "revisable E a reviser content = Inr ()" "revised_partition s a reviser k = Inr part"
    "m \<in> set (messages s)" "m_id m = i" "m_conversation m = k" "m_partition m = part" "may_revise s reviser a m"
    "histories s' = histories s \<or> (\<exists>s3 s4. histories s3 = histories s \<and> messaging_ok s3 = messaging_ok s \<and>
       messages s3 = messages s \<and> deliveries s3 = deliveries s \<and> same_membership s3 s \<and>
       apply_revision E a part k m content s3 = Inr s4 \<and> s' = s4\<lparr>idempotency := idempotency s'\<rparr>)"
    "settled (idempotency s) (revise_key a (content \<noteq> None) key) = None \<Longrightarrow>
      \<exists>s3 s4. histories s3 = histories s \<and> messaging_ok s3 = messaging_ok s \<and> messages s3 = messages s \<and>
       deliveries s3 = deliveries s \<and> same_membership s3 s \<and>
       apply_revision E a part k m content s3 = Inr s4 \<and> s' = s4\<lparr>idempotency := idempotency s'\<rparr>"
proof -
  let ?k = "revise_key a (content \<noteq> None) key"
  obtain part h m s2 c s3 where pre: "revisable E a reviser content = Inr ()" "revised_partition s a reviser k = Inr part"
    "find (\<lambda>m. m_id m = i \<and> m_conversation m = k \<and> m_partition m = part) (messages s) = Some m" "may_revise s reviser a m"
    and s2: "s2 = refresh_directory_in (e_now E) accounts_partition [a] (refresh_directory_in (e_now E) part [a] s)"
    and cl: "claim_db (e_now E) (e_lease E) ?k h s2 = Inr (c, s3)"
    and rest: "(case c of Replay _ \<Rightarrow> Inr s3 | Acquired \<Rightarrow> bind_ok (apply_revision E a part k m content s3) (\<lambda>s4.
        complete_db ?k ''message'' i 200 s4)) = Inr s'"
    using assms by (rule revise_messageE)
  obtain t where t: "s3 = s2\<lparr>idempotency := t\<rparr>" using cl by (rule claim_dbD)
  have fr: "histories s3 = histories s" "messaging_ok s3 = messaging_ok s" "messages s3 = messages s"
    "deliveries s3 = deliveries s" "same_membership s3 s"
    by (simp_all add: t s2 same_membership_def)
  have acquired: "\<exists>s3 s4. histories s3 = histories s \<and> messaging_ok s3 = messaging_ok s \<and> messages s3 = messages s \<and>
       deliveries s3 = deliveries s \<and> same_membership s3 s \<and>
       apply_revision E a part k m content s3 = Inr s4 \<and> s' = s4\<lparr>idempotency := idempotency s'\<rparr>" if "c = Acquired"
  proof -
    obtain s4 where s4: "apply_revision E a part k m content s3 = Inr s4" "complete_db ?k ''message'' i 200 s4 = Inr s'"
      using rest \<open>c = Acquired\<close> by auto
    obtain t' where "s' = s4\<lparr>idempotency := t'\<rparr>" using s4(2) by (rule complete_dbD)
    then have "s' = s4\<lparr>idempotency := idempotency s'\<rparr>" by simp
    with s4(1) fr show ?thesis by (intro exI conjI)
  qed
  have replay: "histories s' = histories s" if "c \<noteq> Acquired" using rest that fr by (cases c) auto
  have new: "c = Acquired" if "settled (idempotency s) ?k = None" using that by (intro claim_db_new [OF cl]) (simp add: s2)
  from find_Some_in [OF pre(3)] have m: "m \<in> set (messages s)" "m_id m = i" "m_conversation m = k" "m_partition m = part" by auto
  show ?thesis by (rule that [OF pre(1,2) m pre(4)]) (use acquired replay new in blast)+
qed

lemma apply_revision_effect:
  assumes ok: "messaging_ok s" "histories_ok s" and m: "m \<in> set (messages s)"
    and run: "apply_revision E a part k m content s = Inr s'"
  shows "messaging_ok s'" "histories_ok s'" "same_membership s' s" "messages s' = messages s"
    "snd (message_log s (m_id m)) = None"
    "message_log s' = (message_log s)(m_id m := log_revise (e_now E) content (message_log s (m_id m)))"
    "\<exists>ds. deliveries s' = deliveries s @ ds \<and> map d_target ds = participant_records_in k s \<and>
       (\<forall>d\<in>set ds. delivery_of part k (m_id m) (MessageDelivery (next_revision (m_id m) s)) d)"
proof -
  have alive: "\<not> is_deleted s (m_id m)" using run by (auto simp: apply_revision_def split: if_splits)
  then show "snd (message_log s (m_id m)) = None" using is_deleted_log [OF ok(2)] by simp
  obtain s1 where s1: "write_history (e_now E) m content s = Inr s1" "s1 = s\<lparr>histories := histories s1\<rparr>" "histories_ok s1"
    "message_log s1 = (message_log s)(m_id m := log_revise (e_now E) content (message_log s (m_id m)))"
    using write_history_log [OF ok(2) alive] by blast
  have ann: "announce_revision E a part k (m_id m) s1 = Inr s'"
    using run s1(1) alive by (auto simp: apply_revision_def)
  have fr: "same_membership s1 s" "messages s1 = messages s" "deliveries s1 = deliveries s" "streams s1 = streams s"
    "conversations s1 = conversations s"
    by (subst s1(2), simp add: same_membership_def)+
  have ok1: "messaging_ok s1" using ok(1) messaging_ok_frame [OF fr(1)] fr by simp
  note eff = announce_effect [OF ok1 ann, of m]
  have nr: "next_revision (m_id m) s1 = next_revision (m_id m) s" by (simp add: next_revision_def fr)
  show "messaging_ok s'" "messages s' = messages s" using eff m fr by auto
  show "histories_ok s'" using s1(3) eff(4) m fr by (simp add: histories_ok_def)
  show "same_membership s' s" using same_membership_trans [OF eff(2) fr(1)] m fr by simp
  show "message_log s' = (message_log s)(m_id m := log_revise (e_now E) content (message_log s (m_id m)))"
    using message_log_cong [OF eff(4)] s1(4) m fr by simp
  show "\<exists>ds. deliveries s' = deliveries s @ ds \<and> map d_target ds = participant_records_in k s \<and>
       (\<forall>d\<in>set ds. delivery_of part k (m_id m) (MessageDelivery (next_revision (m_id m) s)) d)"
    using eff(6) m fr participant_records_cong [OF fr(1)] by (simp add: nr)
qed

text \<open>C12. Revisions refine a log: an accepted revision under a new key appends the new content to the log
  of its message, or marks the message deleted and keeps its contents, and only when it was not
  deleted; the logs of other messages, the original messages and the numbering do not change, and
  every account that takes part hears of the revision in one delivery.\<close>

theorem revisions_refine_log:
  assumes "messaging_ok s" "histories_ok s" "revise_message_in E a reviser k i key content s = Inr s'"
    and "settled (idempotency s) (revise_key a (content \<noteq> None) key) = None"
  shows "messaging_ok s' \<and> histories_ok s' \<and> messages s' = messages s \<and> snd (message_log s i) = None \<and>
    message_log s' = (message_log s)(i := log_revise (e_now E) content (message_log s i)) \<and>
    (\<exists>ds. deliveries s' = deliveries s @ ds \<and> map d_target ds = participant_records_in k s \<and>
       (\<forall>d\<in>set ds. d_message d = i \<and> d_conversation d = k \<and> d_kind d = MessageDelivery (next_revision i s)))"
proof -
  obtain part m s3 s4 where m: "m \<in> set (messages s)" "m_id m = i"
    and s3: "histories s3 = histories s" "messaging_ok s3 = messaging_ok s" "messages s3 = messages s"
      "deliveries s3 = deliveries s" "same_membership s3 s"
    and run: "apply_revision E a part k m content s3 = Inr s4" and s': "s' = s4\<lparr>idempotency := idempotency s'\<rparr>"
    using assms(3) by (rule revise_messageD) (use assms(4) in blast)
  have "messaging_ok s3" "histories_ok s3" "m \<in> set (messages s3)" using assms(1,2) s3 m by (simp_all add: histories_ok_def)
  note eff = apply_revision_effect [OF this run]
  have fr: "messaging_ok s' = messaging_ok s4" "histories s' = histories s4" "messages s' = messages s4" "deliveries s' = deliveries s4"
    by (subst s', simp)+
  have nr: "next_revision i s3 = next_revision i s" by (simp add: next_revision_def s3)
  show ?thesis
    using eff m fr message_log_cong [OF s3(1)] message_log_cong [OF fr(2)] participant_records_cong [OF s3(5)]
    by (simp add: histories_ok_def s3 nr delivery_of_def) blast
qed

section \<open>What readers see of a revision\<close>

fun former_edit :: "snapshot \<Rightarrow> message_create option" where
  "former_edit (OriginalContent _) = None"
| "former_edit (EditedContent c) = Some c"

lemma load_message_log:
  assumes "load_message L s i = Inr m" "message_log s i = (vs, d)"
  shows "msg_deleted_at m = d" "map (\<lambda>x. former_edit (fst x)) (msg_history m) = butlast vs"
    "d \<noteq> None \<Longrightarrow> m = with_content empty_content m"
    "d = None \<Longrightarrow> last vs = Some c \<Longrightarrow> m = with_content c m"
proof -
  obtain r b where r: "find (\<lambda>r. m_id r = i) (messages s) = Some r" "hydrate_one L s r = Inr b"
    and m: "m = apply_latest_revision (histories s) b"
    using assms(1) by (auto simp: load_message_eq split: option.splits)
  have b: "msg_id b = i" using hydrate_one_fields(1) [OF r(2)] find_Some_in [OF r(1)] by simp
  note defs = message_log_def apply_latest_revision_def with_content_def Let_def message.defs base_message.defs
  show "msg_deleted_at m = d" "d \<noteq> None \<Longrightarrow> m = with_content empty_content m"
    "d = None \<Longrightarrow> last vs = Some c \<Longrightarrow> m = with_content c m"
    using assms(2) by (auto simp: m b defs split: option.splits)
  have "former_edit (case c of None \<Rightarrow> OriginalContent b | Some e \<Rightarrow> EditedContent e) = c" for c by (cases c) auto
  then have "map (\<lambda>x. former_edit (fst x)) (map (\<lambda>(c, t). (case c of None \<Rightarrow> OriginalContent b | Some e \<Rightarrow> EditedContent e, t)) hs) = map fst hs" for hs
    by (induction hs) auto
  with assms(2) show "map (\<lambda>x. former_edit (fst x)) (msg_history m) = butlast vs"
    by (auto simp: m b defs split: option.splits)
qed

section \<open>Who may revise, and until when\<close>

lemma announce_histories:
  assumes "announce_revision E reviser part k i s = Inr s'"
  shows "histories s' = histories s"
  using assms but_outboxD(11) [OF announcing.frame]
  by (fastforce simp: announce_revision_def Let_def split: if_splits)

lemma apply_revision_log:
  assumes "histories_ok s" "apply_revision E a part k m content s = Inr s'"
  shows "histories_ok s'" "snd (message_log s (m_id m)) = None"
    "message_log s' = (message_log s)(m_id m := log_revise (e_now E) content (message_log s (m_id m)))"
proof -
  have alive: "\<not> is_deleted s (m_id m)" using assms(2) by (auto simp: apply_revision_def split: if_splits)
  then show "snd (message_log s (m_id m)) = None" using is_deleted_log [OF assms(1)] by simp
  obtain s1 where s1: "write_history (e_now E) m content s = Inr s1" "histories_ok s1"
    "message_log s1 = (message_log s)(m_id m := log_revise (e_now E) content (message_log s (m_id m)))"
    using write_history_log [OF assms(1) alive] by blast
  have h: "histories s' = histories s1"
    by (rule announce_histories) (use assms(2) s1(1) alive in \<open>auto simp: apply_revision_def\<close>)
  with s1(2) show "histories_ok s'" by (simp add: histories_ok_def)
  from s1(3) message_log_cong [OF h]
  show "message_log s' = (message_log s)(m_id m := log_revise (e_now E) content (message_log s (m_id m)))" by simp
qed

lemma revise_log:
  assumes "histories_ok s" "revise_message_in E a reviser k i key content s = Inr s'"
  shows "histories_ok s'" "message_log s' \<noteq> message_log s \<Longrightarrow> snd (message_log s i) = None"
    "j \<noteq> i \<Longrightarrow> message_log s' j = message_log s j"
proof -
  obtain part m where m: "m_id m = i" and alt: "histories s' = histories s \<or> (\<exists>s3 s4. histories s3 = histories s \<and> messaging_ok s3 = messaging_ok s \<and>
       messages s3 = messages s \<and> deliveries s3 = deliveries s \<and> same_membership s3 s \<and>
       apply_revision E a part k m content s3 = Inr s4 \<and> s' = s4\<lparr>idempotency := idempotency s'\<rparr>)"
    using assms(2) by (rule revise_messageD)
  from alt have "histories_ok s' \<and> (message_log s' = message_log s \<or> snd (message_log s i) = None \<and> (\<forall>j. j \<noteq> i \<longrightarrow> message_log s' j = message_log s j))"
  proof (elim disjE exE conjE)
    assume h: "histories s' = histories s"
    with assms(1) message_log_cong [OF h] show ?thesis by (simp add: histories_ok_def)
  next
    fix s3 s4
    assume h: "histories s3 = histories s" and run: "apply_revision E a part k m content s3 = Inr s4"
      and s': "s' = s4\<lparr>idempotency := idempotency s'\<rparr>"
    have "histories_ok s3" using assms(1) h by (simp add: histories_ok_def)
    note log = apply_revision_log [OF this run]
    have h': "histories s' = histories s4" by (subst s') simp
    from log message_log_cong [OF h'] message_log_cong [OF h] m h' show ?thesis by (simp add: histories_ok_def)
  qed
  then show "histories_ok s'" "message_log s' \<noteq> message_log s \<Longrightarrow> snd (message_log s i) = None"
    "j \<noteq> i \<Longrightarrow> message_log s' j = message_log s j" by auto
qed

text \<open>C11. Only its sender rewrites a message: a request that changes the log of any message names that
  message, comes from an account that may read its conversation, and is either the sender's, who takes
  part in the conversation, or a deletion by the custodian of the Silicon that sent it.\<close>

theorem revision_authority:
  assumes "histories_ok s" "revise_message_in E a reviser k i key content s = Inr s'" "message_log s' j \<noteq> message_log s j"
  shows "j = i \<and> require_reader s a k = Inr () \<and>
    (\<exists>m\<in>set (messages s). m_id m = i \<and> m_conversation m = k \<and>
       (m_sender m = a \<and> is_participant s k a \<or>
        content = None \<and> ar_type (m_sender m) = Silicon \<and>
          (\<exists>x\<in>set (accounts s). a_uuid x = ar_id (m_sender m) \<and> a_custodian x = Some (ar_id a))))"
proof -
  obtain part m where m: "m \<in> set (messages s)" "m_id m = i" "m_conversation m = k" and may: "may_revise s reviser a m"
    and rev: "revisable E a reviser content = Inr ()" and part: "revised_partition s a reviser k = Inr part"
    using assms(2) by (rule revise_messageD)
  have "j = i" using revise_log(3) [OF assms(1,2)] assms(3) by blast
  moreover have "require_reader s a k = Inr ()"
  proof (cases reviser)
    case SenderReviser
    with part have p: "require_participant s a k = Inr part" by (simp add: revised_partition_def)
    with require_participantD(2,3) [OF p] show ?thesis
      by (auto simp: require_reader_def conversation_access_def sql_exists_def)
  qed (use part in \<open>auto simp: revised_partition_def\<close>)
  moreover have "m_sender m = a \<and> is_participant s k a \<or>
        content = None \<and> ar_type (m_sender m) = Silicon \<and>
          (\<exists>x\<in>set (accounts s). a_uuid x = ar_id (m_sender m) \<and> a_custodian x = Some (ar_id a))"
  proof (cases reviser)
    case SenderReviser
    with part have p: "require_participant s a k = Inr part" by (simp add: revised_partition_def)
    with require_participantD(3) [OF p] may SenderReviser show ?thesis by (simp add: may_revise_def)
  next
    case CustodianOfSender
    with may rev show ?thesis by (auto simp: may_revise_def revisable_def sql_exists_def split: if_splits)
  qed
  ultimately show ?thesis using m by blast
qed

lemma send_histories:
  assumes "send_message_in E conversation sender content key via_app s = Inr (i, s')"
  shows "histories s' = histories s"
proof -
  obtain h part s1 c s2 where s1: "s1 = refresh_directory_in (e_now E) accounts_partition [sender] (refresh_directory_in (e_now E) part [sender] s)"
    and cl: "claim_db (e_now E) (e_lease E) (send_key sender key) h s1 = Inr (c, s2)"
    and rest: "(case c of Replay i \<Rightarrow> Inr (i, s2) | Acquired \<Rightarrow> bind_ok (accept_message E part conversation sender content via_app s2)
       (\<lambda>(i, s3). bind_ok (complete_db (send_key sender key) ''message'' i 202 s3) (\<lambda>s4. Inr (i, s4)))) = Inr (i, s')"
    using assms by (rule send_messageE)
  obtain t where t: "s2 = s1\<lparr>idempotency := t\<rparr>" using cl by (rule claim_dbD)
  show ?thesis
  proof (cases c)
    case Acquired
    then obtain s3 where acc: "accept_message E part conversation sender content via_app s2 = Inr (i, s3)"
      and co: "complete_db (send_key sender key) ''message'' i 202 s3 = Inr s'" using rest by auto
    obtain s4 s5 h' where "insert_message_in E part conversation sender content h' via_app s2 = Inr (i, s4)"
      "but_outbox s5 = but_outbox s4" "but_drafts s3 = but_drafts s5"
      using acc by (rule accept_messageE)
    moreover from this(1) have "histories s4 = histories s2" by (rule insert_message_inE) simp
    moreover obtain t' where "s' = s3\<lparr>idempotency := t'\<rparr>" using co by (rule complete_dbD)
    ultimately show ?thesis using but_outboxD(11) [of s5 s4] but_draftsD(11) [of s3 s5] by (simp add: t s1)
  next
    case (Replay j)
    with rest have "s' = s2" by simp
    then show ?thesis by (simp add: t s1)
  qed
qed

lemma receipt_histories:
  assumes "record_receipt_without_payload E k i a dev st s = Inr s'"
  shows "histories s' = histories s"
proof -
  obtain part s1 where "s1 = snd (put_receipt E part k i a dev st s)" "but_outbox s' = but_outbox s1"
    using assms by (rule record_receiptE)
  then show ?thesis using but_outboxD(11) [of s' s1]
    by (simp add: put_receipt_eq aggregate_eq)
qed

text \<open>Everything that happens to messages.\<close>

inductive message_step :: "db \<Rightarrow> db \<Rightarrow> bool" where
  sends: "send_message_in E k a content key via_app s = Inr (i, s') \<Longrightarrow> message_step s s'"
| receives: "record_receipt_without_payload E k i a dev st s = Inr s' \<Longrightarrow> message_step s s'"
| revises: "revise_message_in E a reviser k i key content s = Inr s' \<Longrightarrow> message_step s s'"

lemma message_step_log:
  assumes "message_step s s'" "histories_ok s"
  shows "histories_ok s' \<and> (snd (message_log s i) \<noteq> None \<longrightarrow> message_log s' i = message_log s i)"
  using assms(1)
proof cases
  case (sends E k a content key via_app j)
  note h = send_histories [OF sends]
  from h message_log_cong [OF h] assms(2) show ?thesis by (simp add: histories_ok_def)
next
  case (receives E k j a dev st)
  note h = receipt_histories [OF receives]
  from h message_log_cong [OF h] assms(2) show ?thesis by (simp add: histories_ok_def)
next
  case (revises E a reviser k j key content)
  note log = revise_log [OF assms(2) revises]
  show ?thesis using log(1) log(2) log(3) [of i] by (cases "i = j") fastforce+
qed

lemma message_steps_log:
  assumes "message_step\<^sup>*\<^sup>* s s'" "histories_ok s" "snd (message_log s i) \<noteq> None"
  shows "histories_ok s' \<and> message_log s' i = message_log s i"
  using assms by (induction rule: rtranclp_induct) (use message_step_log in fastforce)+


section \<open>Examples\<close>

definition greeting :: message_create where
  "greeting = empty_content\<lparr>mc_text := Some (lit ''hello'')\<rparr>"

lemmas revision_evaluation = revise_message_in_def revisable_def revised_partition_def may_revise_def routing_changed_def
  sender_address_def apply_revision_def is_deleted_def check_reply_def write_history_def put_history_def first_edit_def
  edited_def guard_message_history_def announce_revision_def next_revision_def announce_one_def revise_key_def greeting_def
  upsert_def List.map_filter_def chat_sent_def send_evaluation

lemma chat_edited:
  "\<exists>s'. revise_message_in test_env ann SenderReviser 1 200 (lit ''key-0002'') (Some greeting) chat_sent = Inr s' \<and>
     message_log s' 200 = ([None, Some greeting], None)"
  by (simp add: message_log_def revision_evaluation)

lemma chat_sent_idle: "histories_ok chat_sent" "settled (idempotency chat_sent) k = None" "message_log chat_sent i = ([None], None)"
  by (simp_all add: histories_ok_def keyed_def settled_def message_log_def chat_sent_def chat_def empty_db_def)

theorem revisions_refine_log_witness:
  "\<exists>s'. revise_message_in test_env ann SenderReviser 1 200 (lit ''key-0002'') (Some greeting) chat_sent = Inr s' \<and>
     message_log s' 200 = ([None, Some greeting], None) \<and> length (deliveries s') = 4"
proof -
  obtain s' where run: "revise_message_in test_env ann SenderReviser 1 200 (lit ''key-0002'') (Some greeting) chat_sent = Inr s'"
    using chat_edited by blast
  have two: "participant_records_in 1 chat_sent = [bob, ann]" "length (deliveries chat_sent) = 2"
    by (simp_all add: chat_sent_def chat_simps participant_records_in_def participant_key_def)
  from revisions_refine_log [OF chat_sent_ok(1) chat_sent_idle(1) run chat_sent_idle(2)] obtain ds where ds:
    "message_log s' = (message_log chat_sent)(200 := log_revise (e_now test_env) (Some greeting) (message_log chat_sent 200))"
    "deliveries s' = deliveries chat_sent @ ds" "map d_target ds = participant_records_in 1 chat_sent" by blast
  have "length ds = length (participant_records_in 1 chat_sent)" unfolding ds(3) [symmetric] by simp
  with two have len: "length (deliveries s') = 4" unfolding ds(2) by simp
  have "message_log s' 200 = ([None, Some greeting], None)" unfolding ds(1) by (simp add: chat_sent_idle)
  with run len show ?thesis by (intro exI conjI)
qed

theorem revision_authority_witness:
  "\<exists>s'. revise_message_in test_env ann SenderReviser 1 200 (lit ''key-0002'') (Some greeting) chat_sent = Inr s' \<and>
     require_reader chat_sent ann 1 = Inr ()"
proof -
  obtain s' where run: "revise_message_in test_env ann SenderReviser 1 200 (lit ''key-0002'') (Some greeting) chat_sent = Inr s'"
    and log: "message_log s' 200 = ([None, Some greeting], None)" using chat_edited by blast
  have "message_log s' 200 \<noteq> message_log chat_sent 200" by (simp add: log chat_sent_idle)
  from revision_authority [OF chat_sent_idle(1) run this] run show ?thesis by blast
qed

definition chat_deleted :: db where
  "chat_deleted = chat_sent\<lparr>histories := [\<lparr>h_message = 200, h_content = Some greeting, h_history = [(None, 9)],
     h_updated_at = Some 9, h_deleted_at = Some 10\<rparr>]\<rparr>"


end
