(* ===== verification/Ting.thy ===== *)
theory Ting
  imports Revisions
begin

text \<open>
  The handoff of deliveries to the Ting service: the durable queue (\<open>postgres/ting.rs\<close> over
  \<open>migrations/0028\<close>, \<open>0031\<close>, \<open>0039\<close>), the worker that drains it (\<open>worker/ting.rs\<close>), and what the publisher
  makes of Ting's replies (\<open>infrastructure/ting.rs\<close>). A handoff is leased to one worker at a time, sent with
  the same bytes on every attempt, and ends accepted or discarded; the queue is never emptied.
\<close>

section \<open>Requests\<close>

text \<open>\<open>serde_json\<close>'s parser and printer of text, as the queue uses them.\<close>

record ting_lib =
  tj_parse :: "str \<Rightarrow> json option"
  tj_print :: "json \<Rightarrow> str option"

definition validate_text :: "str \<Rightarrow> string \<Rightarrow> unit app_result" where
  "validate_text value field =
     (if value = [] \<or> str_len value > 255 \<or> list_ex is_control value
      then Inl (validation (field @ '' must contain 1 to 255 bytes without controls'')) else Inr ())"

definition context_validate :: "str \<Rightarrow> unit app_result" where
  "context_validate app_id =
     bind_ok (validate_text app_id ''Ting producer app ID'') (\<lambda>_.
       if str_len app_id + length ''.sync.changed'' > 255 then Inl (validation ''Ting type exceeds 255 bytes'') else Inr ())"

definition event_type :: "str \<Rightarrow> str" where
  "event_type app_id = app_id @ lit ''.sync.changed''"

text \<open>Bodies of the time before the move to Silicon Accounts name an organization or a bare recipient;
  text that is not JSON counts as one of them.\<close>

definition is_prepared_before_cutover :: "ting_lib \<Rightarrow> str \<Rightarrow> bool" where
  "is_prepared_before_cutover J body =
     (case tj_parse J body of
        None \<Rightarrow> True
      | Some v \<Rightarrow> json_field v ''org_id'' \<noteq> None \<or> (case json_field v ''for'' of Some (JStr _) \<Rightarrow> True | _ \<Rightarrow> False))"

definition isi_metadata :: "uuid_lib \<Rightarrow> ting_handoff_row \<Rightarrow> str option \<Rightarrow> json_map app_result" where
  "isi_metadata U h public_id =
     (case th_routing h of
        None \<Rightarrow> Inr []
      | Some address \<Rightarrow>
         (case identifier_try_from address of
            Inl _ \<Rightarrow> Inl (Internal ''invalid routing address'')
          | Inr a \<Rightarrow> Inr (case address_parts U a of
               Inr (base, Some isi) \<Rightarrow>
                 if (base = ar_id (th_target h) \<or> public_id = Some base) \<and> ar_type (th_target h) = Silicon
                 then [(lit ''isi'', JStr isi)] else []
             | _ \<Rightarrow> [])))"

text \<open>The fields are in the order of their keys, as \<open>serde_json\<close> keeps them.\<close>

definition request_json :: "uuid_lib \<Rightarrow> str \<Rightarrow> ting_handoff_row \<Rightarrow> str option \<Rightarrow> str \<Rightarrow> json_map \<Rightarrow> json" where
  "request_json U app_id h public_id code metadata = JObj
     [(lit ''data'', JObj
        [(lit ''conversation_id'', JStr (th_public_conversation h)),
         (lit ''delivery_id'', JStr (uuid_show U (th_delivery h))),
         (lit ''delivery_sequence'', json_nat (nat (th_delivery_sequence h))),
         (lit ''event'', JStr (lit (th_event h))),
         (lit ''message_id'', JStr code),
         (lit ''schema_version'', json_nat 2)]),
      (lit ''for'', JObj [(lit ''id'', json_opt JStr public_id), (lit ''uuid'', JStr (ar_id (th_target h)))]),
      (lit ''key'', JStr (uuid_show U (th_delivery h))),
      (lit ''metadata'', JObj metadata),
      (lit ''type'', JStr (event_type app_id))]"

definition prepared_body :: "ting_lib \<Rightarrow> uuid_lib \<Rightarrow> str \<Rightarrow> ting_handoff_row \<Rightarrow> str option \<Rightarrow> str app_result" where
  "prepared_body J U app_id h public_id =
     (case th_request_body h of
        Some body \<Rightarrow>
          (case tj_parse J body of
             None \<Rightarrow> Inl (Internal ''invalid prepared request'')
           | Some v \<Rightarrow> if json_field v ''type'' \<noteq> Some (JStr (event_type app_id))
                       then Inl (conflict ''prepared Ting request belongs to another producer'') else Inr body)
      | None \<Rightarrow>
          (case message_code (th_message_sequence h) of
             None \<Rightarrow> Inl (Internal ''invalid Ting source message sequence'')
           | Some code \<Rightarrow>
               bind_ok (isi_metadata U h public_id) (\<lambda>metadata.
                 case tj_print J (request_json U app_id h public_id code metadata) of
                   None \<Rightarrow> Inl (Internal ''serialization failed'') | Some body \<Rightarrow> Inr body)))"

section \<open>Claiming\<close>

record ting_claim =
  tc_delivery :: uuid
  tc_lease :: uuid
  tc_target :: actor_ref
  tc_originator :: "actor_ref option"
  tc_conversation :: uuid
  tc_sequence :: int
  tc_body :: str
  tc_attempts :: int

definition max_discards_per_claim :: nat where "max_discards_per_claim = 500"

definition max_request_body :: nat where "max_request_body = 262144"

definition pending :: "ting_handoff_row \<Rightarrow> bool" where
  "pending h \<longleftrightarrow> th_accepted h = None \<and> th_discarded_at h = None"

definition leased :: "instant \<Rightarrow> ting_handoff_row \<Rightarrow> bool" where
  "leased now h = (case th_lease h of None \<Rightarrow> False | Some l \<Rightarrow> now < tl_expires l)"

definition eligible :: "instant \<Rightarrow> db \<Rightarrow> ting_handoff_row \<Rightarrow> bool" where
  "eligible now s h \<longleftrightarrow> pending h \<and> th_next_attempt h \<le> now \<and> \<not> leased now h \<and> is_participant s (th_conversation h) (th_target h)"

definition due_handoffs :: "instant \<Rightarrow> nat \<Rightarrow> db \<Rightarrow> ting_handoff_row list" where
  "due_handoffs now limit s =
     take limit (sort_key (\<lambda>h. (th_next_attempt h, th_created_at h, th_delivery h)) (filter (eligible now s) (ting_handoffs s)))"

definition target_public_id :: "db \<Rightarrow> ting_handoff_row \<Rightarrow> str option" where
  "target_public_id s h = Option.bind (find (\<lambda>a. a_uuid a = ar_id (th_target h)) (accounts s)) a_id"

definition discard_reason :: "ting_lib \<Rightarrow> uuid_lib \<Rightarrow> ting_handoff_row \<Rightarrow> str option" where
  "discard_reason J U h =
     (if is_some_and (is_prepared_before_cutover J) (th_request_body h) then Some (lit ''prepared_before_accounts_cutover'')
      else if is_account_uuid U (ar_id (th_target h)) then None
      else Some (lit ''recipient_without_account''))"

definition update_handoff :: "uuid \<Rightarrow> (ting_handoff_row \<Rightarrow> ting_handoff_row) \<Rightarrow> db \<Rightarrow> db" where
  "update_handoff i f s = s\<lparr>ting_handoffs := sql_update (\<lambda>h. th_delivery h = i) f (ting_handoffs s)\<rparr>"

definition discard :: "instant \<Rightarrow> str \<Rightarrow> ting_handoff_row \<Rightarrow> ting_handoff_row" where
  "discard now reason h = h\<lparr>th_discarded_at := Some now, th_discard_reason := Some reason\<rparr>"

definition lease_out :: "str \<Rightarrow> ting_lease \<Rightarrow> ting_handoff_row \<Rightarrow> ting_handoff_row" where
  "lease_out body l h = h\<lparr>th_request_body := Some body, th_lease := Some l\<rparr>"

type_synonym claim_state = "ting_claim list \<times> nat \<times> db"

definition claim_one ::
  "ting_lib \<Rightarrow> env \<Rightarrow> str \<Rightarrow> nat \<Rightarrow> str \<Rightarrow> ting_handoff_row \<Rightarrow> claim_state \<Rightarrow> claim_state app_result" where
  "claim_one J E owner lease_ms app_id h = (\<lambda>(claims, discarded, s).
     case discard_reason J (e_uuid E) h of
       Some reason \<Rightarrow> Inr (claims, discarded + 1, update_handoff (th_delivery h) (discard (e_now E) reason) s)
     | None \<Rightarrow>
         bind_ok (prepared_body J (e_uuid E) app_id h (target_public_id s h)) (\<lambda>body.
         let l = \<lparr>tl_id = e_fresh E (length claims), tl_owner = owner, tl_expires = e_now E + int lease_ms * (second div 1000)\<rparr> in
         if str_len body > max_request_body then Inl durable_invariant_error
         else
           bind_ok (parse_target (th_target h)) (\<lambda>target.
           bind_ok (option_result parse_target (th_originator h)) (\<lambda>originator.
             Inr (claims @ [\<lparr>tc_delivery = th_delivery h, tc_lease = tl_id l, tc_target = target,
                    tc_originator = originator, tc_conversation = th_conversation h, tc_sequence = th_delivery_sequence h,
                    tc_body = body, tc_attempts = th_attempts h\<rparr>],
                  discarded, update_handoff (th_delivery h) (lease_out body l) s)))))"

lemma claim_one_progress:
  assumes "claim_one J E owner ms app h (cs, d, s) = Inr (cs', d', s')"
  shows "length cs \<le> length cs'" "cs' = cs \<Longrightarrow> d' = Suc d"
  using assms by (auto simp: claim_one_def Let_def split: option.splits if_splits)

lemma claim_all_progress:
  assumes "fold_result (claim_one J E owner ms app) hs (cs, d, s) = Inr (cs', d', s')"
  shows "length cs \<le> length cs'" "cs' = cs \<Longrightarrow> d' = d + length hs"
proof -
  have "length cs \<le> length cs' \<and> (length cs' = length cs \<longrightarrow> d' = d + length hs)"
    using assms
  proof (induction hs arbitrary: cs d s)
    case (Cons h hs)
    then obtain cs1 d1 s1 where one: "claim_one J E owner ms app h (cs, d, s) = Inr (cs1, d1, s1)"
      and rest: "fold_result (claim_one J E owner ms app) hs (cs1, d1, s1) = Inr (cs', d', s')" by auto
    have "length cs1 = length cs \<Longrightarrow> d1 = Suc d"
      using one by (auto simp: claim_one_def Let_def split: option.splits if_splits)
    with Cons.IH [OF rest] claim_one_progress(1) [OF one] show ?case by auto
  qed simp
  then show "length cs \<le> length cs'" "cs' = cs \<Longrightarrow> d' = d + length hs" by auto
qed

text \<open>The rounds of a claim. A round that claims nothing discarded everything it selected, so the bound on
  discards ends the loop.\<close>

function claim_rounds ::
  "ting_lib \<Rightarrow> env \<Rightarrow> str \<Rightarrow> nat \<Rightarrow> nat \<Rightarrow> str \<Rightarrow> claim_state \<Rightarrow> claim_state app_result" where
  "claim_rounds J E owner limit lease_ms app_id (claims, discarded, s) =
     (if claims = [] \<and> discarded < max_discards_per_claim then
        (let records = due_handoffs (e_now E) limit s in
         if records = [] then Inr (claims, discarded, s)
         else (case fold_result (claim_one J E owner lease_ms app_id) records (claims, discarded, s) of
                 Inl e \<Rightarrow> Inl e
               | Inr st \<Rightarrow> claim_rounds J E owner limit lease_ms app_id st))
      else Inr (claims, discarded, s))"
  by pat_completeness auto

termination
proof (relation "measure (\<lambda>(J, E, owner, limit, ms, app, claims, discarded, s).
    if claims = [] then Suc max_discards_per_claim - discarded else 0)", goal_cases)
  case (2 J E owner limit ms app claims discarded s records st)
  obtain cs' d' s' where st: "st = (cs', d', s')" by (cases st) auto
  have "cs' = [] \<Longrightarrow> d' = discarded + length records"
    using claim_all_progress(2) [of J E owner ms app records "[]" discarded s cs' d' s'] 2 by (simp add: st)
  moreover have "records \<noteq> []" using 2 by simp
  ultimately show ?case using 2(1) by (cases records) (auto simp: st)
qed simp

declare claim_rounds.simps [simp del]

definition claim_ting_deliveries ::
  "ting_lib \<Rightarrow> env \<Rightarrow> str \<Rightarrow> nat \<Rightarrow> nat \<Rightarrow> str \<Rightarrow> db \<Rightarrow> (ting_claim list \<times> db) app_result" where
  "claim_ting_deliveries J E owner limit lease_ms app_id s =
     bind_ok (validate_text owner ''Ting lease owner'') (\<lambda>_.
     bind_ok (context_validate app_id) (\<lambda>_.
     if \<not> (1 \<le> limit \<and> limit \<le> 100) then Inl (validation ''Ting claim limit must be 1 to 100'')
     else if int lease_ms > i64_max then Inl (validation ''Ting lease duration is too large'')
     else if lease_ms < 1 then Inl (validation ''Ting lease duration must be positive'')
     else bind_ok (claim_rounds J E owner limit lease_ms app_id ([], 0, s)) (\<lambda>(claims, _, s'). Inr (claims, s'))))"

section \<open>Settling\<close>

definition ting_delivery_authorized :: "instant \<Rightarrow> ting_claim \<Rightarrow> db \<Rightarrow> bool" where
  "ting_delivery_authorized now c s =
     sql_exists (\<lambda>h. th_delivery h = tc_delivery c \<and> map_option tl_id (th_lease h) = Some (tc_lease c) \<and> leased now h \<and>
         th_target h = tc_target c \<and> pending h \<and> is_participant s (th_conversation h) (th_target h)) (ting_handoffs s)"

definition discard_ting_handoffs :: "instant \<Rightarrow> str \<Rightarrow> int \<Rightarrow> db \<Rightarrow> (nat \<times> db) app_result" where
  "discard_ting_handoffs now reason limit s =
     bind_ok (validate_text reason ''Ting discard reason'') (\<lambda>_.
     if limit < 0 then Inl (Database ''LIMIT must not be negative'')
     else
       let chosen = map th_delivery (take (nat limit)
             (sort_key th_created_at (filter (\<lambda>h. pending h \<and> \<not> leased now h) (ting_handoffs s))));
           p = (\<lambda>h. th_delivery h \<in> set chosen) in
       Inr (rows_affected p (ting_handoffs s), s\<lparr>ting_handoffs := sql_update p (discard now reason) (ting_handoffs s)\<rparr>))"

definition claim_owned :: "instant \<Rightarrow> uuid \<Rightarrow> uuid \<Rightarrow> ting_handoff_row \<Rightarrow> bool" where
  "claim_owned now delivery lease h \<longleftrightarrow> th_delivery h = delivery \<and> map_option tl_id (th_lease h) = Some lease \<and>
     leased now h \<and> th_accepted h = None"

definition lost_claim_error :: app_error where
  "lost_claim_error = conflict ''Ting delivery claim is no longer owned''"

text \<open>An accepted row must have its request and must not be discarded, by the table's \<open>CHECK\<close>s.\<close>

definition accept_ting_delivery ::
  "instant \<Rightarrow> uuid \<Rightarrow> uuid \<Rightarrow> str \<Rightarrow> instant \<Rightarrow> bool \<Rightarrow> db \<Rightarrow> db app_result" where
  "accept_ting_delivery now delivery lease ting_id created_at silent s =
     bind_ok (validate_text ting_id ''Ting ID'') (\<lambda>_.
     let p = claim_owned now delivery lease in
     if sql_exists (\<lambda>h. p h \<and> (th_discarded_at h \<noteq> None \<or> th_request_body h = None)) (ting_handoffs s)
     then Inl durable_invariant_error
     else if rows_affected p (ting_handoffs s) = 1
     then Inr (s\<lparr>ting_handoffs := sql_update p (\<lambda>h. h\<lparr>th_accepted :=
            Some \<lparr>ta_at = now, ta_ting_id = ting_id, ta_created_at = created_at, ta_silent = silent\<rparr>,
            th_lease := None, th_last_error := None\<rparr>) (ting_handoffs s)\<rparr>)
     else if sql_exists (\<lambda>h. th_delivery h = delivery \<and>
            (case th_accepted h of None \<Rightarrow> False
             | Some a \<Rightarrow> ta_ting_id a = ting_id \<and> ta_created_at a = created_at \<and> ta_silent a = silent)) (ting_handoffs s)
     then Inr s else Inl lost_claim_error)"

definition retry_ting_delivery :: "instant \<Rightarrow> uuid \<Rightarrow> uuid \<Rightarrow> instant \<Rightarrow> str \<Rightarrow> db \<Rightarrow> db app_result" where
  "retry_ting_delivery now delivery lease next_attempt code s =
     bind_ok (validate_text code ''Ting retry error code'') (\<lambda>_.
     let p = claim_owned now delivery lease in
     if rows_affected p (ting_handoffs s) = 1
     then Inr (s\<lparr>ting_handoffs := sql_update p (\<lambda>h. h\<lparr>th_next_attempt := next_attempt, th_last_error := Some code,
            th_attempts := (if th_attempts h < i64_max then th_attempts h + 1 else th_attempts h),
            th_lease := None\<rparr>) (ting_handoffs s)\<rparr>)
     else if sql_exists (\<lambda>h. th_delivery h = delivery \<and> th_accepted h \<noteq> None) (ting_handoffs s)
     then Inr s else Inl lost_claim_error)"

section \<open>Enrolment\<close>

definition enrolment_key :: "ting_enrollment_row \<Rightarrow> str \<times> int \<times> str \<times> actor_ref" where
  "enrolment_key r = (te_app r, te_generation r, te_partition r, te_actor r)"

definition ting_enrolled :: "str \<Rightarrow> str \<Rightarrow> db \<Rightarrow> bool" where
  "ting_enrolled app account s =
     sql_exists (\<lambda>r. te_app r = app \<and> te_generation r = 0 \<and> te_partition r = accounts_partition \<and>
         ar_id (te_actor r) = account \<and> te_enrolled_at r \<noteq> None) (ting_enrollments s)"

definition ten_minutes :: int where "ten_minutes = 10 * 60 * second"

definition may_attempt :: "instant \<Rightarrow> ting_enrollment_row \<Rightarrow> bool" where
  "may_attempt now r \<longleftrightarrow> te_enrolled_at r = None \<and> te_attempted_at r < now - ten_minutes"

definition reserve_ting_enrolment :: "instant \<Rightarrow> str \<Rightarrow> actor_ref \<Rightarrow> db \<Rightarrow> bool \<times> db" where
  "reserve_ting_enrolment now app a s =
     (let r = \<lparr>te_app = app, te_generation = 0, te_partition = accounts_partition, te_actor = a, te_subscription = None,
               te_enrolled_at = None, te_attempted_at = now, te_last_error = None\<rparr> in
      (upsert_affected enrolment_key r (may_attempt now) (ting_enrollments s) \<noteq> 0,
       s\<lparr>ting_enrollments := upsert_where enrolment_key r (may_attempt now)
           (\<lambda>r. r\<lparr>te_attempted_at := now, te_last_error := None\<rparr>) (ting_enrollments s)\<rparr>))"

definition finish_ting_enrolment ::
  "instant \<Rightarrow> str \<Rightarrow> actor_ref \<Rightarrow> str option \<Rightarrow> str option \<Rightarrow> db \<Rightarrow> db app_result" where
  "finish_ting_enrolment now app a subscription error s =
     (let p = (\<lambda>r. enrolment_key r = (app, 0, accounts_partition, a));
          error' = map_option (take 128) error in
      if sql_exists p (ting_enrollments s) \<and>
         (is_some_and (\<lambda>i. i = [] \<or> str_len i > 255) subscription \<or> is_some_and (\<lambda>e. e = [] \<or> str_len e > 128) error')
      then Inl durable_invariant_error
      else Inr (s\<lparr>ting_enrollments := sql_update p (\<lambda>r. r\<lparr>te_subscription := subscription,
             te_enrolled_at := (case subscription of None \<Rightarrow> None | Some _ \<Rightarrow> Some now), te_last_error := error'\<rparr>)
             (ting_enrollments s)\<rparr>))"

definition grant_key :: "ting_grant_row \<Rightarrow> str \<times> actor_ref \<times> str" where
  "grant_key r = (tg_app r, tg_actor r, tg_purpose r)"

definition save_ting_proof_grant :: "ting_grant_row \<Rightarrow> db \<Rightarrow> db" where
  "save_ting_proof_grant g s =
     s\<lparr>ting_grants := upsert grant_key g (\<lambda>r. r\<lparr>tg_proof := tg_proof g, tg_nonce := tg_nonce g,
         tg_ciphertext := tg_ciphertext g, tg_refresh_expires := tg_refresh_expires g\<rparr>) (ting_grants s)\<rparr>"

definition ting_proof_grant :: "str \<Rightarrow> actor_ref \<Rightarrow> str \<Rightarrow> db \<Rightarrow> (nat list \<times> nat list) option" where
  "ting_proof_grant app a purpose s =
     map_option (\<lambda>r. (tg_nonce r, tg_ciphertext r)) (find (\<lambda>r. grant_key r = (app, a, purpose)) (ting_grants s))"

definition forget_ting_enrolment :: "str \<Rightarrow> actor_ref \<Rightarrow> db \<Rightarrow> db" where
  "forget_ting_enrolment app a s =
     s\<lparr>ting_enrollments := sql_delete (\<lambda>r. te_app r = app \<and> te_partition r = accounts_partition \<and> te_actor r = a)
         (ting_enrollments s)\<rparr>"

section \<open>Ting's replies\<close>

datatype ting_failure = Transport | Timeout | ProtocolFailure | Rejected str | InvalidRequest | AuthorityUnavailable

fun failure_code :: "ting_failure \<Rightarrow> str" where
  "failure_code Transport = lit ''ting_transport_unavailable''"
| "failure_code Timeout = lit ''ting_acceptance_uncertain''"
| "failure_code ProtocolFailure = lit ''ting_protocol_error''"
| "failure_code (Rejected code) = code"
| "failure_code InvalidRequest = lit ''ting_invalid_prepared_request''"
| "failure_code AuthorityUnavailable = lit ''ting_authority_unavailable''"

record ting_accepted =
  ac_id :: str
  ac_created_at :: instant
  ac_silent :: bool

fun json_str :: "json option \<Rightarrow> str option" where
  "json_str (Some (JStr t)) = Some t"
| "json_str _ = None"

fun json_bool :: "json option \<Rightarrow> bool option" where
  "json_bool (Some (JBool b)) = Some b"
| "json_bool _ = None"

definition acceptance :: "(str \<Rightarrow> instant option) \<Rightarrow> json \<Rightarrow> str \<Rightarrow> ting_failure + ting_accepted" where
  "acceptance parse_time response key =
     (if json_str (json_field response ''op'') \<noteq> Some (lit ''accepted'') \<or>
         json_str (json_field response ''status'') \<noteq> Some (lit ''accepted'') \<or>
         json_str (json_field response ''key'') \<noteq> Some key
      then Inl ProtocolFailure
      else
        (case (filter_option (\<lambda>i. i \<noteq> [] \<and> str_len i \<le> 255 \<and> \<not> list_ex is_control i) (json_str (json_field response ''id'')),
               Option.bind (filter_option (suffix (lit ''Z'')) (json_str (json_field response ''created_at''))) parse_time,
               json_bool (json_field response ''silent'')) of
           (Some i, Some t, Some b) \<Rightarrow> Inr \<lparr>ac_id = i, ac_created_at = t, ac_silent = b\<rparr>
         | _ \<Rightarrow> Inl ProtocolFailure))"

definition rejection_code_ok :: "str \<Rightarrow> bool" where
  "rejection_code_ok code \<longleftrightarrow> code \<noteq> [] \<and> str_len code \<le> 100 \<and>
     (\<forall>b\<in>set (bytes code). is_ascii_lowercase b \<or> is_ascii_digit b \<or> b = 95)"

definition rejection_code :: "json \<Rightarrow> str" where
  "rejection_code response =
     (case Option.bind (json_field response ''error'') (\<lambda>e. json_str (json_field e ''code'')) of
        Some code \<Rightarrow> if rejection_code_ok code then code else lit ''ting_rejected''
      | None \<Rightarrow> lit ''ting_rejected'')"

text \<open>\<open>send_one\<close> after the frame is written: the next frame must answer this request.\<close>

definition read_reply :: "(str \<Rightarrow> instant option) \<Rightarrow> str \<Rightarrow> str \<Rightarrow> json \<Rightarrow> ting_failure + ting_accepted" where
  "read_reply parse_time request_id key response =
     (if json_str (json_field response ''request_id'') \<noteq> Some request_id then Inl ProtocolFailure
      else if json_str (json_field response ''op'') = Some (lit ''error'') then Inl (Rejected (rejection_code response))
      else acceptance parse_time response key)"

section \<open>The worker\<close>

text \<open>\<open>retry_delay\<close> of an attempt count and a maximum, in the unit of instants.\<close>

definition u32_max :: int where "u32_max = 2 ^ 32 - 1"

definition retry_delay :: "int \<Rightarrow> int \<Rightarrow> int" where
  "retry_delay attempt maximum =
     (let shift = min (if 0 \<le> attempt \<and> attempt \<le> u32_max then nat attempt else 31) 31 in
      min (2 ^ shift * second) (max maximum second))"

text \<open>What surrounds one turn of the worker: the clock and lease token of its claim, the clock of the check
  before sending, whether the lease was nearly spent by then, what the publisher answers (\<open>Timeout\<close> when it
  does not in time), and the clock when the outcome is stored.\<close>

record turn =
  tu_env :: env
  tu_checked :: instant
  tu_late :: bool
  tu_publish :: "ting_claim \<Rightarrow> ting_failure + ting_accepted"
  tu_stored :: instant

record worker_settings =
  ws_instance :: str
  ws_lease_ms :: nat
  ws_batch :: nat
  ws_max_retry :: int
  ws_app :: str

definition turn_outcome :: "turn \<Rightarrow> ting_claim \<Rightarrow> db \<Rightarrow> ting_failure + ting_accepted" where
  "turn_outcome T c s =
     (if tu_late T then Inl Timeout
      else if ting_delivery_authorized (tu_checked T) c s then tu_publish T c
      else Inl (Rejected (lit ''ting_recipient_no_longer_participant'')))"

definition store_outcome :: "worker_settings \<Rightarrow> turn \<Rightarrow> ting_claim \<Rightarrow> ting_failure + ting_accepted \<Rightarrow> db \<Rightarrow> db app_result" where
  "store_outcome W T c outcome s =
     (case outcome of
        Inr a \<Rightarrow> accept_ting_delivery (tu_stored T) (tc_delivery c) (tc_lease c) (ac_id a) (ac_created_at a) (ac_silent a) s
      | Inl e \<Rightarrow> retry_ting_delivery (tu_stored T) (tc_delivery c) (tc_lease c)
          (tu_stored T + retry_delay (tc_attempts c) (ws_max_retry W)) (failure_code e) s)"

fun is_conflict :: "app_error \<Rightarrow> bool" where
  "is_conflict (Conflict _) = True"
| "is_conflict _ = False"

text \<open>A turn commits its claim, then its outcome: an error of the second leaves the first in place.\<close>

fun process_turns :: "ting_lib \<Rightarrow> worker_settings \<Rightarrow> turn list \<Rightarrow> nat \<Rightarrow> db \<Rightarrow> nat app_result \<times> db" where
  "process_turns J W [] processed s = (Inr processed, s)"
| "process_turns J W (T # Ts) processed s =
     (case claim_ting_deliveries J (tu_env T) (ws_instance W) 1 (ws_lease_ms W) (ws_app W) s of
        Inl e \<Rightarrow> (Inl e, s)
      | Inr (claims, s1) \<Rightarrow>
          if claims = [] then (Inr processed, s1)
          else
            let c = last claims in
            (case store_outcome W T c (turn_outcome T c s1) s1 of
               Inr s2 \<Rightarrow> process_turns J W Ts (processed + 1) s2
             | Inl e \<Rightarrow> if is_conflict e then process_turns J W Ts (processed + 1) s1 else (Inl e, s1)))"

definition discard_batch :: int where "discard_batch = 500"

definition process_once :: "ting_lib \<Rightarrow> worker_settings \<Rightarrow> bool \<Rightarrow> instant \<Rightarrow> turn list \<Rightarrow> db \<Rightarrow> nat app_result \<times> db" where
  "process_once J W configured now Ts s =
     (if \<not> configured then
        (case discard_ting_handoffs now (lit ''ting_not_configured'') discard_batch s of
           Inl e \<Rightarrow> (Inl e, s) | Inr (n, s') \<Rightarrow> (Inr n, s'))
      else if ws_lease_ms W \<le> 500 then (Inl (validation ''Ting lease must exceed 500 milliseconds''), s)
      else process_turns J W (take (min (ws_batch W) 100) Ts) 0 s)"

section \<open>What a claim does\<close>

definition claim_expiry :: "env \<Rightarrow> nat \<Rightarrow> instant" where
  "claim_expiry E lease_ms = e_now E + int lease_ms * (second div 1000)"

definition claim_of :: "env \<Rightarrow> str \<Rightarrow> nat \<Rightarrow> ting_claim \<Rightarrow> ting_handoff_row \<Rightarrow> ting_handoff_row \<Rightarrow> bool" where
  "claim_of E owner ms c h h' \<longleftrightarrow> tc_delivery c = th_delivery h \<and> parse_target (th_target h) = Inr (tc_target c) \<and>
     (th_request_body h \<noteq> None \<longrightarrow> th_request_body h = Some (tc_body c)) \<and>
     h' = lease_out (tc_body c) \<lparr>tl_id = tc_lease c, tl_owner = owner, tl_expires = claim_expiry E ms\<rparr> h"

definition row_step ::
  "ting_lib \<Rightarrow> env \<Rightarrow> str \<Rightarrow> nat \<Rightarrow> db \<Rightarrow> ting_claim list \<Rightarrow> ting_handoff_row \<Rightarrow> ting_handoff_row \<Rightarrow> bool" where
  "row_step J E owner ms s cs h h' \<longleftrightarrow> h' = h \<or>
     (eligible (e_now E) s h \<and>
       ((\<exists>reason. discard_reason J (e_uuid E) h = Some reason \<and> h' = discard (e_now E) reason h) \<or>
        (\<exists>c\<in>set cs. discard_reason J (e_uuid E) h = None \<and> claim_of E owner ms c h h')))"

definition discarded_rows :: "db \<Rightarrow> nat" where
  "discarded_rows s = rows_affected (\<lambda>h. th_discarded_at h \<noteq> None) (ting_handoffs s)"

text \<open>The state of a claim's loop against the database it started from.\<close>

definition claiming :: "ting_lib \<Rightarrow> env \<Rightarrow> str \<Rightarrow> nat \<Rightarrow> db \<Rightarrow> claim_state \<Rightarrow> bool" where
  "claiming J E owner ms s = (\<lambda>(cs, d, s'). keyed th_delivery (ting_handoffs s') \<and>
     s' = s\<lparr>ting_handoffs := ting_handoffs s'\<rparr> \<and>
     list_all2 (row_step J E owner ms s cs) (ting_handoffs s) (ting_handoffs s') \<and>
     (\<forall>c\<in>set cs. \<exists>h h'. h \<in> set (ting_handoffs s) \<and> h' \<in> set (ting_handoffs s') \<and> eligible (e_now E) s h \<and>
        discard_reason J (e_uuid E) h = None \<and> claim_of E owner ms c h h') \<and>
     discarded_rows s' = discarded_rows s + d)"

lemma eligible_cong [simp]: "eligible now (s\<lparr>ting_handoffs := t\<rparr>) = eligible now s"
  by (simp add: fun_eq_iff eligible_def is_participant_def effective_conversation_participants_def eligible_group_members_def
      account_deleted_in_def)

lemma row_step_eligible:
  assumes "row_step J E owner ms s cs h0 h" "eligible (e_now E) s h" "0 < ms"
  shows "h0 = h"
proof (rule ccontr)
  assume "h0 \<noteq> h"
  have pos: "0 < int ms * (second div 1000)" using assms(3) by (simp add: second_def)
  from assms(1) \<open>h0 \<noteq> h\<close> consider reason where "h = discard (e_now E) reason h0"
    | c where "claim_of E owner ms c h0 h" by (auto simp: row_step_def)
  then show False
  proof cases
    case 1
    then have "th_discarded_at h = Some (e_now E)" by (simp add: discard_def)
    then show False using assms(2) by (simp add: eligible_def pending_def)
  next
    case 2
    then have "\<exists>l. th_lease h = Some l \<and> tl_expires l = claim_expiry E ms"
      by (simp add: claim_of_def lease_out_def)
    then show False using assms(2) pos by (auto simp: eligible_def leased_def claim_expiry_def)
  qed
qed

lemma row_step_mono: "row_step J E owner ms s cs h h' \<Longrightarrow> set cs \<subseteq> set cs' \<Longrightarrow> row_step J E owner ms s cs' h h'"
  by (auto simp: row_step_def)

text \<open>Replacing one row of a keyed table.\<close>

lemma sql_update_one:
  assumes "keyed key t" "h \<in> set t"
  shows "sql_update (\<lambda>r. key r = key h) f t = map (\<lambda>r. if r = h then f h else r) t"
proof -
  have "r = h" if "r \<in> set t" "key r = key h" for r using keyed_unique [OF assms(1) that(1) assms(2) that(2)] .
  then show ?thesis by (auto simp: sql_update_def)
qed

lemma rows_affected_single:
  assumes "keyed key t" "h \<in> set t" "\<not> p h" "p (f h)"
  shows "rows_affected p (map (\<lambda>r. if r = h then f h else r) t) = Suc (rows_affected p t)"
  using assms(1,2)
proof (induction t)
  case (Cons r t)
  show ?case
  proof (cases "r = h")
    case True
    with Cons.prems have "h \<notin> set t" by (auto simp: keyed_def)
    then have "map (\<lambda>r. if r = h then f h else r) t = t" by (induction t) auto
    with True assms(3,4) show ?thesis by (simp add: rows_affected_def)
  next
    case False
    with Cons show ?thesis by (auto simp: keyed_def rows_affected_def)
  qed
qed simp

lemma claim_oneE:
  assumes "claim_one J E owner ms app h (cs, d, s) = Inr (cs', d', s')"
  obtains (drop) reason where "discard_reason J (e_uuid E) h = Some reason" "cs' = cs" "d' = Suc d"
      "s' = update_handoff (th_delivery h) (discard (e_now E) reason) s"
  | (take) c where "discard_reason J (e_uuid E) h = None" "cs' = cs @ [c]" "d' = d"
      "s' = update_handoff (th_delivery h) (lease_out (tc_body c) \<lparr>tl_id = tc_lease c, tl_owner = owner, tl_expires = claim_expiry E ms\<rparr>) s"
      "claim_of E owner ms c h (lease_out (tc_body c) \<lparr>tl_id = tc_lease c, tl_owner = owner, tl_expires = claim_expiry E ms\<rparr> h)"
proof (cases "discard_reason J (e_uuid E) h")
  case (Some reason)
  with assms show ?thesis by (intro drop) (auto simp: claim_one_def)
next
  case None
  from assms None obtain body target originator where
    body: "prepared_body J (e_uuid E) app h (target_public_id s h) = Inr body" and target: "parse_target (th_target h) = Inr target"
    and out: "cs' = cs @ [\<lparr>tc_delivery = th_delivery h, tc_lease = e_fresh E (length cs), tc_target = target,
                    tc_originator = originator, tc_conversation = th_conversation h, tc_sequence = th_delivery_sequence h,
                    tc_body = body, tc_attempts = th_attempts h\<rparr>]" "d' = d"
      "s' = update_handoff (th_delivery h) (lease_out body \<lparr>tl_id = e_fresh E (length cs), tl_owner = owner,
              tl_expires = claim_expiry E ms\<rparr>) s"
    by (auto simp: claim_one_def Let_def claim_expiry_def split: if_splits)
  have "th_request_body h \<noteq> None \<longrightarrow> th_request_body h = Some body"
    using body by (auto simp: prepared_body_def split: option.splits if_splits)
  with None out target show ?thesis by (intro take [of "last cs'"]) (simp_all add: claim_of_def)
qed

lemma list_all2_in2: "list_all2 P xs ys \<Longrightarrow> y \<in> set ys \<Longrightarrow> \<exists>x\<in>set xs. P x y"
  by (induction rule: list_all2_induct) auto

lemma rows_affected_map: "\<forall>r\<in>set t. p (f r) = p r \<Longrightarrow> rows_affected p (map f t) = rows_affected p t"
  by (induction t) (auto simp: rows_affected_def)

lemma claimingD:
  assumes "claiming J E owner ms s (cs, d, s1)"
  shows "keyed th_delivery (ting_handoffs s1)" "s1 = s\<lparr>ting_handoffs := ting_handoffs s1\<rparr>"
    "list_all2 (row_step J E owner ms s cs) (ting_handoffs s) (ting_handoffs s1)"
    "c \<in> set cs \<Longrightarrow> \<exists>h h'. h \<in> set (ting_handoffs s) \<and> h' \<in> set (ting_handoffs s1) \<and> eligible (e_now E) s h \<and>
        discard_reason J (e_uuid E) h = None \<and> claim_of E owner ms c h h'"
    "discarded_rows s1 = discarded_rows s + d"
  using assms unfolding claiming_def by blast+

lemma claim_of_leased: "claim_of E owner ms c h h' \<Longrightarrow> 0 < ms \<Longrightarrow> now < claim_expiry E ms \<Longrightarrow> \<not> eligible now s h'"
  by (simp add: claim_of_def eligible_def leased_def lease_out_def)

lemma claim_expiry_later: "0 < ms \<Longrightarrow> e_now E < claim_expiry E ms"
  by (simp add: claim_expiry_def second_def)

text \<open>One row is replaced; everything else of the loop's state stays.\<close>

lemma claiming_replace:
  assumes inv: "claiming J E owner ms s (cs, d, s1)" and h: "h \<in> set (ting_handoffs s1)" "eligible (e_now E) s h" and ms: "0 < ms"
    and x: "row_step J E owner ms s cs' h x" "th_delivery x = th_delivery h"
    and cs: "cs' = cs \<or> (\<exists>c. cs' = cs @ [c] \<and> discard_reason J (e_uuid E) h = None \<and> claim_of E owner ms c h x)"
    and cnt: "discarded_rows (s\<lparr>ting_handoffs := map (\<lambda>r. if r = h then x else r) (ting_handoffs s1)\<rparr>) = discarded_rows s + d'"
  shows "claiming J E owner ms s (cs', d', s\<lparr>ting_handoffs := map (\<lambda>r. if r = h then x else r) (ting_handoffs s1)\<rparr>)"
proof -
  let ?t = "ting_handoffs s1" let ?t' = "map (\<lambda>r. if r = h then x else r) ?t"
  note k = claimingD [OF inv]
  have sub: "set cs \<subseteq> set cs'" using cs by auto
  have "map th_delivery ?t' = map th_delivery ?t" using x(2) by simp
  then have "keyed th_delivery ?t'" using k(1) by (simp only: keyed_def)
  moreover have rel: "row_step J E owner ms s cs' h0 (if r = h then x else r)" if "row_step J E owner ms s cs h0 r" for h0 r
  proof (cases "r = h")
    case True
    with row_step_eligible [OF _ h(2) ms] that have "h0 = h" by blast
    with x(1) True show ?thesis by simp
  next
    case False
    with row_step_mono [OF that sub] show ?thesis by simp
  qed
  have "list_all2 (row_step J E owner ms s cs') (ting_handoffs s) ?t'"
    unfolding list_all2_map2 by (rule list_all2_mono [OF k(3)]) (rule rel)
  moreover have "\<exists>h h'. h \<in> set (ting_handoffs s) \<and> h' \<in> set ?t' \<and> eligible (e_now E) s h \<and>
        discard_reason J (e_uuid E) h = None \<and> claim_of E owner ms c h h'" if c: "c \<in> set cs'" for c
  proof (cases "c \<in> set cs")
    case True
    from k(4) [OF this] obtain g h' where g: "g \<in> set (ting_handoffs s)" "h' \<in> set ?t" "eligible (e_now E) s g"
      "discard_reason J (e_uuid E) g = None" "claim_of E owner ms c g h'" by blast
    with claim_of_leased [OF g(5) ms claim_expiry_later [OF ms]] h(2) have "h' \<noteq> h" by blast
    with g(2) have "h' \<in> set ?t'" by force
    with g show ?thesis by blast
  next
    case False
    with cs c have new: "discard_reason J (e_uuid E) h = None" "claim_of E owner ms c h x" by auto
    from list_all2_in2 [OF k(3) h(1)] row_step_eligible [OF _ h(2) ms] have "h \<in> set (ting_handoffs s)" by blast
    moreover have "x \<in> set ?t'" using h(1) by force
    ultimately show ?thesis using new h(2) by blast
  qed
  ultimately show ?thesis using cnt unfolding claiming_def by simp
qed

lemma claiming_step:
  assumes inv: "claiming J E owner ms s (cs, d, s1)" and h: "h \<in> set (ting_handoffs s1)" "eligible (e_now E) s h" and ms: "0 < ms"
    and one: "claim_one J E owner ms app h (cs, d, s1) = Inr (cs', d', s2)"
  shows "claiming J E owner ms s (cs', d', s2) \<and> (\<exists>x. ting_handoffs s2 = map (\<lambda>r. if r = h then x else r) (ting_handoffs s1))"
proof -
  let ?t = "ting_handoffs s1"
  note k = claimingD [OF inv]
  have replaced: "update_handoff (th_delivery h) f s1 = s\<lparr>ting_handoffs := map (\<lambda>r. if r = h then f h else r) ?t\<rparr>" for f
    unfolding update_handoff_def sql_update_one [OF k(1) h(1)] by (subst k(2)) simp
  have alive: "th_discarded_at h = None" using h(2) by (simp add: eligible_def pending_def)
  show ?thesis
    using one
  proof (cases rule: claim_oneE)
    case (drop reason)
    let ?x = "discard (e_now E) reason h"
    have "rows_affected (\<lambda>h. th_discarded_at h \<noteq> None) (map (\<lambda>r. if r = h then ?x else r) ?t) =
        Suc (rows_affected (\<lambda>h. th_discarded_at h \<noteq> None) ?t)"
      by (rule rows_affected_single [OF k(1) h(1)]) (simp_all add: alive discard_def)
    then have "claiming J E owner ms s (cs', d', s\<lparr>ting_handoffs := map (\<lambda>r. if r = h then ?x else r) ?t\<rparr>)"
      using drop h k(5) by (intro claiming_replace [OF inv h ms]) (auto simp: row_step_def discard_def discarded_rows_def)
    with drop replaced show ?thesis by (intro conjI exI [of _ ?x]) simp_all
  next
    case (take c)
    let ?x = "lease_out (tc_body c) \<lparr>tl_id = tc_lease c, tl_owner = owner, tl_expires = claim_expiry E ms\<rparr> h"
    have "rows_affected (\<lambda>h. th_discarded_at h \<noteq> None) (map (\<lambda>r. if r = h then ?x else r) ?t) =
        rows_affected (\<lambda>h. th_discarded_at h \<noteq> None) ?t"
      by (rule rows_affected_map) (simp add: lease_out_def)
    then have "claiming J E owner ms s (cs', d', s\<lparr>ting_handoffs := map (\<lambda>r. if r = h then ?x else r) ?t\<rparr>)"
      using take h k(5) by (intro claiming_replace [OF inv h ms]) (auto simp: row_step_def lease_out_def discarded_rows_def)
    with take replaced show ?thesis by (intro conjI exI [of _ ?x]) simp_all
  qed
qed

lemma claiming_all:
  assumes "claiming J E owner ms s (cs, d, s1)" "0 < ms" "set hs \<subseteq> set (ting_handoffs s1)" "\<forall>h\<in>set hs. eligible (e_now E) s h"
    "distinct hs" "fold_result (claim_one J E owner ms app) hs (cs, d, s1) = Inr (cs', d', s2)"
  shows "claiming J E owner ms s (cs', d', s2)"
  using assms
proof (induction hs arbitrary: cs d s1)
  case (Cons h hs)
  then obtain cs1 d1 t where one: "claim_one J E owner ms app h (cs, d, s1) = Inr (cs1, d1, t)"
    and rest: "fold_result (claim_one J E owner ms app) hs (cs1, d1, t) = Inr (cs', d', s2)" by auto
  from claiming_step [OF Cons.prems(1) _ _ Cons.prems(2) one] Cons.prems obtain x where
    inv: "claiming J E owner ms s (cs1, d1, t)" and t: "ting_handoffs t = map (\<lambda>r. if r = h then x else r) (ting_handoffs s1)"
    by auto
  have "set hs \<subseteq> set (ting_handoffs t)" using Cons.prems(3,5) by (force simp: t)
  with Cons.IH [OF inv Cons.prems(2) _ _ _ rest] Cons.prems(4,5) show ?case by simp
qed simp

lemma due_handoffs_props:
  assumes "keyed th_delivery (ting_handoffs s)"
  shows "h \<in> set (due_handoffs now limit s) \<Longrightarrow> h \<in> set (ting_handoffs s) \<and> eligible now s h"
    and "distinct (due_handoffs now limit s)"
    and "0 < limit \<Longrightarrow> due_handoffs now limit s = [] \<longleftrightarrow> (\<forall>h\<in>set (ting_handoffs s). \<not> eligible now s h)"
proof -
  have "distinct (ting_handoffs s)" using assms by (auto simp: keyed_def distinct_map)
  then show "distinct (due_handoffs now limit s)" by (simp add: due_handoffs_def distinct_sort)
  show "h \<in> set (due_handoffs now limit s) \<Longrightarrow> h \<in> set (ting_handoffs s) \<and> eligible now s h"
    by (auto simp: due_handoffs_def dest!: in_set_takeD)
  show "due_handoffs now limit s = [] \<longleftrightarrow> (\<forall>h\<in>set (ting_handoffs s). \<not> eligible now s h)" if "0 < limit"
  proof -
    have "sort_key f xs = [] \<longleftrightarrow> xs = []" for f :: "ting_handoff_row \<Rightarrow> instant \<times> instant \<times> uuid" and xs
      by (metis length_0_conv length_sort)
    with that show ?thesis by (simp add: due_handoffs_def filter_empty_conv)
  qed
qed

lemma claiming_rounds:
  assumes "claim_rounds J E owner limit ms app (cs, d, s1) = Inr (cs', d', s2)" "claiming J E owner ms s (cs, d, s1)" "0 < ms"
  shows "claiming J E owner ms s (cs', d', s2)" "cs' = [] \<Longrightarrow> max_discards_per_claim \<le> d' \<or> due_handoffs (e_now E) limit s2 = []"
proof -
  have "claiming J E owner ms s (cs', d', s2) \<and> (cs' = [] \<longrightarrow> max_discards_per_claim \<le> d' \<or> due_handoffs (e_now E) limit s2 = [])"
    using assms
  proof (induction J E owner limit ms app "(cs, d, s1)" arbitrary: cs d s1 rule: claim_rounds.induct)
    case (1 J E owner limit ms app cs d s1)
    let ?hs = "due_handoffs (e_now E) limit s1"
    show ?case
    proof (cases "cs = [] \<and> d < max_discards_per_claim \<and> ?hs \<noteq> []")
      case False
      with "1.prems" show ?thesis by (subst (asm) (1) claim_rounds.simps) (auto simp: Let_def split: if_splits)
    next
      case True
      with "1.prems"(1) obtain cs1 d1 t where all: "fold_result (claim_one J E owner ms app) ?hs (cs, d, s1) = Inr (cs1, d1, t)"
        and rest: "claim_rounds J E owner limit ms app (cs1, d1, t) = Inr (cs', d', s2)"
        by (subst (asm) (1) claim_rounds.simps) (auto simp: Let_def split: sum.splits)
      note k = claimingD [OF "1.prems"(2)]
      have el: "eligible (e_now E) s = eligible (e_now E) s1" by (subst k(2)) simp
      have "claiming J E owner ms s (cs1, d1, t)"
        by (rule claiming_all [OF "1.prems"(2,3) _ _ _ all]) (use due_handoffs_props [OF k(1)] in \<open>auto simp: el\<close>)
      with "1.hyps" [OF _ refl _ all rest] True "1.prems"(3) show ?thesis by simp
    qed
  qed
  then show "claiming J E owner ms s (cs', d', s2)" "cs' = [] \<Longrightarrow> max_discards_per_claim \<le> d' \<or> due_handoffs (e_now E) limit s2 = []"
    by auto
qed

lemma claiming_start: "keyed th_delivery (ting_handoffs s) \<Longrightarrow> claiming J E owner ms s ([], 0, s)"
  by (simp add: claiming_def list_all2_same row_step_def)

lemma claim_ting_effect:
  assumes "keyed th_delivery (ting_handoffs s)" "claim_ting_deliveries J E owner limit ms app s = Inr (cs, s')"
  obtains d where "claiming J E owner ms s (cs, d, s')" "0 < ms" "0 < limit"
    "cs = [] \<Longrightarrow> max_discards_per_claim \<le> d \<or> due_handoffs (e_now E) limit s' = []"
proof -
  obtain d where run: "claim_rounds J E owner limit ms app ([], 0, s) = Inr (cs, d, s')" and pos: "0 < ms" "0 < limit"
    using assms(2) by (auto simp: claim_ting_deliveries_def split: if_splits)
  from claiming_rounds [OF run claiming_start [OF assms(1)] pos(1)] pos show ?thesis by (intro that)
qed

section \<open>The life of a handoff\<close>

definition handoff_ok :: "ting_handoff_row \<Rightarrow> bool" where
  "handoff_ok h \<longleftrightarrow> (th_accepted h \<noteq> None \<longrightarrow> th_lease h = None \<and> th_request_body h \<noteq> None \<and> th_discarded_at h = None) \<and>
     (th_discarded_at h = None \<longleftrightarrow> th_discard_reason h = None) \<and> (th_lease h \<noteq> None \<longrightarrow> th_request_body h \<noteq> None)"

definition handoffs_ok :: "db \<Rightarrow> bool" where
  "handoffs_ok s \<longleftrightarrow> keyed th_delivery (ting_handoffs s) \<and> (\<forall>h\<in>set (ting_handoffs s). handoff_ok h)"

text \<open>What a handoff refers to, and what may still change about it.\<close>

definition handoff_reference where
  "handoff_reference h = (th_delivery h, th_partition h, th_target h, th_conversation h, th_public_conversation h,
     th_message_sequence h, th_delivery_sequence h, th_event h, th_routing h, th_created_at h, th_originator h)"

definition handoff_kept :: "ting_handoff_row \<Rightarrow> ting_handoff_row \<Rightarrow> bool" where
  "handoff_kept h h' \<longleftrightarrow> handoff_reference h' = handoff_reference h \<and>
     (th_request_body h \<noteq> None \<longrightarrow> th_request_body h' = th_request_body h) \<and>
     (th_accepted h \<noteq> None \<longrightarrow> h' = h) \<and>
     (th_discarded_at h \<noteq> None \<longrightarrow> th_discarded_at h' = th_discarded_at h \<and> th_discard_reason h' = th_discard_reason h)"

definition queue_kept :: "db \<Rightarrow> db \<Rightarrow> bool" where
  "queue_kept s s' \<longleftrightarrow> (\<exists>t new. ting_handoffs s' = t @ new \<and> list_all2 handoff_kept (ting_handoffs s) t)"

lemma handoff_kept_refl [simp]: "handoff_kept h h"
  by (simp add: handoff_kept_def)

lemma handoff_kept_trans: "handoff_kept h h' \<Longrightarrow> handoff_kept h' h'' \<Longrightarrow> handoff_kept h h''"
  by (auto simp: handoff_kept_def)

lemma queue_kept_refl [simp]: "queue_kept s s"
  unfolding queue_kept_def by (intro exI [of _ "ting_handoffs s"] exI [of _ "[]"]) (simp add: list_all2_same)

lemma queue_kept_trans:
  assumes "queue_kept s s'" "queue_kept s' s''"
  shows "queue_kept s s''"
proof -
  obtain t new where t: "ting_handoffs s' = t @ new" "list_all2 handoff_kept (ting_handoffs s) t" using assms(1) by (auto simp: queue_kept_def)
  obtain u new' where u: "ting_handoffs s'' = u @ new'" "list_all2 handoff_kept (t @ new) u" using assms(2) by (auto simp: queue_kept_def t)
  then obtain u1 u2 where "u = u1 @ u2" "list_all2 handoff_kept t u1" by (auto simp: list_all2_append1)
  moreover have "list_all2 handoff_kept (ting_handoffs s) u1"
    by (rule list_all2_trans [OF _ t(2) calculation(2)]) (erule (1) handoff_kept_trans)
  ultimately show ?thesis using u(1) by (auto simp: queue_kept_def)
qed

lemma queue_kept_update:
  assumes "ting_handoffs s' = sql_update p f (ting_handoffs s)"
    and "\<And>h. h \<in> set (ting_handoffs s) \<Longrightarrow> p h \<Longrightarrow> handoff_kept h (f h)"
  shows "queue_kept s s'"
proof -
  have "list_all2 handoff_kept t (sql_update p f t)" if "\<And>h. h \<in> set t \<Longrightarrow> p h \<Longrightarrow> handoff_kept h (f h)" for t
    using that by (induction t) (auto simp: sql_update_def)
  from this [of "ting_handoffs s"] assms show ?thesis
    unfolding queue_kept_def by (intro exI [of _ "ting_handoffs s'"] exI [of _ "[]"]) simp
qed

lemma handoffs_ok_update:
  assumes "handoffs_ok s" "ting_handoffs s' = sql_update p f (ting_handoffs s)" "\<And>h. th_delivery (f h) = th_delivery h"
    and "\<And>h. h \<in> set (ting_handoffs s) \<Longrightarrow> p h \<Longrightarrow> handoff_ok (f h)"
  shows "handoffs_ok s'"
proof -
  have "keyed th_delivery (ting_handoffs s')"
    using assms(1,3) unfolding assms(2) handoffs_ok_def by (intro keyed_sql_update) simp_all
  then show ?thesis using assms(1,4) unfolding assms(2) handoffs_ok_def by (auto simp: set_sql_update)
qed

text \<open>A new handoff is pending and has not been prepared.\<close>

definition fresh_handoff :: "ting_handoff_row \<Rightarrow> bool" where
  "fresh_handoff h \<longleftrightarrow> pending h \<and> th_request_body h = None \<and> th_lease h = None \<and> th_discard_reason h = None"

lemma enqueue_handoffE:
  assumes "enqueue_ting_handoff U now origin d s = Inr s'"
  obtains "s' = s"
  | h where "s' = s\<lparr>ting_handoffs := ting_handoffs s @ [h]\<rparr>" "th_delivery h = d_id d" "fresh_handoff h"
      "\<not> sql_exists (\<lambda>x. th_delivery x = th_delivery h) (ting_handoffs s)"
proof (cases "\<exists>e. d_kind d = SystemDelivery e")
  case True
  with assms show ?thesis by (intro that(1)) (auto simp: enqueue_ting_handoff_def)
next
  case False
  with assms obtain m address event where "insert_row th_delivery (new_handoff now origin d m address event s) (ting_handoffs s) = Inr (ting_handoffs s')"
    and "s' = s\<lparr>ting_handoffs := ting_handoffs s'\<rparr>"
    by (cases "d_kind d") (auto simp: enqueue_ting_handoff_def Let_def simp del: insert_row_ok split: option.splits if_splits)
  then show ?thesis
    by (intro that(2) [of "new_handoff now origin d m address event s"])
      (auto simp: fresh_handoff_def pending_def new_handoff_def)
qed

inductive ting_step :: "ting_lib \<Rightarrow> db \<Rightarrow> db \<Rightarrow> bool" for J where
  enqueues: "enqueue_ting_handoff U now origin d s = Inr s' \<Longrightarrow> ting_step J s s'"
| claims: "claim_ting_deliveries J E owner limit ms app s = Inr (cs, s') \<Longrightarrow> ting_step J s s'"
| accepts: "accept_ting_delivery now i l ting created silent s = Inr s' \<Longrightarrow> ting_step J s s'"
| retries: "retry_ting_delivery now i l at code s = Inr s' \<Longrightarrow> ting_step J s s'"
| discards: "discard_ting_handoffs now reason limit s = Inr (n, s') \<Longrightarrow> ting_step J s s'"
| forgets: "ting_step J s (delete_own_rows now u s)"

lemma pending_discard_kept:
  "pending h \<Longrightarrow> handoff_kept h (discard now reason h)"
  by (simp add: handoff_kept_def discard_def pending_def handoff_reference_def)

text \<open>The forms a step takes on the queue.\<close>

lemma enqueue_keeps:
  assumes "enqueue_ting_handoff U now origin d s = Inr s'" "handoffs_ok s"
  shows "handoffs_ok s' \<and> queue_kept s s'"
  using assms(1)
proof (cases rule: enqueue_handoffE)
  case 1
  with assms(2) show ?thesis by simp
next
  case (2 h)
  have "keyed th_delivery (ting_handoffs s @ [h])"
    using assms(2) 2(4) by (intro keyed_append_new) (simp_all add: handoffs_ok_def)
  then have "handoffs_ok s'" using assms(2) 2(1,3) by (simp add: handoffs_ok_def handoff_ok_def fresh_handoff_def pending_def)
  moreover have "queue_kept s s'"
    unfolding queue_kept_def 2(1) by (intro exI [of _ "ting_handoffs s"] exI [of _ "[h]"]) (simp add: list_all2_same)
  ultimately show ?thesis ..
qed

lemma claims_keep:
  assumes "claim_ting_deliveries J E owner limit ms app s = Inr (cs, s')" "handoffs_ok s"
  shows "handoffs_ok s' \<and> queue_kept s s'"
proof -
  have k: "keyed th_delivery (ting_handoffs s)" using assms(2) by (simp add: handoffs_ok_def)
  obtain d where "claiming J E owner ms s (cs, d, s')" using claim_ting_effect [OF k assms(1)] by blast
  note inv = claimingD [OF this]
  have row: "handoff_kept h h' \<and> handoff_ok h'" if "row_step J E owner ms s cs h h'" "h \<in> set (ting_handoffs s)" for h h'
  proof -
    have ok: "handoff_ok h" using that(2) assms(2) by (simp add: handoffs_ok_def)
    from that(1) consider "h' = h" | reason where "eligible (e_now E) s h" "h' = discard (e_now E) reason h"
      | c where "eligible (e_now E) s h" "claim_of E owner ms c h h'" by (auto simp: row_step_def)
    then show ?thesis
    proof cases
      case 2
      then show ?thesis using ok pending_discard_kept by (simp add: eligible_def pending_def handoff_ok_def discard_def)
    next
      case 3
      then show ?thesis
        using ok by (auto simp: eligible_def pending_def handoff_ok_def claim_of_def lease_out_def handoff_kept_def handoff_reference_def)
    qed (use ok in simp)
  qed
  have "list_all2 handoff_kept (ting_handoffs s) (ting_handoffs s')"
    using inv(3) row by (simp add: list_all2_conv_all_nth)
  then have "queue_kept s s'" unfolding queue_kept_def by (intro exI [of _ "ting_handoffs s'"] exI [of _ "[]"]) simp
  moreover have "handoff_ok h'" if "h' \<in> set (ting_handoffs s')" for h'
    using list_all2_in2 [OF inv(3) that] row by blast
  then have "handoffs_ok s'" using inv(1) by (simp add: handoffs_ok_def)
  ultimately show ?thesis by blast
qed

lemma accept_keeps:
  assumes "accept_ting_delivery now i l ting created silent s = Inr s'" "handoffs_ok s"
  shows "handoffs_ok s' \<and> queue_kept s s'"
proof -
  let ?p = "claim_owned now i l"
  let ?f = "\<lambda>h. h\<lparr>th_accepted := Some \<lparr>ta_at = now, ta_ting_id = ting, ta_created_at = created, ta_silent = silent\<rparr>,
            th_lease := None, th_last_error := None\<rparr>"
  have "s' = s \<or> (ting_handoffs s' = sql_update ?p ?f (ting_handoffs s) \<and>
      \<not> sql_exists (\<lambda>h. ?p h \<and> (th_discarded_at h \<noteq> None \<or> th_request_body h = None)) (ting_handoffs s))"
    using assms(1) by (simp only: accept_ting_delivery_def Let_def split: if_splits) auto
  then show ?thesis
  proof
    assume new: "ting_handoffs s' = sql_update ?p ?f (ting_handoffs s) \<and>
      \<not> sql_exists (\<lambda>h. ?p h \<and> (th_discarded_at h \<noteq> None \<or> th_request_body h = None)) (ting_handoffs s)"
    have "queue_kept s s'"
      by (rule queue_kept_update [OF conjunct1 [OF new]]) (simp add: claim_owned_def handoff_kept_def handoff_reference_def)
    moreover have "handoffs_ok s'"
    proof (rule handoffs_ok_update [OF assms(2) conjunct1 [OF new]])
      fix h assume "h \<in> set (ting_handoffs s)" "?p h"
      with new assms(2) show "handoff_ok (?f h)" by (auto simp: handoffs_ok_def handoff_ok_def sql_exists_def)
    qed simp
    ultimately show ?thesis by blast
  qed (use assms(2) in simp)
qed

lemma retry_keeps:
  assumes "retry_ting_delivery now i l at code s = Inr s'" "handoffs_ok s"
  shows "handoffs_ok s' \<and> queue_kept s s'"
proof -
  let ?p = "claim_owned now i l"
  let ?f = "\<lambda>h. h\<lparr>th_next_attempt := at, th_last_error := Some code,
            th_attempts := (if th_attempts h < i64_max then th_attempts h + 1 else th_attempts h), th_lease := None\<rparr>"
  have "s' = s \<or> ting_handoffs s' = sql_update ?p ?f (ting_handoffs s)"
    using assms(1) by (simp only: retry_ting_delivery_def Let_def split: if_splits) auto
  then show ?thesis
  proof
    assume new: "ting_handoffs s' = sql_update ?p ?f (ting_handoffs s)"
    have "queue_kept s s'"
      by (rule queue_kept_update [OF new]) (simp add: claim_owned_def handoff_kept_def handoff_reference_def)
    moreover have "handoffs_ok s'"
      by (rule handoffs_ok_update [OF assms(2) new]) (use assms(2) in \<open>simp_all add: handoffs_ok_def handoff_ok_def\<close>)
    ultimately show ?thesis by blast
  qed (use assms(2) in simp)
qed

lemma discarding_keeps:
  assumes "handoffs_ok s" "ting_handoffs s' = sql_update p (discard now reason) (ting_handoffs s)"
    and "\<And>h. h \<in> set (ting_handoffs s) \<Longrightarrow> p h \<Longrightarrow> pending h"
  shows "handoffs_ok s' \<and> queue_kept s s'"
proof
  show "queue_kept s s'"
    by (rule queue_kept_update [OF assms(2)]) (use assms(3) pending_discard_kept in blast)
  show "handoffs_ok s'"
    by (rule handoffs_ok_update [OF assms(1,2)]) (use assms(1,3) in \<open>simp_all add: discard_def pending_def handoff_ok_def handoffs_ok_def\<close>)
qed

lemma discard_batch_keeps:
  assumes "discard_ting_handoffs now reason limit s = Inr (n, s')" "handoffs_ok s"
  shows "handoffs_ok s' \<and> queue_kept s s'"
proof -
  let ?c = "map th_delivery (take (nat limit) (sort_key th_created_at (filter (\<lambda>h. pending h \<and> \<not> leased now h) (ting_handoffs s))))"
  have s': "ting_handoffs s' = sql_update (\<lambda>h. th_delivery h \<in> set ?c) (discard now reason) (ting_handoffs s)"
    using assms(1) by (simp only: discard_ting_handoffs_def Let_def split: if_splits) auto
  have k: "keyed th_delivery (ting_handoffs s)" using assms(2) by (simp add: handoffs_ok_def)
  have "pending h" if h: "h \<in> set (ting_handoffs s)" and "th_delivery h \<in> set ?c" for h
  proof -
    from that(2) obtain g where g: "g \<in> set (ting_handoffs s)" "pending g" "th_delivery g = th_delivery h"
      by (auto dest!: in_set_takeD)
    with keyed_unique [OF k g(1) h g(3)] show ?thesis by simp
  qed
  then show ?thesis by (rule discarding_keeps [OF assms(2) s'])
qed

lemma delete_own_keeps:
  assumes "handoffs_ok s"
  shows "handoffs_ok (delete_own_rows now u s) \<and> queue_kept s (delete_own_rows now u s)"
proof (rule discarding_keeps [OF assms])
  show "ting_handoffs (delete_own_rows now u s) = sql_update (\<lambda>h. ar_id (th_target h) = u \<and> pending h)
      (discard now (lit ''account_deleted'')) (ting_handoffs s)"
    by (simp add: delete_own_rows_def discard_def [abs_def] pending_def)
qed simp

lemma ting_step_kept: "ting_step J s s' \<Longrightarrow> handoffs_ok s \<Longrightarrow> handoffs_ok s' \<and> queue_kept s s'"
  by (erule ting_step.cases) (simp_all add: enqueue_keeps claims_keep accept_keeps retry_keeps discard_batch_keeps delete_own_keeps)

text \<open>C15. The handoff queue is append-only and its rows settle once: however deliveries are enqueued and
  workers claim, send, fail, discard or accounts are deleted, in any order, no handoff is ever lost or
  changes what it refers to, a prepared request keeps its exact text, an accepted handoff never changes
  again, a discarded one stays discarded for the same reason and is never accepted.\<close>

theorem handoff_queue_safe:
  assumes "(ting_step J)\<^sup>*\<^sup>* s s'" "handoffs_ok s"
  shows "handoffs_ok s' \<and> queue_kept s s'"
  using assms
proof (induction rule: rtranclp_induct)
  case (step s1 s2)
  with ting_step_kept [OF step.hyps(2)] show ?case using queue_kept_trans by blast
qed simp

text \<open>A queue with one handoff of each kind, used in examples.\<close>

definition sample_handoff :: ting_handoff_row where
  "sample_handoff = \<lparr>th_delivery = 10, th_partition = accounts_partition, th_target = bob, th_conversation = 1,
     th_public_conversation = lit ''ann::bob'', th_message_sequence = 1, th_delivery_sequence = 1, th_event = ''message.created'',
     th_routing = None, th_created_at = 0, th_originator = Some ann, th_request_body = None, th_attempts = 0,
     th_next_attempt = 0, th_last_error = None, th_lease = None, th_accepted = None, th_discarded_at = None,
     th_discard_reason = None\<rparr>"

definition queued_chat :: db where
  "queued_chat = chat_sent\<lparr>ting_handoffs := [sample_handoff]\<rparr>"

definition plain_ting_lib :: ting_lib where
  "plain_ting_lib = \<lparr>tj_parse = \<lambda>_. Some (JObj [(lit ''type'', JStr (event_type (lit ''dm'')))]), tj_print = \<lambda>_. Some (lit ''{}'')\<rparr>"

theorem handoff_queue_safe_witness:
  "\<exists>s'. (ting_step plain_ting_lib)\<^sup>*\<^sup>* queued_chat s' \<and> s' \<noteq> queued_chat \<and> handoffs_ok s' \<and> queue_kept queued_chat s'"
proof -
  let ?s = "delete_own_rows 9 (ar_id bob) queued_chat"
  have step: "(ting_step plain_ting_lib)\<^sup>*\<^sup>* queued_chat ?s" by (rule r_into_rtranclp) (rule forgets)
  have "map th_discarded_at (ting_handoffs ?s) \<noteq> map th_discarded_at (ting_handoffs queued_chat)"
    by (simp add: delete_own_rows_def queued_chat_def sample_handoff_def sql_update_def lit_def)
  then have "?s \<noteq> queued_chat" by metis
  moreover have "handoffs_ok queued_chat"
    by (simp add: handoffs_ok_def handoff_ok_def keyed_def queued_chat_def sample_handoff_def)
  ultimately show ?thesis using step handoff_queue_safe [OF step] by blast
qed

text \<open>C14. Handoffs are leased exclusively: what one claim hands out, no other claim hands out before the
  lease runs out, whoever claims, however much and under whatever settings.\<close>

theorem leases_are_exclusive:
  assumes "keyed th_delivery (ting_handoffs s)"
    and "claim_ting_deliveries J E owner limit ms app s = Inr (cs, s1)" "c \<in> set cs"
    and "claim_ting_deliveries K F owner' limit' ms' app' s1 = Inr (cs', s2)" "e_now F < claim_expiry E ms"
  shows "\<forall>c'\<in>set cs'. tc_delivery c' \<noteq> tc_delivery c"
proof
  fix c' assume c': "c' \<in> set cs'"
  obtain d where a: "claiming J E owner ms s (cs, d, s1)" "0 < ms" using claim_ting_effect [OF assms(1,2)] by blast
  note k = claimingD [OF a(1)]
  obtain d' where b: "claiming K F owner' ms' s1 (cs', d', s2)" using claim_ting_effect [OF k(1) assms(4)] by blast
  from k(4) [OF assms(3)] obtain h h' where h: "h' \<in> set (ting_handoffs s1)" "claim_of E owner ms c h h'" by blast
  from claimingD(4) [OF b c'] obtain g g' where g: "g \<in> set (ting_handoffs s1)" "eligible (e_now F) s1 g" "claim_of F owner' ms' c' g g'"
    by blast
  have "g \<noteq> h'" using claim_of_leased [OF h(2) a(2) assms(5)] g(2) by blast
  moreover have "th_delivery h' = tc_delivery c" "th_delivery g = tc_delivery c'"
    using h(2) g(3) by (simp_all add: claim_of_def lease_out_def)
  ultimately show "tc_delivery c' \<noteq> tc_delivery c" using keyed_unique [OF k(1) g(1) h(1)] by metis
qed

lemmas claim_evaluation = claim_ting_deliveries_def claim_rounds.simps claim_one_def due_handoffs_def eligible_def pending_def leased_def
  validate_text_def context_validate_def prepared_body_def isi_metadata_def discard_reason_def is_some_and_def is_account_uuid_def
  target_public_id_def max_discards_per_claim_def max_request_body_def update_handoff_def lease_out_def sql_update_def
  is_participant_def

definition sample_claim :: ting_claim where
  "sample_claim = \<lparr>tc_delivery = 10, tc_lease = e_fresh test_env 0, tc_target = bob, tc_originator = Some ann, tc_conversation = 1,
     tc_sequence = 1, tc_body = lit ''{}'', tc_attempts = 0\<rparr>"

definition leased_chat :: db where
  "leased_chat = chat_sent\<lparr>ting_handoffs := [lease_out (lit ''{}'')
     \<lparr>tl_id = e_fresh test_env 0, tl_owner = lit ''w'', tl_expires = claim_expiry test_env 60000\<rparr> sample_handoff]\<rparr>"

lemma sample_due: "due_handoffs (e_now test_env) 1 queued_chat = [sample_handoff]"
  by (simp add: claim_evaluation queued_chat_def sample_handoff_def chat_sent_def chat_simps)

lemma sample_claim_one:
  "claim_one plain_ting_lib test_env (lit ''w'') 60000 (lit ''dm'') sample_handoff ([], 0, queued_chat) = Inr ([sample_claim], 0, leased_chat)"
  by (simp add: claim_evaluation message_code_def checked_i64_def is_i64_def i64_min_def i64_max_def queued_chat_def
      sample_handoff_def plain_ting_lib_def sample_claim_def leased_chat_def claim_expiry_def chat_sent_def chat_simps
      is_ascii_alphanumeric_def is_ascii_lowercase_def is_ascii_uppercase_def is_ascii_digit_def)

lemma sample_claims:
  "claim_ting_deliveries plain_ting_lib test_env (lit ''w'') 1 60000 (lit ''dm'') queued_chat = Inr ([sample_claim], leased_chat)"
proof -
  have "claim_rounds plain_ting_lib test_env (lit ''w'') 1 60000 (lit ''dm'') ([], 0, queued_chat) = Inr ([sample_claim], 0, leased_chat)"
    using sample_due sample_claim_one
    by (subst claim_rounds.simps, simp add: max_discards_per_claim_def Let_def, subst claim_rounds.simps, simp)
  moreover have "validate_text (lit ''w'') f = Inr ()" "context_validate (lit ''dm'') = Inr ()" for f
    by (simp_all add: validate_text_def context_validate_def lit_def str_len_def bytes_def utf8_char_def is_control_def)
  ultimately show ?thesis by (simp add: claim_ting_deliveries_def i64_max_def)
qed

theorem leases_are_exclusive_witness:
  "\<exists>cs' s2. claim_ting_deliveries plain_ting_lib test_env (lit ''v'') 1 60000 (lit ''dm'') leased_chat = Inr (cs', s2) \<and>
     tc_delivery sample_claim \<notin> tc_delivery ` set cs'"
proof -
  have "due_handoffs (e_now test_env) 1 leased_chat = []"
    by (simp add: leased_chat_def due_handoffs_def eligible_def leased_def lease_out_def claim_expiry_def second_def)
  then have "claim_rounds plain_ting_lib test_env (lit ''v'') 1 60000 (lit ''dm'') ([], 0, leased_chat) = Inr ([], 0, leased_chat)"
    by (subst claim_rounds.simps) simp
  moreover have "validate_text (lit ''v'') f = Inr ()" "context_validate (lit ''dm'') = Inr ()" for f
    by (simp_all add: validate_text_def context_validate_def lit_def str_len_def bytes_def utf8_char_def is_control_def)
  ultimately have run: "claim_ting_deliveries plain_ting_lib test_env (lit ''v'') 1 60000 (lit ''dm'') leased_chat = Inr ([], leased_chat)"
    by (simp add: claim_ting_deliveries_def i64_max_def)
  have "keyed th_delivery (ting_handoffs queued_chat)" by (simp add: queued_chat_def keyed_def)
  from leases_are_exclusive [OF this sample_claims _ run, of sample_claim] run show ?thesis
    by (auto simp: claim_expiry_def second_def)
qed

text \<open>C17. A claim is never stalled by handoffs that cannot be sent: it always ends, and it comes back
  empty only when nothing is due any more, or after it has discarded 500 handoffs. Nothing but the queue
  changes.\<close>

theorem claims_make_progress:
  assumes "keyed th_delivery (ting_handoffs s)" "claim_ting_deliveries J E owner limit ms app s = Inr ([], s')"
  shows "s' = s\<lparr>ting_handoffs := ting_handoffs s'\<rparr> \<and>
    ((\<forall>h\<in>set (ting_handoffs s'). \<not> eligible (e_now E) s' h) \<or> discarded_rows s + 500 \<le> discarded_rows s')"
proof -
  obtain d where a: "claiming J E owner ms s ([], d, s')" "0 < limit"
    "max_discards_per_claim \<le> d \<or> due_handoffs (e_now E) limit s' = []" using claim_ting_effect [OF assms] by blast
  note k = claimingD [OF a(1)]
  from a(3) have "(\<forall>h\<in>set (ting_handoffs s'). \<not> eligible (e_now E) s' h) \<or> discarded_rows s + 500 \<le> discarded_rows s'"
    using due_handoffs_props(3) [OF k(1) a(2)] k(5) by (auto simp: max_discards_per_claim_def)
  with k(2) show ?thesis by blast
qed

definition legacy_chat :: db where
  "legacy_chat = chat_sent\<lparr>ting_handoffs := [sample_handoff\<lparr>th_request_body := Some (lit ''{}'')\<rparr>]\<rparr>"

definition legacy_ting_lib :: ting_lib where
  "legacy_ting_lib = \<lparr>tj_parse = \<lambda>_. Some (JObj [(lit ''org_id'', JNull)]), tj_print = \<lambda>_. None\<rparr>"

theorem claims_make_progress_witness:
  "\<exists>s'. claim_ting_deliveries legacy_ting_lib test_env (lit ''w'') 1 60000 (lit ''dm'') legacy_chat = Inr ([], s') \<and>
     \<not> list_ex (eligible (e_now test_env) s') (ting_handoffs s')"
proof -
  let ?h = "sample_handoff\<lparr>th_request_body := Some (lit ''{}'')\<rparr>"
  let ?s = "chat_sent\<lparr>ting_handoffs := [discard (e_now test_env) (lit ''prepared_before_accounts_cutover'') ?h]\<rparr>"
  have due: "due_handoffs (e_now test_env) 1 legacy_chat = [?h]" "due_handoffs (e_now test_env) 1 ?s = []"
    by (simp_all add: claim_evaluation legacy_chat_def discard_def sample_handoff_def chat_sent_def chat_simps)
  have "discard_reason legacy_ting_lib (e_uuid test_env) ?h = Some (lit ''prepared_before_accounts_cutover'')"
    by (simp add: discard_reason_def is_some_and_def is_prepared_before_cutover_def legacy_ting_lib_def json_field_def)
  then have "claim_one legacy_ting_lib test_env (lit ''w'') 60000 (lit ''dm'') ?h ([], 0, legacy_chat) = Inr ([], 1, ?s)"
    by (simp add: claim_one_def update_handoff_def legacy_chat_def sql_update_def)
  with due have "claim_rounds legacy_ting_lib test_env (lit ''w'') 1 60000 (lit ''dm'') ([], 0, legacy_chat) = Inr ([], 1, ?s)"
    by (subst claim_rounds.simps, simp add: max_discards_per_claim_def Let_def, subst claim_rounds.simps, simp)
  moreover have "validate_text (lit ''w'') f = Inr ()" "context_validate (lit ''dm'') = Inr ()" for f
    by (simp_all add: validate_text_def context_validate_def lit_def str_len_def bytes_def utf8_char_def is_control_def)
  ultimately have run: "claim_ting_deliveries legacy_ting_lib test_env (lit ''w'') 1 60000 (lit ''dm'') legacy_chat = Inr ([], ?s)"
    by (simp add: claim_ting_deliveries_def i64_max_def)
  have "keyed th_delivery (ting_handoffs legacy_chat)" by (simp add: legacy_chat_def keyed_def)
  from claims_make_progress [OF this run]
  have "(\<forall>h\<in>set (ting_handoffs ?s). \<not> eligible (e_now test_env) ?s h) \<or> discarded_rows legacy_chat + 500 \<le> discarded_rows ?s" by blast
  moreover have "discarded_rows ?s \<le> 1" by (simp add: discarded_rows_def rows_affected_def)
  ultimately show ?thesis using run by (auto simp: list_ex_iff)
qed

section \<open>The worker\<close>

text \<open>An acceptance of the queue that the publisher reported for exactly the request that was stored.\<close>

definition reported :: "turn list \<Rightarrow> ting_handoff_row \<Rightarrow> bool" where
  "reported Ts h \<longleftrightarrow> (\<exists>T\<in>set Ts. \<exists>c a. tu_publish T c = Inr a \<and> tc_delivery c = th_delivery h \<and> th_request_body h = Some (tc_body c) \<and>
     (\<exists>t. th_accepted h = Some \<lparr>ta_at = t, ta_ting_id = ac_id a, ta_created_at = ac_created_at a, ta_silent = ac_silent a\<rparr>))"

definition only_reported :: "turn list \<Rightarrow> db \<Rightarrow> db \<Rightarrow> bool" where
  "only_reported Ts s s' \<longleftrightarrow> s' = s\<lparr>ting_handoffs := ting_handoffs s'\<rparr> \<and> handoffs_ok s' \<and> queue_kept s s' \<and>
     (\<forall>h\<in>set (ting_handoffs s'). th_accepted h \<noteq> None \<longrightarrow> h \<in> set (ting_handoffs s) \<or> reported Ts h)"

lemma only_reported_trans:
  assumes "only_reported Ts s s1" "only_reported Us s1 s2" "set Ts \<subseteq> set Vs" "set Us \<subseteq> set Vs"
  shows "only_reported Vs s s2"
proof -
  have "reported Vs h" if "reported Ts h \<or> reported Us h" for h using that assms(3,4) by (auto simp: reported_def)
  moreover have "s2 = s\<lparr>ting_handoffs := ting_handoffs s2\<rparr>"
  proof -
    have a: "s1 = s\<lparr>ting_handoffs := ting_handoffs s1\<rparr>" and b: "s2 = s1\<lparr>ting_handoffs := ting_handoffs s2\<rparr>"
      using assms(1,2) unfolding only_reported_def by blast+
    show ?thesis by (subst b, subst a) simp
  qed
  ultimately show ?thesis
    using assms(1,2) queue_kept_trans unfolding only_reported_def by blast
qed

lemma claim_only_reported:
  assumes "claim_ting_deliveries J E owner limit ms app s = Inr (cs, s')" "handoffs_ok s"
  shows "only_reported [] s s'"
proof -
  have k: "keyed th_delivery (ting_handoffs s)" using assms(2) by (simp add: handoffs_ok_def)
  obtain d where "claiming J E owner ms s (cs, d, s')" using claim_ting_effect [OF k assms(1)] by blast
  note inv = claimingD [OF this]
  have "h \<in> set (ting_handoffs s)" if h: "h \<in> set (ting_handoffs s')" "th_accepted h \<noteq> None" for h
  proof -
    from list_all2_in2 [OF inv(3) h(1)] obtain g where "g \<in> set (ting_handoffs s)" "row_step J E owner ms s cs g h" by blast
    moreover from this h(2) have "g = h"
      by (auto simp: row_step_def eligible_def pending_def discard_def lease_out_def claim_of_def)
    ultimately show ?thesis by simp
  qed
  with inv(2) claims_keep [OF assms] show ?thesis by (simp add: only_reported_def)
qed

lemma retry_only_reported:
  assumes "retry_ting_delivery now i l at code s = Inr s'" "handoffs_ok s"
  shows "only_reported [] s s'"
proof -
  let ?p = "claim_owned now i l"
  let ?f = "\<lambda>h. h\<lparr>th_next_attempt := at, th_last_error := Some code,
            th_attempts := (if th_attempts h < i64_max then th_attempts h + 1 else th_attempts h), th_lease := None\<rparr>"
  have "s' = s \<or> s' = s\<lparr>ting_handoffs := sql_update ?p ?f (ting_handoffs s)\<rparr>"
    using assms(1) by (simp only: retry_ting_delivery_def Let_def split: if_splits) auto
  then have "s' = s\<lparr>ting_handoffs := ting_handoffs s'\<rparr>"
    and "\<forall>h\<in>set (ting_handoffs s'). th_accepted h \<noteq> None \<longrightarrow> h \<in> set (ting_handoffs s)"
    by (auto simp: set_sql_update claim_owned_def)
  with retry_keeps [OF assms] show ?thesis by (simp add: only_reported_def)
qed

lemma accept_only_reported:
  assumes "accept_ting_delivery (tu_stored T) (tc_delivery c) (tc_lease c) (ac_id a) (ac_created_at a) (ac_silent a) s = Inr s'"
    "handoffs_ok s" "tu_publish T c = Inr a"
    and h0: "h0 \<in> set (ting_handoffs s)" "th_delivery h0 = tc_delivery c" "th_request_body h0 = Some (tc_body c)"
  shows "only_reported [T] s s'"
proof -
  let ?p = "claim_owned (tu_stored T) (tc_delivery c) (tc_lease c)"
  let ?a = "\<lparr>ta_at = tu_stored T, ta_ting_id = ac_id a, ta_created_at = ac_created_at a, ta_silent = ac_silent a\<rparr>"
  let ?f = "\<lambda>h. h\<lparr>th_accepted := Some ?a, th_lease := None, th_last_error := None\<rparr>"
  have k: "keyed th_delivery (ting_handoffs s)" using assms(2) by (simp add: handoffs_ok_def)
  have new: "reported [T] (?f h)" if "h \<in> set (ting_handoffs s)" "?p h" for h
  proof -
    have "th_delivery h = th_delivery h0" using that(2) h0(2) by (simp add: claim_owned_def)
    with keyed_unique [OF k that(1) h0(1)] have "h = h0" .
    with assms(3) h0 show ?thesis by (simp add: reported_def) (intro exI conjI, auto)
  qed
  have "s' = s \<or> s' = s\<lparr>ting_handoffs := sql_update ?p ?f (ting_handoffs s)\<rparr>"
    using assms(1) by (simp only: accept_ting_delivery_def Let_def split: if_splits) auto
  then have "s' = s\<lparr>ting_handoffs := ting_handoffs s'\<rparr>"
    and "\<forall>h\<in>set (ting_handoffs s'). th_accepted h \<noteq> None \<longrightarrow> h \<in> set (ting_handoffs s) \<or> reported [T] h"
    using new by (auto simp: set_sql_update)
  with accept_keeps [OF assms(1,2)] show ?thesis by (simp add: only_reported_def)
qed

lemma only_reported_refl: "handoffs_ok s \<Longrightarrow> only_reported Ts s s"
  by (simp add: only_reported_def)

lemma only_reported_mono:
  assumes "only_reported Ts s s'" "set Ts \<subseteq> set Us"
  shows "only_reported Us s s'"
proof -
  have "reported Us h" if "reported Ts h" for h using that assms(2) by (auto simp: reported_def)
  with assms(1) show ?thesis unfolding only_reported_def by blast
qed

lemma only_reported_more: "only_reported [] s s' \<Longrightarrow> only_reported Ts s s'"
  by (erule only_reported_mono) simp

text \<open>One turn: the claim, then what became of it.\<close>

lemma turn_reported:
  assumes cl: "claim_ting_deliveries J (tu_env T) (ws_instance W) 1 (ws_lease_ms W) (ws_app W) s = Inr (cs, s1)"
    and ok: "handoffs_ok s" and cs: "cs \<noteq> []"
    and st: "store_outcome W T (last cs) (turn_outcome T (last cs) s1) s1 = Inr s2"
  shows "only_reported [T] s s2"
proof -
  let ?c = "last cs"
  note one = claim_only_reported [OF cl ok]
  have ok1: "handoffs_ok s1" using one by (simp add: only_reported_def)
  have k: "keyed th_delivery (ting_handoffs s)" using ok by (simp add: handoffs_ok_def)
  obtain d where "claiming J (tu_env T) (ws_instance W) (ws_lease_ms W) s (cs, d, s1)" using claim_ting_effect [OF k cl] by blast
  from claimingD(4) [OF this, of ?c] cs obtain h0 where h0: "h0 \<in> set (ting_handoffs s1)" "th_delivery h0 = tc_delivery ?c"
    "th_request_body h0 = Some (tc_body ?c)" by (auto simp: claim_of_def lease_out_def)
  have "only_reported [T] s1 s2"
  proof (cases "turn_outcome T ?c s1")
    case (Inl e)
    with st have "retry_ting_delivery (tu_stored T) (tc_delivery ?c) (tc_lease ?c)
        (tu_stored T + retry_delay (tc_attempts ?c) (ws_max_retry W)) (failure_code e) s1 = Inr s2" by (simp add: store_outcome_def)
    from only_reported_more [OF retry_only_reported [OF this ok1]] show ?thesis .
  next
    case (Inr a)
    then have "tu_publish T ?c = Inr a" by (simp add: turn_outcome_def split: if_splits)
    with Inr st show ?thesis using accept_only_reported [OF _ ok1 _ h0] by (simp add: store_outcome_def)
  qed
  from only_reported_trans [OF one this, of "[T]"] show ?thesis by simp
qed

lemma process_turns_reported:
  assumes "process_turns J W Ts n s = (r, s')" "handoffs_ok s"
  shows "only_reported Ts s s'"
  using assms
proof (induction Ts arbitrary: n s)
  case (Cons T Ts)
  let ?claim = "claim_ting_deliveries J (tu_env T) (ws_instance W) 1 (ws_lease_ms W) (ws_app W) s"
  have rest: "only_reported (T # Ts) s s'" if "only_reported [T] s s2" "process_turns J W Ts (n + 1) s2 = (r, s')" for s2
  proof -
    have "handoffs_ok s2" using that(1) by (simp add: only_reported_def)
    from only_reported_trans [OF that(1) Cons.IH [OF that(2) this], of "T # Ts"] show ?thesis by auto
  qed
  show ?case
  proof (cases ?claim)
    case (Inl e)
    with Cons.prems show ?thesis by (simp add: only_reported_refl)
  next
    case (Inr res)
    then obtain cs s1 where cl: "?claim = Inr (cs, s1)" by (cases res) simp
    note one = only_reported_more [OF claim_only_reported [OF cl Cons.prems(2)]]
    show ?thesis
    proof (cases "store_outcome W T (last cs) (turn_outcome T (last cs) s1) s1")
      case (Inl e)
      with Cons.prems(1) cl one rest show ?thesis by (auto simp: Let_def split: if_splits)
    next
      case (Inr s2)
      with Cons.prems(1) cl one rest turn_reported [OF cl Cons.prems(2) _ Inr] show ?thesis
        by (auto simp: Let_def split: if_splits)
    qed
  qed
qed (simp add: only_reported_refl)

lemma discard_only_reported:
  assumes "discard_ting_handoffs now reason limit s = Inr (n, s')" "handoffs_ok s"
  shows "only_reported [] s s'"
proof -
  obtain p where s': "s' = s\<lparr>ting_handoffs := sql_update p (discard now reason) (ting_handoffs s)\<rparr>"
    using assms(1) by (simp only: discard_ting_handoffs_def Let_def split: if_splits) auto
  note keep = discard_batch_keeps [OF assms]
  have "h \<in> set (ting_handoffs s)" if h: "h \<in> set (ting_handoffs s')" "th_accepted h \<noteq> None" for h
  proof -
    have "handoff_ok h" using keep h(1) by (simp add: handoffs_ok_def)
    then have "th_discarded_at h = None" using h(2) by (simp add: handoff_ok_def)
    with h(1) show ?thesis by (auto simp: s' set_sql_update discard_def)
  qed
  with keep show ?thesis by (simp add: only_reported_def s')
qed

text \<open>C16. The worker reports nothing of its own: a run of the worker changes only the handoff queue, never a
  message, a receipt or a delivery; it keeps the queue as every step does; and a handoff it leaves accepted
  carries the acceptance the publisher returned for that handoff and for exactly the stored request.\<close>

theorem worker_reports_only_acceptances:
  assumes "process_once J W configured now Ts s = (r, s')" "handoffs_ok s"
  shows "s' = s\<lparr>ting_handoffs := ting_handoffs s'\<rparr> \<and> handoffs_ok s' \<and> queue_kept s s' \<and>
    (\<forall>h\<in>set (ting_handoffs s'). th_accepted h \<noteq> None \<longrightarrow> h \<in> set (ting_handoffs s) \<or> reported Ts h)"
proof -
  let ?Ts = "take (min (ws_batch W) 100) Ts"
  consider "s' = s" | n where "discard_ting_handoffs now (lit ''ting_not_configured'') discard_batch s = Inr (n, s')"
    | "process_turns J W ?Ts 0 s = (r, s')"
    using assms(1) by (auto simp: process_once_def split: if_splits sum.splits prod.splits)
  then have "only_reported Ts s s'"
  proof cases
    case 1
    with assms(2) show ?thesis by (simp add: only_reported_refl)
  next
    case 2
    from only_reported_more [OF discard_only_reported [OF 2 assms(2)]] show ?thesis .
  next
    case 3
    show ?thesis by (rule only_reported_mono [OF process_turns_reported [OF 3 assms(2)] set_take_subset])
  qed
  then show ?thesis unfolding only_reported_def .
qed

definition sample_turn :: turn where
  "sample_turn = \<lparr>tu_env = test_env, tu_checked = 9, tu_late = False,
     tu_publish = \<lambda>_. Inr \<lparr>ac_id = lit ''t-1'', ac_created_at = 8, ac_silent = False\<rparr>, tu_stored = 10\<rparr>"

definition sample_worker :: worker_settings where
  "sample_worker = \<lparr>ws_instance = lit ''w'', ws_lease_ms = 60000, ws_batch = 1, ws_max_retry = 300 * second, ws_app = lit ''dm''\<rparr>"

lemma sample_accept:
  "\<exists>s'. accept_ting_delivery 10 10 (e_fresh test_env 0) (lit ''t-1'') 8 False leased_chat = Inr s' \<and>
     map (\<lambda>h. map_option ta_ting_id (th_accepted h)) (ting_handoffs s') = [Some (lit ''t-1'')]"
  by (simp add: accept_ting_delivery_def validate_text_def leased_chat_def lease_out_def sample_handoff_def claim_owned_def leased_def
      claim_expiry_def second_def sql_exists_def rows_affected_def sql_update_def lit_def str_len_def bytes_def utf8_char_def is_control_def)

theorem worker_reports_only_acceptances_witness:
  "\<exists>s' h. process_once plain_ting_lib sample_worker True 9 [sample_turn] queued_chat = (Inr 1, s') \<and>
     ting_handoffs s' = [h] \<and> reported [sample_turn] h"
proof -
  have auth: "ting_delivery_authorized 9 sample_claim leased_chat"
    by (simp add: ting_delivery_authorized_def leased_chat_def sample_claim_def lease_out_def sample_handoff_def leased_def pending_def
        claim_expiry_def second_def is_participant_def chat_sent_def chat_simps)
  obtain s' where acc: "accept_ting_delivery 10 10 (e_fresh test_env 0) (lit ''t-1'') 8 False leased_chat = Inr s'"
    and t: "map (\<lambda>h. map_option ta_ting_id (th_accepted h)) (ting_handoffs s') = [Some (lit ''t-1'')]" using sample_accept by (elim exE conjE) (rule that)
  from t obtain h where h: "ting_handoffs s' = [h]" "th_accepted h \<noteq> None" by auto
  have c: "tc_delivery sample_claim = 10" "tc_lease sample_claim = e_fresh test_env 0" by (simp_all add: sample_claim_def)
  have "process_once plain_ting_lib sample_worker True 9 [sample_turn] queued_chat = (Inr 1, s')"
  proof -
    have "turn_outcome sample_turn sample_claim leased_chat = Inr \<lparr>ac_id = lit ''t-1'', ac_created_at = 8, ac_silent = False\<rparr>"
      using auth by (simp add: turn_outcome_def sample_turn_def)
    then have "store_outcome sample_worker sample_turn sample_claim (turn_outcome sample_turn sample_claim leased_chat) leased_chat = Inr s'"
      using acc c by (simp add: store_outcome_def sample_turn_def)
    with sample_claims show ?thesis
      by (simp add: process_once_def sample_worker_def) (simp add: sample_turn_def)
  qed
  moreover have "handoffs_ok queued_chat"
    by (simp add: handoffs_ok_def handoff_ok_def keyed_def queued_chat_def sample_handoff_def)
  moreover have "h \<notin> set (ting_handoffs queued_chat)" using h(2) by (auto simp: queued_chat_def sample_handoff_def)
  ultimately show ?thesis using worker_reports_only_acceptances [of plain_ting_lib sample_worker True 9 "[sample_turn]" queued_chat "Inr 1" s'] h
    by auto
qed

section \<open>Storing what Ting answers\<close>

text \<open>Retries back off between one second and the configured maximum, whatever the stored attempt
  count: the delay is never below a second, never above the larger of the maximum and a second, and does
  not shrink as attempts add up.\<close>

theorem retry_delay_bounded:
  "second \<le> retry_delay n m \<and> retry_delay n m \<le> max m second \<and>
   (0 \<le> n \<and> n \<le> n' \<and> n' \<le> i64_max \<longrightarrow> retry_delay n m \<le> retry_delay n' m)"
proof -
  let ?k = "\<lambda>n. min (if 0 \<le> n \<and> n \<le> u32_max then nat n else 31) 31"
  have eq: "retry_delay n m = min (2 ^ ?k n * second) (max m second)" for n by (simp add: retry_delay_def Let_def)
  have one: "second \<le> 2 ^ k * second" for k by (simp add: second_def)
  have "?k n \<le> ?k n'" if "0 \<le> n" "n \<le> n'" using that by (auto simp: u32_max_def min_def)
  then have "2 ^ ?k n * second \<le> 2 ^ ?k n' * second" if "0 \<le> n" "n \<le> n'"
    using that by (intro mult_right_mono power_increasing) (simp_all add: second_def)
  then have "retry_delay n m \<le> retry_delay n' m" if "0 \<le> n" "n \<le> n'"
    using that unfolding eq by (intro min.mono) simp_all
  moreover have "second \<le> retry_delay n m" using one [of "?k n"] unfolding eq by (simp add: min_def max_def)
  moreover have "retry_delay n m \<le> max m second" unfolding eq by simp
  ultimately show ?thesis by blast
qed

theorem retry_delay_bounded_witness:
  "retry_delay 5 (300 * second) = 32 * second \<and> retry_delay 5 (300 * second) \<le> retry_delay 9 (300 * second)"
  using retry_delay_bounded [of 5 "300 * second" 9] by (simp add: retry_delay_def u32_max_def second_def i64_max_def)

lemma rejection_code_valid: "validate_text (rejection_code response) field = Inr ()"
proof -
  have ok: "validate_text code field = Inr ()" if code: "rejection_code_ok code" for code
  proof -
    have "\<forall>b\<in>set (bytes code). b < 128" using code
      by (auto simp: rejection_code_ok_def is_ascii_lowercase_def is_ascii_digit_def)
    then have "bytes code = code" by (rule ascii_bytes)
    with code have "\<not> list_ex is_control code"
      by (auto simp: rejection_code_ok_def list_ex_iff is_control_def is_ascii_lowercase_def is_ascii_digit_def)
    with code show ?thesis by (simp add: validate_text_def rejection_code_ok_def)
  qed
  have "rejection_code_ok (lit ''ting_rejected'')"
    by (simp add: rejection_code_ok_def lit_def str_len_def bytes_def utf8_char_def is_ascii_lowercase_def is_ascii_digit_def)
  then show ?thesis by (auto simp: rejection_code_def ok split: option.splits)
qed

lemma failure_code_valid:
  assumes "f = Rejected (rejection_code response) \<or> (\<forall>code. f \<noteq> Rejected code)"
  shows "validate_text (failure_code f) field = Inr ()"
  using assms rejection_code_valid
  by (cases f) (auto simp: validate_text_def lit_def str_len_def bytes_def utf8_char_def is_control_def)

lemma read_reply_cases:
  "case read_reply parse_time request_id key response of
     Inl f \<Rightarrow> f = Rejected (rejection_code response) \<or> (\<forall>code. f \<noteq> Rejected code)
   | Inr a \<Rightarrow> validate_text (ac_id a) ''Ting ID'' = Inr ()"
  by (auto simp: read_reply_def acceptance_def filter_option_def validate_text_def split: if_splits option.splits)



text \<open>An acceptance that arrives after the recipient's account was deleted fails the table's check: not as
  a lost claim, which the worker passes over, but as an error that ends its run.\<close>

theorem deleted_recipient_stops_the_worker:
  "accept_ting_delivery 10 10 (e_fresh test_env 0) (lit ''t-1'') 8 False (delete_own_rows 9 (ar_id bob) leased_chat) =
     Inl durable_invariant_error \<and> \<not> is_conflict durable_invariant_error"
  by (simp add: accept_ting_delivery_def validate_text_def leased_chat_def lease_out_def sample_handoff_def claim_owned_def leased_def
      delete_own_rows_def durable_invariant_error_def validation_def
      claim_expiry_def second_def sql_exists_def rows_affected_def sql_update_def lit_def str_len_def bytes_def utf8_char_def is_control_def)

end
