(* ===== verification/Sessions.thy ===== *)
theory Sessions
  imports Conversations
begin

text \<open>
  Who is calling: the credentials of a request (\<open>src/api/extract.rs\<close>), the Silicon Accounts adapter with
  its caches (\<open>src/infrastructure/accounts.rs\<close>), the admission of a caller (\<open>src/application/accounts.rs\<close>,
  \<open>auth.rs\<close>) and the webhooks that end sign-ins (\<open>src/api/webhook.rs\<close>). The client library of Silicon
  Accounts is a parameter: the answers it gives at an instant. The budget of lookups is floating-point
  arithmetic and stays on the side of that parameter.
\<close>

section \<open>Credentials in a request\<close>

text \<open>Header values are bytes; \<open>to_str\<close> reads those of visible ASCII characters and tabs.\<close>

type_synonym headers = "(string \<times> nat list) list"

definition header_str :: "nat list \<Rightarrow> str option" where
  "header_str v = (if list_all (\<lambda>b. 32 \<le> b \<and> b < 127 \<or> b = 9) v then Some v else None)"

definition optional_single_header :: "headers \<Rightarrow> string \<Rightarrow> str option app_result" where
  "optional_single_header hs name =
     (case filter (\<lambda>h. fst h = name) hs of
        [] \<Rightarrow> Inr None
      | [h] \<Rightarrow> (case header_str (snd h) of
                  None \<Rightarrow> Inl (validation (''header '' @ name @ '' is invalid''))
                | Some v \<Rightarrow> Inr (Some v))
      | _ \<Rightarrow> Inl (validation (''header '' @ name @ '' must be supplied at most once'')))"

definition required_header :: "headers \<Rightarrow> string \<Rightarrow> str app_result" where
  "required_header hs name =
     bind_ok (optional_single_header hs name) (\<lambda>v.
       case v of None \<Rightarrow> Inl (validation (''required header '' @ name @ '' is missing'')) | Some v \<Rightarrow> Inr v)"

datatype scheme = Bearer | Proof

definition missing_credential :: app_error where
  "missing_credential = unauthenticated ''unauthorized''
     (lit ''Send `Authorization: Bearer <Silicon Accounts access token for dm>` (sign in with `dm login`, or through the DM website). Apps acting for an account send `Authorization: Proof <sap_'' @ [8230] @
      lit '' User verification proof>`.'')"

definition parse_credential :: "str \<Rightarrow> (scheme \<times> str) app_result" where
  "parse_credential authorization =
     bind_ok (case strip_prefix (lit ''Bearer '') authorization of
         Some token \<Rightarrow> Inr (Bearer, token)
       | None \<Rightarrow> (case strip_prefix (lit ''Proof '') authorization of
                    Some token \<Rightarrow> Inr (Proof, token) | None \<Rightarrow> Inl missing_credential)) (\<lambda>(scheme, token).
       if token = [] \<or> 44 \<in> set token \<or> list_ex is_whitespace token \<or> list_ex is_control token
       then Inl missing_credential else Inr (scheme, token))"

definition presented_credential :: "headers \<Rightarrow> (scheme \<times> str) app_result" where
  "presented_credential hs =
     (case optional_single_header hs ''authorization'' of
        Inl _ \<Rightarrow> Inl missing_credential
      | Inr None \<Rightarrow> Inl missing_credential
      | Inr (Some authorization) \<Rightarrow> parse_credential authorization)"

section \<open>What a route asks of a credential\<close>

record auth_requirement =
  rq_proof_scope :: "string option"
  rq_live :: bool

definition route_requirement :: "string \<Rightarrow> str \<Rightarrow> auth_requirement" where
  "route_requirement verb path =
     (let operation = http_type verb path;
          read = (verb = ''GET'')
      in \<lparr>rq_proof_scope =
            (if operation \<in> {''conversations'', ''group''} \<and> read then Some ''dm.conversations.read''
             else if operation \<in> {''messages'', ''message'', ''bundle'', ''sync''} \<and> read then Some ''dm.messages.read''
             else if operation \<in> {''create_conversation'', ''message.create'', ''message.updated'', ''message.deleted''}
             then Some ''dm.messages.write''
             else if operation = ''receipt'' then Some ''dm.receipts.write''
             else if operation \<in> {''draft'', ''put_draft'', ''delete_draft''} then Some ''dm.drafts.write''
             else None),
          rq_live = (operation \<in> {''update_group'', ''remove_group_members'', ''add_group_owners'',
            ''remove_group_owners'', ''message.deleted'', ''allow_list_add'', ''allow_list_remove''})\<rparr>)"

section \<open>The authenticated caller\<close>

datatype credential = AccessToken str | ProofCredential str "str list"

record auth_context =
  ac_actor :: actor_ref
  ac_public_id :: str
  ac_membership_id :: "str option"
  ac_token_family :: "str option"
  ac_scopes :: "str list"
  ac_credential :: credential
  ac_issued_at :: "instant option"
  ac_expires_at :: instant

fun via_app :: "credential \<Rightarrow> str option" where
  "via_app (ProofCredential issuing_app _) = Some issuing_app"
| "via_app (AccessToken _) = None"

fun access_token :: "credential \<Rightarrow> str option" where
  "access_token (AccessToken token) = Some token"
| "access_token (ProofCredential _ _) = None"

fun require_own_session :: "credential \<Rightarrow> str \<Rightarrow> unit app_result" where
  "require_own_session (AccessToken _) what = Inr ()"
| "require_own_session (ProofCredential issuing_app _) what = Inl (forbidden ''proof_not_accepted''
     (what @ lit '' needs the account's own DM sign-in; '' @ issuing_app @
      lit '' is acting through a User verification proof, which DM does not accept here.''))"

section \<open>The apps whose proofs are accepted\<close>

definition proof_scopes :: "string list" where
  "proof_scopes = [''dm.conversations.read'', ''dm.messages.read'', ''dm.messages.write'',
     ''dm.receipts.write'', ''dm.drafts.write'']"

type_synonym proof_issuers = "(str \<times> str) list"

definition valid_app_id :: "str \<Rightarrow> bool" where
  "valid_app_id v \<longleftrightarrow> 1 \<le> length v \<and> length v \<le> 80 \<and> is_ascii_lowercase (hd v) \<and>
     list_all (\<lambda>b. is_ascii_lowercase b \<or> is_ascii_digit b \<or> b = 45 \<or> b = 95) v"

definition parse_issuer :: "str \<Rightarrow> str + (str \<times> str)" where
  "parse_issuer entry =
     (case split_once 61 entry of
        None \<Rightarrow> Inl (lit ''entry `'' @ entry @ lit ''` is not scope=app (for example dm.messages.read=interface)'')
      | Some (scope, app) \<Rightarrow>
          (let scope = trim scope; app = trim app in
           if scope \<notin> set (map lit proof_scopes)
           then Inl (lit ''scope `'' @ scope @ lit ''` is not one DM honours; use one of '' @
                     join_with (lit '', '') (map lit proof_scopes))
           else if \<not> valid_app_id app
           then Inl (lit ''`'' @ app @ lit ''` in `'' @ entry @
                     lit ''` is not an app id (lowercase letters, digits, - and _, starting with a letter)'')
           else Inr (scope, app)))"

definition parse_issuers :: "str \<Rightarrow> str + proof_issuers" where
  "parse_issuers v = map_result parse_issuer (filter (\<lambda>e. e \<noteq> []) (map trim (split_on 44 v)))"

definition allows :: "proof_issuers \<Rightarrow> str \<Rightarrow> str \<Rightarrow> bool" where
  "allows issuers scope app \<longleftrightarrow> (scope, app) \<in> set issuers"

section \<open>The Accounts client\<close>

text \<open>The answers of \<open>silicon-accounts-client\<close> at one instant: the key set it downloads, the
  verification of an access token against a key set, the verification of a proof and the
  introspection of a token; no answer stands for a failed call.\<close>

datatype account_kind = CarbonKind | SiliconKind | OtherKind

record token_claims =
  cl_kind :: "account_kind option"
  cl_sub :: str
  cl_id :: "str option"
  cl_mid :: "str option"
  cl_fid :: "str option"
  cl_scopes :: "str list"
  cl_iat :: "int option"
  cl_exp :: int

datatype token_failure =
    TokenExpired "int option" | WrongAudience | WrongIssuer | NotYetValid | UnknownKey "str option" | OtherFailure string

record proof_user =
  pu_uuid :: str
  pu_id :: str
  pu_kind :: "account_kind option"
  pu_membership_id :: "str option"

record valid_proof =
  vp_user_verification :: bool
  vp_user :: "proof_user option"
  vp_receiving_app :: str
  vp_issuing_app :: str
  vp_scopes :: "str list"
  vp_expires_at :: instant

datatype proof_verification = ProofInvalid | ProofValid valid_proof

record accounts_client =
  cc_jwks :: "nat option"
  cc_verify_token :: "nat \<Rightarrow> str \<Rightarrow> token_failure + token_claims"
  cc_verify_proof :: "str \<Rightarrow> proof_verification option"
  cc_introspect :: "str \<Rightarrow> (bool \<times> str option) option"
  cc_rfc3339 :: "instant \<Rightarrow> str option"
  cc_blake3 :: "nat list \<Rightarrow> nat list"

definition from_unix_timestamp :: "int \<Rightarrow> instant option" where
  "from_unix_timestamp t =
     (if -377705116800 \<le> t \<and> t \<le> 253402300799 then Some (t * second) else None)"

definition accounts_unavailable :: app_error where
  "accounts_unavailable = DependencyUnavailable ''accounts''"

section \<open>Answers kept for a while\<close>

text \<open>A map whose entries are used while they are younger than its time to live; at most 10000
  entries are kept before the old ones are dropped.\<close>

type_synonym 'v ttl_cache = "(nat list \<times> instant \<times> 'v) list"

definition cache_capacity :: nat where "cache_capacity = 10000"

definition young :: "int \<Rightarrow> instant \<Rightarrow> nat list \<times> instant \<times> 'v \<Rightarrow> bool" where
  "young ttl now e \<longleftrightarrow> now - fst (snd e) < ttl"

definition pruned :: "int \<Rightarrow> instant \<Rightarrow> 'v ttl_cache \<Rightarrow> 'v ttl_cache" where
  "pruned ttl now c = (if length c > cache_capacity then filter (young ttl now) c else c)"

definition cached :: "int \<Rightarrow> instant \<Rightarrow> nat list \<Rightarrow> 'v ttl_cache \<Rightarrow> 'v option" where
  "cached ttl now key c =
     (case find (\<lambda>e. fst e = key) c of
        Some e \<Rightarrow> if young ttl now e then Some (snd (snd e)) else None
      | None \<Rightarrow> None)"

definition remember :: "instant \<Rightarrow> nat list \<Rightarrow> 'v \<Rightarrow> 'v ttl_cache \<Rightarrow> 'v ttl_cache" where
  "remember now key v c = (key, now, v) # filter (\<lambda>e. fst e \<noteq> key) c"

definition live_cache :: int where "live_cache = 30 * second"
definition cutoff_decisions :: int where "cutoff_decisions = 30 * 60 * second"
definition jwks_refetch_interval :: int where "jwks_refetch_interval = 30 * second"
definition max_credential_bytes :: nat where "max_credential_bytes = 8192"

record proof_grant =
  pg_actor :: actor_ref
  pg_public_id :: str
  pg_membership_id :: "str option"
  pg_issuing_app :: str
  pg_scopes :: "str list"
  pg_expires_at :: instant

datatype live_verdict = Inactive | Grant proof_grant

record adapter =
  ad_app_id :: str
  ad_issuer :: str
  ad_proof_issuers :: proof_issuers
  ad_jwks :: "nat option"
  ad_jwks_refetched :: "instant option"
  ad_live :: "live_verdict ttl_cache"
  ad_decisions :: "bool ttl_cache"

definition jwks :: "accounts_client \<Rightarrow> instant \<Rightarrow> bool \<Rightarrow> adapter \<Rightarrow> nat app_result \<times> adapter" where
  "jwks C now refetch st =
     (case ad_jwks st of
        Some keys \<Rightarrow>
          if \<not> refetch \<or> (\<exists>at\<in>set_option (ad_jwks_refetched st). now - at < jwks_refetch_interval)
          then (Inr keys, st)
          else (case cc_jwks C of
                  None \<Rightarrow> (Inl accounts_unavailable, st)
                | Some fresh \<Rightarrow> (Inr fresh, st\<lparr>ad_jwks := Some fresh, ad_jwks_refetched := Some now\<rparr>))
      | None \<Rightarrow>
          (case cc_jwks C of
             None \<Rightarrow> (Inl accounts_unavailable, st)
           | Some fresh \<Rightarrow>
               (Inr fresh, st\<lparr>ad_jwks := Some fresh,
                  ad_jwks_refetched := (if refetch then Some now else ad_jwks_refetched st)\<rparr>)))"

fun token_message :: "accounts_client \<Rightarrow> adapter \<Rightarrow> token_failure \<Rightarrow> str" where
  "token_message C st (TokenExpired exp) =
     lit ''The access token expired'' @
     (case Option.bind (Option.bind exp from_unix_timestamp) (cc_rfc3339 C) of None \<Rightarrow> [] | Some at \<Rightarrow> lit '' at '' @ at) @
     lit ''. Refresh it with the refresh token and retry (the dm CLI and website refresh automatically).''"
| "token_message C st WrongAudience =
     lit ''The access token was issued to another app. DM accepts only Silicon Accounts tokens issued to `'' @
     ad_app_id st @ lit ''` (aud); sign in to DM to get one.''"
| "token_message C st WrongIssuer =
     lit ''The access token was issued by another Silicon Accounts deployment; this DM trusts '' @ ad_issuer st @ lit ''.''"
| "token_message C st NotYetValid =
     lit ''The access token is not valid yet (nbf is in the future); check this machine's clock.''"
| "token_message C st (UnknownKey kid) =
     lit ''The access token was signed with a key ('' @ (case kid of None \<Rightarrow> lit ''no kid'' | Some k \<Rightarrow> k) @
     lit '') that '' @ ad_issuer st @ lit '' does not publish.''"
| "token_message C st (OtherFailure code) =
     lit ''The bearer credential is not a Silicon Accounts access token for DM ('' @ lit code @ lit '').''"

definition token_error :: "accounts_client \<Rightarrow> adapter \<Rightarrow> token_failure \<Rightarrow> app_error" where
  "token_error C st f =
     unauthenticated (case f of TokenExpired _ \<Rightarrow> ''token_expired'' | _ \<Rightarrow> ''invalid_token'') (token_message C st f)"

definition verify_locally :: "accounts_client \<Rightarrow> instant \<Rightarrow> str \<Rightarrow> adapter \<Rightarrow> token_claims app_result \<times> adapter" where
  "verify_locally C now token st =
     (case jwks C now False st of
        (Inl e, st1) \<Rightarrow> (Inl e, st1)
      | (Inr keys, st1) \<Rightarrow>
          (case cc_verify_token C keys token of
             Inr claims \<Rightarrow> (Inr claims, st1)
           | Inl (UnknownKey _) \<Rightarrow>
               (case jwks C now True st1 of
                  (Inl e, st2) \<Rightarrow> (Inl e, st2)
                | (Inr keys', st2) \<Rightarrow>
                    (case cc_verify_token C keys' token of
                       Inr claims \<Rightarrow> (Inr claims, st2) | Inl f \<Rightarrow> (Inl (token_error C st2 f), st2)))
           | Inl f \<Rightarrow> (Inl (token_error C st1 f), st1)))"

definition introspect :: "accounts_client \<Rightarrow> str \<Rightarrow> str \<Rightarrow> bool app_result" where
  "introspect C raw sub =
     (case cc_introspect C raw of
        None \<Rightarrow> Inl accounts_unavailable
      | Some (active, subject) \<Rightarrow> Inr (active \<and> subject = Some sub))"

definition session_ended :: app_error where
  "session_ended = unauthenticated ''session_revoked''
     (lit ''Silicon Accounts says this sign-in has ended (signed out, access removed or account deleted). Sign in to DM again.'')"

definition live_key :: "accounts_client \<Rightarrow> str \<Rightarrow> nat list" where
  "live_key C raw = cc_blake3 C (bytes raw)"

definition proof_key :: "accounts_client \<Rightarrow> str \<Rightarrow> nat list" where
  "proof_key C raw = cc_blake3 C (bytes (lit ''proof:'' @ raw))"

text \<open>Is the sign-in behind a token live? Only negative answers are reused.\<close>

definition still_active ::
  "accounts_client \<Rightarrow> instant \<Rightarrow> str \<Rightarrow> str \<Rightarrow> adapter \<Rightarrow> bool app_result \<times> adapter" where
  "still_active C now raw sub st =
     (let key = live_key C raw;
          st1 = st\<lparr>ad_live := pruned live_cache now (ad_live st)\<rparr>
      in if cached live_cache now key (ad_live st1) = Some Inactive then (Inr False, st1)
         else (case introspect C raw sub of
                 Inl e \<Rightarrow> (Inl e, st1)
               | Inr True \<Rightarrow> (Inr True, st1)
               | Inr False \<Rightarrow> (Inr False, st1\<lparr>ad_live := remember now key Inactive (ad_live st1)\<rparr>)))"

definition bearer_context :: "str \<Rightarrow> actor_type \<Rightarrow> token_claims \<Rightarrow> instant \<Rightarrow> auth_context" where
  "bearer_context token kind claims expires =
     \<lparr>ac_actor = actor kind (cl_sub claims),
      ac_public_id = (case cl_id claims of None \<Rightarrow> cl_sub claims | Some i \<Rightarrow> i),
      ac_membership_id = cl_mid claims, ac_token_family = cl_fid claims,
      ac_scopes = sort (remdups (cl_scopes claims)), ac_credential = AccessToken token,
      ac_issued_at = Option.bind (cl_iat claims) from_unix_timestamp, ac_expires_at = expires\<rparr>"

definition claims_kind :: "token_claims \<Rightarrow> actor_type app_result" where
  "claims_kind claims =
     (case cl_kind claims of
        Some CarbonKind \<Rightarrow> Inr Carbon
      | Some SiliconKind \<Rightarrow> Inr Silicon
      | _ \<Rightarrow> Inl (unauthenticated ''invalid_token''
                 (lit ''The access token names no account kind (carbon or silicon).'')))"

definition authenticate_bearer ::
  "uuid_lib \<Rightarrow> accounts_client \<Rightarrow> instant \<Rightarrow> str \<Rightarrow> auth_requirement \<Rightarrow> adapter \<Rightarrow> auth_context app_result \<times> adapter" where
  "authenticate_bearer U C now token rq st =
     (case verify_locally C now token st of
        (Inl e, st1) \<Rightarrow> (Inl e, st1)
      | (Inr claims, st1) \<Rightarrow>
          (case claims_kind claims of
             Inl e \<Rightarrow> (Inl e, st1)
           | Inr kind \<Rightarrow>
               if \<not> is_account_uuid U (cl_sub claims)
               then (Inl (unauthenticated ''invalid_token''
                       (lit ''The access token's subject is not a Silicon Accounts uuid.'')), st1)
               else
                 (case (if rq_live rq then still_active C now token (cl_sub claims) st1 else (Inr True, st1)) of
                    (Inl e, st2) \<Rightarrow> (Inl e, st2)
                  | (Inr False, st2) \<Rightarrow> (Inl session_ended, st2)
                  | (Inr True, st2) \<Rightarrow>
                      (case from_unix_timestamp (cl_exp claims) of
                         None \<Rightarrow> (Inl (unauthenticated ''invalid_token'' (lit ''The access token has an invalid exp.'')), st2)
                       | Some expires \<Rightarrow> (Inr (bearer_context token kind claims expires), st2)))))"

definition invalid_proof :: app_error where
  "invalid_proof = unauthenticated ''invalid_proof''
     (lit ''Silicon Accounts says this proof is not valid for DM (unknown, expired, revoked, issued for another app, or for an account that no longer exists).'')"

definition proof_kind :: "proof_user \<Rightarrow> actor_type" where
  "proof_kind u =
     (case pu_kind u of
        Some SiliconKind \<Rightarrow> Silicon
      | Some CarbonKind \<Rightarrow> Carbon
      | _ \<Rightarrow> if prefix (lit ''si:'') (pu_id u) then Silicon else Carbon)"

definition grant_of :: "valid_proof \<Rightarrow> proof_user \<Rightarrow> proof_grant" where
  "grant_of p u =
     \<lparr>pg_actor = actor (proof_kind u) (pu_uuid u), pg_public_id = pu_id u, pg_membership_id = pu_membership_id u,
      pg_issuing_app = vp_issuing_app p, pg_scopes = sort (remdups (vp_scopes p)), pg_expires_at = vp_expires_at p\<rparr>"

definition verify_proof_live ::
  "uuid_lib \<Rightarrow> accounts_client \<Rightarrow> instant \<Rightarrow> str \<Rightarrow> nat list \<Rightarrow> adapter \<Rightarrow> proof_grant app_result \<times> adapter" where
  "verify_proof_live U C now raw key st =
     (case cc_verify_proof C raw of
        None \<Rightarrow> (Inl accounts_unavailable, st)
      | Some ProofInvalid \<Rightarrow> (Inl invalid_proof, st\<lparr>ad_live := remember now key Inactive (ad_live st)\<rparr>)
      | Some (ProofValid p) \<Rightarrow>
          (case (vp_user_verification p, vp_user p) of
             (True, Some u) \<Rightarrow>
               if vp_receiving_app p \<noteq> ad_app_id st \<or> \<not> is_account_uuid U (pu_uuid u) then (Inl invalid_proof, st)
               else (Inr (grant_of p u), st\<lparr>ad_live := remember now key (Grant (grant_of p u)) (ad_live st)\<rparr>)
           | _ \<Rightarrow> (Inl (forbidden ''proof_not_accepted''
                    (lit ''DM accepts only User verification proofs (an app acting for one account), not App verification proofs.'')), st)))"

definition proof_context :: "proof_grant \<Rightarrow> auth_context" where
  "proof_context g =
     \<lparr>ac_actor = pg_actor g, ac_public_id = pg_public_id g, ac_membership_id = pg_membership_id g,
      ac_token_family = None, ac_scopes = pg_scopes g,
      ac_credential = ProofCredential (pg_issuing_app g) (pg_scopes g), ac_issued_at = None,
      ac_expires_at = pg_expires_at g\<rparr>"

definition proof_grant_for ::
  "uuid_lib \<Rightarrow> accounts_client \<Rightarrow> instant \<Rightarrow> str \<Rightarrow> bool \<Rightarrow> adapter \<Rightarrow> proof_grant app_result \<times> adapter" where
  "proof_grant_for U C now raw live st =
     (let key = proof_key C raw;
          st1 = st\<lparr>ad_live := pruned live_cache now (ad_live st)\<rparr>
      in case cached live_cache now key (ad_live st1) of
           Some (Grant g) \<Rightarrow>
             if \<not> live \<and> pg_expires_at g > now then (Inr g, st1) else verify_proof_live U C now raw key st1
         | Some Inactive \<Rightarrow> (Inl invalid_proof, st1)
         | None \<Rightarrow> verify_proof_live U C now raw key st1)"

definition authenticate_proof ::
  "uuid_lib \<Rightarrow> accounts_client \<Rightarrow> instant \<Rightarrow> str \<Rightarrow> auth_requirement \<Rightarrow> adapter \<Rightarrow> auth_context app_result \<times> adapter" where
  "authenticate_proof U C now raw rq st =
     (case rq_proof_scope rq of
        None \<Rightarrow> (Inl (forbidden ''proof_not_accepted''
          (lit ''This route needs the account's own DM sign-in (Authorization: Bearer). Apps acting for an account with a User verification proof may only read and write conversations, messages, receipts and drafts.'')), st)
      | Some scope \<Rightarrow>
          (case proof_grant_for U C now raw (rq_live rq) st of
             (Inl e, st1) \<Rightarrow> (Inl e, st1)
           | (Inr g, st1) \<Rightarrow>
               if lit scope \<notin> set (pg_scopes g)
               then (Inl (forbidden ''proof_scope_missing''
                       (lit ''The proof from '' @ pg_issuing_app g @ lit '' does not carry the scope '' @ lit scope @
                        lit '' this route needs.'')), st1)
               else if \<not> allows (ad_proof_issuers st) (lit scope) (pg_issuing_app g)
               then (Inl (forbidden ''proof_issuer_not_allowed''
                       (lit ''DM does not accept '' @ lit scope @ lit '' proofs from '' @ pg_issuing_app g @
                        lit ''; its operator lists the apps it accepts in DM_PROOF_ISSUERS.'')), st1)
               else (Inr (proof_context g), st1)))"

definition authenticate ::
  "uuid_lib \<Rightarrow> accounts_client \<Rightarrow> instant \<Rightarrow> scheme \<times> str \<Rightarrow> auth_requirement \<Rightarrow> adapter \<Rightarrow>
     auth_context app_result \<times> adapter" where
  "authenticate U C now credential rq st =
     (let token = snd credential in
      if token = [] \<or> str_len token > max_credential_bytes
      then (Inl (unauthenticated ''invalid_token'' (lit ''The credential is empty or longer than 8192 bytes.'')), st)
      else (case fst credential of
              Bearer \<Rightarrow> authenticate_bearer U C now token rq st
            | Proof \<Rightarrow> authenticate_proof U C now token rq st))"

text \<open>\<open>sign_in_live\<close>: the answer for a token and a cutoff is kept.\<close>

definition cutoff_key :: "accounts_client \<Rightarrow> instant \<Rightarrow> str \<Rightarrow> nat list" where
  "cutoff_key C cutoff raw =
     cc_blake3 C (bytes (lit ''cutoff:'' @ (if cutoff < 0 then lit ''-'' else []) @
       nat_digits (nat \<bar>cutoff\<bar>) @ lit '':'' @ raw))"

definition sign_in_live ::
  "accounts_client \<Rightarrow> instant \<Rightarrow> str \<Rightarrow> str \<Rightarrow> instant \<Rightarrow> adapter \<Rightarrow> bool app_result \<times> adapter" where
  "sign_in_live C now raw u cutoff st =
     (let key = cutoff_key C cutoff raw;
          st1 = st\<lparr>ad_decisions := pruned cutoff_decisions now (ad_decisions st)\<rparr>
      in case cached cutoff_decisions now key (ad_decisions st1) of
           Some live \<Rightarrow> (Inr live, st1)
         | None \<Rightarrow>
             (case introspect C raw u of
                Inl e \<Rightarrow> (Inl e, st1)
              | Inr live \<Rightarrow> (Inr live, st1\<lparr>ad_decisions := remember now key live (ad_decisions st1)\<rparr>)))"

section \<open>Admitting a caller\<close>

text \<open>The conversations between a Silicon and its custodian are created one after the other, each in
  its own transaction with surroundings of its own; the first failure ends the loop.\<close>

fun ensure_pairs :: "(nat \<Rightarrow> env) \<Rightarrow> (actor_ref \<times> actor_ref) list \<Rightarrow> db \<Rightarrow> unit app_result \<times> db" where
  "ensure_pairs Es [] s = (Inr (), s)"
| "ensure_pairs Es ((silicon, custodian) # pairs) s =
     then_with (in_transaction (ensure_direct_conversation (Es (length pairs)) silicon custodian) s)
       (\<lambda>_ s'. ensure_pairs Es pairs s')"

definition custodian_pairs :: "actor_ref \<Rightarrow> db \<Rightarrow> (actor_ref \<times> actor_ref) list" where
  "custodian_pairs a s =
     (case ar_type a of
        Silicon \<Rightarrow>
          (case Option.bind (stored_account (ar_id a) (accounts s)) a_custodian of
             None \<Rightarrow> []
           | Some custodian \<Rightarrow> [(a, actor Carbon custodian)])
      | Carbon \<Rightarrow> map (\<lambda>silicon. (actor Silicon silicon, a)) (silicons_of (ar_id a) s))"

definition ensure_custodian_conversations :: "(nat \<Rightarrow> env) \<Rightarrow> actor_ref \<Rightarrow> db \<Rightarrow> unit app_result \<times> db" where
  "ensure_custodian_conversations Es a s = ensure_pairs Es (custodian_pairs a s) s"

text \<open>What is learned of a newly seen account; failures are logged and retried later.\<close>

definition learn_lookup :: "accounts_service \<Rightarrow> instant \<Rightarrow> str \<Rightarrow> db \<Rightarrow> db" where
  "learn_lookup A now u s =
     (case svc_lookup A u of
        Inl _ \<Rightarrow> s
      | Inr l \<Rightarrow> snd (in_transaction (record_lookup now l) s))"

definition learn_profile :: "accounts_service \<Rightarrow> instant \<Rightarrow> str \<Rightarrow> db \<Rightarrow> db" where
  "learn_profile A now u s =
     (case svc_member_profile A u of
        Inr (Some (name, pfp)) \<Rightarrow>
          (case record_member_profile now u name pfp s of Inl _ \<Rightarrow> s | Inr s' \<Rightarrow> s')
      | _ \<Rightarrow> s)"

definition enrich :: "(nat \<Rightarrow> env) \<Rightarrow> accounts_service \<Rightarrow> instant \<Rightarrow> actor_ref \<Rightarrow> account_row \<Rightarrow> db \<Rightarrow> db" where
  "enrich Es A now a stored s =
     snd (ensure_custodian_conversations Es a
       (learn_profile A now (a_uuid stored) (learn_lookup A now (a_uuid stored) s)))"

text \<open>Whether a sign-in ended with the cutoff of its account.\<close>

definition sign_in_ended ::
  "accounts_client \<Rightarrow> instant \<Rightarrow> auth_context \<Rightarrow> account_row \<Rightarrow> adapter \<Rightarrow> bool app_result \<times> adapter" where
  "sign_in_ended C now ctx stored st =
     (case (access_token (ac_credential ctx), a_revoked_before stored) of
        (Some token, Some cutoff) \<Rightarrow>
          (case map_option (\<lambda>issued. token_order issued cutoff) (ac_issued_at ctx) of
             None \<Rightarrow> (Inr True, st)
           | Some Before \<Rightarrow> (Inr True, st)
           | Some After \<Rightarrow> (Inr False, st)
           | Some SameSecond \<Rightarrow>
               (case sign_in_live C now token (ar_id (ac_actor ctx)) cutoff st of
                  (Inl e, st') \<Rightarrow> (Inl e, st')
                | (Inr live, st') \<Rightarrow> (Inr (\<not> live), st')))
      | _ \<Rightarrow> (Inr False, st))"

definition sign_in_ended_error :: "accounts_client \<Rightarrow> account_row \<Rightarrow> app_error" where
  "sign_in_ended_error C stored =
     unauthenticated ''session_revoked''
       (lit ''This sign-in to DM ended at '' @
        (case Option.bind (a_revoked_before stored) (cc_rfc3339 C) of None \<Rightarrow> [] | Some at \<Rightarrow> at) @
        lit '' (signed out, access removed or STK rotated). Sign in to DM again.'')"

definition incomplete :: "account_row \<Rightarrow> bool" where
  "incomplete stored \<longleftrightarrow> (a_kind stored = Silicon \<and> a_custodian stored = None) \<or> a_name stored = None"

text \<open>The state of one process beside the database: the adapter and the instants at which accounts
  were last completed.\<close>

record session_state =
  ss_adapter :: adapter
  ss_enriched :: "str \<rightharpoonup> instant"

definition complete_account ::
  "(nat \<Rightarrow> env) \<Rightarrow> accounts_service \<Rightarrow> instant \<Rightarrow> actor_ref \<Rightarrow> account_row \<Rightarrow> bool \<Rightarrow>
     (str \<rightharpoonup> instant) \<Rightarrow> db \<Rightarrow> (str \<rightharpoonup> instant) \<times> db" where
  "complete_account Es A now a stored inserted m s =
     (if inserted then (m(a_uuid stored \<mapsto> now), enrich Es A now a stored s)
      else if incomplete stored then
        (case may_enrich now (a_uuid stored) m of
           (True, m') \<Rightarrow> (m'(a_uuid stored \<mapsto> now), enrich Es A now a stored s)
         | (False, m') \<Rightarrow> (m', s))
      else (m, s))"

definition admit ::
  "(nat \<Rightarrow> env) \<Rightarrow> accounts_service \<Rightarrow> accounts_client \<Rightarrow> instant \<Rightarrow> auth_context \<Rightarrow> session_state \<Rightarrow> db \<Rightarrow>
     account_row app_result \<times> session_state \<times> db" where
  "admit Es A C now ctx ss s =
     (let u = ar_id (ac_actor ctx) in
      if u \<in> set (uuid128_map s)
      then (Inl (unauthenticated ''session_revoked'' (lit ''This account identity was migrated. Sign in to DM again.'')), ss, s)
      else
        (case record_authentication now u (ar_type (ac_actor ctx))
                (filter_option valid_public_id (Some (ac_public_id ctx))) (ac_issued_at ctx) s of
           Inl e \<Rightarrow> (Inl e, ss, s)
         | Inr ((stored, inserted), s1) \<Rightarrow>
             if a_deleted stored
             then (Inl (unauthenticated ''account_deleted''
                     (lit ''This Silicon Accounts account was deleted; DM no longer accepts its sign-ins.'')), ss, s1)
             else
               (case sign_in_ended C now ctx stored (ss_adapter ss) of
                  (Inl e, st) \<Rightarrow> (Inl e, ss\<lparr>ss_adapter := st\<rparr>, s1)
                | (Inr True, st) \<Rightarrow> (Inl (sign_in_ended_error C stored), ss\<lparr>ss_adapter := st\<rparr>, s1)
                | (Inr False, st) \<Rightarrow>
                    let (m, s2) = complete_account Es A now (ac_actor ctx) stored inserted (ss_enriched ss) s1
                    in (Inr stored, ss\<lparr>ss_adapter := st, ss_enriched := m\<rparr>, s2))))"

section \<open>Webhooks of Silicon Accounts\<close>

datatype account_event =
    IdChanged str "actor_type option" str
  | Updated str "account_lookup option" int
  | Deleted str
  | SignedOut str "str option"
  | AccessRemoved str
  | CustodianChanged str "(str \<times> str) option"
  | Ping
  | Unknown

record verified_event =
  ev_id :: str
  ev_type :: str
  ev_occurred_at :: "instant option"
  ev_event :: account_event

fun event_identities :: "account_event \<Rightarrow> str list" where
  "event_identities (IdChanged u _ _) = [u]"
| "event_identities (Deleted u) = [u]"
| "event_identities (SignedOut u _) = [u]"
| "event_identities (AccessRemoved u) = [u]"
| "event_identities (Updated u account _) =
     u # (case account of
            None \<Rightarrow> []
          | Some l \<Rightarrow> lk_uuid l # (case lk_custodian l of None \<Rightarrow> [] | Some (custodian, _) \<Rightarrow> [custodian]))"
| "event_identities (CustodianChanged u to) = u # (case to of None \<Rightarrow> [] | Some (custodian, _) \<Rightarrow> [custodian])"
| "event_identities Ping = []"
| "event_identities Unknown = []"

fun outcome :: "applied \<Rightarrow> string" where
  "outcome Changed = ''applied''"
| "outcome Stale = ''stale''"

definition custodian_conversation :: "(nat \<Rightarrow> env) \<Rightarrow> str \<Rightarrow> db \<Rightarrow> db" where
  "custodian_conversation Es silicon s = snd (ensure_custodian_conversations Es (actor Silicon silicon) s)"

definition end_sessions :: "str \<Rightarrow> instant \<Rightarrow> db \<Rightarrow> string app_result \<times> db" where
  "end_sessions u at s =
     then_with (in_transaction (revoke_sessions_before u at) s) (\<lambda>applied s1.
       (Inr (outcome applied), end_stored_proofs u s1))"

fun apply_event ::
  "(nat \<Rightarrow> env) \<Rightarrow> instant \<Rightarrow> instant \<Rightarrow> account_event \<Rightarrow> db \<Rightarrow> (str option \<times> string) app_result \<times> db" where
  "apply_event Es now at (IdChanged u kind new_id) s =
     then_with (in_transaction (apply_id_change now u kind new_id at) s) (\<lambda>applied s1.
       (Inr (Some u, outcome applied), s1))"
| "apply_event Es now at (Updated u None version) s = (Inr (Some u, ''ignored''), s)"
| "apply_event Es now at (Updated u (Some l) version) s =
     then_with (in_transaction (apply_profile_update now l version) s) (\<lambda>applied s1.
       (Inr (Some u, outcome applied),
        if applied = Changed \<and> lk_custodian l \<noteq> None then custodian_conversation Es u s1 else s1))"
| "apply_event Es now at (CustodianChanged u None) s = (Inr (Some u, ''ignored''), s)"
| "apply_event Es now at (CustodianChanged u (Some (custodian, custodian_id))) s =
     then_with (in_transaction (apply_custodian_change now u custodian custodian_id at) s) (\<lambda>applied s1.
       (Inr (Some u, outcome applied), if applied = Changed then custodian_conversation Es u s1 else s1))"
| "apply_event Es now at (SignedOut u reason) s =
     (if reason = Some (lit ''app_revoked'') then (Inr (Some u, ''ignored''), s)
      else then_with (end_sessions u at s) (\<lambda>result s1. (Inr (Some u, result), s1)))"
| "apply_event Es now at (AccessRemoved u) s =
     then_with (end_sessions u at s) (\<lambda>result s1. (Inr (Some u, result), s1))"
| "apply_event Es now at (Deleted u) s =
     (case delete_account now u at s of
        Inl e \<Rightarrow> (Inl e, s)
      | Inr s1 \<Rightarrow> (Inr (Some u, ''applied''), s1))"
| "apply_event Es now at Ping s = (Inr (None, ''applied''), s)"
| "apply_event Es now at Unknown s = (Inr (None, ''ignored''), s)"

text \<open>\<open>receive\<close>, given the event the client library verified in the request or its refusal; 204 is
  \<open>NO_CONTENT\<close>.\<close>

definition remember_event :: "verified_event \<Rightarrow> str option \<Rightarrow> string \<Rightarrow> db \<Rightarrow> nat app_result \<times> db" where
  "remember_event ev account result s =
     (case record_webhook_event (ev_id ev) (ev_type ev) account result s of
        Inl e \<Rightarrow> (Inl e, s)
      | Inr s' \<Rightarrow> (Inr 204, s'))"

definition receive ::
  "(nat \<Rightarrow> env) \<Rightarrow> instant \<Rightarrow> verified_event app_result \<Rightarrow> db \<Rightarrow> nat app_result \<times> db" where
  "receive Es now verified s =
     (case verified of
        Inl e \<Rightarrow> (Inl e, s)
      | Inr ev \<Rightarrow>
          if webhook_event_seen (ev_id ev) s then (Inr 204, s)
          else if set (event_identities (ev_event ev)) \<inter> set (uuid128_map s) \<noteq> {}
          then remember_event ev None ''ignored'' s
          else
            let at = (case ev_occurred_at ev of None \<Rightarrow> now | Some t \<Rightarrow> t) in
            then_with (apply_event Es now at (ev_event ev) s) (\<lambda>(account, result) s1.
              remember_event ev account result s1))"

section \<open>What events and admissions leave alone\<close>

lemma in_transaction_cases:
  assumes "in_transaction f s = (r, s')"
  obtains e where "r = Inl e" "f s = Inl e" "s' = s" | x where "r = Inr x" "f s = Inr (x, s')"
  using assms by (auto simp: in_transaction_def split: sum.splits)

lemma canonical_or_insert_frame:
  assumes "canonical_or_insert_in E a ps s = Inr (i, s')"
  shows "\<exists>cs rows. s' = s\<lparr>conversations := cs, participants := rows\<rparr>"
proof (cases "find (canonical (participant_set_hash (e_sha256 E) ps)) (conversations s)")
  case None
  with assms show ?thesis by (auto simp: canonical_or_insert_in_def Let_def)
next
  case (Some c)
  with assms have "s' = s\<lparr>conversations := conversations s, participants := participants s\<rparr>"
    by (simp add: canonical_or_insert_in_def Let_def)
  then show ?thesis by blast
qed

lemma ensure_direct_frame:
  assumes "ensure_direct_conversation E a b s = Inr (i, s')"
  shows "accounts s' = accounts s" "webhook_receipts s' = webhook_receipts s" "uuid128_map s' = uuid128_map s"
  using assms canonical_or_insert_frame [of E a _ _ i s']
  by (fastforce simp: ensure_direct_conversation_def Let_def refresh_directory_in_def split: if_splits)+

lemma ensure_pairs_frame [simp]:
  "accounts (snd (ensure_pairs Es ps s)) = accounts s"
  "webhook_receipts (snd (ensure_pairs Es ps s)) = webhook_receipts s"
  "uuid128_map (snd (ensure_pairs Es ps s)) = uuid128_map s"
proof -
  have "accounts (snd (ensure_pairs Es ps s)) = accounts s \<and> webhook_receipts (snd (ensure_pairs Es ps s)) = webhook_receipts s \<and>
      uuid128_map (snd (ensure_pairs Es ps s)) = uuid128_map s"
  proof (induction ps arbitrary: s)
    case (Cons p ps)
    obtain a b where p: "p = (a, b)" by (cases p)
    obtain r s1 where tx: "in_transaction (ensure_direct_conversation (Es (length ps)) a b) s = (r, s1)" by fastforce
    then have "accounts s1 = accounts s \<and> webhook_receipts s1 = webhook_receipts s \<and> uuid128_map s1 = uuid128_map s"
      by (rule in_transaction_cases) (simp_all add: ensure_direct_frame)
    then show ?case using Cons.IH [of s1] tx p by (cases r) simp_all
  qed simp
  then show "accounts (snd (ensure_pairs Es ps s)) = accounts s"
    "webhook_receipts (snd (ensure_pairs Es ps s)) = webhook_receipts s"
    "uuid128_map (snd (ensure_pairs Es ps s)) = uuid128_map s" by simp_all
qed

lemma custodian_conversation_frame [simp]:
  "accounts (custodian_conversation Es u s) = accounts s"
  "webhook_receipts (custodian_conversation Es u s) = webhook_receipts s"
  "uuid128_map (custodian_conversation Es u s) = uuid128_map s"
  by (simp_all add: custodian_conversation_def ensure_custodian_conversations_def)

lemma end_stored_proofs_frame [simp]:
  "accounts (end_stored_proofs u s) = accounts s"
  "webhook_receipts (end_stored_proofs u s) = webhook_receipts s"
  "uuid128_map (end_stored_proofs u s) = uuid128_map s"
  by (simp_all add: end_stored_proofs_def)

lemma account_writes_frame:
  "apply_id_change now u k i at s = Inr (a, s') \<Longrightarrow> webhook_receipts s' = webhook_receipts s"
  "apply_profile_update now l v s = Inr (a, s') \<Longrightarrow> webhook_receipts s' = webhook_receipts s"
  "apply_custodian_change now u c ci at s = Inr (a, s') \<Longrightarrow> webhook_receipts s' = webhook_receipts s"
  "revoke_sessions_before u at s = Inr (a, s') \<Longrightarrow> webhook_receipts s' = webhook_receipts s"
  by (auto simp: apply_id_change_def apply_profile_update_def apply_custodian_change_def revoke_sessions_before_def
      Let_def put_accounts_ok split: if_splits)

lemma ensure_owner_receipts [simp]:
  "webhook_receipts (fold (ensure_owner_in now) gids s) = webhook_receipts s"
  by (induction gids arbitrary: s) (simp_all add: ensure_owner_in_def split: list.splits)

lemma delete_account_frame:
  assumes "delete_account now u at s = Inr s'"
  shows "webhook_receipts s' = webhook_receipts s"
    and "accounts s' = upsert a_uuid
      ((new_account now u Carbon)\<lparr>a_deleted := True, a_deleted_at := Some at, a_revoked_before := Some at\<rparr>)
      (deleted_account_row now at) (accounts s)"
  using assms fold_ensure_owner
  by (auto simp: delete_account_def Let_def put_accounts_ok delete_own_rows_def)

lemma apply_event_receipts:
  assumes "apply_event Es now at ev s = (r, s')"
  shows "webhook_receipts s' = webhook_receipts s"
  using assms
proof (induction Es now at ev s rule: apply_event.induct)
  case (8 Es now at u s)
  then show ?case by (auto simp: delete_account_frame split: sum.splits)
qed (auto simp: then_with_def in_transaction_def end_sessions_def split: sum.splits prod.splits if_splits
      dest: account_writes_frame)

lemmas account_write_advances = account_step.intros [THEN account_step_advances]

lemma deleted_account_advances: "account_advances a (deleted_account_row now at a)"
  by (auto simp: account_advances_def deleted_account_row_def opt_le_def split: option.splits)

lemma apply_event_advances:
  assumes "apply_event Es now at ev s = (r, s')"
  shows "table_advances (accounts s) (accounts s')"
  using assms
proof (induction Es now at ev s rule: apply_event.induct)
  case (8 Es now at u s)
  then show ?case
  proof (cases "delete_account now u at s")
    case (Inr s1)
    with 8 delete_account_frame(2) [OF Inr] show ?thesis
      by (auto simp: deleted_account_row_def intro!: table_advances_upsert deleted_account_advances)
  qed simp
qed (auto simp: then_with_def in_transaction_def end_sessions_def split: sum.splits prod.splits if_splits
      dest: account_write_advances)

lemma receive_advances:
  assumes "receive Es now v s = (r, s')"
  shows "table_advances (accounts s) (accounts s')"
  using assms by (auto simp: receive_def remember_event_def record_webhook_event_def then_with_def Let_def
      split: sum.splits if_splits prod.splits dest: apply_event_advances)

lemma enrich_advances: "table_advances (accounts s) (accounts (enrich Es A now a stored s))"
proof -
  have "table_advances (accounts s) (accounts (learn_lookup A now u s))" for u
    by (auto simp: learn_lookup_def in_transaction_def split: sum.splits
        dest: account_write_advances)
  also have "table_advances (accounts t) (accounts (learn_profile A now u t))" for t u
    by (auto simp: learn_profile_def split: sum.splits option.splits
        dest: account_write_advances)
  finally (table_advances_trans) show ?thesis
    by (simp add: enrich_def ensure_custodian_conversations_def)
qed

lemma admit_advances:
  assumes "admit Es A C now ctx ss s = (r, ss', s')"
  shows "table_advances (accounts s) (accounts s')"
proof -
  let ?rec = "record_authentication now (ar_id (ac_actor ctx)) (ar_type (ac_actor ctx))
    (filter_option valid_public_id (Some (ac_public_id ctx))) (ac_issued_at ctx) s"
  have step: "table_advances (accounts s) (accounts s1)" if "?rec = Inr (x, s1)" for x s1
    using that by (intro account_step_advances account_step.intros)
  have complete: "table_advances (accounts s1) (accounts s2)"
    if "complete_account Es A now a stored inserted m s1 = (m', s2)" for a stored inserted m m' s1 s2
    using that enrich_advances [of s1 Es A now a stored]
    by (auto simp: complete_account_def split: if_splits prod.splits bool.splits)
  show ?thesis using assms
    by (auto simp: admit_def Let_def split: if_splits sum.splits prod.splits bool.splits
        intro: step table_advances_trans dest: complete)
qed

section \<open>Events are applied once\<close>

lemma remember_event_ok:
  "remember_event ev account result s = (Inr n, s') \<Longrightarrow> webhook_event_seen (ev_id ev) s' \<and> accounts s' = accounts s"
  by (auto simp: remember_event_def record_webhook_event_def webhook_event_seen_def insert_or_ignore_def
      sql_exists_def split: sum.splits if_splits)

lemma remember_event_refused:
  "remember_event ev account result s = (Inl e, s') \<Longrightarrow> s' = s"
  by (auto simp: remember_event_def split: sum.splits)

lemma receive_records:
  assumes "receive Es now (Inr ev) s = (Inr n, s1)"
  shows "webhook_event_seen (ev_id ev) s1"
  using assms by (auto simp: receive_def then_with_def Let_def remember_event_ok
      split: if_splits sum.splits prod.splits)

text \<open>C10. A webhook event is applied at most once: once a delivery was answered 204, every later delivery of
  the same event is answered 204 and changes nothing, whatever it carries; and a delivery that is
  refused leaves no receipt, so that Accounts' retry is applied.\<close>

theorem webhook_applied_once:
  assumes "receive Es now (Inr ev) s = (r, s1)"
  shows "case r of
      Inr n \<Rightarrow> n = 204 \<and> (\<forall>Es' now' ev'. ev_id ev' = ev_id ev \<longrightarrow> receive Es' now' (Inr ev') s1 = (Inr 204, s1))
    | Inl e \<Rightarrow> webhook_receipts s1 = webhook_receipts s \<and> \<not> webhook_event_seen (ev_id ev) s1"
proof (cases r)
  case (Inl e)
  with assms have new: "\<not> webhook_event_seen (ev_id ev) s"
    by (auto simp: receive_def split: if_splits)
  have "webhook_receipts s1 = webhook_receipts s"
    using assms Inl by (auto simp: receive_def then_with_def Let_def split: if_splits sum.splits prod.splits
        dest: remember_event_refused apply_event_receipts)
  with new Inl show ?thesis by (simp add: webhook_event_seen_def)
next
  case (Inr n)
  with assms have "n = 204"
    by (auto simp: receive_def then_with_def Let_def remember_event_def split: if_splits sum.splits prod.splits)
  with receive_records [of Es now ev s n s1] assms Inr show ?thesis by (simp add: receive_def)
qed

abbreviation sign_out :: verified_event where
  "sign_out \<equiv> \<lparr>ev_id = lit ''evt_1'', ev_type = lit ''membership.signed_out'', ev_occurred_at = Some (5 * second),
     ev_event = SignedOut (lit ''K1E'') None\<rparr>"

abbreviation known_nova :: db where
  "known_nova \<equiv> empty_db\<lparr>accounts := [nova]\<rparr>"

lemmas session_evaluation = receive_def webhook_event_seen_def remember_event_def record_webhook_event_def
  end_sessions_def in_transaction_def end_stored_proofs_def revoke_sessions_before_def put_accounts_def
  revoke_rows_def sql_update_def revoke_due_def older_def account_row_ok_def new_account_def empty_db_def
  uuid_format_def valid_public_id_def strip_either_def valid_handle_def handle_char_def applied_of_def
  rows_affected_def sql_exists_def sql_delete_def insert_or_ignore_def second_def Let_def str_simps

theorem webhook_applied_once_witness:
  "\<exists>s1. receive (\<lambda>_. test_env) 9 (Inr sign_out) known_nova = (Inr 204, s1) \<and> s1 \<noteq> known_nova \<and>
     receive (\<lambda>_. test_env) 10 (Inr sign_out) s1 = (Inr 204, s1)"
proof -
  let ?run = "receive (\<lambda>_. test_env) 9 (Inr sign_out) known_nova"
  have ok: "fst ?run = Inr 204 \<and> webhook_receipts (snd ?run) \<noteq> []"
    by (simp add: session_evaluation)
  then obtain s1 where s1: "?run = (Inr 204, s1)" "webhook_receipts s1 \<noteq> []" by (cases ?run) auto
  moreover have "s1 \<noteq> known_nova" using s1(2) by (auto simp: empty_db_def)
  ultimately show ?thesis using webhook_applied_once [OF s1(1)] by auto
qed

section \<open>A sign-in that ended is refused\<close>

fun ends_sign_ins :: "str \<Rightarrow> account_event \<Rightarrow> bool" where
  "ends_sign_ins u (SignedOut v reason) = (v = u \<and> reason \<noteq> Some (lit ''app_revoked''))"
| "ends_sign_ins u (AccessRemoved v) = (v = u)"
| "ends_sign_ins u (Deleted v) = (v = u)"
| "ends_sign_ins u _ = False"

inductive session_step :: "db \<Rightarrow> db \<Rightarrow> bool" where
  received: "receive Es now v s = (r, s') \<Longrightarrow> session_step s s'"
| admitted: "admit Es A C now ctx ss s = (r, ss', s') \<Longrightarrow> session_step s s'"
| cached_account: "account_step s s' \<Longrightarrow> session_step s s'"

lemma session_steps_advance:
  assumes "session_step\<^sup>*\<^sup>* s s'"
  shows "table_advances (accounts s) (accounts s')"
  using assms
proof (induction rule: rtranclp_induct)
  case (step s1 s2)
  from step(2) have "table_advances (accounts s1) (accounts s2)"
    by cases (auto intro: receive_advances admit_advances account_step_advances)
  with step(3) show ?case by (rule table_advances_trans)
qed simp

text \<open>A cutoff at or after \<open>t\<close>.\<close>

definition cut_off :: "str \<Rightarrow> instant \<Rightarrow> db \<Rightarrow> bool" where
  "cut_off u t s \<longleftrightarrow> (\<exists>a. stored_account u (accounts s) = Some a \<and> opt_le (Some t) (a_revoked_before a))"

lemma cut_off_kept:
  assumes "cut_off u t s" "table_advances (accounts s) (accounts s')"
  shows "cut_off u t s'"
proof -
  obtain a where a: "stored_account u (accounts s) = Some a" "opt_le (Some t) (a_revoked_before a)"
    using assms(1) by (auto simp: cut_off_def)
  with assms(2) obtain b where b: "stored_account u (accounts s') = Some b" "account_advances a b"
    by (auto simp: table_advances_def)
  with a(2) have "opt_le (Some t) (a_revoked_before b)"
    using opt_le_trans by (auto simp: account_advances_def)
  with b(1) show ?thesis by (auto simp: cut_off_def)
qed

lemma revocation_cuts_off:
  assumes "revoke_sessions_before u t s = Inr (r, s')" "stored_account u (accounts s) = Some a0"
  shows "cut_off u t s'"
proof -
  obtain a where a: "find (\<lambda>x. a_uuid x = u) (accounts s) = Some a" using assms(2) by (auto simp: stored_account_def)
  have "find (\<lambda>x. a_uuid x = u) (revoke_rows u t (accounts s)) =
      Some (if revoke_due u t a then a\<lparr>a_revoked_before := Some t\<rparr> else a)"
    unfolding revoke_rows_def using a by (subst find_keyed_update) simp_all
  moreover have "accounts s' = revoke_rows u t (accounts s)"
    using assms(1) by (auto simp: revoke_sessions_before_def put_accounts_ok)
  ultimately show ?thesis
    using find_Some_in [OF a]
    by (auto simp: cut_off_def stored_account_def revoke_due_def older_def opt_le_def not_less split: option.splits)
qed

lemma deletion_cuts_off:
  assumes "delete_account now u t s = Inr s'"
  shows "cut_off u t s'"
proof -
  have "a_uuid (deleted_account_row now t x) = a_uuid x" for x by (simp add: deleted_account_row_def)
  then show ?thesis
    by (simp add: cut_off_def stored_account_def delete_account_frame(2) [OF assms] find_upsert new_account_def
        deleted_account_row_def opt_le_def split: option.splits)
qed

lemma event_cuts_off:
  assumes "apply_event Es now t ev s = (Inr x, s')" "ends_sign_ins u ev" "stored_account u (accounts s) \<noteq> None"
  shows "cut_off u t s'"
proof -
  have "cut_off u t (end_stored_proofs v s1) \<longleftrightarrow> cut_off u t s1" for v s1 by (simp add: cut_off_def)
  then show ?thesis using assms
    by (cases ev) (auto simp: then_with_def in_transaction_def end_sessions_def split: sum.splits prod.splits if_splits
        intro: deletion_cuts_off revocation_cuts_off)
qed

lemma receive_cuts_off:
  assumes "receive Es now (Inr ev) s = (Inr n, s')" "\<not> webhook_event_seen (ev_id ev) s"
    "set (event_identities (ev_event ev)) \<inter> set (uuid128_map s) = {}" "ends_sign_ins u (ev_event ev)"
    "ev_occurred_at ev = Some t" "stored_account u (accounts s) \<noteq> None"
  shows "cut_off u t s'"
proof -
  obtain account result s1 where ap: "apply_event Es now t (ev_event ev) s = (Inr (account, result), s1)"
    and re: "remember_event ev account result s1 = (Inr n, s')"
    using assms by (auto simp: receive_def then_with_def split: sum.splits prod.splits)
  have "accounts s' = accounts s1" using remember_event_ok [OF re] by simp
  with event_cuts_off [OF ap assms(4,6)] show ?thesis by (simp add: cut_off_def)
qed

lemma deleted_event:
  assumes "receive Es now (Inr ev) s = (Inr n, s')" "\<not> webhook_event_seen (ev_id ev) s"
    "set (event_identities (ev_event ev)) \<inter> set (uuid128_map s) = {}" "ev_event ev = Deleted u"
  shows "\<exists>a. stored_account u (accounts s') = Some a \<and> a_deleted a"
proof -
  obtain t s1 where del: "delete_account now u t s = Inr s1"
    and re: "remember_event ev (Some u) ''applied'' s1 = (Inr n, s')"
    using assms by (auto simp: receive_def then_with_def Let_def split: sum.splits prod.splits)
  have "a_uuid (deleted_account_row now t x) = a_uuid x" for x by (simp add: deleted_account_row_def)
  then have "\<exists>a. stored_account u (accounts s1) = Some a \<and> a_deleted a"
    by (simp add: stored_account_def delete_account_frame(2) [OF del] find_upsert new_account_def
        deleted_account_row_def split: option.splits)
  moreover have "accounts s' = accounts s1" using remember_event_ok [OF re] by simp
  ultimately show ?thesis by simp
qed

lemma recorded_authentication:
  assumes "record_authentication now u k i issued s = Inr ((stored, inserted), s')"
  shows "stored_account u (accounts s') = Some stored"
  using assms by (auto simp: record_authentication_def Let_def split: option.splits)

text \<open>What is required of everyone who is admitted.\<close>

lemma admitted_requires:
  assumes "admit Es A C now ctx ss s = (Inr stored, ss', s')"
  shows "ar_id (ac_actor ctx) \<notin> set (uuid128_map s)" "\<not> a_deleted stored"
    "\<exists>s1 :: db. table_advances (accounts s) (accounts s1) \<and> stored_account (ar_id (ac_actor ctx)) (accounts s1) = Some stored"
    "\<exists>st. sign_in_ended C now ctx stored (ss_adapter ss) = (Inr False, st)"
proof -
  obtain inserted s1 st where rec: "record_authentication now (ar_id (ac_actor ctx)) (ar_type (ac_actor ctx))
      (filter_option valid_public_id (Some (ac_public_id ctx))) (ac_issued_at ctx) s = Inr ((stored, inserted), s1)"
    and *: "ar_id (ac_actor ctx) \<notin> set (uuid128_map s)" "\<not> a_deleted stored"
      "sign_in_ended C now ctx stored (ss_adapter ss) = (Inr False, st)"
    using assms by (auto simp: admit_def Let_def split: if_splits sum.splits prod.splits bool.splits)
  have "table_advances (accounts s) (accounts s1)" using rec by (rule account_write_advances(1))
  with recorded_authentication [OF rec] * show "ar_id (ac_actor ctx) \<notin> set (uuid128_map s)" "\<not> a_deleted stored"
    "\<exists>s1 :: db. table_advances (accounts s) (accounts s1) \<and> stored_account (ar_id (ac_actor ctx)) (accounts s1) = Some stored"
    "\<exists>st. sign_in_ended C now ctx stored (ss_adapter ss) = (Inr False, st)" by blast+
qed


definition no_client :: accounts_client where
  "no_client = \<lparr>cc_jwks = None, cc_verify_token = (\<lambda>_ _. Inl WrongAudience), cc_verify_proof = (\<lambda>_. None),
     cc_introspect = (\<lambda>_. None), cc_rfc3339 = (\<lambda>_. None), cc_blake3 = id\<rparr>"

definition no_service :: accounts_service where
  "no_service = \<lparr>svc_lookup = (\<lambda>_. Inl accounts_unavailable), svc_lookup_by_id = (\<lambda>_. Inl accounts_unavailable),
     svc_sign_in_live = (\<lambda>_ _ _. Inl accounts_unavailable), svc_member_profile = (\<lambda>_. Inl accounts_unavailable)\<rparr>"

definition idle :: session_state where
  "idle = \<lparr>ss_adapter = \<lparr>ad_app_id = lit ''dm'', ad_issuer = lit ''accounts'', ad_proof_issuers = [],
      ad_jwks = None, ad_jwks_refetched = None, ad_live = [], ad_decisions = []\<rparr>, ss_enriched = Map.empty\<rparr>"

abbreviation signed_in :: "str \<Rightarrow> instant \<Rightarrow> auth_context" where
  "signed_in u issued \<equiv> \<lparr>ac_actor = actor Silicon u, ac_public_id = lit ''si:nova'', ac_membership_id = None,
     ac_token_family = None, ac_scopes = [], ac_credential = AccessToken (lit ''token''),
     ac_issued_at = Some issued, ac_expires_at = 100 * second\<rparr>"


text \<open>A sign-out of an account DM has not cached is forgotten: the update finds no row, so a token issued
  before it is admitted afterwards.\<close>

theorem unseen_sign_out_forgotten:
  "\<exists>s1. receive (\<lambda>_. test_env) 9 (Inr sign_out) empty_db = (Inr 204, s1) \<and>
     (\<exists>stored. fst (admit (\<lambda>_. test_env) no_service no_client 9 (signed_in (lit ''K1E'') (4 * second)) idle s1) = Inr stored)"
proof -
  let ?run = "receive (\<lambda>_. test_env) 9 (Inr sign_out) empty_db"
  have s1: "?run = (Inr 204, empty_db\<lparr>webhook_receipts := [\<lparr>wr_event = lit ''evt_1'',
      wr_type = lit ''membership.signed_out'', wr_account = Some (lit ''K1E''), wr_outcome = ''stale''\<rparr>]\<rparr>)"
    by (simp add: session_evaluation)
  show ?thesis unfolding s1
    by (simp add: admit_def record_authentication_def filter_option_def authentication_due_def authenticated_row_def
        upsert_where_def stored_account_def sign_in_ended_def complete_account_def session_evaluation)
qed

section \<open>Proofs are confirmed by Silicon Accounts\<close>

text \<open>Accounts confirms a proof to this app: a User verification proof made for it, for an account.\<close>

definition confirmed :: "uuid_lib \<Rightarrow> str \<Rightarrow> accounts_client \<Rightarrow> str \<Rightarrow> proof_grant \<Rightarrow> bool" where
  "confirmed U app C raw g \<longleftrightarrow>
     (\<exists>p u. cc_verify_proof C raw = Some (ProofValid p) \<and> vp_user_verification p \<and> vp_user p = Some u \<and>
        vp_receiving_app p = app \<and> is_account_uuid U (pu_uuid u) \<and> g = grant_of p u)"

text \<open>The life of one adapter: calls at instants that never go back, each answered by the client as it
  is at that instant.\<close>

inductive adapter_run :: "uuid_lib \<Rightarrow> (instant \<Rightarrow> accounts_client) \<Rightarrow> instant \<Rightarrow> adapter \<Rightarrow> bool" for U C where
  start: "ad_live st = [] \<Longrightarrow> adapter_run U C t st"
| authenticates: "adapter_run U C t st \<Longrightarrow> t \<le> t' \<Longrightarrow> wf_str (snd credential) \<Longrightarrow>
    authenticate U (C t') t' credential rq st = (r, st') \<Longrightarrow>
    adapter_run U C t' st'"
| decides: "adapter_run U C t st \<Longrightarrow> t \<le> t' \<Longrightarrow> sign_in_live (C t') t' raw u cutoff st = (r, st') \<Longrightarrow>
    adapter_run U C t' st'"

definition sound_entry ::
  "uuid_lib \<Rightarrow> str \<Rightarrow> (instant \<Rightarrow> accounts_client) \<Rightarrow> instant \<Rightarrow> nat list \<times> instant \<times> live_verdict \<Rightarrow> bool" where
  "sound_entry U app C t e \<longleftrightarrow> fst (snd e) \<le> t \<and>
     (\<forall>g. snd (snd e) = Grant g \<longrightarrow>
        (\<exists>raw. wf_str raw \<and> fst e = proof_key (C (fst (snd e))) raw \<and> confirmed U app (C (fst (snd e))) raw g))"

definition sound_cache :: "uuid_lib \<Rightarrow> (instant \<Rightarrow> accounts_client) \<Rightarrow> instant \<Rightarrow> adapter \<Rightarrow> bool" where
  "sound_cache U C t st \<longleftrightarrow> (\<forall>e\<in>set (ad_live st). sound_entry U (ad_app_id st) C t e)"

lemma sound_entry_later: "sound_entry U app C t e \<Longrightarrow> t \<le> t' \<Longrightarrow> sound_entry U app C t' e"
  by (auto simp: sound_entry_def)

lemma sound_cache_later: "sound_cache U C t st \<Longrightarrow> t \<le> t' \<Longrightarrow> sound_cache U C t' st"
  by (auto simp: sound_cache_def intro: sound_entry_later)

lemma set_pruned: "set (pruned ttl now c) \<subseteq> set c"
  by (auto simp: pruned_def)

lemma cached_in:
  "cached ttl now key c = Some v \<Longrightarrow> \<exists>at. (key, at, v) \<in> set c \<and> now - at < ttl"
  by (force simp: cached_def young_def split: option.splits if_splits dest: find_Some_in)

lemma sound_pruned: "sound_cache U C t st \<Longrightarrow> sound_cache U C t (st\<lparr>ad_live := pruned ttl now (ad_live st)\<rparr>)"
  using set_pruned [of ttl now "ad_live st"] by (auto simp: sound_cache_def)

lemma sound_remember:
  assumes "sound_cache U C t st" "sound_entry U (ad_app_id st) C t (key, t, v)"
  shows "sound_cache U C t (st\<lparr>ad_live := remember t key v (ad_live st)\<rparr>)"
  using assms by (auto simp: sound_cache_def remember_def)

lemma inactive_sound: "sound_entry U app C t (key, t, Inactive)"
  by (simp add: sound_entry_def)

lemma jwks_frame: "jwks C now rf st = (r, st') \<Longrightarrow> ad_live st' = ad_live st \<and> ad_app_id st' = ad_app_id st"
  by (auto simp: jwks_def split: option.splits if_splits)

lemma verify_locally_frame:
  "verify_locally C now token st = (r, st') \<Longrightarrow> ad_live st' = ad_live st \<and> ad_app_id st' = ad_app_id st"
  by (auto simp: verify_locally_def split: prod.splits sum.splits token_failure.splits dest!: jwks_frame)

lemma still_active_sound:
  assumes "sound_cache U C t st" "still_active (C t) t raw sub st = (r, st')"
  shows "sound_cache U C t st'" "ad_app_id st' = ad_app_id st"
    "r = Inr True \<Longrightarrow> cc_introspect (C t) raw = Some (True, Some sub)"
proof -
  note pruned_ok = sound_pruned [OF assms(1), of live_cache t]
  show "sound_cache U C t st'"
    using assms(2) pruned_ok sound_remember [OF pruned_ok inactive_sound]
    by (auto simp: still_active_def Let_def split: if_splits sum.splits bool.splits)
  show "ad_app_id st' = ad_app_id st"
    using assms(2) by (auto simp: still_active_def Let_def split: if_splits sum.splits bool.splits)
  show "r = Inr True \<Longrightarrow> cc_introspect (C t) raw = Some (True, Some sub)"
    using assms(2) by (auto simp: still_active_def introspect_def Let_def split: if_splits sum.splits bool.splits option.splits)
qed

lemma verify_proof_live_sound:
  assumes "sound_cache U C t st" "wf_str raw" "verify_proof_live U (C t) t raw (proof_key (C t) raw) st = (r, st')"
  shows "sound_cache U C t st'" "ad_app_id st' = ad_app_id st"
    "r = Inr g \<Longrightarrow> confirmed U (ad_app_id st) (C t) raw g"
proof -
  have entry: "sound_entry U (ad_app_id st) C t (proof_key (C t) raw, t, Grant g)"
    if "confirmed U (ad_app_id st) (C t) raw g" for g
    using that assms(2) by (auto simp: sound_entry_def)
  show "ad_app_id st' = ad_app_id st" "r = Inr g \<Longrightarrow> confirmed U (ad_app_id st) (C t) raw g"
    using assms(3) by (auto simp: verify_proof_live_def confirmed_def
        split: option.splits proof_verification.splits bool.splits if_splits)
  consider "st' = st" | "st' = st\<lparr>ad_live := remember t (proof_key (C t) raw) Inactive (ad_live st)\<rparr>"
    | g where "st' = st\<lparr>ad_live := remember t (proof_key (C t) raw) (Grant g) (ad_live st)\<rparr>"
        "confirmed U (ad_app_id st) (C t) raw g"
    using assms(3) by (auto simp: verify_proof_live_def confirmed_def
        split: option.splits proof_verification.splits bool.splits if_splits)
  then show "sound_cache U C t st'"
  proof cases
    case (3 g)
    show ?thesis unfolding 3(1) by (rule sound_remember [OF assms(1) entry [OF 3(2)]])
  qed (simp_all add: assms(1) sound_remember inactive_sound)
qed

text \<open>The grant a proof is used with was confirmed less than 30 seconds ago, and just now on a route that
  checks live.\<close>

lemma proof_grant_sound:
  assumes "sound_cache U C t st" "wf_str raw" "proof_grant_for U (C t) t raw live st = (r, st')"
    and same: "\<And>t'. cc_blake3 (C t') = cc_blake3 (C t)" and inj: "inj (cc_blake3 (C t))"
  shows "sound_cache U C t st'" "ad_app_id st' = ad_app_id st"
    "r = Inr g \<Longrightarrow> \<exists>at. at \<le> t \<and> t - at < live_cache \<and> (live \<longrightarrow> at = t) \<and> confirmed U (ad_app_id st) (C at) raw g"
proof -
  define st1 where "st1 = st\<lparr>ad_live := pruned live_cache t (ad_live st)\<rparr>"
  have ok: "sound_cache U C t st1" unfolding st1_def by (rule sound_pruned [OF assms(1)])
  have app: "ad_app_id st1 = ad_app_id st" by (simp add: st1_def)
  define key where "key = proof_key (C t) raw"
  have here: "0 < live_cache" by (simp add: live_cache_def second_def)
  have run: "(case cached live_cache t key (ad_live st1) of
      Some (Grant g) \<Rightarrow> if \<not> live \<and> pg_expires_at g > t then (Inr g, st1) else verify_proof_live U (C t) t raw key st1
    | Some Inactive \<Rightarrow> (Inl invalid_proof, st1)
    | None \<Rightarrow> verify_proof_live U (C t) t raw key st1) = (r, st')"
    using assms(3) by (simp only: proof_grant_for_def Let_def st1_def key_def)
  consider (hit) h where "cached live_cache t key (ad_live st1) = Some (Grant h)" "\<not> live" "r = Inr h" "st' = st1"
    | (inactive) "r = Inl invalid_proof" "st' = st1"
    | (ask) "verify_proof_live U (C t) t raw (proof_key (C t) raw) st1 = (r, st')"
  proof (cases "cached live_cache t key (ad_live st1)")
    case None
    with run show thesis by (intro ask) (simp add: key_def)
  next
    case (Some v)
    show thesis
    proof (cases v)
      case Inactive
      with run Some show thesis by (intro inactive) simp_all
    next
      case (Grant h)
      show thesis
      proof (cases "\<not> live \<and> pg_expires_at h > t")
        case True
        with run Some Grant show thesis by (intro hit [of h]) simp_all
      next
        case False
        with run Some Grant show thesis by (intro ask) (auto simp: key_def split: if_splits)
      qed
    qed
  qed
  then have "sound_cache U C t st' \<and> ad_app_id st' = ad_app_id st \<and>
    (r = Inr g \<longrightarrow> (\<exists>at. at \<le> t \<and> t - at < live_cache \<and> (live \<longrightarrow> at = t) \<and> confirmed U (ad_app_id st) (C at) raw g))"
  proof cases
    case hit
    obtain at where at: "(key, at, Grant h) \<in> set (ad_live st1)" "t - at < live_cache"
      using cached_in [OF hit(1)] by blast
    with ok have "sound_entry U (ad_app_id st) C t (key, at, Grant h)" by (auto simp: sound_cache_def app)
    then obtain raw' where raw': "at \<le> t" "wf_str raw'" "key = proof_key (C at) raw'" "confirmed U (ad_app_id st) (C at) raw' h"
      by (auto simp: sound_entry_def)
    have "proof_key (C at) raw' = proof_key (C t) raw'" using same [of at] by (simp add: proof_key_def)
    with raw'(3) inj have "bytes raw' = bytes raw" by (simp add: key_def proof_key_def inj_eq)
    then have "raw' = raw" using raw'(2) assms(2) by (rule bytes_inj [rotated 2])
    with raw' at hit ok app show ?thesis by auto
  next
    case ask
    note v = verify_proof_live_sound [OF ok assms(2) ask]
    show ?thesis using v(1,2) v(3) [of g] here by (auto simp: app)
  qed (use ok app in auto)
  then show "sound_cache U C t st'" "ad_app_id st' = ad_app_id st"
    "r = Inr g \<Longrightarrow> \<exists>at. at \<le> t \<and> t - at < live_cache \<and> (live \<longrightarrow> at = t) \<and> confirmed U (ad_app_id st) (C at) raw g"
    by blast+
qed

lemma authenticate_sound:
  assumes "sound_cache U C t st" "wf_str (snd credential)" "authenticate U (C t) t credential rq st = (r, st')"
    and same: "\<And>t'. cc_blake3 (C t') = cc_blake3 (C t)" and inj: "inj (cc_blake3 (C t))"
  shows "sound_cache U C t st'" "ad_app_id st' = ad_app_id st"
proof -
  let ?ok = "\<lambda>st'. sound_cache U C t st' \<and> ad_app_id st' = ad_app_id st"
  have active: "?ok st2" if "ad_live st1 = ad_live st" "ad_app_id st1 = ad_app_id st"
    "still_active (C t) t raw sub st1 = (x, st2)" for raw sub st1 st2 x
  proof -
    have "sound_cache U C t st1" using assms(1) that(1,2) by (simp add: sound_cache_def)
    from still_active_sound(1,2) [OF this that(3)] that(2) show ?thesis by simp
  qed
  have start: "sound_cache U C t st1" if "ad_live st1 = ad_live st" "ad_app_id st1 = ad_app_id st" for st1
    using assms(1) that by (simp add: sound_cache_def)
  have bearer: "?ok st'" if "authenticate_bearer U (C t) t token rq st = (r, st')" for token
    using that
    by (auto simp: authenticate_bearer_def split: prod.splits sum.splits if_splits bool.splits option.splits
        dest!: verify_locally_frame dest: active intro: start)
  have proof_: "?ok st'" if wf: "wf_str raw" and run: "authenticate_proof U (C t) t raw rq st = (r, st')" for raw
  proof (cases "rq_proof_scope rq")
    case (Some scope)
    obtain x st1 where g: "proof_grant_for U (C t) t raw (rq_live rq) st = (x, st1)" by fastforce
    with run Some have "st' = st1" by (auto simp: authenticate_proof_def split: sum.splits if_splits)
    with proof_grant_sound(1,2) [OF assms(1) wf g same inj] show ?thesis by simp
  qed (use run assms(1) in \<open>simp add: authenticate_proof_def\<close>)
  have "?ok st'" using assms(1-3) bearer proof_ [of "snd credential"]
    by (auto simp: authenticate_def Let_def split: if_splits scheme.splits)
  then show "sound_cache U C t st'" "ad_app_id st' = ad_app_id st" by simp_all
qed

lemma sign_in_live_frame:
  "sign_in_live C now raw u cutoff st = (r, st') \<Longrightarrow> ad_live st' = ad_live st \<and> ad_app_id st' = ad_app_id st"
  by (auto simp: sign_in_live_def Let_def split: option.splits sum.splits)

lemma adapter_run_sound:
  assumes "adapter_run U C t st" and same: "\<And>t. cc_blake3 (C t) = h" and inj: "inj h"
  shows "sound_cache U C t st"
  using assms(1)
proof (induction rule: adapter_run.induct)
  case (start st t)
  then show ?case by (simp add: sound_cache_def)
next
  case (authenticates t st t' credential rq r st')
  have "sound_cache U C t' st" using authenticates(5,2) by (rule sound_cache_later)
  then show ?case using authenticates(3,4) by (rule authenticate_sound) (simp_all add: same inj)
next
  case (decides t st t' raw u cutoff r st')
  have "sound_cache U C t' st" using decides(4,2) by (rule sound_cache_later)
  then show ?case using sign_in_live_frame [OF decides(3)] by (simp add: sound_cache_def)
qed

text \<open>C9. An app acts for an account only while Silicon Accounts says so: a request with a proof is accepted
  only on a route that has a proof scope, as the account and through the app Accounts named when it
  confirmed this proof for this deployment less than 30 seconds before (at that very moment on a route
  that checks live), with the scope of the route among the confirmed ones and the app on the
  operator's list for it. A request with an access token on a route that checks live is accepted only
  when Accounts says at that moment that the sign-in is live, for the account the token names.\<close>

theorem accounts_vouches_for_callers:
  assumes "adapter_run U C t st" "\<And>t. cc_blake3 (C t) = h" "inj h"
    and "t \<le> now" "wf_str raw" "authenticate U (C now) now (scheme, raw) rq st = (Inr ctx, st')"
  shows "case scheme of
      Proof \<Rightarrow> \<exists>scope at g. rq_proof_scope rq = Some scope \<and> at \<le> now \<and> now - at < live_cache \<and>
        (rq_live rq \<longrightarrow> at = now) \<and> confirmed U (ad_app_id st) (C at) raw g \<and> lit scope \<in> set (pg_scopes g) \<and>
        allows (ad_proof_issuers st) (lit scope) (pg_issuing_app g) \<and>
        ac_actor ctx = pg_actor g \<and> via_app (ac_credential ctx) = Some (pg_issuing_app g)
    | Bearer \<Rightarrow> access_token (ac_credential ctx) = Some raw \<and>
        (rq_live rq \<longrightarrow> cc_introspect (C now) raw = Some (True, Some (ar_id (ac_actor ctx))))"
proof (cases scheme)
  case Proof
  note sound = sound_cache_later [OF adapter_run_sound [OF assms(1-3)] assms(4)]
  have same: "cc_blake3 (C t') = cc_blake3 (C now)" and inj: "inj (cc_blake3 (C now))" for t'
    using assms(2,3) by simp_all
  have run: "authenticate_proof U (C now) now raw rq st = (Inr ctx, st')"
    using assms(6) Proof by (auto simp: authenticate_def split: if_splits)
  then obtain scope where scope: "rq_proof_scope rq = Some scope"
    by (auto simp: authenticate_proof_def split: option.splits)
  obtain x st1 where gf: "proof_grant_for U (C now) now raw (rq_live rq) st = (x, st1)" by fastforce
  with run scope obtain g where g: "x = Inr g" "lit scope \<in> set (pg_scopes g)"
      "allows (ad_proof_issuers st) (lit scope) (pg_issuing_app g)" "ctx = proof_context g"
    by (auto simp: authenticate_proof_def split: sum.splits if_splits)
  have "\<exists>at\<le>now. now - at < live_cache \<and> (rq_live rq \<longrightarrow> at = now) \<and> confirmed U (ad_app_id st) (C at) raw g"
    using proof_grant_sound(3) [OF sound assms(5) gf same inj g(1)] by blast
  with scope g show ?thesis by (auto simp: proof_context_def Proof)
next
  case Bearer
  have run: "authenticate_bearer U (C now) now raw rq st = (Inr ctx, st')"
    using assms(6) Bearer by (auto simp: authenticate_def split: if_splits)
  note sound = sound_cache_later [OF adapter_run_sound [OF assms(1-3)] assms(4)]
  obtain claims kind st1 expires where v: "verify_locally (C now) now raw st = (Inr claims, st1)"
    and ctx: "ctx = bearer_context raw kind claims expires"
    and act: "rq_live rq \<Longrightarrow> still_active (C now) now raw (cl_sub claims) st1 = (Inr True, st')"
    using run by (auto simp: authenticate_bearer_def split: prod.splits sum.splits if_splits bool.splits option.splits)
  have "sound_cache U C now st1" using sound verify_locally_frame [OF v] by (simp add: sound_cache_def)
  then have "cc_introspect (C now) raw = Some (True, Some (cl_sub claims))" if "rq_live rq"
    using still_active_sound(3) [of U C now st1 raw "cl_sub claims" "Inr True" st'] act [OF that] by simp
  with ctx show ?thesis by (simp add: bearer_context_def Bearer)
qed

definition proof_client :: accounts_client where
  "proof_client = no_client\<lparr>cc_verify_proof := (\<lambda>raw. Some (ProofValid
     \<lparr>vp_user_verification = True,
      vp_user = Some \<lparr>pu_uuid = lit ''K1E'', pu_id = lit ''si:nova'', pu_kind = None, pu_membership_id = None\<rparr>,
      vp_receiving_app = lit ''dm'', vp_issuing_app = lit ''notes'', vp_scopes = [lit ''dm.messages.read''],
      vp_expires_at = 100 * second\<rparr>))\<rparr>"

abbreviation fresh_adapter :: adapter where
  "fresh_adapter \<equiv> (ss_adapter idle)\<lparr>ad_proof_issuers := [(lit ''dm.messages.read'', lit ''notes'')]\<rparr>"

theorem accounts_vouches_for_callers_witness:
  "\<exists>ctx st'. authenticate (e_uuid test_env) proof_client 7 (Proof, lit ''sap_1'')
       \<lparr>rq_proof_scope = Some ''dm.messages.read'', rq_live = False\<rparr> fresh_adapter = (Inr ctx, st') \<and>
     via_app (ac_credential ctx) = Some (lit ''notes'')"
proof -
  let ?run = "authenticate (e_uuid test_env) proof_client 7 (Proof, lit ''sap_1'')
       \<lparr>rq_proof_scope = Some ''dm.messages.read'', rq_live = False\<rparr> fresh_adapter"
  have "\<exists>ctx st'. ?run = (Inr ctx, st')"
    by (simp add: authenticate_def authenticate_proof_def proof_grant_for_def verify_proof_live_def proof_client_def
        no_client_def cached_def pruned_def idle_def grant_of_def allows_def is_account_uuid_def str_len_def
        max_credential_bytes_def bytes_def utf8_char_def cache_capacity_def str_simps Let_def)
  then obtain ctx st' where run: "?run = (Inr ctx, st')" by blast
  have "adapter_run (e_uuid test_env) (\<lambda>_. proof_client) 0 fresh_adapter"
    by (rule adapter_run.start) (simp add: idle_def)
  from accounts_vouches_for_callers [OF this, of id, OF _ _ _ _ run]
  obtain g where "confirmed (e_uuid test_env) (lit ''dm'') proof_client (lit ''sap_1'') g"
    "via_app (ac_credential ctx) = Some (pg_issuing_app g)"
    by (auto simp: proof_client_def no_client_def wf_str_def idle_def str_simps)
  then have "via_app (ac_credential ctx) = Some (lit ''notes'')"
    by (auto simp: confirmed_def proof_client_def no_client_def grant_of_def)
  with run show ?thesis by blast
qed

end
