(* ===== verification/Bundles.thy ===== *)
theory Bundles
  imports Revisions
begin

text \<open>
  Message bundles (\<open>postgres/bundles.rs\<close>): a Silicon collapses messages behind one display message, with
  the constraints and triggers of the bundle tables (\<open>migrations/0002\<close>, \<open>0024\<close>) and the budget of an
  expansion.
\<close>

section \<open>The size of an expansion\<close>

definition bundle_response_byte_budget :: nat where
  "bundle_response_byte_budget = 128 * 1024 * 1024"

definition expansion_error :: app_error where
  "expansion_error = ResponseTooLarge (lit ''bundle expansion exceeds the response budget; retrieve the original messages individually using GET /api/v1/conversations/{conversation_id}/messages/{message_id}'')"

definition check_expansion_budget :: "nat \<Rightarrow> nat \<Rightarrow> unit app_result" where
  "check_expansion_budget bytes_total largest =
     (if bytes_total > bundle_response_byte_budget \<and> bytes_total - largest > message_page_byte_budget
      then Inl expansion_error else Inr ())"

text \<open>The JSON an edit stores: the derived serialization of \<open>MessageCreate\<close>, in which the text is called
  \<open>message\<close>.\<close>

definition message_create_json :: "uuid_lib \<Rightarrow> message_create \<Rightarrow> json_map" where
  "message_create_json U c =
     [(lit ''metadata'', JObj (mc_metadata c))] @
     field_if ''reply_to_message_id'' (\<lambda>i. JStr (uuid_show U i)) (mc_reply_to c) @
     field_if ''sender_id'' JStr (mc_sender_id c) @
     field_if ''recipient_id'' JStr (mc_recipient_id c) @
     field_if ''message'' JStr (mc_text c) @
     (if mc_attachments c = [] then [] else [(lit ''attachments'', JArr (map attachment_json (mc_attachments c)))]) @
     field_if ''voice'' voice_json (mc_voice c) @
     field_if ''voice_transcript'' JStr (mc_voice_transcript c) @
     field_if ''gif'' gif_json (mc_gif c)"

text \<open>\<open>COALESCE(octet_length(content->>key), 0)\<close> of a field that is a string or absent.\<close>

definition text_field_bytes :: "string \<Rightarrow> json_map \<Rightarrow> nat" where
  "text_field_bytes key o' = (case map_of o' (lit key) of Some (JStr v) \<Rightarrow> str_len v | _ \<Rightarrow> 0)"

definition optional_bytes :: "str option \<Rightarrow> nat" where
  "optional_bytes v = (case v of None \<Rightarrow> 0 | Some t \<Rightarrow> str_len t)"

definition preflight_size :: "uuid_lib \<Rightarrow> db \<Rightarrow> message_row \<Rightarrow> nat" where
  "preflight_size U s m =
     (case Option.bind (find (\<lambda>h. h_message h = m_id m) (histories s)) h_content of
        None \<Rightarrow> optional_bytes (m_text m) + optional_bytes (m_transcript m)
      | Some c \<Rightarrow> text_field_bytes ''text'' (message_create_json U c) +
                  text_field_bytes ''voice_transcript'' (message_create_json U c))"

fun preflight_sizes :: "nat list \<Rightarrow> nat \<Rightarrow> nat \<Rightarrow> unit app_result" where
  "preflight_sizes [] bytes_total largest = Inr ()"
| "preflight_sizes (b # bs) bytes_total largest =
     bind_ok (check_expansion_budget (saturating_add bytes_total b) (max largest b)) (\<lambda>_.
       preflight_sizes bs (saturating_add bytes_total b) (max largest b))"

definition preflight_bundle_expansion :: "uuid_lib \<Rightarrow> uuid list \<Rightarrow> db \<Rightarrow> unit app_result" where
  "preflight_bundle_expansion U ids s =
     preflight_sizes (map (preflight_size U s) (filter (\<lambda>m. m_id m \<in> set ids) (messages s))) 0 0"

section \<open>Loading a bundle\<close>

record bundle_detail =
  bd_id :: uuid
  bd_conversation :: uuid
  bd_original_ids :: "uuid list"
  bd_display :: message
  bd_created_by :: actor_ref
  bd_created_at :: instant
  bd_originals :: "message list"

fun expand_originals ::
  "store_lib \<Rightarrow> db \<Rightarrow> uuid list \<Rightarrow> nat \<Rightarrow> nat \<Rightarrow> message list \<Rightarrow> message list app_result" where
  "expand_originals L s [] bytes_total largest ms = Inr ms"
| "expand_originals L s (i # is) bytes_total largest ms =
     bind_ok (load_message L s i) (\<lambda>m.
     bind_ok (message_payload_bytes L m) (\<lambda>b.
     bind_ok (check_expansion_budget (saturating_add bytes_total b) (max largest b)) (\<lambda>_.
       expand_originals L s is (saturating_add bytes_total b) (max largest b) (ms @ [m]))))"

definition bundle_members :: "db \<Rightarrow> uuid \<Rightarrow> uuid list" where
  "bundle_members s i =
     map bi_message (sort_key bi_position (filter (\<lambda>x. bi_bundle x = i \<and> bi_role x = Member) (bundle_items s)))"

definition load_bundle ::
  "store_lib \<Rightarrow> uuid_lib \<Rightarrow> db \<Rightarrow> str \<Rightarrow> uuid \<Rightarrow> uuid \<Rightarrow> bool \<Rightarrow> bundle_detail app_result" where
  "load_bundle L U s part conversation i include_originals =
     (case (find (\<lambda>b. b_id b = i \<and> b_partition b = part \<and> b_conversation b = conversation) (bundles s),
            find (\<lambda>x. bi_bundle x = i \<and> bi_role x = Display) (bundle_items s)) of
        (Some b, Some d) \<Rightarrow>
          let ids = bundle_members s i in
          bind_ok (if include_originals then preflight_bundle_expansion U (ids @ [bi_message d]) s else Inr ()) (\<lambda>_.
          bind_ok (load_message L s (bi_message d)) (\<lambda>display.
          bind_ok (if include_originals
                   then bind_ok (message_payload_bytes L display) (\<lambda>n. expand_originals L s ids n n [])
                   else Inr []) (\<lambda>originals.
          bind_ok (parse_actor_id (ar_id (b_creator b))) (\<lambda>creator.
            Inr \<lparr>bd_id = i, bd_conversation = b_conversation b, bd_original_ids = ids, bd_display = display,
                 bd_created_by = actor (ar_type (b_creator b)) creator, bd_created_at = b_created_at b,
                 bd_originals = originals\<rparr>))))
      | _ \<Rightarrow> Inl NotFound)"

definition get_bundle :: "store_lib \<Rightarrow> uuid_lib \<Rightarrow> db \<Rightarrow> actor_ref \<Rightarrow> uuid \<Rightarrow> uuid \<Rightarrow> bundle_detail app_result" where
  "get_bundle L U s viewer conversation i =
     bind_ok (require_reader s viewer conversation) (\<lambda>_.
     bind_ok (partition_of s conversation) (\<lambda>part. load_bundle L U s part conversation i True))"

section \<open>Creating a bundle\<close>

definition bundle_key :: "actor_ref \<Rightarrow> str \<Rightarrow> idem_key" where
  "bundle_key a key = (accounts_partition, a, ''bundles.create'', key)"

definition bundle_request_json :: "env \<Rightarrow> uuid \<Rightarrow> bundle_create \<Rightarrow> json" where
  "bundle_request_json E conversation b = JObj
     ([(lit ''conversation_id'', JStr (uuid_show (e_uuid E) conversation)),
       (lit ''message_ids'', JArr (map (\<lambda>i. JStr (uuid_show (e_uuid E) i)) (bc_message_ids b))),
       (lit ''display_content_hash'', JArr (map json_nat (content_digest (e_digest E) (e_uuid E) (bc_display_message b))))] @
      field_if ''routing_hash'' (\<lambda>h. JArr (map json_nat h)) (routing_digest (e_digest E) (e_uuid E) (bc_display_message b)))"

definition lock_bundle_members_in :: "str \<Rightarrow> uuid \<Rightarrow> uuid list \<Rightarrow> db \<Rightarrow> unit app_result" where
  "lock_bundle_members_in part conversation ids s =
     (let available = remdups (map m_id (filter (\<lambda>m. m_id m \<in> set ids \<and> m_conversation m = conversation \<and> m_partition m = part \<and>
            \<not> sql_exists (\<lambda>x. bi_message x = m_id m) (bundle_items s)) (messages s))) in
      if length available \<noteq> length ids \<or> list_ex (\<lambda>i. i \<notin> set available) ids
      then Inl (conflict ''one or more bundle messages are unavailable or already bundled'')
      else Inr ())"

text \<open>Trigger \<open>assign_bundle_sequence\<close>.\<close>

definition assign_bundle_sequence :: "uuid \<Rightarrow> str \<Rightarrow> db \<Rightarrow> (int \<times> db) app_result" where
  "assign_bundle_sequence conversation part s =
     (let p = (\<lambda>c. c_id c = conversation \<and> c_partition c = part) in
      case find p (conversations s) of
        None \<Rightarrow> Inl NotFound
      | Some c \<Rightarrow>
          if \<not> is_i64 (c_next_bundle c + 1) then Inl (Database ''bigint out of range'')
          else Inr (c_next_bundle c,
                 s\<lparr>conversations := sql_update p (\<lambda>c. c\<lparr>c_next_bundle := c_next_bundle c + 1\<rparr>) (conversations s)\<rparr>))"

definition insert_bundle_in :: "env \<Rightarrow> uuid \<Rightarrow> uuid \<Rightarrow> str \<Rightarrow> actor_ref \<Rightarrow> db \<Rightarrow> db app_result" where
  "insert_bundle_in E i conversation part creator s =
     bind_ok (assign_bundle_sequence conversation part s) (\<lambda>(n, s').
     bind_ok (insert_row b_id \<lparr>b_id = i, b_conversation = conversation, b_partition = part, b_creator = creator,
         b_sequence = n, b_created_at = e_now E\<rparr> (bundles s')) (\<lambda>bs. Inr (s'\<lparr>bundles := bs\<rparr>)))"

text \<open>The constraints of \<open>message_bundle_items\<close>: a message is in one bundle, a bundle has one display and one
  member per position, and an item refers to a message of the conversation.\<close>

definition item_position_ok :: "bundle_role \<Rightarrow> int \<Rightarrow> bool" where
  "item_position_ok role position = (case role of Display \<Rightarrow> position = 0 | Member \<Rightarrow> 1 \<le> position \<and> position \<le> 100)"

definition insert_bundle_item_in ::
  "uuid \<Rightarrow> uuid \<Rightarrow> str \<Rightarrow> uuid \<Rightarrow> bundle_role \<Rightarrow> int \<Rightarrow> db \<Rightarrow> db app_result" where
  "insert_bundle_item_in i conversation part message role position s =
     (if \<not> item_position_ok role position then Inl durable_invariant_error
      else if sql_exists (\<lambda>x. bi_message x = message \<or>
             (bi_bundle x = i \<and> bi_role x = role \<and> (role = Display \<or> bi_position x = position))) (bundle_items s)
      then Inl (conflict ''resource already exists'')
      else if \<not> sql_exists (\<lambda>m. m_id m = message \<and> m_conversation m = conversation \<and> m_partition m = part) (messages s)
      then Inl NotFound
      else Inr (s\<lparr>bundle_items := bundle_items s @
        [\<lparr>bi_bundle = i, bi_message = message, bi_role = role, bi_position = position\<rparr>]\<rparr>))"

definition insert_member_in :: "uuid \<Rightarrow> uuid \<Rightarrow> str \<Rightarrow> nat \<times> uuid \<Rightarrow> db \<Rightarrow> db app_result" where
  "insert_member_in i conversation part = (\<lambda>(index, message) s.
     if int (index + 1) > i16_max then Inl (validation ''bundle member position exceeds supported range'')
     else insert_bundle_item_in i conversation part message Member (int (index + 1)) s)"

text \<open>\<open>assert_bundle_shape\<close>, checked when the transaction commits.\<close>

definition items_of :: "db \<Rightarrow> uuid \<Rightarrow> bundle_role \<Rightarrow> bundle_item_row list" where
  "items_of s i role = filter (\<lambda>x. bi_bundle x = i \<and> bi_role x = role) (bundle_items s)"

definition assert_bundle_shape :: "db \<Rightarrow> bundle_row \<Rightarrow> bool" where
  "assert_bundle_shape s b \<longleftrightarrow>
     length (items_of s (b_id b) Display) = 1 \<and>
     1 \<le> length (items_of s (b_id b) Member) \<and> length (items_of s (b_id b) Member) \<le> 100 \<and>
     list_all (\<lambda>d. list_all (\<lambda>m. m_id m = bi_message d \<longrightarrow> m_sender m = b_creator b \<and>
         list_all (\<lambda>x. list_all (\<lambda>n. m_id n = bi_message x \<longrightarrow> m_sequence n < m_sequence m) (messages s))
           (items_of s (b_id b) Member)) (messages s)) (items_of s (b_id b) Display)"

definition later :: "env \<Rightarrow> env" where
  "later E = E\<lparr>e_fresh := \<lambda>n. e_fresh E (Suc n)\<rparr>"

definition add_bundle ::
  "env \<Rightarrow> str \<Rightarrow> uuid \<Rightarrow> actor_ref \<Rightarrow> bundle_create \<Rightarrow> db \<Rightarrow> (uuid \<times> db) app_result" where
  "add_bundle E part conversation creator b s =
     bind_ok (lock_bundle_members_in part conversation (bc_message_ids b) s) (\<lambda>_.
     bind_ok (insert_message_in E part conversation creator (bc_display_message b)
                (content_digest (e_digest E) (e_uuid E) (bc_display_message b)) None s) (\<lambda>(display, s1).
     let i = e_fresh E 1 in
     bind_ok (insert_bundle_in E i conversation part creator s1) (\<lambda>s2.
     bind_ok (insert_bundle_item_in i conversation part display Display 0 s2) (\<lambda>s3.
     bind_ok (fold_result (insert_member_in i conversation part) (enumerate 0 (bc_message_ids b)) s3) (\<lambda>s4.
     bind_ok (enqueue_message_deliveries_in (later E) None part conversation display s4) (\<lambda>s5.
       Inr (i, s5)))))))"

definition create_bundle_in ::
  "env \<Rightarrow> uuid \<Rightarrow> actor_ref \<Rightarrow> bundle_create \<Rightarrow> str \<Rightarrow> db \<Rightarrow> ((uuid \<times> str) \<times> db) app_result" where
  "create_bundle_in E conversation creator b key s =
     (if ar_type creator \<noteq> Silicon then Inl Forbidden
      else
        bind_ok (case bundle_validate (e_uuid E) b of Inl e \<Rightarrow> Inl (validation e) | Inr _ \<Rightarrow> Inr ()) (\<lambda>_.
        if is_some_and (\<lambda>i. \<not> addresses (e_uuid E) i creator) (mc_sender_id (bc_display_message b)) then Inl Forbidden
        else
          bind_ok (request_hash (e_digest E) (bundle_request_json E conversation b)) (\<lambda>h.
          bind_ok (require_participant s creator conversation) (\<lambda>part.
          bind_ok (claim_db (e_now E) (e_lease E) (bundle_key creator key) h
                     (refresh_directory_in (e_now E) accounts_partition [creator] s)) (\<lambda>(c, s1).
          case c of
            Replay i \<Rightarrow> Inr ((i, part), s1)
          | Acquired \<Rightarrow>
              bind_ok (add_bundle E part conversation creator b s1) (\<lambda>(i, s2).
              bind_ok (complete_db (bundle_key creator key) ''bundle'' i 201 s2) (\<lambda>s3.
                if list_all (\<lambda>x. b_id x = i \<longrightarrow> assert_bundle_shape s3 x) (bundles s3)
                then Inr ((i, part), s3)
                else Inl durable_invariant_error)))))))"

record message_bundle =
  bu_id :: uuid
  bu_conversation :: uuid
  bu_original_ids :: "uuid list"
  bu_display :: message
  bu_created_by :: actor_ref
  bu_created_at :: instant

definition create_bundle ::
  "store_lib \<Rightarrow> env \<Rightarrow> uuid \<Rightarrow> actor_ref \<Rightarrow> bundle_create \<Rightarrow> str \<Rightarrow> db \<Rightarrow> (message_bundle app_result \<times> db) app_result" where
  "create_bundle L E conversation creator b key s =
     bind_ok (create_bundle_in E conversation creator b key s) (\<lambda>((i, part), s').
       Inr (bind_ok (load_bundle L (e_uuid E) s' part conversation i False) (\<lambda>d.
         Inr \<lparr>bu_id = bd_id d, bu_conversation = bd_conversation d, bu_original_ids = bd_original_ids d,
              bu_display = bd_display d, bu_created_by = bd_created_by d, bu_created_at = bd_created_at d\<rparr>), s'))"

section \<open>Bundles are flat and leave their originals alone\<close>

definition bundles_ok :: "db \<Rightarrow> bool" where
  "bundles_ok s \<longleftrightarrow> keyed b_id (bundles s) \<and> keyed bi_message (bundle_items s) \<and>
     (\<forall>x\<in>set (bundle_items s). \<exists>b\<in>set (bundles s). b_id b = bi_bundle x \<and>
        (\<exists>m\<in>set (messages s). m_id m = bi_message x \<and> m_conversation m = b_conversation b)) \<and>
     (\<forall>b\<in>set (bundles s). assert_bundle_shape s b \<and> ar_type (b_creator b) = Silicon \<and>
        b_conversation b \<in> c_id ` set (conversations s)) \<and>
     (\<forall>c\<in>set (conversations s). 1 \<le> c_next_bundle c \<and>
        map b_sequence (filter (\<lambda>b. b_conversation b = c_id c) (bundles s)) = [1..c_next_bundle c - 1])"

definition member_item :: "uuid \<Rightarrow> nat \<times> uuid \<Rightarrow> bundle_item_row" where
  "member_item i = (\<lambda>(p, m). \<lparr>bi_bundle = i, bi_message = m, bi_role = Member, bi_position = int (p + 1)\<rparr>)"

lemma insert_member_one:
  assumes "insert_member_in i k part (n, j) s = Inr s'"
  shows "s' = s\<lparr>bundle_items := bundle_items s @ [member_item i (n, j)]\<rparr>"
    "\<exists>m\<in>set (messages s). m_id m = j \<and> m_conversation m = k" "\<forall>x\<in>set (bundle_items s). bi_message x \<noteq> j"
  using assms
  by (auto simp: insert_member_in_def insert_bundle_item_in_def member_item_def sql_exists_def split: if_splits)

lemma insert_members:
  assumes "fold_result (insert_member_in i k part) (enumerate n ids) s = Inr s'"
  shows "s' = s\<lparr>bundle_items := bundle_items s @ map (member_item i) (enumerate n ids)\<rparr> \<and>
    (\<forall>j\<in>set ids. (\<exists>m\<in>set (messages s). m_id m = j \<and> m_conversation m = k) \<and> (\<forall>x\<in>set (bundle_items s). bi_message x \<noteq> j))"
  using assms
proof (induction ids arbitrary: n s)
  case (Cons j ids)
  from Cons.prems obtain s1 where s1: "insert_member_in i k part (n, j) s = Inr s1"
    "fold_result (insert_member_in i k part) (enumerate (Suc n) ids) s1 = Inr s'" by auto
  from Cons.IH [OF s1(2)] insert_member_one [OF s1(1)] show ?case by simp
qed simp

lemma add_bundleE:
  assumes "add_bundle E part k creator b s = Inr (i, s')"
  obtains display s1 c s4 where
    "insert_message_in E part k creator (bc_display_message b)
       (content_digest (e_digest E) (e_uuid E) (bc_display_message b)) None s = Inr (display, s1)"
    "i = e_fresh E 1" "c \<in> set (conversations s1)" "c_id c = k" "c_partition c = part"
    "\<forall>x\<in>set (bundles s1). b_id x \<noteq> i"
    "s4 = s1\<lparr>conversations := sql_update (\<lambda>c. c_id c = k \<and> c_partition c = part) (\<lambda>c. c\<lparr>c_next_bundle := c_next_bundle c + 1\<rparr>) (conversations s1),
       bundles := bundles s1 @ [\<lparr>b_id = i, b_conversation = k, b_partition = part, b_creator = creator,
         b_sequence = c_next_bundle c, b_created_at = e_now E\<rparr>],
       bundle_items := bundle_items s1 @ \<lparr>bi_bundle = i, bi_message = display, bi_role = Display, bi_position = 0\<rparr> #
         map (member_item i) (enumerate 0 (bc_message_ids b))\<rparr>"
    "\<forall>x\<in>set (bundle_items s1). bi_message x \<noteq> display"
    "\<forall>j\<in>set (bc_message_ids b). j \<noteq> display \<and> (\<exists>m\<in>set (messages s1). m_id m = j \<and> m_conversation m = k) \<and>
       (\<forall>x\<in>set (bundle_items s1). bi_message x \<noteq> j)"
    "fold_result (enqueue_one (later E) None part k display) (enumerate 1 (participant_records_in k s4)) s4 = Inr s'"
proof -
  let ?p = "\<lambda>c. c_id c = k \<and> c_partition c = part" and ?h = "content_digest (e_digest E) (e_uuid E) (bc_display_message b)"
  obtain display s1 s2 s3 s4 where ins: "insert_message_in E part k creator (bc_display_message b) ?h None s = Inr (display, s1)"
    and i: "i = e_fresh E 1" and s2: "insert_bundle_in E i k part creator s1 = Inr s2"
    and s3: "insert_bundle_item_in i k part display Display 0 s2 = Inr s3"
    and s4: "fold_result (insert_member_in i k part) (enumerate 0 (bc_message_ids b)) s3 = Inr s4"
    and enq: "fold_result (enqueue_one (later E) None part k display) (enumerate 1 (participant_records_in k s4)) s4 = Inr s'"
    using assms by (auto simp: add_bundle_def Let_def enqueue_message_deliveries_in_def)
  from s2 obtain c where c: "find ?p (conversations s1) = Some c" "\<forall>x\<in>set (bundles s1). b_id x \<noteq> i"
    and s2': "s2 = s1\<lparr>conversations := sql_update ?p (\<lambda>c. c\<lparr>c_next_bundle := c_next_bundle c + 1\<rparr>) (conversations s1),
       bundles := bundles s1 @ [\<lparr>b_id = i, b_conversation = k, b_partition = part, b_creator = creator,
         b_sequence = c_next_bundle c, b_created_at = e_now E\<rparr>]\<rparr>"
    by (auto simp: insert_bundle_in_def assign_bundle_sequence_def Let_def sql_exists_def split: option.splits if_splits)
  from s3 have s3': "s3 = s2\<lparr>bundle_items := bundle_items s2 @ [\<lparr>bi_bundle = i, bi_message = display, bi_role = Display, bi_position = 0\<rparr>]\<rparr>"
    "\<forall>x\<in>set (bundle_items s2). bi_message x \<noteq> display"
    by (auto simp: insert_bundle_item_in_def sql_exists_def split: if_splits)
  note mem = insert_members [OF s4]
  show ?thesis
    by (rule that [OF ins i _ _ _ c(2) _ _ _ enq]) (use find_Some_in [OF c(1)] mem s3' s2' in auto)
qed

lemma member_items [simp]:
  "bi_bundle (member_item i x) = i" "bi_role (member_item i x) = Member" "bi_message (member_item i x) = snd x"
  "bi_position (member_item i x) = int (Suc (fst x))"
  by (simp_all add: member_item_def split: prod.splits)

lemma enumerate_members: "(p, j) \<in> set (enumerate n ids) \<Longrightarrow> j \<in> set ids"
  by (auto simp: enumerate_eq_zip dest: set_zip_rightD)

lemma members_in_order:
  "map bi_message (sort_key bi_position (map (member_item i) (enumerate 0 ids))) = ids"
proof -
  have "map bi_position (map (member_item i) (enumerate 0 ids)) = map (\<lambda>p. int (Suc p)) (map fst (enumerate 0 ids))"
    by (simp only: map_map comp_def member_items)
  also have "sorted \<dots>" by (simp add: sorted_iff_nth_mono)
  finally have "sort_key bi_position (map (member_item i) (enumerate 0 ids)) = map (member_item i) (enumerate 0 ids)"
    by (rule sort_key_id_if_sorted)
  then show ?thesis by (simp add: comp_def)
qed

lemma shape_keeps:
  assumes "assert_bundle_shape s b" "\<And>r. items_of s' (b_id b) r = items_of s (b_id b) r"
    and "messages s' = messages s @ [m]" "\<And>x. x \<in> set (bundle_items s) \<Longrightarrow> bi_message x \<noteq> m_id m"
  shows "assert_bundle_shape s' b"
proof -
  have "bi_message x \<noteq> m_id m" if "x \<in> set (items_of s (b_id b) r)" for x r
    using that assms(4) by (simp add: items_of_def)
  then show ?thesis using assms(1-3) by (fastforce simp: assert_bundle_shape_def list_all_iff)
qed

text \<open>The tables before and after a bundle is added.\<close>

definition adds_bundle :: "uuid list \<Rightarrow> bundle_row \<Rightarrow> message_row \<Rightarrow> conversation_row \<Rightarrow> db \<Rightarrow> db \<Rightarrow> bool" where
  "adds_bundle ids x m c s s' \<longleftrightarrow>
     bundles s' = bundles s @ [x] \<and> messages s' = messages s @ [m] \<and>
     bundle_items s' = bundle_items s @ \<lparr>bi_bundle = b_id x, bi_message = m_id m, bi_role = Display, bi_position = 0\<rparr> #
       map (member_item (b_id x)) (enumerate 0 ids) \<and>
     map (\<lambda>d. (c_id d, c_next_bundle d)) (conversations s') =
       map (\<lambda>d. (c_id d, if c_id d = c_id c then c_next_bundle d + 1 else c_next_bundle d)) (conversations s) \<and>
     c \<in> set (conversations s) \<and> b_conversation x = c_id c \<and> b_sequence x = c_next_bundle c \<and> ar_type (b_creator x) = Silicon \<and>
     m_conversation m = c_id c \<and> m_sequence m = c_next_sequence c \<and> m_sender m = b_creator x \<and>
     (\<forall>y\<in>set (bundles s). b_id y \<noteq> b_id x) \<and> (\<forall>y\<in>set (messages s). m_id y \<noteq> m_id m) \<and>
     distinct ids \<and> 1 \<le> length ids \<and> length ids \<le> 100 \<and>
     (\<forall>j\<in>set ids. (\<exists>y\<in>set (messages s). m_id y = j \<and> m_conversation y = c_id c) \<and> (\<forall>y\<in>set (bundle_items s). bi_message y \<noteq> j))"

lemma adds_bundle_items:
  assumes "bundles_ok s" "adds_bundle ids x m c s s'"
  shows "items_of s' j r = (if j = b_id x then (case r of Display \<Rightarrow> [\<lparr>bi_bundle = b_id x, bi_message = m_id m, bi_role = Display, bi_position = 0\<rparr>]
      | Member \<Rightarrow> map (member_item (b_id x)) (enumerate 0 ids)) else items_of s j r)"
proof -
  have stale: "bi_bundle y \<noteq> b_id x" if "y \<in> set (bundle_items s)" for y
    using that assms by (auto simp: bundles_ok_def adds_bundle_def)
  have "bundle_items s' = bundle_items s @ \<lparr>bi_bundle = b_id x, bi_message = m_id m, bi_role = Display, bi_position = 0\<rparr> #
       map (member_item (b_id x)) (enumerate 0 ids)" using assms(2) by (simp add: adds_bundle_def)
  then show ?thesis using stale
    by (auto simp: items_of_def filter_empty_conv split: bundle_role.splits intro!: filter_True)
qed

lemma adds_bundle_shape:
  assumes ok: "bundles_ok s" "sequences_ok s" and add: "adds_bundle ids x m c s s'"
  shows "assert_bundle_shape s' x"
proof -
  note items = adds_bundle_items [OF ok(1) add, of "b_id x"]
  have ms: "messages s' = messages s @ [m]" "\<forall>y\<in>set (messages s). m_id y \<noteq> m_id m" "m_sender m = b_creator x" "m_sequence m = c_next_sequence c"
    "c \<in> set (conversations s)" "1 \<le> length ids" "length ids \<le> 100" using add by (simp_all add: adds_bundle_def)
  have "m_sequence n < m_sequence m" if n: "n \<in> set (messages s')" "m_id n \<in> set ids" for n
  proof -
    obtain y where y: "y \<in> set (messages s)" "m_id y = m_id n" "m_conversation y = c_id c"
      using add n(2) unfolding adds_bundle_def by blast
    have "keyed m_id (messages s)" using ok(2) by (simp add: sequences_ok_def)
    moreover have "n \<in> set (messages s)" using n(1) y ms by auto
    ultimately have "n = y" using y by (auto intro: keyed_unique)
    then have "m_sequence n \<in> set (map m_sequence (filter (\<lambda>m. m_conversation m = c_id c) (messages s)))" using y by auto
    also have "\<dots> = {1..c_next_sequence c - 1}" using ok(2) ms(5) by (auto simp: sequences_ok_def)
    finally show ?thesis using ms(4) by simp
  qed
  moreover have "m_id m \<notin> set ids" using add ms(2) unfolding adds_bundle_def by blast
  ultimately show ?thesis using ms(2,3,6,7) by (auto simp: assert_bundle_shape_def items list_all_iff ms(1) dest: enumerate_members)
qed

lemma adds_bundle_ok:
  assumes ok: "bundles_ok s" "sequences_ok s" and add: "adds_bundle ids x m c s s'"
  shows "bundles_ok s'"
proof -
  have bs: "bundles s' = bundles s @ [x]" and ms: "messages s' = messages s @ [m]"
    and its: "bundle_items s' = bundle_items s @ \<lparr>bi_bundle = b_id x, bi_message = m_id m, bi_role = Display, bi_position = 0\<rparr> #
       map (member_item (b_id x)) (enumerate 0 ids)"
    and cs: "map (\<lambda>d. (c_id d, c_next_bundle d)) (conversations s') =
       map (\<lambda>d. (c_id d, if c_id d = c_id c then c_next_bundle d + 1 else c_next_bundle d)) (conversations s)"
    and c: "c \<in> set (conversations s)" "b_conversation x = c_id c" "b_sequence x = c_next_bundle c" "ar_type (b_creator x) = Silicon"
      "m_conversation m = c_id c"
    and new: "\<forall>y\<in>set (bundles s). b_id y \<noteq> b_id x" "\<forall>y\<in>set (messages s). m_id y \<noteq> m_id m" "distinct ids"
    and mem: "\<forall>j\<in>set ids. (\<exists>y\<in>set (messages s). m_id y = j \<and> m_conversation y = c_id c) \<and> (\<forall>y\<in>set (bundle_items s). bi_message y \<noteq> j)"
    using add by (simp_all add: adds_bundle_def)
  have fresh: "bi_message y \<noteq> m_id m" if "y \<in> set (bundle_items s)" for y
    using that ok(1) new(2) unfolding bundles_ok_def by metis
  have "keyed b_id (bundles s')"
    using ok(1) new(1) by (auto simp: bs bundles_ok_def sql_exists_def intro!: keyed_append_new)
  moreover have "map bi_message (bundle_items s') = map bi_message (bundle_items s) @ m_id m # ids"
    by (simp add: its comp_def)
  then have "keyed bi_message (bundle_items s')"
    using ok(1) fresh mem new by (fastforce simp: keyed_def bundles_ok_def)
  moreover have "\<exists>b\<in>set (bundles s'). b_id b = bi_bundle y \<and> (\<exists>m\<in>set (messages s'). m_id m = bi_message y \<and> m_conversation m = b_conversation b)"
    if "y \<in> set (bundle_items s')" for y
  proof -
    from that consider "y \<in> set (bundle_items s)" | "bi_bundle y = b_id x" "bi_message y = m_id m" | "bi_bundle y = b_id x" "bi_message y \<in> set ids"
      by (auto simp: its dest: enumerate_members)
    then show ?thesis
    proof cases
      case 1
      with ok(1) show ?thesis unfolding bundles_ok_def bs ms by fastforce
    next
      case 2
      with c show ?thesis by (simp add: bs ms)
    next
      case 3
      with mem c(2) show ?thesis unfolding bs ms by fastforce
    qed
  qed
  moreover have ids: "c_id ` set (conversations s') = c_id ` set (conversations s)"
    using arg_cong [OF cs, of "\<lambda>xs. fst ` set xs"] by (simp add: image_image)
  have "assert_bundle_shape s' b \<and> ar_type (b_creator b) = Silicon \<and> b_conversation b \<in> c_id ` set (conversations s')"
    if b: "b \<in> set (bundles s')" for b
  proof (cases "b = x")
    case True
    with adds_bundle_shape [OF ok add] c show ?thesis by (simp add: ids)
  next
    case False
    then have b: "b \<in> set (bundles s)" "b_id b \<noteq> b_id x" using b new(1) by (auto simp: bs)
    have "assert_bundle_shape s b" using ok(1) b(1) by (simp add: bundles_ok_def)
    then have "assert_bundle_shape s' b"
      by (rule shape_keeps [OF _ _ ms fresh]) (simp_all add: adds_bundle_items [OF ok(1) add] b(2))
    with ok(1) b(1) show ?thesis by (simp add: ids bundles_ok_def)
  qed
  moreover have "1 \<le> c_next_bundle d \<and> map b_sequence (filter (\<lambda>b. b_conversation b = c_id d) (bundles s')) = [1..c_next_bundle d - 1]"
    if d: "d \<in> set (conversations s')" for d
  proof -
    have "(c_id d, c_next_bundle d) \<in> set (map (\<lambda>d. (c_id d, c_next_bundle d)) (conversations s'))" using d by simp
    then obtain e where e: "e \<in> set (conversations s)" "c_id d = c_id e"
      "c_next_bundle d = (if c_id e = c_id c then c_next_bundle e + 1 else c_next_bundle e)" unfolding cs by auto
    have "1 \<le> c_next_bundle e" "map b_sequence (filter (\<lambda>b. b_conversation b = c_id e) (bundles s)) = [1..c_next_bundle e - 1]"
      using ok(1) e(1) by (simp_all add: bundles_ok_def)
    moreover have "c_id e = c_id c \<Longrightarrow> e = c" using ok(2) e(1) c(1) by (auto simp: sequences_ok_def intro: keyed_unique)
    ultimately show ?thesis using upto_rec2 [of 1 "c_next_bundle e"] c(2,3) e(2,3) by (auto simp: bs)
  qed
  ultimately show ?thesis by (simp add: bundles_ok_def)
qed

lemma add_bundle_effect:
  assumes ok: "messaging_ok s" "bundles_ok s" and run: "add_bundle E part k creator b s = Inr (i, s')"
    and ids: "distinct (bc_message_ids b)" "1 \<le> length (bc_message_ids b)" "length (bc_message_ids b) \<le> 100"
    and silicon: "ar_type creator = Silicon"
  shows "messaging_ok s'" "bundles_ok s'" "\<exists>x\<in>set (bundles s'). b_id x = i \<and> b_conversation x = k \<and> b_partition x = part \<and> b_creator x = creator"
    "\<And>j. bundle_members s' j = (if j = i then bc_message_ids b else bundle_members s j)"
    "\<exists>m. messages s' = messages s @ [m] \<and> m_sender m = creator \<and> m_conversation m = k \<and> m_text m = mc_text (bc_display_message b)"
    "\<exists>ds. deliveries s' = deliveries s @ ds \<and> map d_target ds = participant_records_in k s" "same_membership s' s"
    "idempotency s' = idempotency s"
proof -
  let ?h = "content_digest (e_digest E) (e_uuid E) (bc_display_message b)"
  obtain display s1 c s4 where
    ins: "insert_message_in E part k creator (bc_display_message b) ?h None s = Inr (display, s1)"
    and c: "c \<in> set (conversations s1)" "c_id c = k" "c_partition c = part" and new: "\<forall>x\<in>set (bundles s1). b_id x \<noteq> i"
    and s4: "s4 = s1\<lparr>conversations := sql_update (\<lambda>c. c_id c = k \<and> c_partition c = part) (\<lambda>c. c\<lparr>c_next_bundle := c_next_bundle c + 1\<rparr>) (conversations s1),
       bundles := bundles s1 @ [\<lparr>b_id = i, b_conversation = k, b_partition = part, b_creator = creator,
         b_sequence = c_next_bundle c, b_created_at = e_now E\<rparr>],
       bundle_items := bundle_items s1 @ \<lparr>bi_bundle = i, bi_message = display, bi_role = Display, bi_position = 0\<rparr> #
         map (member_item i) (enumerate 0 (bc_message_ids b))\<rparr>"
    and disp: "\<forall>x\<in>set (bundle_items s1). bi_message x \<noteq> display"
    and mem: "\<forall>j\<in>set (bc_message_ids b). j \<noteq> display \<and> (\<exists>m\<in>set (messages s1). m_id m = j \<and> m_conversation m = k) \<and>
       (\<forall>x\<in>set (bundle_items s1). bi_message x \<noteq> j)"
    and enq: "fold_result (enqueue_one (later E) None part k display) (enumerate 1 (participant_records_in k s4)) s4 = Inr s'"
    using run by (rule add_bundleE)
  have mid: "same_membership s4 s1" "map c_next_sequence (conversations s4) = map c_next_sequence (conversations s1)"
    "messages s4 = messages s1" "streams s4 = streams s1" "deliveries s4 = deliveries s1" "idempotency s4 = idempotency s1"
    by (auto simp: s4 same_membership_def sql_update_def membership_row_def)
  note fan = new_message_fan_out [OF ok(1) ins mid(1-5) enq] and fr = but_outboxD [OF sending.frame [OF enq]]
    and same = insert_message_membership [OF ins]
  show "messaging_ok s'" "same_membership s' s" using fan by simp_all
  show "\<exists>ds. deliveries s' = deliveries s @ ds \<and> map d_target ds = participant_records_in k s" using fan(4) by blast
  show "idempotency s' = idempotency s" using fr mid same by simp
  obtain c0 where c0: "c0 \<in> set (conversations s)" "c_id c0 = k" "display = e_fresh E 0" "\<forall>x\<in>set (messages s). m_id x \<noteq> display"
    and ms: "messages s' = messages s @ [new_message E part k creator (bc_display_message b) ?h None (c_next_sequence c0)]"
    using fan(3) by blast
  let ?m = "new_message E part k creator (bc_display_message b) ?h None (c_next_sequence c0)"
  have m: "m_id ?m = display" "m_sender ?m = creator" "m_conversation ?m = k" "m_text ?m = mc_text (bc_display_message b)"
    "m_sequence ?m = c_next_sequence c0" using c0(3) by (simp_all add: new_message_def)
  with ms show "\<exists>m. messages s' = messages s @ [m] \<and> m_sender m = creator \<and> m_conversation m = k \<and> m_text m = mc_text (bc_display_message b)"
    by blast
  have old: "bundles s1 = bundles s" "bundle_items s1 = bundle_items s"
    "map (\<lambda>c. (c_id c, c_next_bundle c)) (conversations s1) = map (\<lambda>c. (c_id c, c_next_bundle c)) (conversations s)"
    using ins by (auto elim!: insert_message_inE simp: sql_update_def)
  show "\<exists>x\<in>set (bundles s'). b_id x = i \<and> b_conversation x = k \<and> b_partition x = part \<and> b_creator x = creator"
    by (simp add: fr s4)
  have oc: "c_id d = c_id e \<Longrightarrow> d \<in> set (conversations s) \<Longrightarrow> e \<in> set (conversations s) \<Longrightarrow> d = e" for d e
    using messaging_okD(1) [OF ok(1)] by (auto simp: sequences_ok_def intro: keyed_unique)
  have "(c_id c, c_next_bundle c) \<in> set (map (\<lambda>c. (c_id c, c_next_bundle c)) (conversations s))" using c(1) by (simp flip: old(3))
  with c(2) c0(1,2) oc have nb: "c_next_bundle c = c_next_bundle c0" by fastforce
  let ?x = "\<lparr>b_id = i, b_conversation = k, b_partition = part, b_creator = creator, b_sequence = c_next_bundle c, b_created_at = e_now E\<rparr>"
  have "sequences_ok s1" by (rule sequences_insert_message [OF messaging_okD(1) [OF ok(1)] ins])
  then have uniq: "d = c" if "d \<in> set (conversations s1)" "c_id d = k" for d
    using that c(1,2) by (auto simp: sequences_ok_def intro: keyed_unique)
  have "map (\<lambda>d. (c_id d, c_next_bundle d)) (conversations s') =
      map (\<lambda>(i, n). (i, if i = k then n + 1 else n)) (map (\<lambda>d. (c_id d, c_next_bundle d)) (conversations s1))"
    using c(3) by (auto simp: fr s4 sql_update_def dest: uniq)
  also have "\<dots> = map (\<lambda>d. (c_id d, if c_id d = k then c_next_bundle d + 1 else c_next_bundle d)) (conversations s)"
    unfolding old(3) by simp
  finally have "map (\<lambda>d. (c_id d, c_next_bundle d)) (conversations s') =
      map (\<lambda>d. (c_id d, if c_id d = k then c_next_bundle d + 1 else c_next_bundle d)) (conversations s)" .
  then have add: "adds_bundle (bc_message_ids b) ?x ?m c0 s s'"
    using c0 ids silicon new mem ms m by (auto simp: adds_bundle_def fr s4 old nb)
  show "bundles_ok s'" by (rule adds_bundle_ok [OF ok(2) messaging_okD(1) [OF ok(1)] add])
  show "bundle_members s' j = (if j = i then bc_message_ids b else bundle_members s j)" for j
    using adds_bundle_items [OF ok(2) add, of j Member] members_in_order by (auto simp: bundle_members_def items_of_def)
qed

lemma create_bundleE:
  assumes "create_bundle_in E k creator b key s = Inr ((i, part), s')"
    and "settled (idempotency s) (bundle_key creator key) = None"
  obtains s1 s2 t where "ar_type creator = Silicon" "bundle_validate (e_uuid E) b = Inr ()" "require_participant s creator k = Inr part"
    "same_membership s1 s" "messaging_ok s1 = messaging_ok s" "bundles_ok s1 = bundles_ok s" "messages s1 = messages s"
    "deliveries s1 = deliveries s" "bundle_items s1 = bundle_items s"
    "add_bundle E part k creator b s1 = Inr (i, s2)" "s' = s2\<lparr>idempotency := t\<rparr>"
proof -
  obtain h c s1 part' where pre: "ar_type creator = Silicon" "bundle_validate (e_uuid E) b = Inr ()" "require_participant s creator k = Inr part'"
    and cl: "claim_db (e_now E) (e_lease E) (bundle_key creator key) h (refresh_directory_in (e_now E) accounts_partition [creator] s) = Inr (c, s1)"
    and rest: "(case c of Replay i \<Rightarrow> Inr ((i, part'), s1) | Acquired \<Rightarrow>
        bind_ok (add_bundle E part' k creator b s1) (\<lambda>(i, s2). bind_ok (complete_db (bundle_key creator key) ''bundle'' i 201 s2) (\<lambda>s3.
          if list_all (\<lambda>x. b_id x = i \<longrightarrow> assert_bundle_shape s3 x) (bundles s3) then Inr ((i, part'), s3)
          else Inl durable_invariant_error))) = Inr ((i, part), s')"
    using assms(1) by (auto simp: create_bundle_in_def split: if_splits sum.splits)
  have "c = Acquired" by (rule claim_db_new [OF cl]) (simp add: assms(2))
  then obtain s2 where run: "add_bundle E part k creator b s1 = Inr (i, s2)" and part: "part' = part"
    and co: "complete_db (bundle_key creator key) ''bundle'' i 201 s2 = Inr s'" using rest by (auto split: if_splits)
  note pre = pre [unfolded part]
  obtain t where t: "s1 = refresh_directory_in (e_now E) accounts_partition [creator] s\<lparr>idempotency := t\<rparr>" using cl by (rule claim_dbD)
  obtain t' where t': "s' = s2\<lparr>idempotency := t'\<rparr>" using co by (rule complete_dbD)
  have fr: "bundles s1 = bundles s" "bundle_items s1 = bundle_items s" "messages s1 = messages s" "conversations s1 = conversations s"
    "deliveries s1 = deliveries s"
    by (simp_all add: t refresh_directory_in_def)
  then have "bundles_ok s1 = bundles_ok s" by (simp add: bundles_ok_def assert_bundle_shape_def items_of_def)
  with fr show ?thesis by (intro that [OF pre _ _ _ _ _ _ run t']) (simp_all add: t same_membership_def)
qed

lemma expand_originals_ids:
  "expand_originals L s ids t l ms = Inr ms' \<Longrightarrow> map msg_id ms' = map msg_id ms @ ids"
proof (induction ids arbitrary: t l ms)
  case (Cons i ids)
  then obtain m t' l' where "load_message L s i = Inr m" "expand_originals L s ids t' l' (ms @ [m]) = Inr ms'" by auto
  moreover from this(1) have "msg_id m = i" by (rule load_message_fields)
  ultimately show ?case using Cons.IH by fastforce
qed simp

lemma get_bundleE:
  assumes "get_bundle L U s viewer k i = Inr d"
  obtains n where "require_reader s viewer k = Inr ()" "message_payload_bytes L (bd_display d) = Inr n"
    "expand_originals L s (bundle_members s i) n n [] = Inr (bd_originals d)" "bd_original_ids d = bundle_members s i"
proof -
  obtain part where r: "require_reader s viewer k = Inr ()" and l: "load_bundle L U s part k i True = Inr d"
    using assms by (auto simp: get_bundle_def)
  show ?thesis
  proof (cases "find (\<lambda>b. b_id b = i \<and> b_partition b = part \<and> b_conversation b = k) (bundles s)")
    case None
    with l show ?thesis by (simp add: load_bundle_def)
  next
    case (Some b)
    with l show ?thesis
      by (cases "find (\<lambda>x. bi_bundle x = i \<and> bi_role x = Display) (bundle_items s)")
        (auto simp: load_bundle_def Let_def intro: that [OF r])
  qed
qed

lemma get_bundle_originals:
  assumes "get_bundle L U s viewer k i = Inr d"
  shows "map msg_id (bd_originals d) = bundle_members s i"
  using assms by (rule get_bundleE) (auto dest: expand_originals_ids)

text \<open>C20. A bundle hides nothing and changes nothing it bundles: only a Silicon that takes part creates one,
  each message is in at most one bundle, the display message comes after every original and is
  delivered to everyone, the originals and every other bundle are as they were, bundles are numbered
  without gaps, and expanding the bundle yields the originals in the order that was asked for.\<close>

theorem bundles_keep_originals:
  assumes "messaging_ok s" "bundles_ok s" "create_bundle_in E k creator b key s = Inr ((i, part), s')"
    and "settled (idempotency s) (bundle_key creator key) = None"
  shows "messaging_ok s' \<and> bundles_ok s' \<and> ar_type creator = Silicon \<and> is_participant s k creator \<and>
    bundle_members s' = (bundle_members s)(i := bc_message_ids b) \<and>
    (\<exists>m. messages s' = messages s @ [m] \<and> m_sender m = creator \<and> m_conversation m = k \<and>
       m_text m = mc_text (bc_display_message b)) \<and>
    (\<exists>ds. deliveries s' = deliveries s @ ds \<and> map d_target ds = participant_records_in k s) \<and>
    (\<forall>L U viewer d. get_bundle L U s' viewer k i = Inr d \<longrightarrow> map msg_id (bd_originals d) = bc_message_ids b)"
proof -
  obtain s1 s2 t where pre: "ar_type creator = Silicon" "bundle_validate (e_uuid E) b = Inr ()" "require_participant s creator k = Inr part"
    and fr: "same_membership s1 s" "messaging_ok s1 = messaging_ok s" "bundles_ok s1 = bundles_ok s" "messages s1 = messages s"
      "deliveries s1 = deliveries s" "bundle_items s1 = bundle_items s"
    and run: "add_bundle E part k creator b s1 = Inr (i, s2)" and s': "s' = s2\<lparr>idempotency := t\<rparr>"
    using assms(3,4) by (rule create_bundleE)
  have ids: "distinct (bc_message_ids b)" "1 \<le> length (bc_message_ids b)" "length (bc_message_ids b) \<le> 100"
    using pre(2) by (auto simp: bundle_validate_def card_distinct split: if_splits)
  have ok: "messaging_ok s1" "bundles_ok s1" using assms(1,2) fr by simp_all
  note eff = add_bundle_effect [OF ok run ids pre(1)]
  have same: "bundle_members s' = bundle_members s2" "bundle_members s1 = bundle_members s"
    by (simp_all add: s' fr bundle_members_def fun_eq_iff)
  have members: "bundle_members s' = (bundle_members s)(i := bc_message_ids b)"
    unfolding same(1) same(2) [symmetric] by (rule ext) (simp add: eff(4))
  moreover have "bundles_ok s' = bundles_ok s2" by (simp add: s' bundles_ok_def assert_bundle_shape_def items_of_def)
  ultimately show ?thesis
    using eff(1,2,5,6) fr pre(1) require_participantD(3) [OF pre(3)] participant_records_cong [OF fr(1)] get_bundle_originals
    by (auto simp: s')
qed

section \<open>An expansion is bounded\<close>

definition payload_of :: "store_lib \<Rightarrow> message \<Rightarrow> nat" where
  "payload_of L m = (case message_payload_bytes L m of Inl _ \<Rightarrow> 0 | Inr n \<Rightarrow> n)"

lemma expand_originals_budget:
  assumes "expand_originals L s ids t l ms = Inr ms'"
  shows "\<exists>new lg. ms' = ms @ new \<and> (lg = l \<or> lg \<in> payload_of L ` set new) \<and>
    (t + page_bytes (payload_of L) new \<le> usize_max \<longrightarrow> new = [] \<or> t + page_bytes (payload_of L) new \<le> bundle_response_byte_budget \<or>
       t + page_bytes (payload_of L) new - lg \<le> message_page_byte_budget)"
  using assms
proof (induction ids arbitrary: t l ms)
  case (Cons i ids)
  then obtain m b where m: "load_message L s i = Inr m" "message_payload_bytes L m = Inr b"
    and chk: "check_expansion_budget (saturating_add t b) (max l b) = Inr ()"
    and rest: "expand_originals L s ids (saturating_add t b) (max l b) (ms @ [m]) = Inr ms'" by auto
  have b: "payload_of L m = b" by (simp add: payload_of_def m(2))
  obtain new lg where new: "ms' = (ms @ [m]) @ new" "lg = max l b \<or> lg \<in> payload_of L ` set new"
    "saturating_add t b + page_bytes (payload_of L) new \<le> usize_max \<longrightarrow> new = [] \<or>
       saturating_add t b + page_bytes (payload_of L) new \<le> bundle_response_byte_budget \<or>
       saturating_add t b + page_bytes (payload_of L) new - lg \<le> message_page_byte_budget"
    using Cons.IH [OF rest] by blast
  let ?lg = "if new = [] then max l b else lg"
  have "?lg = l \<or> ?lg \<in> payload_of L ` set (m # new)" using new(2) b by (auto simp: max_def split: if_splits)
  moreover have "t + page_bytes (payload_of L) (m # new) \<le> bundle_response_byte_budget \<or>
       t + page_bytes (payload_of L) (m # new) - ?lg \<le> message_page_byte_budget"
    if "t + page_bytes (payload_of L) (m # new) \<le> usize_max"
  proof -
    have sat: "saturating_add t b = t + b" using that b by (simp add: saturating_add_def)
    show ?thesis using new(3) chk that b
      by (cases "new = []") (auto simp: sat check_expansion_budget_def add.assoc split: if_splits)
  qed
  ultimately show ?case using new(1) by (intro exI [of _ "m # new"] exI [of _ ?lg]) simp
qed simp

text \<open>C38. The expansion of a bundle is bounded: what is sent back, the display message and the originals
  together, is within 128 MiB, or all of it except one message is within the 16 MiB of a page.\<close>

theorem bundle_expansion_bounded:
  assumes "get_bundle L U s viewer k i = Inr d"
    and "page_bytes (payload_of L) (bd_display d # bd_originals d) \<le> usize_max"
  shows "page_bytes (payload_of L) (bd_display d # bd_originals d) \<le> bundle_response_byte_budget \<or>
    (\<exists>m\<in>set (bd_display d # bd_originals d).
       page_bytes (payload_of L) (bd_display d # bd_originals d) - payload_of L m \<le> message_page_byte_budget)"
proof -
  obtain n where n: "message_payload_bytes L (bd_display d) = Inr n"
    "expand_originals L s (bundle_members s i) n n [] = Inr (bd_originals d)"
    using assms(1) by (rule get_bundleE)
  have p: "payload_of L (bd_display d) = n" by (simp add: payload_of_def n(1))
  obtain new lg where "bd_originals d = [] @ new" "lg = n \<or> lg \<in> payload_of L ` set new"
    "n + page_bytes (payload_of L) new \<le> usize_max \<longrightarrow> new = [] \<or> n + page_bytes (payload_of L) new \<le> bundle_response_byte_budget \<or>
       n + page_bytes (payload_of L) new - lg \<le> message_page_byte_budget"
    using expand_originals_budget [OF n(2)] by blast
  then show ?thesis using assms(2) p by (auto simp: message_page_byte_budget_def)
qed

text \<open>The estimate that runs before an expansion never counts the text of an edited message: the edit is
  stored with the text under another name.\<close>

theorem edited_text_not_counted:
  "text_field_bytes ''text'' (message_create_json U c) = 0"
proof -
  have "map_of (message_create_json U c) (lit ''text'') = None"
    by (simp add: message_create_json_def map_of_field_if map_add_def lit_eq_iff)
  then show ?thesis by (simp add: text_field_bytes_def)
qed

text \<open>The estimate still counts the text of a deleted message, of which nothing is sent back.\<close>

theorem deleted_text_still_counted:
  assumes "find (\<lambda>h. h_message h = m_id r) (histories s) = Some h" "h_content h = None" "h_deleted_at h \<noteq> None"
    and "load_message L s (m_id r) = Inr m"
  shows "preflight_size U s r = optional_bytes (m_text r) + optional_bytes (m_transcript r) \<and>
    msg_text m = None \<and> msg_voice_transcript m = None"
proof -
  have "message_log s (m_id r) = (map fst (h_history h) @ [None], h_deleted_at h)"
    using assms(1,2) by (simp add: message_log_def)
  from load_message_log(3) [OF assms(4) this assms(3)] have m: "m = with_content empty_content m" .
  have "msg_text m = None" "msg_voice_transcript m = None" by (subst m, simp add: with_content_def empty_content_def)+
  with assms(1,2) show ?thesis by (simp add: preflight_size_def)
qed

text \<open>A Silicon bundles the message of the example.\<close>

abbreviation robo :: actor_ref where
  "robo \<equiv> actor Silicon (lit ''r2D'')"

abbreviation next_env :: env where
  "next_env \<equiv> test_env\<lparr>e_fresh := \<lambda>n. 300 + n\<rparr>"

definition robo_chat :: db where
  "robo_chat = chat_sent\<lparr>participants := [participant_of 0 1 ann, participant_of 0 1 robo], deliveries := [], streams := []\<rparr>"

definition digest :: bundle_create where
  "digest = \<lparr>bc_message_ids = [200], bc_display_message = hello\<rparr>"

lemma robo_chat_ok: "messaging_ok robo_chat" "bundles_ok robo_chat" "settled (idempotency robo_chat) k = None"
  by (simp_all add: messaging_ok_def sequences_ok_def streams_ok_def bundles_ok_def settled_def keyed_def robo_chat_def chat_sent_def
      new_message_def hello_def empty_content_def chat_simps)

lemmas bundle_evaluation = create_bundle_in_def bundle_validate_def digest_def add_bundle_def lock_bundle_members_in_def
  insert_bundle_in_def assign_bundle_sequence_def insert_bundle_item_in_def item_position_ok_def insert_member_in_def
  assert_bundle_shape_def items_of_def later_def bundle_key_def robo_chat_def i16_max_def chat_sent_def send_evaluation

lemma robo_bundles:
  "\<exists>s'. create_bundle_in next_env 1 robo digest (lit ''key-0003'') robo_chat = Inr ((301, accounts_partition), s')"
  by (simp add: bundle_evaluation del: set_map set_filter set_remdups)

theorem bundles_keep_originals_witness:
  "\<exists>s'. create_bundle_in next_env 1 robo digest (lit ''key-0003'') robo_chat = Inr ((301, accounts_partition), s') \<and>
     bundles_ok s' \<and> bundle_members s' 301 = [200]"
proof -
  obtain s' where run: "create_bundle_in next_env 1 robo digest (lit ''key-0003'') robo_chat = Inr ((301, accounts_partition), s')"
    using robo_bundles by blast
  from bundles_keep_originals [OF robo_chat_ok(1,2) run robo_chat_ok(3)]
  have "bundles_ok s'" "bundle_members s' = (bundle_members robo_chat)(301 := bc_message_ids digest)" by blast+
  with run show ?thesis by (intro exI [of _ s'] conjI) (simp_all add: digest_def)
qed

definition bundled_chat :: db where
  "bundled_chat = robo_chat\<lparr>
     messages := messages robo_chat @ [(new_message test_env accounts_partition 1 robo hello [] None 2)\<lparr>m_id := 300\<rparr>],
     bundles := [\<lparr>b_id = 301, b_conversation = 1, b_partition = accounts_partition, b_creator = robo, b_sequence = 1, b_created_at = 9\<rparr>],
     bundle_items := [\<lparr>bi_bundle = 301, bi_message = 300, bi_role = Display, bi_position = 0\<rparr>,
       \<lparr>bi_bundle = 301, bi_message = 200, bi_role = Member, bi_position = 1\<rparr>]\<rparr>"

lemmas bundled_chat_simps = bundled_chat_def robo_chat_def chat_sent_def new_message_def hello_def empty_content_def sender_address_def
  load_message_eq hydrate_one_def map_message_def attachment_rows_def chat_simps

lemma bundled_chat_loads:
  "\<exists>m. load_message sample_store_lib bundled_chat 200 = Inr m" "\<exists>m. load_message sample_store_lib bundled_chat 300 = Inr m"
  by (simp_all add: bundled_chat_simps)

lemma sample_payload: "message_payload_bytes sample_store_lib m = Inr 0"
  by (simp add: message_payload_bytes_def sample_store_lib_def)

lemma bundled_chat_expands:
  "\<exists>d. get_bundle sample_store_lib (e_uuid test_env) bundled_chat ann 1 301 = Inr d"
proof -
  obtain m n where m: "load_message sample_store_lib bundled_chat 200 = Inr m" "load_message sample_store_lib bundled_chat 300 = Inr n"
    using bundled_chat_loads by blast
  have "require_reader bundled_chat ann 1 = Inr ()" "partition_of bundled_chat 1 = Inr accounts_partition"
    "bundle_members bundled_chat 301 = [200]"
    by (simp_all add: require_reader_def conversation_access_def is_participant_def partition_of_def bundle_members_def
        bundled_chat_def robo_chat_def chat_sent_def chat_simps)
  moreover have "preflight_bundle_expansion (e_uuid test_env) [200, 300] bundled_chat = Inr ()"
    by (simp add: preflight_bundle_expansion_def preflight_size_def optional_bytes_def check_expansion_budget_def saturating_add_def
        bundle_response_byte_budget_def usize_max_def bundled_chat_simps)
  moreover have "check_expansion_budget (saturating_add 0 0) (max 0 0) = Inr ()"
    by (simp add: check_expansion_budget_def saturating_add_def)
  ultimately show ?thesis using m
    by (simp add: get_bundle_def load_bundle_def sample_payload bundled_chat_def robo_chat_def parse_actor_id_def identifier_try_from_def
        trim_def is_whitespace_def is_control_def lit_def str_len_def bytes_def utf8_char_def)
qed

theorem bundle_expansion_bounded_witness:
  "\<exists>d. get_bundle sample_store_lib (e_uuid test_env) bundled_chat ann 1 301 = Inr d \<and>
     (page_bytes (payload_of sample_store_lib) (bd_display d # bd_originals d) \<le> bundle_response_byte_budget \<or>
      (\<exists>m\<in>set (bd_display d # bd_originals d). page_bytes (payload_of sample_store_lib) (bd_display d # bd_originals d) -
         payload_of sample_store_lib m \<le> message_page_byte_budget))"
proof -
  obtain d where d: "get_bundle sample_store_lib (e_uuid test_env) bundled_chat ann 1 301 = Inr d" using bundled_chat_expands by blast
  have zero: "page_bytes (payload_of sample_store_lib) ms = 0" for ms by (induction ms) (simp_all add: payload_of_def sample_payload)
  have "page_bytes (payload_of sample_store_lib) (bd_display d # bd_originals d) \<le> usize_max" by (simp only: zero)
  from bundle_expansion_bounded [OF d this] d show ?thesis by blast
qed

end
