(* ===== verification/Presence.thy ===== *)
theory Presence
  imports Receipts "HOL-Library.Option_ord"
begin

text \<open>
  Presence (\<open>postgres/presence.rs\<close>, \<open>postgres/http_presence.rs\<close>, \<open>domain/presence.rs\<close>): a device holds a lease it
  renews over HTTP; an account is online while one of its leases runs, and when the last one ends the
  instant is stored as last seen.
\<close>

section \<open>Reading presence\<close>

text \<open>\<open>GREATEST\<close> and \<open>max\<close> of SQL pass over nulls, which come first in the order of options.\<close>

definition sql_greatest :: "instant option list \<Rightarrow> instant option" where
  "sql_greatest xs = fold max xs None"

record presence =
  pr_actor :: str
  pr_online :: bool
  pr_activity :: "presence_activity option"
  pr_last_seen :: "instant option"

fun parse_activity :: "string \<Rightarrow> presence_activity app_result" where
  "parse_activity v =
     (if v = ''typing'' then Inr Typing
      else if v = ''recording_voice'' then Inr RecordingVoice
      else if v = ''transcribing_voice'' then Inr TranscribingVoice
      else if v = ''uploading_file'' then Inr UploadingFile
      else if v = ''searching_gifs'' then Inr SearchingGifs
      else Inl (Internal (''invalid presence activity loaded from DM database: '' @ v)))"

fun activity_str :: "presence_activity \<Rightarrow> string" where
  "activity_str Typing = ''typing''"
| "activity_str RecordingVoice = ''recording_voice''"
| "activity_str TranscribingVoice = ''transcribing_voice''"
| "activity_str UploadingFile = ''uploading_file''"
| "activity_str SearchingGifs = ''searching_gifs''"

text \<open>Every activity the column can hold is read back.\<close>

lemma parse_activity_str: "parse_activity (activity_str x) = Inr x"
  by (cases x) simp_all

definition active_leases :: "instant \<Rightarrow> actor_ref \<Rightarrow> db \<Rightarrow> lease_row list" where
  "active_leases now a s =
     filter (\<lambda>l. le_actor l = a \<and> le_disconnected l = None \<and> now < le_expires l) (presence_leases s)"

definition closed_at :: "instant \<Rightarrow> lease_row \<Rightarrow> instant option" where
  "closed_at now l =
     (case le_disconnected l of Some d \<Rightarrow> Some d | None \<Rightarrow> if le_expires l \<le> now then Some (le_expires l) else None)"

definition current_activity :: "instant \<Rightarrow> lease_row list \<Rightarrow> presence_activity option" where
  "current_activity now ls =
     (case sort_key (\<lambda>l. - le_heartbeat l) (filter (\<lambda>l. is_some_and (\<lambda>(_, until). now < until) (le_activity l)) ls) of
        [] \<Rightarrow> None | l # _ \<Rightarrow> map_option fst (le_activity l))"

definition get_presence :: "instant \<Rightarrow> actor_ref \<Rightarrow> db \<Rightarrow> presence" where
  "get_presence now a s =
     (let active = active_leases now a s in
      \<lparr>pr_actor = ar_id a, pr_online = (active \<noteq> []), pr_activity = current_activity now active,
       pr_last_seen = max
         (sql_greatest (map ps_last_seen (filter (\<lambda>p. ps_actor p = a) (presence_states s))))
         (if active = [] then sql_greatest (map (closed_at now) (filter (\<lambda>l. le_actor l = a) (presence_leases s))) else None)\<rparr>)"

definition may_see_presence :: "actor_ref \<Rightarrow> actor_ref \<Rightarrow> db \<Rightarrow> bool" where
  "may_see_presence requester target s \<longleftrightarrow> ar_id requester = ar_id target \<or>
     sql_exists (\<lambda>mine. ar_id (p_actor mine) = ar_id requester \<and>
         sql_exists (\<lambda>theirs. p_conversation theirs = p_conversation mine \<and> ar_id (p_actor theirs) = ar_id target)
           (effective_conversation_participants s)) (effective_conversation_participants s) \<or>
     sql_exists (\<lambda>x. a_uuid x = ar_id target \<and> a_custodian x = Some (ar_id requester)) (accounts s)"

text \<open>The handler after the directory has resolved the account.\<close>

definition presence_for :: "instant \<Rightarrow> actor_ref \<Rightarrow> actor_ref \<Rightarrow> db \<Rightarrow> presence app_result" where
  "presence_for now requester target s =
     (if \<not> may_see_presence requester target s then Inl NotFound else Inr (get_presence now target s))"

section \<open>Device leases\<close>

definition duration_ms :: "nat \<Rightarrow> int app_result" where
  "duration_ms ms =
     (if int ms > i64_max then Inl (validation ''presence duration is too large'')
      else if ms = 0 then Inl (validation ''presence duration must be positive'') else Inr (int ms))"

definition millisecond :: int where "millisecond = 10 ^ 6"

definition lease_key :: "lease_row \<Rightarrow> str \<times> actor_ref \<times> str" where
  "lease_key l = (le_partition l, le_actor l, le_device l)"

definition state_key :: "presence_state_row \<Rightarrow> str \<times> actor_ref" where
  "state_key p = (ps_partition p, ps_actor p)"

definition presence_devices :: "str \<Rightarrow> actor_ref \<Rightarrow> db \<Rightarrow> (instant \<times> instant option) list" where
  "presence_devices part a s =
     map (\<lambda>l. (le_expires l, le_disconnected l)) (filter (\<lambda>l. le_partition l = part \<and> le_actor l = a) (presence_leases s)) @
     map (\<lambda>r. (se_expires r, se_disconnected r)) (filter (\<lambda>r. se_partition r = part \<and> se_actor r = a) (realtime_sessions s))"

text \<open>The last-seen instant is stored only when no device of the account is online any more.\<close>

definition record_actor_offline :: "instant \<Rightarrow> str \<Rightarrow> actor_ref \<Rightarrow> db \<Rightarrow> db" where
  "record_actor_offline now part a s =
     (let devices = presence_devices part a s in
      if list_ex (\<lambda>(expires, gone). gone = None \<and> now < expires) devices then s
      else
        (case sql_greatest (map (\<lambda>(expires, gone). coalesce gone (Some expires)) devices) of
           None \<Rightarrow> s
         | Some seen \<Rightarrow> s\<lparr>presence_states := upsert state_key \<lparr>ps_partition = part, ps_actor = a, ps_last_seen = Some seen\<rparr>
             (\<lambda>p. p\<lparr>ps_last_seen := max (ps_last_seen p) (Some seen)\<rparr>) (presence_states s)\<rparr>))"

record presence_lease =
  pl_presence :: presence
  pl_lease_expires :: instant
  pl_activity_expires :: "instant option"

definition new_lease :: "instant \<Rightarrow> actor_ref \<Rightarrow> str \<Rightarrow> instant \<Rightarrow> (presence_activity \<times> instant) option \<Rightarrow> lease_row" where
  "new_lease now a device expires act =
     \<lparr>le_partition = accounts_partition, le_actor = a, le_device = device, le_heartbeat = now, le_expires = expires,
      le_activity = act, le_disconnected = None, le_last_seen = None\<rparr>"

definition renew_lease :: "instant \<Rightarrow> instant \<Rightarrow> (presence_activity \<times> instant) option \<Rightarrow> lease_row \<Rightarrow> lease_row" where
  "renew_lease now expires act l =
     l\<lparr>le_heartbeat := now, le_expires := expires, le_activity := act, le_disconnected := None,
       le_last_seen := max (le_last_seen l) (closed_at now l)\<rparr>"

definition renew_http_presence ::
  "instant \<Rightarrow> actor_ref \<Rightarrow> str \<Rightarrow> presence_activity option \<Rightarrow> nat \<Rightarrow> nat \<Rightarrow> db \<Rightarrow> (presence_lease \<times> db) app_result" where
  "renew_http_presence now a device doing lease_duration activity_duration s =
     bind_ok (validate_device_id device) (\<lambda>_.
     bind_ok (duration_ms lease_duration) (\<lambda>lease_ms.
     bind_ok (duration_ms activity_duration) (\<lambda>activity_ms0.
     let activity_ms = min activity_ms0 lease_ms;
         s1 = refresh_directory_in now accounts_partition [a] s;
         s2 = record_actor_offline now accounts_partition a s1;
         expires = now + lease_ms * millisecond;
         act = map_option (\<lambda>x. (x, now + activity_ms * millisecond)) doing;
         s3 = s2\<lparr>presence_leases := upsert lease_key (new_lease now a device expires act) (renew_lease now expires act)
                (presence_leases s2)\<rparr> in
     Inr (\<lparr>pl_presence = get_presence now a s3, pl_lease_expires = expires, pl_activity_expires = map_option snd act\<rparr>, s3))))"

definition close_http_presence :: "instant \<Rightarrow> actor_ref \<Rightarrow> str \<Rightarrow> db \<Rightarrow> db app_result" where
  "close_http_presence now a device s =
     bind_ok (validate_device_id device) (\<lambda>_.
       Inr (record_actor_offline now accounts_partition a
         (s\<lparr>presence_leases := sql_update (\<lambda>l. lease_key l = (accounts_partition, a, device) \<and> le_disconnected l = None)
            (\<lambda>l. l\<lparr>le_disconnected := Some (min (le_expires l) now), le_activity := None\<rparr>) (presence_leases s)\<rparr>)))"

definition expired_lease :: "instant \<Rightarrow> lease_row \<Rightarrow> bool" where
  "expired_lease now l \<longleftrightarrow> le_disconnected l = None \<and> le_expires l \<le> now"

definition expire_actor :: "instant \<Rightarrow> str \<times> actor_ref \<Rightarrow> nat \<times> db \<Rightarrow> nat \<times> db" where
  "expire_actor now = (\<lambda>(part, a) (n, s).
     let p = (\<lambda>l. le_partition l = part \<and> le_actor l = a \<and> expired_lease now l);
         changed = rows_affected p (presence_leases s);
         s1 = s\<lparr>presence_leases := sql_update p
           (\<lambda>l. l\<lparr>le_disconnected := Some (le_expires l), le_activity := None\<rparr>) (presence_leases s)\<rparr> in
     if changed > 0 then (n + changed, record_actor_offline now part a s1) else (n, s1))"

definition max_expiring_actors :: nat where "max_expiring_actors = 1000"

text \<open>The actors with expired leases, in the order of their advisory locks, a hash the database computes.\<close>

definition expire_http_presence_leases :: "(str \<times> actor_ref \<Rightarrow> int) \<Rightarrow> instant \<Rightarrow> db \<Rightarrow> nat \<times> db" where
  "expire_http_presence_leases lock_key now s =
     fold (expire_actor now)
       (take max_expiring_actors (sort_key lock_key (remdups
          (map (\<lambda>l. (le_partition l, le_actor l)) (filter (expired_lease now) (presence_leases s))))))
       (0, s)"

section \<open>Lemmas\<close>

lemma sql_greatest_Max: "sql_greatest xs = Max (insert None (set xs))"
  using Max.set_eq_fold [of None xs] by (simp add: sql_greatest_def)

lemma sql_greatest_ge: "x \<in> set xs \<Longrightarrow> x \<le> sql_greatest xs"
  by (simp add: sql_greatest_Max)

lemma sql_greatest_least: "\<forall>x\<in>set xs. x \<le> z \<Longrightarrow> sql_greatest xs \<le> z"
  by (simp add: sql_greatest_Max)

lemma sql_greatest_mono:
  assumes "\<And>x. x \<in> set xs \<Longrightarrow> \<exists>y\<in>set ys. x \<le> y"
  shows "sql_greatest xs \<le> sql_greatest ys"
proof (rule sql_greatest_least, rule ballI)
  fix x assume "x \<in> set xs"
  with assms obtain y where "y \<in> set ys" "x \<le> y" by blast
  then show "x \<le> sql_greatest ys" using sql_greatest_ge order_trans by blast
qed

definition stored_seen :: "actor_ref \<Rightarrow> db \<Rightarrow> instant option" where
  "stored_seen a s = sql_greatest (map ps_last_seen (filter (\<lambda>p. ps_actor p = a) (presence_states s)))"

definition closed_seen :: "instant \<Rightarrow> actor_ref \<Rightarrow> db \<Rightarrow> instant option" where
  "closed_seen now a s = sql_greatest (map (closed_at now) (filter (\<lambda>l. le_actor l = a) (presence_leases s)))"

definition last_seen :: "instant \<Rightarrow> actor_ref \<Rightarrow> db \<Rightarrow> instant option" where
  "last_seen now a s = max (stored_seen a s) (if active_leases now a s = [] then closed_seen now a s else None)"

lemma last_seen_eq: "pr_last_seen (get_presence now a s) = last_seen now a s"
  by (simp add: get_presence_def Let_def last_seen_def stored_seen_def closed_seen_def)

lemma closed_at_mono: "now \<le> now' \<Longrightarrow> closed_at now l \<le> closed_at now' l"
  by (auto simp: closed_at_def split: option.splits)

lemma time_keeps_seen:
  assumes "now \<le> now'"
  shows "last_seen now a s \<le> last_seen now' a s"
proof (cases "active_leases now a s = []")
  case True
  then have "active_leases now' a s = []" using assms by (auto simp: active_leases_def filter_empty_conv)
  moreover have "closed_seen now a s \<le> closed_seen now' a s"
    unfolding closed_seen_def by (rule sql_greatest_mono) (use closed_at_mono [OF assms] in auto)
  ultimately show ?thesis using True by (simp add: last_seen_def max.coboundedI2)
qed (simp add: last_seen_def)

text \<open>Storing the last-seen instant: what it writes, and that it covers every closed device.\<close>

lemma record_offline_frame:
  "presence_leases (record_actor_offline now part a s) = presence_leases s"
  "realtime_sessions (record_actor_offline now part a s) = realtime_sessions s"
  by (simp_all add: record_actor_offline_def Let_def split: option.splits)

lemma record_offline_other:
  assumes "b \<noteq> a"
  shows "stored_seen b (record_actor_offline now part a s) = stored_seen b s"
proof -
  have "filter (\<lambda>p. ps_actor p = b) (upsert state_key r f t) = filter (\<lambda>p. ps_actor p = b) t"
    if "ps_actor r = a" "\<And>p. ps_actor (f p) = ps_actor p" for r f t
    using assms that by (auto simp: upsert_def state_key_def intro!: filter_sql_update)
  then show ?thesis by (auto simp: record_actor_offline_def Let_def stored_seen_def split: option.splits)
qed

lemma upsert_seen:
  fixes seen :: instant and part :: str and a :: actor_ref and t :: "presence_state_row list"
  defines "u \<equiv> upsert state_key \<lparr>ps_partition = part, ps_actor = a, ps_last_seen = Some seen\<rparr>
    (\<lambda>p. p\<lparr>ps_last_seen := max (ps_last_seen p) (Some seen)\<rparr>) t"
  shows "p \<in> set t \<Longrightarrow> \<exists>q\<in>set u. ps_actor q = ps_actor p \<and> ps_last_seen p \<le> ps_last_seen q"
    and "\<exists>q\<in>set u. ps_actor q = a \<and> Some seen \<le> ps_last_seen q"
proof -
  let ?k = "\<lambda>p. state_key p = (part, a)" and ?f = "\<lambda>p. p\<lparr>ps_last_seen := max (ps_last_seen p) (Some seen)\<rparr>"
  have u: "u = (if sql_exists ?k t then map (\<lambda>p. if ?k p then ?f p else p) t
      else t @ [\<lparr>ps_partition = part, ps_actor = a, ps_last_seen = Some seen\<rparr>])"
    by (simp add: u_def upsert_def sql_update_def state_key_def)
  show "\<exists>q\<in>set u. ps_actor q = ps_actor p \<and> ps_last_seen p \<le> ps_last_seen q" if "p \<in> set t"
  proof (cases "sql_exists ?k t")
    case True
    with that have "(if ?k p then ?f p else p) \<in> set u" by (auto simp: u)
    then show ?thesis by (rule bexI [rotated]) simp
  qed (use that in \<open>auto simp: u\<close>)
  show "\<exists>q\<in>set u. ps_actor q = a \<and> Some seen \<le> ps_last_seen q"
  proof (cases "sql_exists ?k t")
    case True
    then obtain p where p: "p \<in> set t" "?k p" by (auto simp: sql_exists_def)
    with True have "?f p \<in> set u" by (force simp: u)
    then show ?thesis by (rule bexI [rotated]) (use p in \<open>simp add: state_key_def\<close>)
  qed (simp add: u)
qed

lemma record_offline_stores:
  "stored_seen b s \<le> stored_seen b (record_actor_offline now part a s)"
  "\<not> list_ex (\<lambda>(expires, gone). gone = None \<and> now < expires) (presence_devices part a s) \<Longrightarrow>
     (expires, gone) \<in> set (presence_devices part a s) \<Longrightarrow>
     coalesce gone (Some expires) \<le> stored_seen a (record_actor_offline now part a s)"
proof -
  let ?g = "sql_greatest (map (\<lambda>(expires, gone). coalesce gone (Some expires)) (presence_devices part a s))"
  show "stored_seen b s \<le> stored_seen b (record_actor_offline now part a s)"
  proof (cases "record_actor_offline now part a s = s")
    case False
    then obtain seen where t: "presence_states (record_actor_offline now part a s) =
        upsert state_key \<lparr>ps_partition = part, ps_actor = a, ps_last_seen = Some seen\<rparr>
          (\<lambda>p. p\<lparr>ps_last_seen := max (ps_last_seen p) (Some seen)\<rparr>) (presence_states s)"
      by (auto simp: record_actor_offline_def Let_def split: option.splits if_splits)
    show ?thesis unfolding stored_seen_def t
      by (rule sql_greatest_mono) (use upsert_seen(1) in \<open>fastforce\<close>)
  qed simp
  assume off: "\<not> list_ex (\<lambda>(expires, gone). gone = None \<and> now < expires) (presence_devices part a s)"
    and dev: "(expires, gone) \<in> set (presence_devices part a s)"
  have le: "coalesce gone (Some expires) \<le> ?g" by (rule sql_greatest_ge) (use dev in force)
  have "\<exists>x. coalesce gone (Some expires) = Some x" by (cases gone) (simp_all add: coalesce_def)
  with le obtain seen where seen: "?g = Some seen" by (cases ?g) auto
  with off have t: "presence_states (record_actor_offline now part a s) =
      upsert state_key \<lparr>ps_partition = part, ps_actor = a, ps_last_seen = Some seen\<rparr>
        (\<lambda>p. p\<lparr>ps_last_seen := max (ps_last_seen p) (Some seen)\<rparr>) (presence_states s)"
    by (simp add: record_actor_offline_def Let_def)
  obtain q where q: "q \<in> set (presence_states (record_actor_offline now part a s))" "ps_actor q = a" "Some seen \<le> ps_last_seen q"
    unfolding t using upsert_seen(2) by blast
  have "ps_last_seen q \<le> stored_seen a (record_actor_offline now part a s)"
    unfolding stored_seen_def by (rule sql_greatest_ge) (use q in simp)
  with le seen q(3) show "coalesce gone (Some expires) \<le> stored_seen a (record_actor_offline now part a s)"
    by (metis order_trans)
qed

text \<open>The leases of accounts in use: one row per device, in the accounts' partition, and no session of the
  retired sockets left.\<close>

definition presence_ok :: "db \<Rightarrow> bool" where
  "presence_ok s \<longleftrightarrow> keyed lease_key (presence_leases s) \<and> (\<forall>l\<in>set (presence_leases s). le_partition l = accounts_partition) \<and>
     realtime_sessions s = []"

lemma devices_eq:
  assumes "presence_ok s"
  shows "presence_devices accounts_partition a s = map (\<lambda>l. (le_expires l, le_disconnected l)) (filter (\<lambda>l. le_actor l = a) (presence_leases s))"
proof -
  have "filter (\<lambda>l. le_partition l = accounts_partition \<and> le_actor l = a) (presence_leases s) = filter (\<lambda>l. le_actor l = a) (presence_leases s)"
    using assms by (intro filter_cong) (auto simp: presence_ok_def)
  then show ?thesis using assms by (simp add: presence_devices_def presence_ok_def)
qed

lemma offline_iff:
  assumes "presence_ok s"
  shows "list_ex (\<lambda>(expires, gone). gone = None \<and> now < expires) (presence_devices accounts_partition a s) \<longleftrightarrow> active_leases now a s \<noteq> []"
  by (auto simp: devices_eq [OF assms] list_ex_iff active_leases_def filter_empty_conv)

text \<open>Once the last device is gone, what is stored covers what was shown.\<close>

lemma record_offline_covers:
  assumes "presence_ok s"
  shows "last_seen now a s \<le> stored_seen a (record_actor_offline now accounts_partition a s)"
proof (cases "active_leases now a s = []")
  case True
  have "closed_seen now a s \<le> stored_seen a (record_actor_offline now accounts_partition a s)"
    unfolding closed_seen_def
  proof (rule sql_greatest_least, rule ballI)
    fix x assume "x \<in> set (map (closed_at now) (filter (\<lambda>l. le_actor l = a) (presence_leases s)))"
    then obtain l where l: "l \<in> set (presence_leases s)" "le_actor l = a" "x = closed_at now l" by auto
    have "x \<le> coalesce (le_disconnected l) (Some (le_expires l))"
      by (auto simp: l(3) closed_at_def coalesce_def split: option.splits)
    also have "\<dots> \<le> stored_seen a (record_actor_offline now accounts_partition a s)"
      by (rule record_offline_stores(2)) (use True offline_iff [OF assms] l in \<open>auto simp: devices_eq [OF assms]\<close>)
    finally show "x \<le> stored_seen a (record_actor_offline now accounts_partition a s)" .
  qed
  then show ?thesis using True record_offline_stores(1) by (simp add: last_seen_def)
qed (simp add: last_seen_def record_offline_stores(1))

section \<open>Last seen never moves back\<close>

lemma last_seen_cong:
  assumes "presence_leases s' = presence_leases s" "stored_seen a s' = stored_seen a s"
  shows "last_seen now a s' = last_seen now a s"
  using assms by (simp add: last_seen_def active_leases_def closed_seen_def)

lemma record_offline_mono:
  assumes "presence_ok s"
  shows "last_seen now b s \<le> last_seen now b (record_actor_offline now part a s)" "presence_ok (record_actor_offline now part a s)"
proof -
  show "presence_ok (record_actor_offline now part a s)" using assms by (simp add: presence_ok_def record_offline_frame)
  show "last_seen now b s \<le> last_seen now b (record_actor_offline now part a s)"
    using record_offline_stores(1) [of b s now part a]
    unfolding last_seen_def active_leases_def closed_seen_def record_offline_frame by (intro max.mono) simp_all
qed

lemma refresh_presence [simp]:
  "presence_leases (refresh_directory_in now part as s) = presence_leases s"
  "presence_states (refresh_directory_in now part as s) = presence_states s"
  "realtime_sessions (refresh_directory_in now part as s) = realtime_sessions s"
  by (simp_all add: refresh_directory_in_def)

lemma refresh_presence_ok [simp]: "presence_ok (refresh_directory_in now part as s) = presence_ok s"
  by (simp add: presence_ok_def)

text \<open>Closing leases that have run out, or are being closed, changes nothing of what is shown as long as
  no lease that runs is among them.\<close>

lemma lease_update_seen:
  assumes "\<And>l. l \<in> set (presence_leases s) \<Longrightarrow> le_actor (f l) = le_actor l"
    and "\<And>l. l \<in> set (presence_leases s) \<Longrightarrow> p l \<Longrightarrow> le_actor l = b \<Longrightarrow> le_expires l \<le> now \<and> le_disconnected l = None \<and>
      le_disconnected (f l) = Some (le_expires l)"
  shows "last_seen now b (s\<lparr>presence_leases := sql_update p f (presence_leases s)\<rparr>) = last_seen now b s"
proof -
  let ?t = "sql_update p f (presence_leases s)"
  have "map (closed_at now) (filter (\<lambda>l. le_actor l = b) (sql_update p f ls)) = map (closed_at now) (filter (\<lambda>l. le_actor l = b) ls) \<and>
      (filter (\<lambda>l. le_actor l = b \<and> le_disconnected l = None \<and> now < le_expires l) (sql_update p f ls) = [] \<longleftrightarrow>
       filter (\<lambda>l. le_actor l = b \<and> le_disconnected l = None \<and> now < le_expires l) ls = [])"
    if "set ls \<subseteq> set (presence_leases s)" for ls
    using that
  proof (induction ls)
    case (Cons l ls)
    then have l: "l \<in> set (presence_leases s)" and IH: "set ls \<subseteq> set (presence_leases s)" by auto
    show ?case
      using Cons.IH [OF IH] assms(1) [OF l] assms(2) [OF l] by (auto simp: sql_update_def closed_at_def)
  qed (simp add: sql_update_def)
  from this [of "presence_leases s"] show ?thesis
    by (simp add: last_seen_def active_leases_def closed_seen_def stored_seen_def)
qed

lemma close_mono:
  assumes "close_http_presence now a device s = Inr s'" "presence_ok s"
  shows "last_seen now b s \<le> last_seen now b s'" "presence_ok s'"
proof -
  let ?p = "\<lambda>l. lease_key l = (accounts_partition, a, device) \<and> le_disconnected l = None"
  let ?f = "\<lambda>l. l\<lparr>le_disconnected := Some (min (le_expires l) now), le_activity := None\<rparr>"
  let ?t = "s\<lparr>presence_leases := sql_update ?p ?f (presence_leases s)\<rparr>"
  have s': "s' = record_actor_offline now accounts_partition a ?t"
    using assms(1) by (auto simp: close_http_presence_def)
  have "keyed lease_key (sql_update ?p ?f (presence_leases s))"
    using assms(2) unfolding presence_ok_def by (intro keyed_sql_update) (simp_all add: lease_key_def)
  then have ok: "presence_ok ?t" using assms(2) by (auto simp: presence_ok_def set_sql_update)
  have "last_seen now b s \<le> last_seen now b ?t"
  proof (cases "active_leases now b s = []")
    case True
    then have "le_expires l \<le> now" if "l \<in> set (presence_leases s)" "?p l" "le_actor l = b" for l
      using that by (force simp: active_leases_def filter_empty_conv)
    then show ?thesis by (subst lease_update_seen) auto
  next
    case False
    then have "last_seen now b s = stored_seen b ?t" by (simp add: last_seen_def stored_seen_def)
    then show ?thesis by (simp add: last_seen_def)
  qed
  with record_offline_mono [OF ok] show "last_seen now b s \<le> last_seen now b s'" "presence_ok s'"
    unfolding s' by (auto intro: order_trans)
qed

lemma expire_actor_mono:
  assumes "presence_ok s"
  shows "last_seen now b s \<le> last_seen now b (snd (expire_actor now x (n, s)))" "presence_ok (snd (expire_actor now x (n, s)))"
proof -
  obtain part a where x: "x = (part, a)" by (cases x)
  let ?p = "\<lambda>l. le_partition l = part \<and> le_actor l = a \<and> expired_lease now l"
  let ?f = "\<lambda>l. l\<lparr>le_disconnected := Some (le_expires l), le_activity := None\<rparr>"
  let ?t = "s\<lparr>presence_leases := sql_update ?p ?f (presence_leases s)\<rparr>"
  have seen: "last_seen now b ?t = last_seen now b s"
    by (rule lease_update_seen) (auto simp: expired_lease_def)
  have "keyed lease_key (sql_update ?p ?f (presence_leases s))"
    using assms unfolding presence_ok_def by (intro keyed_sql_update) (simp_all add: lease_key_def)
  then have ok: "presence_ok ?t" using assms by (auto simp: presence_ok_def set_sql_update)
  have run: "snd (expire_actor now x (n, s)) = ?t \<or> snd (expire_actor now x (n, s)) = record_actor_offline now part a ?t"
    by (simp add: x expire_actor_def Let_def)
  show "last_seen now b s \<le> last_seen now b (snd (expire_actor now x (n, s)))" "presence_ok (snd (expire_actor now x (n, s)))"
    using run record_offline_mono(1) [OF ok, of now b part a] record_offline_mono(2) [OF ok, of now part a] ok unfolding seen by (elim disjE, simp_all add: seen)+
qed

lemma expire_mono:
  assumes "presence_ok s"
  shows "last_seen now b s \<le> last_seen now b (snd (expire_http_presence_leases lock_key now s)) \<and>
    presence_ok (snd (expire_http_presence_leases lock_key now s))"
proof -
  have "presence_ok (snd ns) \<Longrightarrow> last_seen now b (snd ns) \<le> last_seen now b (snd (fold (expire_actor now) xs ns)) \<and>
      presence_ok (snd (fold (expire_actor now) xs ns))" for xs ns
  proof (induction xs arbitrary: ns)
    case (Cons x xs)
    obtain n s where ns: "ns = (n, s)" by (cases ns)
    have "presence_ok s" using Cons.prems by (simp add: ns)
    note one = expire_actor_mono(1) [OF this, of now b x n] expire_actor_mono(2) [OF this, of now x n]
    from Cons.IH [OF one(2)] one(1) show ?case by (auto simp: ns intro: order_trans)
  qed simp
  from this [of "(0, s)"] assms show ?thesis by (simp add: expire_http_presence_leases_def)
qed

lemma renewE:
  assumes "renew_http_presence now a device doing ld ad s = Inr (p, s')"
  obtains s2 act where "s2 = record_actor_offline now accounts_partition a (refresh_directory_in now accounts_partition [a] s)"
    "s' = s2\<lparr>presence_leases := upsert lease_key (new_lease now a device (pl_lease_expires p) act)
       (renew_lease now (pl_lease_expires p) act) (presence_leases s2)\<rparr>"
    "now < pl_lease_expires p" "validate_device_id device = Inr ()"
proof -
  obtain lm am where d: "validate_device_id device = Inr ()" "duration_ms ld = Inr lm" "duration_ms ad = Inr am"
    using assms by (auto simp: renew_http_presence_def)
  then have "0 < lm * millisecond" by (auto simp: duration_ms_def millisecond_def split: if_splits)
  with assms d show ?thesis by (intro that) (auto simp: renew_http_presence_def Let_def)
qed

lemma lease_key_renew [simp]: "lease_key (renew_lease now expires act l) = lease_key l"
  "lease_key (new_lease now a device expires act) = (accounts_partition, a, device)"
  by (simp_all add: lease_key_def renew_lease_def new_lease_def)

lemma filter_upsert_other:
  assumes "\<not> q r" "\<And>x. key x = key r \<Longrightarrow> \<not> q x \<and> \<not> q (f x)"
  shows "filter q (upsert key r f t) = filter q t"
  using assms by (auto simp: upsert_def intro!: filter_sql_update)

lemma renew_mono:
  assumes "renew_http_presence now a device doing ld ad s = Inr (p, s')" "presence_ok s"
  shows "last_seen now b s \<le> last_seen now b s'" "presence_ok s'"
proof -
  let ?s1 = "refresh_directory_in now accounts_partition [a] s"
  obtain s2 act where s2: "s2 = record_actor_offline now accounts_partition a ?s1"
    and s': "s' = s2\<lparr>presence_leases := upsert lease_key (new_lease now a device (pl_lease_expires p) act)
       (renew_lease now (pl_lease_expires p) act) (presence_leases s2)\<rparr>"
    using assms(1) by (rule renewE)
  let ?e = "pl_lease_expires p"
  have ok1: "presence_ok ?s1" using assms(2) by simp
  note ok2 = record_offline_mono(2) [OF ok1, of now accounts_partition a, folded s2]
  have "le_partition l = accounts_partition" if "l \<in> set (upsert lease_key (new_lease now a device ?e act) (renew_lease now ?e act) (presence_leases s2))" for l
    using that ok2 by (auto simp: upsert_def set_sql_update presence_ok_def new_lease_def renew_lease_def split: if_splits)
  then show "presence_ok s'" using ok2 by (auto simp: presence_ok_def s')
  have "last_seen now b s = last_seen now b ?s1" by (rule last_seen_cong [symmetric]) (simp_all add: stored_seen_def)
  also have "\<dots> \<le> last_seen now b s'"
  proof (cases "b = a")
    case True
    have "last_seen now b ?s1 \<le> stored_seen b s2" unfolding s2 True by (rule record_offline_covers [OF ok1])
    also have "\<dots> \<le> last_seen now b s'" by (simp add: s' last_seen_def stored_seen_def)
    finally show ?thesis .
  next
    case False
    have same: "filter (\<lambda>l. le_actor l = b \<and> Q l) (presence_leases s') = filter (\<lambda>l. le_actor l = b \<and> Q l) (presence_leases s2)" for Q
      unfolding s' using False by (auto intro!: filter_upsert_other simp: new_lease_def renew_lease_def lease_key_def)
    have "last_seen now b s2 = last_seen now b s'"
      using same [of "\<lambda>l. True"] same [of "\<lambda>l. le_disconnected l = None \<and> now < le_expires l"]
      by (simp add: last_seen_def active_leases_def closed_seen_def stored_seen_def s')
    then show ?thesis using record_offline_mono(1) [OF ok1, of now b accounts_partition a] by (simp add: s2)
  qed
  finally show "last_seen now b s \<le> last_seen now b s'" .
qed

inductive presence_step :: "instant \<times> db \<Rightarrow> instant \<times> db \<Rightarrow> bool" where
  tick: "now \<le> now' \<Longrightarrow> presence_step (now, s) (now', s)"
| renew: "renew_http_presence now a device doing ld ad s = Inr (p, s') \<Longrightarrow> presence_step (now, s) (now, s')"
| close: "close_http_presence now a device s = Inr s' \<Longrightarrow> presence_step (now, s) (now, s')"
| expire: "presence_step (now, s) (now, snd (expire_http_presence_leases lock_key now s))"

lemma presence_step_mono:
  assumes "presence_step c c'" "presence_ok (snd c)"
  shows "presence_ok (snd c') \<and> last_seen (fst c) a (snd c) \<le> last_seen (fst c') a (snd c')"
  using assms
proof cases
  case (tick now now' s)
  with assms(2) time_keeps_seen show ?thesis by simp
next
  case (renew now b device doing ld ad s p s')
  with assms(2) renew_mono [OF renew(3)] show ?thesis by simp
next
  case (close now b device s s')
  with assms(2) close_mono [OF close(3)] show ?thesis by simp
next
  case (expire now s lock_key)
  with assms(2) expire_mono show ?thesis by simp
qed

text \<open>C27. The last-seen instant of an account never moves back, whatever its devices and everyone else's do:
  over any sequence of renewals, closings and expiry sweeps as time passes, what is shown of any account is
  never earlier than what was shown before.\<close>

theorem last_seen_never_moves_back:
  assumes "presence_step\<^sup>*\<^sup>* (now, s) (now', s')" "presence_ok s"
  shows "presence_ok s' \<and> pr_last_seen (get_presence now a s) \<le> pr_last_seen (get_presence now' a s')"
proof -
  have "presence_ok (snd c') \<and> last_seen (fst c) a (snd c) \<le> last_seen (fst c') a (snd c')"
    if "presence_step\<^sup>*\<^sup>* c c'" "presence_ok (snd c)" for c c'
    using that
  proof (induction rule: rtranclp_induct)
    case (step c1 c2)
    with presence_step_mono [OF step.hyps(2), of a] show ?case by (auto intro: order_trans)
  qed simp
  from this [OF assms(1)] assms(2) show ?thesis by (simp add: last_seen_eq)
qed

definition phone_lease :: "instant \<Rightarrow> lease_row" where
  "phone_lease expires = new_lease 0 ann (lit ''phone'') expires None"

definition online_chat :: db where
  "online_chat = chat_sent\<lparr>presence_leases := [phone_lease 5]\<rparr>"

lemma online_chat_ok: "presence_ok online_chat"
  by (simp add: presence_ok_def online_chat_def phone_lease_def new_lease_def keyed_def chat_sent_def chat_def empty_db_def)

theorem last_seen_never_moves_back_witness:
  "\<exists>s'. presence_step\<^sup>*\<^sup>* (7, online_chat) (9, s') \<and> Some 5 \<le> pr_last_seen (get_presence 9 ann s')"
proof -
  have one: "presence_step (7, online_chat) (7, snd (expire_http_presence_leases (\<lambda>_. 0) 7 online_chat))" by (rule expire)
  have two: "presence_step (7, snd (expire_http_presence_leases (\<lambda>_. 0) 7 online_chat))
      (9, snd (expire_http_presence_leases (\<lambda>_. 0) 7 online_chat))" by (rule tick) simp
  have run: "presence_step\<^sup>*\<^sup>* (7, online_chat) (9, snd (expire_http_presence_leases (\<lambda>_. 0) 7 online_chat))"
    by (rule rtranclp.rtrancl_into_rtrancl, rule r_into_rtranclp, rule one, rule two)
  have "pr_last_seen (get_presence 7 ann online_chat) = Some 5"
    by (simp add: get_presence_def Let_def active_leases_def online_chat_def phone_lease_def new_lease_def closed_at_def sql_greatest_def
        chat_sent_def chat_def empty_db_def)
  with last_seen_never_moves_back [OF run online_chat_ok, of ann] run show ?thesis by metis
qed

section \<open>Being online\<close>

lemma presence_cong:
  assumes "\<And>Q. filter (\<lambda>l. le_actor l = b \<and> Q l) (presence_leases s') = filter (\<lambda>l. le_actor l = b \<and> Q l) (presence_leases s)"
    and "stored_seen b s' = stored_seen b s"
  shows "get_presence now b s' = get_presence now b s"
proof -
  have act: "active_leases now b s' = active_leases now b s" unfolding active_leases_def by (rule assms(1))
  have "filter (\<lambda>l. le_actor l = b) (presence_leases s') = filter (\<lambda>l. le_actor l = b) (presence_leases s)"
    using assms(1) [of "\<lambda>_. True"] by simp
  then show ?thesis using assms(2) by (simp add: get_presence_def act stored_seen_def Let_def)
qed

text \<open>C28. A renewed lease keeps its account, and nobody else, online: after a renewal the account is online
  at every instant until the lease runs out; what is shown of any other account at any time is unchanged;
  and closing the device later leaves the account online exactly when another of its devices still holds a
  running lease.\<close>

theorem leases_decide_who_is_online:
  assumes "renew_http_presence now a device doing ld ad s = Inr (p, s')" "presence_ok s"
  shows "(\<forall>later. later < pl_lease_expires p \<longrightarrow> pr_online (get_presence later a s')) \<and>
    (\<forall>later b. b \<noteq> a \<longrightarrow> get_presence later b s' = get_presence later b s) \<and>
    (\<forall>later. \<exists>s''. close_http_presence later a device s' = Inr s'' \<and>
       (pr_online (get_presence later a s'') \<longleftrightarrow> (\<exists>l\<in>set (active_leases later a s'). le_device l \<noteq> device)))"
proof -
  let ?s1 = "refresh_directory_in now accounts_partition [a] s" and ?e = "pl_lease_expires p"
  obtain s2 act where s2: "s2 = record_actor_offline now accounts_partition a ?s1"
    and s': "s' = s2\<lparr>presence_leases := upsert lease_key (new_lease now a device ?e act) (renew_lease now ?e act) (presence_leases s2)\<rparr>"
    and dev: "validate_device_id device = Inr ()"
    using assms(1) by (rule renewE)
  have "\<exists>l\<in>set (presence_leases s'). le_actor l = a \<and> le_disconnected l = None \<and> le_expires l = ?e"
  proof (cases "sql_exists (\<lambda>x. lease_key x = (accounts_partition, a, device)) (presence_leases s2)")
    case True
    then obtain l where l: "l \<in> set (presence_leases s2)" "lease_key l = (accounts_partition, a, device)" by (auto simp: sql_exists_def)
    with True have "renew_lease now ?e act l \<in> set (presence_leases s')" by (auto simp: s' set_upsert)
    then show ?thesis by (rule bexI [rotated]) (use l in \<open>simp add: renew_lease_def lease_key_def\<close>)
  next
    case False
    then have "new_lease now a device ?e act \<in> set (presence_leases s')" by (simp add: s' set_upsert)
    then show ?thesis by (rule bexI [rotated]) (simp add: new_lease_def)
  qed
  then have online: "pr_online (get_presence later a s')" if "later < ?e" for later
    using that by (auto simp: get_presence_def Let_def active_leases_def filter_empty_conv)
  have other: "get_presence later b s' = get_presence later b s" if "b \<noteq> a" for later b
  proof (rule presence_cong)
    show "filter (\<lambda>l. le_actor l = b \<and> Q l) (presence_leases s') = filter (\<lambda>l. le_actor l = b \<and> Q l) (presence_leases s)" for Q
      using that by (simp add: s' s2 record_offline_frame)
        (rule filter_upsert_other, auto simp: new_lease_def renew_lease_def lease_key_def)
    show "stored_seen b s' = stored_seen b s"
      using record_offline_other [OF that, of now accounts_partition ?s1] by (simp add: s' s2 stored_seen_def)
  qed
  have parts: "\<forall>l\<in>set (presence_leases s'). le_partition l = accounts_partition"
    using renew_mono(2) [OF assms] by (simp add: presence_ok_def)
  have close: "\<exists>s''. close_http_presence later a device s' = Inr s'' \<and>
      (pr_online (get_presence later a s'') \<longleftrightarrow> (\<exists>l\<in>set (active_leases later a s'). le_device l \<noteq> device))" for later
  proof (intro exI conjI)
    let ?p = "\<lambda>l. lease_key l = (accounts_partition, a, device) \<and> le_disconnected l = None"
    let ?f = "\<lambda>l. l\<lparr>le_disconnected := Some (min (le_expires l) later), le_activity := None\<rparr>"
    let ?t = "s'\<lparr>presence_leases := sql_update ?p ?f (presence_leases s')\<rparr>"
    show "close_http_presence later a device s' = Inr (record_actor_offline later accounts_partition a ?t)"
      by (simp add: close_http_presence_def dev)
    have "l \<in> set (active_leases later a ?t) \<longleftrightarrow> l \<in> set (active_leases later a s') \<and> le_device l \<noteq> device" for l
    proof -
      have "x \<noteq> ?f y" if "le_disconnected x = None" for x y :: lease_row using that by auto
      then show ?thesis using parts by (auto simp: active_leases_def set_sql_update lease_key_def)
    qed
    then have eq: "set (active_leases later a ?t) = {l \<in> set (active_leases later a s'). le_device l \<noteq> device}" by blast
    have "active_leases later a ?t \<noteq> [] \<longleftrightarrow> set (active_leases later a ?t) \<noteq> {}" by (simp only: set_empty)
    also have "\<dots> \<longleftrightarrow> (\<exists>l\<in>set (active_leases later a s'). le_device l \<noteq> device)" unfolding eq by blast
    finally have "active_leases later a ?t \<noteq> [] \<longleftrightarrow> (\<exists>l\<in>set (active_leases later a s'). le_device l \<noteq> device)" .
    moreover have "active_leases later a (record_actor_offline later accounts_partition a ?t) = active_leases later a ?t"
      by (simp add: active_leases_def record_offline_frame)
    ultimately show "pr_online (get_presence later a (record_actor_offline later accounts_partition a ?t)) \<longleftrightarrow>
        (\<exists>l\<in>set (active_leases later a s'). le_device l \<noteq> device)"
      by (simp add: get_presence_def Let_def)
  qed
  show ?thesis using online other close by blast
qed

theorem leases_decide_who_is_online_witness:
  "\<exists>p s'. renew_http_presence 9 ann (lit ''phone'') None 1000 1000 online_chat = Inr (p, s') \<and>
     pr_online (get_presence 10 ann s') \<and> get_presence 10 bob s' = get_presence 10 bob online_chat"
proof -
  have "\<exists>r. renew_http_presence 9 ann (lit ''phone'') None 1000 1000 online_chat = Inr r \<and> 10 < pl_lease_expires (fst r)"
    by (simp add: renew_http_presence_def chat_sent_facts(1) duration_ms_def i64_max_def Let_def millisecond_def)
  then obtain p s' where run: "renew_http_presence 9 ann (lit ''phone'') None 1000 1000 online_chat = Inr (p, s')"
    and e: "10 < pl_lease_expires p" by (metis fst_conv surj_pair)
  have "bob \<noteq> ann" by (simp add: lit_def)
  with leases_decide_who_is_online [OF run online_chat_ok] run e show ?thesis by blast
qed

end
