(* ===== verification/Api.thy ===== *)
theory Api
  imports Sessions Bundles Presence
begin

text \<open>
  The HTTP interface (\<open>src/api\<close>): the extractor that authenticates a request, resolves the addresses in its
  path and decides access before any handler runs (\<open>extract.rs\<close>), and the handlers of conversations,
  messages, bundles, drafts (\<open>handlers.rs\<close>), groups (\<open>groups.rs\<close>) and allow-lists (\<open>me.rs\<close>), composed with
  the operations of the store as the code composes them. A request is what the router hands on: method,
  path, headers and the parameters of the matched route; JSON decoding is the library's, so a call
  carries its decoded input. A handler answers next to the database it leaves behind: what an earlier
  transaction committed stays when a later step fails.
\<close>

section \<open>Requests\<close>

text \<open>The surroundings of one request: the libraries and services it uses and, for each transaction it
  runs in turn, the clock and the identifiers. The first is that of the extractor, the second that of
  the handler; admission has the rest.\<close>

record service =
  sv_env :: "nat \<Rightarrow> env"
  sv_store :: store_lib
  sv_accounts :: accounts_service
  sv_client :: accounts_client

abbreviation sv_uuid :: "service \<Rightarrow> uuid_lib" where
  "sv_uuid sv \<equiv> e_uuid (sv_env sv 0)"

abbreviation sv_now :: "service \<Rightarrow> instant" where
  "sv_now sv \<equiv> e_now (sv_env sv 0)"

text \<open>A request as the router hands it on: method, path, headers and the parameters of the matched
  route.\<close>

record request =
  rq_method :: string
  rq_path :: str
  rq_headers :: headers
  rq_conversation :: "str option"
  rq_group :: "str option"
  rq_message :: "str option"
  rq_bundle :: "str option"

text \<open>What the extractor leaves for the handler: the caller, the access it decided and the internal keys of
  the addresses in the path.\<close>

record admission =
  am_context :: auth_context
  am_access :: "conversation_access option"
  am_conversation :: uuid
  am_group :: uuid
  am_message :: uuid
  am_bundle :: uuid

abbreviation am_actor :: "admission \<Rightarrow> actor_ref" where
  "am_actor am \<equiv> ac_actor (am_context am)"

section \<open>The extractor\<close>

definition resolve_message_id :: "uuid_lib \<Rightarrow> uuid \<Rightarrow> str \<Rightarrow> db \<Rightarrow> uuid app_result" where
  "resolve_message_id U conversation v s =
     (case uuid_parse U v of
        Some i \<Rightarrow> Inr i
      | None \<Rightarrow>
          (case message_sequence v of
             None \<Rightarrow> Inl (validation ''expected a conversation-local message code such as 00a'')
           | Some n \<Rightarrow>
               (case find (\<lambda>m. m_conversation m = conversation \<and> m_sequence m = n) (messages s) of
                  None \<Rightarrow> Inl NotFound | Some m \<Rightarrow> Inr (m_id m))))"

definition resolve_bundle_id :: "uuid \<Rightarrow> str \<Rightarrow> db \<Rightarrow> uuid app_result" where
  "resolve_bundle_id conversation v s =
     (case bundle_sequence v of
        None \<Rightarrow> Inl (validation ''expected a conversation-local bundle code such as 001'')
      | Some n \<Rightarrow>
          (case find (\<lambda>b. b_conversation b = conversation \<and> b_sequence b = n) (bundles s) of
             None \<Rightarrow> Inl NotFound | Some b \<Rightarrow> Inr (b_id b)))"

definition custodian_read_only :: "string \<Rightarrow> app_error" where
  "custodian_read_only verb = forbidden ''custodian_read_only''
     (lit ''You can read this conversation because you are custodian of a Silicon in it, but you are not a participant: DM never lets a custodian '' @
      lit verb @ lit '' as its Silicon. Only tombstoning that Silicon's own messages is allowed.'')"

definition gate_conversation ::
  "service \<Rightarrow> request \<Rightarrow> admission \<Rightarrow> db \<Rightarrow> admission app_result \<times> db" where
  "gate_conversation sv rq am s =
     (case rq_conversation rq of
        None \<Rightarrow> (Inr am, s)
      | Some v \<Rightarrow>
          then_with (resolve_conversation_path (sv_store sv) (sv_env sv 0) (sv_accounts sv) (am_actor am) v
              (rq_method rq = ''POST'' \<and> suffix (lit ''/messages'') (rq_path rq)) s) (\<lambda>(i, access) s1.
            (if access = InviteeAccess \<or> (access = CustodianAccess \<and> rq_method rq \<noteq> ''GET'' \<and> rq_method rq \<noteq> ''DELETE'')
             then Inl (custodian_read_only (rq_method rq))
             else Inr (am\<lparr>am_access := Some access, am_conversation := i\<rparr>), s1)))"

definition gate_group :: "service \<Rightarrow> request \<Rightarrow> admission \<Rightarrow> db \<Rightarrow> admission app_result" where
  "gate_group sv rq am s =
     (case rq_group rq of
        None \<Rightarrow> Inr am
      | Some v \<Rightarrow>
          bind_ok (resolve_group_path (sv_env sv 0) (am_actor am) v s) (\<lambda>(i, access).
            Inr (am\<lparr>am_access := Some access, am_group := i\<rparr>)))"

definition gate_message :: "service \<Rightarrow> request \<Rightarrow> admission \<Rightarrow> db \<Rightarrow> admission app_result" where
  "gate_message sv rq am s =
     (case (rq_conversation rq, rq_message rq) of
        (Some _, Some v) \<Rightarrow>
          bind_ok (resolve_message_id (sv_uuid sv) (am_conversation am) v s) (\<lambda>i. Inr (am\<lparr>am_message := i\<rparr>))
      | _ \<Rightarrow> Inr am)"

definition gate_bundle :: "request \<Rightarrow> admission \<Rightarrow> db \<Rightarrow> admission app_result" where
  "gate_bundle rq am s =
     (case (rq_conversation rq, rq_bundle rq) of
        (Some _, Some v) \<Rightarrow>
          bind_ok (resolve_bundle_id (am_conversation am) v s) (\<lambda>i. Inr (am\<lparr>am_bundle := i\<rparr>))
      | _ \<Rightarrow> Inr am)"

text \<open>The path of an admitted caller: its addresses become internal keys and access is decided before any
  handler runs.\<close>

definition resolve_path :: "service \<Rightarrow> request \<Rightarrow> auth_context \<Rightarrow> db \<Rightarrow> admission app_result \<times> db" where
  "resolve_path sv rq ctx s =
     then_with (gate_conversation sv rq
         \<lparr>am_context = ctx, am_access = None, am_conversation = 0, am_group = 0, am_message = 0, am_bundle = 0\<rparr> s)
       (\<lambda>am s1. (bind_ok (gate_group sv rq am s1) (\<lambda>am.
                  bind_ok (gate_message sv rq am s1) (\<lambda>am. gate_bundle rq am s1)), s1))"

definition authenticated ::
  "service \<Rightarrow> request \<Rightarrow> session_state \<Rightarrow> db \<Rightarrow> admission app_result \<times> session_state \<times> db" where
  "authenticated sv rq ss s =
     (case presented_credential (rq_headers rq) of
        Inl e \<Rightarrow> (Inl e, ss, s)
      | Inr credential \<Rightarrow>
          (case authenticate (sv_uuid sv) (sv_client sv) (sv_now sv) credential
                  (route_requirement (rq_method rq) (rq_path rq)) (ss_adapter ss) of
             (Inl e, st) \<Rightarrow> (Inl e, ss\<lparr>ss_adapter := st\<rparr>, s)
           | (Inr ctx, st) \<Rightarrow>
               (case admit (\<lambda>n. sv_env sv (n + 2)) (sv_accounts sv) (sv_client sv) (sv_now sv) ctx
                       (ss\<lparr>ss_adapter := st\<rparr>) s of
                  (Inl e, ss1, s1) \<Rightarrow> (Inl e, ss1, s1)
                | (Inr _, ss1, s1) \<Rightarrow> (case resolve_path sv rq ctx s1 of (r, s2) \<Rightarrow> (r, ss1, s2)))))"

definition idempotency_header :: "headers \<Rightarrow> str app_result" where
  "idempotency_header hs =
     bind_ok (required_header hs ''idempotency-key'') (\<lambda>v.
       case idempotency_key v of
         Inl _ \<Rightarrow> Inl (validation ''idempotency key must contain 8 to 255 visible ASCII characters'') | Inr k \<Rightarrow> Inr k)"

text \<open>\<open>str::parse::<i64>\<close>.\<close>

fun digits_value :: "nat \<Rightarrow> str \<Rightarrow> nat option" where
  "digits_value n [] = Some n"
| "digits_value n (c # cs) = (if is_ascii_digit c then digits_value (10 * n + (c - 48)) cs else None)"

definition parse_i64 :: "str \<Rightarrow> int option" where
  "parse_i64 v =
     (let negative = (v \<noteq> [] \<and> hd v = 45);
          ds = (if v \<noteq> [] \<and> (hd v = 45 \<or> hd v = 43) then tl v else v) in
      if ds = [] then None
      else (case digits_value 0 ds of
              None \<Rightarrow> None
            | Some n \<Rightarrow> let x = (if negative then - int n else int n) in if is_i64 x then Some x else None))"

definition unquoted :: "str \<Rightarrow> str" where
  "unquoted raw =
     (case strip_prefix (lit ''\"'') raw of
        None \<Rightarrow> raw
      | Some rest \<Rightarrow> if rest \<noteq> [] \<and> last rest = 34 then butlast rest else raw)"

definition if_match :: "headers \<Rightarrow> int option app_result" where
  "if_match hs =
     bind_ok (optional_single_header hs ''if-match'') (\<lambda>raw.
       case raw of
         None \<Rightarrow> Inr None
       | Some raw \<Rightarrow>
           (case parse_i64 (unquoted raw) of
              None \<Rightarrow> Inl (validation ''If-Match must contain a non-negative draft version'')
            | Some v \<Rightarrow> if v < 0 then Inl (validation ''If-Match must contain a non-negative draft version'')
                        else Inr (Some v)))"

section \<open>Messages, bundles and drafts\<close>

definition storage_address :: "str \<Rightarrow> str option \<Rightarrow> str app_result" where
  "storage_address u isi =
     (case identifier_try_from (case isi of None \<Rightarrow> u | Some i \<Rightarrow> i @ 64 # u) of
        Inl _ \<Rightarrow> Inl (validation ''invalid routing address'') | Inr v \<Rightarrow> Inr v)"

definition valid_or :: "string + 'a \<Rightarrow> 'a app_result" where
  "valid_or r = map_sum validation id r"

definition route_sender ::
  "service \<Rightarrow> auth_context \<Rightarrow> message_create \<Rightarrow> db \<Rightarrow> message_create app_result \<times> db" where
  "route_sender sv ctx m s =
     (case mc_sender_id m of
        None \<Rightarrow> (Inr m, s)
      | Some sender \<Rightarrow>
          then_with (valid_or (address_parts (sv_uuid sv) sender), s) (\<lambda>(base, isi) s.
          then_with (resolve (sv_uuid sv) (sv_accounts sv) (sv_now sv) base s) (\<lambda>account s.
            (if acc_uuid account \<noteq> ar_id (ac_actor ctx)
             then Inl (forbidden ''sender_mismatch''
               (lit ''sender_id '' @ sender @ lit '' is not you; a message is always sent as the signed-in account (sender_id may only add an ISI, such as deliberate@si:you).''))
             else bind_ok (storage_address (acc_uuid account) isi) (\<lambda>v. Inr (m\<lparr>mc_sender_id := Some v\<rparr>)), s))))"

definition route_recipient :: "service \<Rightarrow> message_create \<Rightarrow> db \<Rightarrow> message_create app_result \<times> db" where
  "route_recipient sv m s =
     (case mc_recipient_id m of
        None \<Rightarrow> (Inr m, s)
      | Some recipient \<Rightarrow>
          then_with (valid_or (address_parts (sv_uuid sv) recipient), s) (\<lambda>(base, isi) s.
          then_with (resolve (sv_uuid sv) (sv_accounts sv) (sv_now sv) base s) (\<lambda>account s.
            (if isi \<noteq> None \<and> \<not> is_silicon account
             then Inl (validation ''an ISI address (isi@si:handle) can only name a Silicon'')
             else bind_ok (storage_address (acc_uuid account) isi) (\<lambda>v. Inr (m\<lparr>mc_recipient_id := Some v\<rparr>)), s))))"

definition resolve_routing ::
  "service \<Rightarrow> auth_context \<Rightarrow> message_create \<Rightarrow> db \<Rightarrow> message_create app_result \<times> db" where
  "resolve_routing sv ctx m s = then_with (route_sender sv ctx m s) (route_recipient sv)"

text \<open>A handler's own transaction, answered after it has committed.\<close>

definition committed :: "(db \<Rightarrow> ('a app_result \<times> db) app_result) \<Rightarrow> db \<Rightarrow> 'a app_result \<times> db" where
  "committed f s = then_with (in_transaction f s) (\<lambda>response s. (response, s))"

definition stored :: "(db \<Rightarrow> db app_result) \<Rightarrow> db \<Rightarrow> unit app_result \<times> db" where
  "stored f s = (case f s of Inl e \<Rightarrow> (Inl e, s) | Inr s' \<Rightarrow> (Inr (), s'))"

definition http_send ::
  "service \<Rightarrow> auth_context \<Rightarrow> uuid \<Rightarrow> str \<Rightarrow> message_create \<Rightarrow> db \<Rightarrow> message app_result \<times> db" where
  "http_send sv ctx conversation key body s =
     then_with (require_current (sv_uuid sv) s conversation, s) (\<lambda>_ s.
     then_with (resolve_routing sv ctx body s) (\<lambda>body s.
     then_with (valid_or (message_validate (sv_uuid sv) body), s) (\<lambda>_ s.
       committed (send_message (sv_store sv) (sv_env sv 1) conversation (ac_actor ctx) body key
         (via_app (ac_credential ctx))) s)))"

definition http_edit_message ::
  "service \<Rightarrow> admission \<Rightarrow> str \<Rightarrow> message_create \<Rightarrow> db \<Rightarrow> message app_result \<times> db" where
  "http_edit_message sv am key body s =
     then_with (resolve_routing sv (am_context am) body s) (\<lambda>body s.
       committed (revise_message (sv_store sv) (sv_env sv 1) (am_actor am) SenderReviser (am_conversation am)
         (am_message am) key (Some body)) s)"

text \<open>A handler that takes the access of the caller fails when the extractor decided none.\<close>

definition http_delete_message :: "service \<Rightarrow> admission \<Rightarrow> str \<Rightarrow> db \<Rightarrow> message app_result \<times> db" where
  "http_delete_message sv am key s =
     then_with (case am_access am of
         Some ParticipantAccess \<Rightarrow> Inr SenderReviser
       | Some CustodianAccess \<Rightarrow> Inr CustodianOfSender
       | _ \<Rightarrow> Inl NotFound, s) (\<lambda>reviser s.
       committed (revise_message (sv_store sv) (sv_env sv 1) (am_actor am) reviser (am_conversation am)
         (am_message am) key None) s)"

definition http_record_receipt ::
  "service \<Rightarrow> admission \<Rightarrow> str \<Rightarrow> receipt_status \<Rightarrow> db \<Rightarrow> message app_result \<times> db" where
  "http_record_receipt sv am device status s =
     then_with (validate_device_id device, s) (\<lambda>_ s.
       committed (record_receipt (sv_store sv) (sv_env sv 1) (am_conversation am) (am_message am) (am_actor am)
         device status) s)"

definition http_create_bundle ::
  "service \<Rightarrow> admission \<Rightarrow> str \<Rightarrow> bundle_create \<Rightarrow> db \<Rightarrow> message_bundle app_result \<times> db" where
  "http_create_bundle sv am key b s =
     (if ar_type (am_actor am) \<noteq> Silicon
      then (Inl (forbidden ''silicon_only'' (lit ''Only Silicons bundle messages.'')), s)
      else
        then_with (valid_or (bundle_validate (sv_uuid sv) b), s) (\<lambda>_ s.
        then_with (resolve_routing sv (am_context am) (bc_display_message b) s) (\<lambda>display s.
        then_with (valid_or (message_validate (sv_uuid sv) display), s) (\<lambda>_ s.
          committed (create_bundle (sv_store sv) (sv_env sv 1) (am_conversation am) (am_actor am)
            (b\<lparr>bc_display_message := display\<rparr>) key) s))))"

definition require_participant_access :: "conversation_access option \<Rightarrow> unit app_result" where
  "require_participant_access access =
     (case access of
        Some ParticipantAccess \<Rightarrow> Inr ()
      | Some CustodianAccess \<Rightarrow> Inl (forbidden ''custodian_read_only''
          (lit ''A custodian can read its Silicon's drafts (`?for=si:x`) but never write or delete them.''))
      | _ \<Rightarrow> Inl NotFound)"

definition http_put_draft ::
  "service \<Rightarrow> admission \<Rightarrow> int option \<Rightarrow> draft_input \<Rightarrow> db \<Rightarrow> put_draft_outcome app_result \<times> db" where
  "http_put_draft sv am expected input s =
     then_with (require_participant_access (am_access am), s) (\<lambda>_ s.
     then_with (valid_or (draft_validate input), s) (\<lambda>_ s.
       in_transaction (put_draft (sv_store sv) (sv_env sv 1) (am_conversation am) (am_actor am) expected input) s))"

definition http_delete_draft :: "service \<Rightarrow> admission \<Rightarrow> db \<Rightarrow> unit app_result \<times> db" where
  "http_delete_draft sv am s =
     then_with (require_participant_access (am_access am), s) (\<lambda>_ s.
       stored (delete_draft (sv_env sv 1) (am_actor am) (am_conversation am)) s)"

section \<open>Acting as a custodian\<close>

definition looked_after :: "service \<Rightarrow> auth_context \<Rightarrow> str \<Rightarrow> db \<Rightarrow> actor_ref app_result \<times> db" where
  "looked_after sv ctx selector s =
     then_with (require_own_session (ac_credential ctx) (lit ''Acting as a Silicon's custodian''), s) (\<lambda>_ s.
     then_with (resolve (sv_uuid sv) (sv_accounts sv) (sv_now sv) selector s) (\<lambda>account s.
       (if acc_uuid account = ar_id (ac_actor ctx) then Inr (ac_actor ctx)
        else if \<not> is_silicon account \<or> acc_custodian account \<noteq> Some (ar_id (ac_actor ctx))
        then Inl (forbidden ''not_custodian''
               (lit ''You are not the custodian of '' @ display_id account @
                lit ''; `for` only works for Silicons you look after.''))
        else Inr (account_actor account), s)))"

definition subject_of :: "service \<Rightarrow> auth_context \<Rightarrow> str option \<Rightarrow> db \<Rightarrow> actor_ref app_result \<times> db" where
  "subject_of sv ctx for_account s =
     (case for_account of Some silicon \<Rightarrow> looked_after sv ctx silicon s | None \<Rightarrow> (Inr (ac_actor ctx), s))"

definition http_get_draft :: "service \<Rightarrow> admission \<Rightarrow> str option \<Rightarrow> db \<Rightarrow> draft app_result \<times> db" where
  "http_get_draft sv am for_account s =
     then_with (subject_of sv (am_context am) for_account s) (\<lambda>owner s.
       (get_draft (sv_store sv) owner (am_conversation am) s, s))"

definition http_list_conversations ::
  "service \<Rightarrow> admission \<Rightarrow> str option \<Rightarrow> page_request \<Rightarrow> db \<Rightarrow> (conversation list \<times> str option) app_result \<times> db" where
  "http_list_conversations sv am for_account q s =
     then_with (validated_limit q, s) (\<lambda>_ s.
     then_with (subject_of sv (am_context am) for_account s) (\<lambda>subject s.
       (list_conversations (sv_store sv) s (am_actor am) subject q False, s)))"

section \<open>Conversations\<close>

definition http_create_conversation ::
  "service \<Rightarrow> admission \<Rightarrow> str \<Rightarrow> str list \<Rightarrow> db \<Rightarrow> conversation app_result \<times> db" where
  "http_create_conversation sv am key ids s =
     (if ids = [] then (Inl (validation ''participant_ids must contain at least one account id''), s)
      else if length ids \<ge> max_conversation_participants
      then (Inl (validation ''a conversation may contain at most 100 unique participants''), s)
      else
        then_with (resolve_all (sv_uuid sv) (sv_accounts sv) (sv_now sv) ids s) (\<lambda>accounts s.
        let others = filter (\<lambda>a. acc_uuid a \<noteq> ar_id (am_actor am)) accounts in
        if others = [] then (Inl (validation ''a conversation requires at least two unique participants''), s)
        else
          then_with (start_conversation (sv_store sv) (sv_env sv 1) (am_actor am) others (Some key) s) (\<lambda>i s.
            (get_conversation (sv_store sv) s (am_actor am) i, s))))"

definition names_one_account :: "uuid_lib \<Rightarrow> str \<Rightarrow> bool" where
  "names_one_account U v \<longleftrightarrow>
     \<not> (prefix (lit ''g:'') v \<or> contains_str (lit ''::'') v) \<and> (contains_str (lit '':'') v \<or> is_account_uuid U v)"

text \<open>Sending to an address: the recipient stays in the message only when it names one account.\<close>

definition addressed_body :: "uuid_lib \<Rightarrow> uuid \<Rightarrow> str \<Rightarrow> message_create \<Rightarrow> message_create app_result" where
  "addressed_body U conversation recipient body =
     (if recipient = uuid_show U conversation \<or> \<not> names_one_account U recipient
      then Inr (body\<lparr>mc_recipient_id := None\<rparr>)
      else (case identifier_try_from recipient of
              Inl _ \<Rightarrow> Inl (validation ''invalid message content'')
            | Inr v \<Rightarrow> Inr (body\<lparr>mc_recipient_id := Some v\<rparr>)))"

definition http_send_to_recipient ::
  "service \<Rightarrow> admission \<Rightarrow> str \<Rightarrow> str option \<Rightarrow> message_create \<Rightarrow> db \<Rightarrow> message app_result \<times> db" where
  "http_send_to_recipient sv am key recipient body s =
     then_with (case recipient of None \<Rightarrow> Inl (validation ''recipient_id is required'') | Some r \<Rightarrow> Inr r, s) (\<lambda>r s.
     then_with (resolve_conversation_path (sv_store sv) (sv_env sv 0) (sv_accounts sv) (am_actor am) r True s)
       (\<lambda>(i, access) s.
         if access \<noteq> ParticipantAccess
         then (Inl (forbidden ''custodian_read_only''
                 (lit ''You can read this conversation as a custodian but only its participants send to it.'')), s)
         else then_with (addressed_body (sv_uuid sv) i r body, s) (\<lambda>body s.
           http_send sv (am_context am) i key body s)))"

definition http_get_presence :: "service \<Rightarrow> admission \<Rightarrow> str \<Rightarrow> db \<Rightarrow> presence app_result \<times> db" where
  "http_get_presence sv am selector s =
     then_with (resolve (sv_uuid sv) (sv_accounts sv) (sv_now sv) selector s) (\<lambda>target s.
       (presence_for (sv_now sv) (am_actor am) (account_actor target) s, s))"

definition validate_gif_query :: "str \<Rightarrow> unit app_result" where
  "validate_gif_query q =
     (if trim q = [] \<or> length q > 50 \<or> list_ex is_control q
      then Inl (validation ''GIF search query must contain 1 to 50 non-control characters'') else Inr ())"

section \<open>Groups\<close>

definition max_members_per_request :: nat where "max_members_per_request = 100"

definition not_manager :: app_error where
  "not_manager = forbidden ''not_group_owner''
     (lit ''Only the group's owners (and the custodian of a Silicon owner) manage it. Ask an owner to make you an owner.'')"

definition require_manager :: "auth_context \<Rightarrow> uuid \<Rightarrow> db \<Rightarrow> unit app_result" where
  "require_manager ctx gid s =
     bind_ok (require_own_session (ac_credential ctx) (lit ''Managing a group'')) (\<lambda>_.
       if manages_group (ac_actor ctx) gid s then Inr () else Inl not_manager)"

definition resolve_members :: "service \<Rightarrow> str list \<Rightarrow> db \<Rightarrow> account list app_result \<times> db" where
  "resolve_members sv ids s =
     (if ids = [] \<or> length ids > max_members_per_request
      then (Inl (validation ''member_ids must name 1 to 100 accounts per request''), s)
      else resolve_all (sv_uuid sv) (sv_accounts sv) (sv_now sv) ids s)"

definition invitee_of :: "auth_context \<Rightarrow> db \<Rightarrow> account \<Rightarrow> invitee app_result" where
  "invitee_of ctx s a =
     (if acc_deleted a then Inl (account_deleted (display_id a))
      else bind_ok (require_may_reach (ac_actor ctx) a s) (\<lambda>_.
        Inr \<lparr>iv_actor = account_actor a, iv_accepted = (acc_custodian a = Some (ar_id (ac_actor ctx)))\<rparr>))"

definition resolve_invitees :: "service \<Rightarrow> auth_context \<Rightarrow> str list \<Rightarrow> db \<Rightarrow> invitee list app_result \<times> db" where
  "resolve_invitees sv ctx ids s =
     (if ids = [] then (Inr [], s)
      else then_with (resolve_members sv ids s) (\<lambda>accounts s. (map_result (invitee_of ctx s) accounts, s)))"

definition http_get_group :: "service \<Rightarrow> admission \<Rightarrow> db \<Rightarrow> conversation app_result \<times> db" where
  "http_get_group sv am s =
     (if am_access am = None then (Inl NotFound, s)
      else if am_access am = Some InviteeAccess
      then (Inl (refused 403 ''invitation_pending''
              ''You are invited to this group but have not accepted yet: see GET /api/v1/invitations, then POST /api/v1/groups/{group}/accept.''), s)
      else (get_conversation (sv_store sv) s (am_actor am) (am_group am), s))"

definition http_create_group ::
  "service \<Rightarrow> admission \<Rightarrow> str \<Rightarrow> group_settings \<Rightarrow> str list \<Rightarrow> db \<Rightarrow> conversation app_result \<times> db" where
  "http_create_group sv am key settings ids s =
     then_with (require_own_session (ac_credential (am_context am)) (lit ''Creating a group''), s) (\<lambda>_ s.
     then_with (resolve_invitees sv (am_context am) ids s) (\<lambda>invitees s.
     then_with (in_transaction (create_group (sv_env sv 1) (am_actor am) settings invitees key) s) (\<lambda>gid s.
       (get_conversation (sv_store sv) s (am_actor am) gid, s))))"

definition http_update_group ::
  "service \<Rightarrow> admission \<Rightarrow> int option \<Rightarrow> str \<Rightarrow> group_settings \<Rightarrow> db \<Rightarrow> group_details app_result \<times> db" where
  "http_update_group sv am version key settings s =
     then_with (require_manager (am_context am) (am_group am) s, s) (\<lambda>_ s.
     then_with (case version of None \<Rightarrow> Inl (validation ''If-Match is required when updating a group'')
                | Some v \<Rightarrow> Inr v, s) (\<lambda>v s.
       in_transaction (update_group (sv_env sv 1) (am_actor am) (am_group am) settings v key) s))"

definition http_invite :: "service \<Rightarrow> admission \<Rightarrow> str \<Rightarrow> str list \<Rightarrow> db \<Rightarrow> group_details app_result \<times> db" where
  "http_invite sv am key ids s =
     then_with (require_manager (am_context am) (am_group am) s, s) (\<lambda>_ s.
     then_with (resolve_invitees sv (am_context am) ids s) (\<lambda>invitees s.
       in_transaction (invite_to_group (sv_env sv 1) (am_actor am) (am_group am) invitees key) s))"

definition http_remove :: "service \<Rightarrow> admission \<Rightarrow> str \<Rightarrow> str list \<Rightarrow> db \<Rightarrow> group_details app_result \<times> db" where
  "http_remove sv am key ids s =
     then_with (resolve_members sv ids s) (\<lambda>members s.
       if \<not> manages_group (am_actor am) (am_group am) s \<and>
          \<not> list_all (\<lambda>m. acc_custodian m = Some (ar_id (am_actor am))) members
       then (Inl not_manager, s)
       else in_transaction (remove_from_group (sv_env sv 1) (am_actor am) (am_group am)
              (map account_actor members) key) s)"

definition http_owners ::
  "service \<Rightarrow> admission \<Rightarrow> str \<Rightarrow> str list \<Rightarrow> bool \<Rightarrow> db \<Rightarrow> group_details app_result \<times> db" where
  "http_owners sv am key ids promote s =
     then_with (require_manager (am_context am) (am_group am) s, s) (\<lambda>_ s.
     then_with (resolve_members sv ids s) (\<lambda>members s.
       in_transaction (set_group_owners (sv_env sv 1) (am_actor am) (am_group am) (map account_actor members)
         promote key) s))"

definition http_accept :: "service \<Rightarrow> admission \<Rightarrow> db \<Rightarrow> conversation app_result \<times> db" where
  "http_accept sv am s =
     then_with (require_own_session (ac_credential (am_context am)) (lit ''Accepting an invitation''), s) (\<lambda>_ s.
     then_with (stored (respond_to_invitation (sv_env sv 1) (am_actor am) (am_group am) True) s) (\<lambda>_ s.
       (get_conversation (sv_store sv) s (am_actor am) (am_group am), s)))"

definition http_decline :: "service \<Rightarrow> admission \<Rightarrow> str option \<Rightarrow> db \<Rightarrow> unit app_result \<times> db" where
  "http_decline sv am for_account s =
     then_with (subject_of sv (am_context am) for_account s) (\<lambda>invitee s.
       stored (respond_to_invitation (sv_env sv 1) invitee (am_group am) False) s)"

definition http_leave :: "service \<Rightarrow> admission \<Rightarrow> db \<Rightarrow> unit app_result \<times> db" where
  "http_leave sv am s =
     then_with (require_own_session (ac_credential (am_context am)) (lit ''Leaving a group''), s) (\<lambda>_ s.
       stored (leave_group (sv_env sv 1) (am_actor am) (am_group am)) s)"

definition http_invitations :: "service \<Rightarrow> admission \<Rightarrow> str option \<Rightarrow> db \<Rightarrow> invitation list app_result \<times> db" where
  "http_invitations sv am for_account s =
     then_with (subject_of sv (am_context am) for_account s) (\<lambda>invitee s. (Inr (invitations_for invitee s), s))"

section \<open>Allow-lists\<close>

definition validate_count :: "str list \<Rightarrow> unit app_result" where
  "validate_count ids =
     (if ids = [] \<or> length ids > 100 then Inl (validation ''account_ids must name 1 to 100 accounts'') else Inr ())"

definition list_owner :: "service \<Rightarrow> auth_context \<Rightarrow> str option \<Rightarrow> db \<Rightarrow> actor_ref app_result \<times> db" where
  "list_owner sv ctx for_account s =
     then_with (require_own_session (ac_credential ctx) (lit ''Managing an allow-list''), s) (\<lambda>_ s.
     then_with (subject_of sv ctx for_account s) (\<lambda>silicon s.
       (if ar_type silicon \<noteq> Silicon
        then Inl (forbidden ''carbon_has_no_allow_list''
               (lit ''Only Silicons have an allow-list: any account signed in to DM can message a Carbon. A custodian manages a Silicon's list with ?for=si:handle.''))
        else Inr silicon, s)))"

fun allow_each :: "service \<Rightarrow> actor_ref \<Rightarrow> actor_ref \<Rightarrow> account list \<Rightarrow> db \<Rightarrow> unit app_result \<times> db" where
  "allow_each sv silicon by [] s = (Inr (), s)"
| "allow_each sv silicon by (a # as) s =
     (if acc_uuid a = ar_id silicon then (Inl (validation ''a Silicon is always allowed to reach itself''), s)
      else then_with (in_transaction (allow_contact (e_now (sv_env sv 1)) (ar_id silicon) (account_actor a) (ar_id by)) s)
             (\<lambda>_ s. allow_each sv silicon by as s))"

definition http_allow ::
  "service \<Rightarrow> admission \<Rightarrow> str option \<Rightarrow> str list \<Rightarrow> db \<Rightarrow> allowance_row list app_result \<times> db" where
  "http_allow sv am for_account ids s =
     then_with (list_owner sv (am_context am) for_account s) (\<lambda>silicon s.
     then_with (validate_count ids, s) (\<lambda>_ s.
     then_with (resolve_all (sv_uuid sv) (sv_accounts sv) (sv_now sv) ids s) (\<lambda>accounts s.
     then_with (allow_each sv silicon (am_actor am) accounts s) (\<lambda>_ s. (Inr (allow_list (ar_id silicon) s), s)))))"

definition http_disallow ::
  "service \<Rightarrow> admission \<Rightarrow> str option \<Rightarrow> str list \<Rightarrow> db \<Rightarrow> allowance_row list app_result \<times> db" where
  "http_disallow sv am for_account ids s =
     then_with (list_owner sv (am_context am) for_account s) (\<lambda>silicon s.
     then_with (validate_count ids, s) (\<lambda>_ s.
     then_with (resolve_all (sv_uuid sv) (sv_accounts sv) (sv_now sv) ids s) (\<lambda>accounts s.
     let s' = fold (\<lambda>a s. snd (disallow_contact (ar_id silicon) (account_actor a) s)) accounts s in
       (Inr (allow_list (ar_id silicon) s'), s'))))"

definition http_allow_list :: "service \<Rightarrow> admission \<Rightarrow> str option \<Rightarrow> db \<Rightarrow> allowance_row list app_result \<times> db" where
  "http_allow_list sv am for_account s =
     then_with (list_owner sv (am_context am) for_account s) (\<lambda>silicon s. (Inr (allow_list (ar_id silicon) s), s))"

section \<open>Calls\<close>

text \<open>The calls of the interface that read or change conversations, groups and allow-lists, with their
  decoded input. References to messages in a body reach the handlers as internal keys.\<close>

datatype call =
    SendCall message_create
  | EditCall message_create
  | DeleteMessageCall
  | ReceiptCall str receipt_status
  | CreateBundleCall bundle_create
  | PutDraftCall draft_input
  | DeleteDraftCall
  | GetMessageCall
  | ListMessagesCall page_request bool
  | GetBundleCall
  | GetDraftCall "str option"
  | SendToCall "str option" message_create
  | CreateConversationCall "str list"
  | ListConversationsCall "str option" page_request
  | PresenceCall str
  | GetGroupCall
  | CreateGroupCall group_settings "str list"
  | UpdateGroupCall group_settings
  | InviteCall "str list"
  | RemoveMembersCall "str list"
  | OwnersCall bool "str list"
  | AcceptCall
  | DeclineCall "str option"
  | LeaveCall
  | InvitationsCall "str option"
  | AllowListCall "str option"
  | AllowCall "str option" "str list"
  | DisallowCall "str option" "str list"

datatype reply =
    MessageReply message
  | MessagesReply "message list \<times> str option"
  | BundleReply message_bundle
  | BundleDetailReply bundle_detail
  | DraftReply draft
  | DraftOutcomeReply put_draft_outcome
  | ConversationReply conversation
  | ConversationsReply "conversation list \<times> str option"
  | PresenceReply presence
  | GroupReply group_details
  | InvitationsReply "invitation list"
  | AllowListReply "allowance_row list"
  | NoContent

text \<open>The method and the operation of the route that serves a call (\<open>router.rs\<close>).\<close>

fun route :: "call \<Rightarrow> string \<times> string" where
  "route (SendCall _) = (''POST'', ''message.create'')"
| "route (EditCall _) = (''PATCH'', ''message.updated'')"
| "route DeleteMessageCall = (''DELETE'', ''message.deleted'')"
| "route (ReceiptCall _ _) = (''POST'', ''receipt'')"
| "route (CreateBundleCall _) = (''POST'', ''create_bundle'')"
| "route (PutDraftCall _) = (''PUT'', ''put_draft'')"
| "route DeleteDraftCall = (''DELETE'', ''delete_draft'')"
| "route GetMessageCall = (''GET'', ''message'')"
| "route (ListMessagesCall _ _) = (''GET'', ''messages'')"
| "route GetBundleCall = (''GET'', ''bundle'')"
| "route (GetDraftCall _) = (''GET'', ''draft'')"
| "route (SendToCall _ _) = (''POST'', ''message.create'')"
| "route (CreateConversationCall _) = (''POST'', ''create_conversation'')"
| "route (ListConversationsCall _ _) = (''GET'', ''conversations'')"
| "route (PresenceCall _) = (''GET'', ''presence'')"
| "route GetGroupCall = (''GET'', ''group'')"
| "route (CreateGroupCall _ _) = (''POST'', ''create_group'')"
| "route (UpdateGroupCall _) = (''PATCH'', ''update_group'')"
| "route (InviteCall _) = (''POST'', ''invite_group_members'')"
| "route (RemoveMembersCall _) = (''DELETE'', ''remove_group_members'')"
| "route (OwnersCall promote _) = (if promote then (''POST'', ''add_group_owners'') else (''DELETE'', ''remove_group_owners''))"
| "route AcceptCall = (''POST'', ''accept_group_invitation'')"
| "route (DeclineCall _) = (''POST'', ''decline_group_invitation'')"
| "route LeaveCall = (''POST'', ''leave_group'')"
| "route (InvitationsCall _) = (''GET'', ''invitations'')"
| "route (AllowListCall _) = (''GET'', ''allow_list'')"
| "route (AllowCall _ _) = (''POST'', ''allow_list_add'')"
| "route (DisallowCall _ _) = (''DELETE'', ''allow_list_remove'')"

fun in_conversation_path :: "call \<Rightarrow> bool" where
  "in_conversation_path (SendCall _) = True"
| "in_conversation_path (EditCall _) = True"
| "in_conversation_path DeleteMessageCall = True"
| "in_conversation_path (ReceiptCall _ _) = True"
| "in_conversation_path (CreateBundleCall _) = True"
| "in_conversation_path (PutDraftCall _) = True"
| "in_conversation_path DeleteDraftCall = True"
| "in_conversation_path GetMessageCall = True"
| "in_conversation_path (ListMessagesCall _ _) = True"
| "in_conversation_path GetBundleCall = True"
| "in_conversation_path (GetDraftCall _) = True"
| "in_conversation_path _ = False"

definition fits :: "request \<Rightarrow> call \<Rightarrow> bool" where
  "fits rq call \<longleftrightarrow> route call = (rq_method rq, http_type (rq_method rq) (rq_path rq)) \<and>
     (in_conversation_path call \<longleftrightarrow> rq_conversation rq \<noteq> None) \<and>
     (in_conversation_path call \<longrightarrow> rq_group rq = None)"

definition answer :: "('a \<Rightarrow> reply) \<Rightarrow> 'a app_result \<times> db \<Rightarrow> reply app_result \<times> db" where
  "answer f r = map_prod (map_sum id f) id r"

definition keyed_call ::
  "request \<Rightarrow> (str \<Rightarrow> db \<Rightarrow> 'a app_result \<times> db) \<Rightarrow> db \<Rightarrow> 'a app_result \<times> db" where
  "keyed_call rq f s = then_with (idempotency_header (rq_headers rq), s) f"

definition matched_call ::
  "request \<Rightarrow> (int option \<Rightarrow> db \<Rightarrow> 'a app_result \<times> db) \<Rightarrow> db \<Rightarrow> 'a app_result \<times> db" where
  "matched_call rq f s = then_with (if_match (rq_headers rq), s) f"

fun handle :: "service \<Rightarrow> request \<Rightarrow> admission \<Rightarrow> call \<Rightarrow> db \<Rightarrow> reply app_result \<times> db" where
  "handle sv rq am (SendCall body) s =
     answer MessageReply (keyed_call rq (\<lambda>key. http_send sv (am_context am) (am_conversation am) key body) s)"
| "handle sv rq am (EditCall body) s = answer MessageReply (keyed_call rq (\<lambda>key. http_edit_message sv am key body) s)"
| "handle sv rq am DeleteMessageCall s = answer MessageReply (keyed_call rq (http_delete_message sv am) s)"
| "handle sv rq am (ReceiptCall device status) s = answer MessageReply (http_record_receipt sv am device status s)"
| "handle sv rq am (CreateBundleCall b) s = answer BundleReply (keyed_call rq (\<lambda>key. http_create_bundle sv am key b) s)"
| "handle sv rq am (PutDraftCall input) s =
     answer DraftOutcomeReply (matched_call rq (\<lambda>expected. http_put_draft sv am expected input) s)"
| "handle sv rq am DeleteDraftCall s = answer (\<lambda>_. NoContent) (http_delete_draft sv am s)"
| "handle sv rq am GetMessageCall s =
     answer MessageReply (get_message (sv_store sv) s (am_actor am) (am_conversation am) (am_message am), s)"
| "handle sv rq am (ListMessagesCall q members) s =
     answer MessagesReply (then_with (validated_limit q, s) (\<lambda>_ s.
       (list_messages (sv_store sv) s (am_actor am) (am_conversation am) q members, s)))"
| "handle sv rq am GetBundleCall s =
     answer BundleDetailReply (get_bundle (sv_store sv) (sv_uuid sv) s (am_actor am) (am_conversation am) (am_bundle am), s)"
| "handle sv rq am (GetDraftCall for_account) s = answer DraftReply (http_get_draft sv am for_account s)"
| "handle sv rq am (SendToCall recipient body) s =
     answer MessageReply (keyed_call rq (\<lambda>key. http_send_to_recipient sv am key recipient body) s)"
| "handle sv rq am (CreateConversationCall ids) s =
     answer ConversationReply (keyed_call rq (\<lambda>key. http_create_conversation sv am key ids) s)"
| "handle sv rq am (ListConversationsCall for_account q) s =
     answer ConversationsReply (http_list_conversations sv am for_account q s)"
| "handle sv rq am (PresenceCall selector) s = answer PresenceReply (http_get_presence sv am selector s)"
| "handle sv rq am GetGroupCall s = answer ConversationReply (http_get_group sv am s)"
| "handle sv rq am (CreateGroupCall settings ids) s =
     answer ConversationReply (keyed_call rq (\<lambda>key. http_create_group sv am key settings ids) s)"
| "handle sv rq am (UpdateGroupCall settings) s =
     answer GroupReply (matched_call rq (\<lambda>version. keyed_call rq (\<lambda>key. http_update_group sv am version key settings)) s)"
| "handle sv rq am (InviteCall ids) s = answer GroupReply (keyed_call rq (\<lambda>key. http_invite sv am key ids) s)"
| "handle sv rq am (RemoveMembersCall ids) s = answer GroupReply (keyed_call rq (\<lambda>key. http_remove sv am key ids) s)"
| "handle sv rq am (OwnersCall promote ids) s =
     answer GroupReply (keyed_call rq (\<lambda>key. http_owners sv am key ids promote) s)"
| "handle sv rq am AcceptCall s = answer ConversationReply (http_accept sv am s)"
| "handle sv rq am (DeclineCall for_account) s = answer (\<lambda>_. NoContent) (http_decline sv am for_account s)"
| "handle sv rq am LeaveCall s = answer (\<lambda>_. NoContent) (http_leave sv am s)"
| "handle sv rq am (InvitationsCall for_account) s = answer InvitationsReply (http_invitations sv am for_account s)"
| "handle sv rq am (AllowListCall for_account) s = answer AllowListReply (http_allow_list sv am for_account s)"
| "handle sv rq am (AllowCall for_account ids) s = answer AllowListReply (http_allow sv am for_account ids s)"
| "handle sv rq am (DisallowCall for_account ids) s = answer AllowListReply (http_disallow sv am for_account ids s)"

definition serve ::
  "service \<Rightarrow> request \<Rightarrow> call \<Rightarrow> session_state \<Rightarrow> db \<Rightarrow> reply app_result \<times> session_state \<times> db" where
  "serve sv rq call ss s =
     (case authenticated sv rq ss s of
        (Inl e, ss1, s1) \<Rightarrow> (Inl e, ss1, s1)
      | (Inr am, ss1, s1) \<Rightarrow> (case handle sv rq am call s1 of (r, s2) \<Rightarrow> (r, ss1, s2)))"

section \<open>The gate\<close>

text \<open>What a call needs of the caller, in the state the gate leaves behind.\<close>

definition sent_by :: "db \<Rightarrow> admission \<Rightarrow> actor_ref \<Rightarrow> bool" where
  "sent_by s am a \<longleftrightarrow>
     (\<exists>m\<in>set (messages s). m_id m = am_message am \<and> m_conversation m = am_conversation am \<and> m_sender m = a)"

abbreviation takes_part :: "db \<Rightarrow> admission \<Rightarrow> bool" where
  "takes_part s am \<equiv> is_participant s (am_conversation am) (am_actor am)"

definition own_sign_in :: "admission \<Rightarrow> bool" where
  "own_sign_in am \<longleftrightarrow> via_app (ac_credential (am_context am)) = None"

text \<open>The owner of an allow-list is the caller itself or a Silicon the caller is custodian of.\<close>

definition owns_list :: "service \<Rightarrow> admission \<Rightarrow> str option \<Rightarrow> db \<Rightarrow> bool" where
  "owns_list sv am for_account s =
     (case for_account of
        None \<Rightarrow> ar_type (am_actor am) = Silicon
      | Some selector \<Rightarrow>
          (case resolve (sv_uuid sv) (sv_accounts sv) (sv_now sv) selector s of
             (Inr a, _) \<Rightarrow> acc_uuid a = ar_id (am_actor am) \<and> ar_type (am_actor am) = Silicon \<or>
               is_silicon a \<and> acc_custodian a = Some (ar_id (am_actor am))
           | _ \<Rightarrow> False))"

definition may_remove :: "service \<Rightarrow> admission \<Rightarrow> str list \<Rightarrow> db \<Rightarrow> bool" where
  "may_remove sv am ids s =
     (case resolve_members sv ids s of
        (Inr members, s1) \<Rightarrow> manages_group (am_actor am) (am_group am) s1 \<or>
          (\<forall>m\<in>set members. acc_custodian m = Some (ar_id (am_actor am)))
      | _ \<Rightarrow> False)"

definition invited :: "invitation_status \<Rightarrow> uuid \<Rightarrow> actor_ref \<Rightarrow> db \<Rightarrow> bool" where
  "invited status gid who s \<longleftrightarrow> (\<exists>i\<in>set (invitations s). invitation_key i = (gid, who) \<and> i_status i = status)"

fun authorized :: "service \<Rightarrow> db \<Rightarrow> admission \<Rightarrow> call \<Rightarrow> bool" where
  "authorized sv s am (SendCall _) \<longleftrightarrow> takes_part s am"
| "authorized sv s am (EditCall _) \<longleftrightarrow> takes_part s am \<and> sent_by s am (am_actor am)"
| "authorized sv s am DeleteMessageCall \<longleftrightarrow>
     takes_part s am \<and> sent_by s am (am_actor am) \<or>
     reads_as_custodian s (am_actor am) (am_conversation am) \<and>
       (\<exists>silicon. sent_by s am (actor Silicon silicon) \<and>
          sql_exists (\<lambda>x. a_uuid x = silicon \<and> a_custodian x = Some (ar_id (am_actor am))) (accounts s))"
| "authorized sv s am (ReceiptCall _ _) \<longleftrightarrow> takes_part s am \<and> (\<exists>a. sent_by s am a \<and> parse_target a \<noteq> Inr (am_actor am))"
| "authorized sv s am (CreateBundleCall _) \<longleftrightarrow> takes_part s am \<and> ar_type (am_actor am) = Silicon"
| "authorized sv s am (PutDraftCall _) \<longleftrightarrow> takes_part s am"
| "authorized sv s am DeleteDraftCall \<longleftrightarrow> takes_part s am"
| "authorized sv s am (UpdateGroupCall _) \<longleftrightarrow> manages_group (am_actor am) (am_group am) s"
| "authorized sv s am (InviteCall _) \<longleftrightarrow> manages_group (am_actor am) (am_group am) s"
| "authorized sv s am (OwnersCall _ _) \<longleftrightarrow> manages_group (am_actor am) (am_group am) s"
| "authorized sv s am (RemoveMembersCall ids) \<longleftrightarrow> may_remove sv am ids s"
| "authorized sv s am AcceptCall \<longleftrightarrow> invited Pending (am_group am) (am_actor am) s"
| "authorized sv s am LeaveCall \<longleftrightarrow> invited Accepted (am_group am) (am_actor am) s"
| "authorized sv s am (AllowCall for_account _) \<longleftrightarrow> owns_list sv am for_account s"
| "authorized sv s am (DisallowCall for_account _) \<longleftrightarrow> owns_list sv am for_account s"
| "authorized sv s am _ \<longleftrightarrow> True"

lemma then_with_Inr:
  "then_with r f = (Inr y, s') \<longleftrightarrow> (\<exists>x s1. r = (Inr x, s1) \<and> f x s1 = (Inr y, s'))"
  by (cases r; cases "fst r") (auto simp: then_with_def)

lemma in_transaction_Inr: "in_transaction f s = (Inr x, s') \<longleftrightarrow> f s = Inr (x, s')"
  by (auto simp: in_transaction_def split: sum.splits)

lemma stored_Inr: "stored f s = (Inr x, s') \<longleftrightarrow> f s = Inr s'"
  by (auto simp: stored_def split: sum.splits)

lemma committed_Inr: "committed f s = (Inr x, s') \<longleftrightarrow> f s = Inr (Inr x, s')"
  by (simp add: committed_def then_with_Inr in_transaction_Inr)

lemma answer_Inr: "answer f r = (Inr y, s') \<longleftrightarrow> (\<exists>x. r = (Inr x, s') \<and> y = f x)"
  by (cases r; cases "fst r") (auto simp: answer_def)

lemma valid_or_Inr: "valid_or r = Inr x \<longleftrightarrow> r = Inr x"
  by (cases r) (auto simp: valid_or_def)

lemmas handler_inversion = then_with_Inr in_transaction_Inr stored_Inr committed_Inr answer_Inr valid_or_Inr
  keyed_call_def matched_call_def

lemma resolve_conversation_path_access:
  assumes "resolve_conversation_path L E A caller v create s = (Inr (i, access), s')"
  shows "conversation_access s' caller i = Some access"
  using assms
  by (auto simp: resolve_conversation_path_def then_with_Inr Option.bind_eq_Some_conv split: option.splits)

lemma gate_frame:
  "gate_group sv rq am s = Inr am' \<Longrightarrow> am_context am' = am_context am \<and> am_conversation am' = am_conversation am"
  "gate_message sv rq am s = Inr am' \<Longrightarrow> am_context am' = am_context am \<and> am_conversation am' = am_conversation am \<and>
     am_access am' = am_access am \<and> am_group am' = am_group am"
  "gate_bundle rq am s = Inr am' \<Longrightarrow> am_context am' = am_context am \<and> am_conversation am' = am_conversation am \<and>
     am_access am' = am_access am \<and> am_group am' = am_group am \<and> am_message am' = am_message am"
  by (auto simp: gate_group_def gate_message_def gate_bundle_def split: option.splits)

text \<open>Past the gate of a conversation the access of the caller is the one the store decides; an invitee
  never passes and a custodian only reads or deletes.\<close>

lemma resolve_path_access:
  assumes "resolve_path sv rq ctx s = (Inr am, s1)" "rq_conversation rq \<noteq> None" "rq_group rq = None"
  shows "am_context am = ctx" "am_access am = conversation_access s1 (am_actor am) (am_conversation am)"
    "am_access am = Some ParticipantAccess \<or>
     am_access am = Some CustodianAccess \<and> (rq_method rq = ''GET'' \<or> rq_method rq = ''DELETE'')"
proof -
  obtain am0 am1 am2 where g: "gate_conversation sv rq
      \<lparr>am_context = ctx, am_access = None, am_conversation = 0, am_group = 0, am_message = 0, am_bundle = 0\<rparr> s = (Inr am0, s1)"
    "gate_group sv rq am0 s1 = Inr am1" "gate_message sv rq am1 s1 = Inr am2" "gate_bundle rq am2 s1 = Inr am"
    using assms(1) by (auto simp: resolve_path_def then_with_Inr)
  have "am1 = am0" using g(2) assms(3) by (simp add: gate_group_def)
  moreover have "am_context am0 = ctx \<and> am_access am0 = conversation_access s1 ctx' (am_conversation am0) \<and>
      (am_access am0 = Some ParticipantAccess \<or>
       am_access am0 = Some CustodianAccess \<and> (rq_method rq = ''GET'' \<or> rq_method rq = ''DELETE''))"
    if "ctx' = ac_actor ctx" for ctx'
    using g(1) assms(2) that
    by (auto simp: gate_conversation_def then_with_Inr split: if_splits dest!: resolve_conversation_path_access)
       (metis conversation_access.exhaust)+
  moreover note gate_frame(2) [OF g(3)] gate_frame(3) [OF g(4)]
  ultimately show "am_context am = ctx" "am_access am = conversation_access s1 (am_actor am) (am_conversation am)"
    "am_access am = Some ParticipantAccess \<or>
     am_access am = Some CustodianAccess \<and> (rq_method rq = ''GET'' \<or> rq_method rq = ''DELETE'')"
    by auto
qed

lemma access_participant:
  "conversation_access s a c = Some ParticipantAccess \<Longrightarrow> is_participant s c a"
  "conversation_access s a c = Some CustodianAccess \<Longrightarrow> reads_as_custodian s a c"
  by (auto simp: conversation_access_def split: if_splits)

lemma authenticatedE:
  assumes "authenticated sv rq ss s = (Inr am, ss', s1)"
  obtains credential ctx st stored s0 where "presented_credential (rq_headers rq) = Inr credential"
    "authenticate (sv_uuid sv) (sv_client sv) (sv_now sv) credential (route_requirement (rq_method rq) (rq_path rq))
       (ss_adapter ss) = (Inr ctx, st)"
    "admit (\<lambda>n. sv_env sv (n + 2)) (sv_accounts sv) (sv_client sv) (sv_now sv) ctx (ss\<lparr>ss_adapter := st\<rparr>) s = (Inr stored, ss', s0)"
    "resolve_path sv rq ctx s0 = (Inr am, s1)"
  using assms by (auto simp: authenticated_def split: sum.splits prod.splits)

text \<open>A caller acting through an app has the scope of the route.\<close>

lemma proof_has_scope:
  assumes "authenticate U C now credential rq st = (Inr ctx, st')" "via_app (ac_credential ctx) \<noteq> None"
  shows "\<exists>scope. rq_proof_scope rq = Some scope \<and> lit scope \<in> set (ac_scopes ctx)"
  using assms
  by (auto simp: authenticate_def authenticate_bearer_def authenticate_proof_def bearer_context_def proof_context_def Let_def
      split: scheme.splits if_splits option.splits prod.splits sum.splits bool.splits)

section \<open>Resolving accounts touches the cache of accounts only\<close>

lemma record_lookup_frame: "record_lookup now l s = Inr (b, s') \<Longrightarrow> \<exists>t. s' = s\<lparr>accounts := t\<rparr>"
  by (auto simp: record_lookup_def Let_def put_accounts_ok)

lemma after_lookup_frame: "after_lookup now u n l s = (r, s') \<Longrightarrow> \<exists>t. s' = s\<lparr>accounts := t\<rparr>"
proof -
  assume run: "after_lookup now u n l s = (r, s')"
  obtain r1 s1 where tx: "in_transaction (record_lookup now l) s = (r1, s1)" by fastforce
  have "\<exists>t. s1 = s\<lparr>accounts := t\<rparr>"
    using tx by (rule in_transaction_cases) (auto intro: record_lookup_frame exI [of _ "accounts s"])
  moreover have "s' = s1" using run tx by (cases r1) (auto simp: after_lookup_def)
  ultimately show ?thesis by simp
qed

lemma accounts_self: "\<exists>t. s = s\<lparr>accounts := t\<rparr>"
  by (rule exI [of _ "accounts s"]) simp

lemma then_with_service_frame:
  assumes "then_with (x, s) f = (r, s')" "\<And>l r s'. f l s = (r, s') \<Longrightarrow> \<exists>t. s' = s\<lparr>accounts := t\<rparr>"
  shows "\<exists>t. s' = s\<lparr>accounts := t\<rparr>"
  using assms accounts_self by (cases x) auto

lemma resolve_frame:
  assumes "resolve U A now v s = (r, s')"
  shows "\<exists>t. s' = s\<lparr>accounts := t\<rparr>"
  using assms
  by (auto simp: resolve_def directory_account_def Let_def accounts_self split: if_splits option.splits list.splits
      dest!: then_with_service_frame intro: after_lookup_frame)

lemma resolve_then_frame:
  assumes "then_with (resolve U A now v s) (\<lambda>a s. (h a s, s)) = (r, s')"
  shows "\<exists>t. s' = s\<lparr>accounts := t\<rparr>"
proof -
  obtain r1 s1 where res: "resolve U A now v s = (r1, s1)" by fastforce
  then have "s' = s1" using assms by (cases r1) auto
  with resolve_frame [OF res] show ?thesis by simp
qed

lemma route_frame:
  "route_sender sv ctx m s = (r, s') \<Longrightarrow> \<exists>t. s' = s\<lparr>accounts := t\<rparr>"
  "route_recipient sv m s = (r, s') \<Longrightarrow> \<exists>t. s' = s\<lparr>accounts := t\<rparr>"
  by (auto simp: route_sender_def route_recipient_def valid_or_def accounts_self split: option.splits sum.splits prod.splits)
     (cases "address_parts (sv_uuid sv) (the (mc_sender_id m))"; cases "address_parts (sv_uuid sv) (the (mc_recipient_id m))";
      auto simp: accounts_self elim!: resolve_then_frame)+

lemma resolve_routing_frame:
  assumes "resolve_routing sv ctx m s = (r, s')"
  shows "\<exists>t. s' = s\<lparr>accounts := t\<rparr>"
proof -
  obtain r1 s1 where one: "route_sender sv ctx m s = (r1, s1)" by fastforce
  obtain t where s1: "s1 = s\<lparr>accounts := t\<rparr>" using route_frame(1) [OF one] by blast
  show ?thesis
  proof (cases r1)
    case (Inr m1)
    then show ?thesis using assms one s1 route_frame(2) [of sv m1 s1 r s'] by (auto simp: resolve_routing_def)
  qed (use assms one s1 in \<open>auto simp: resolve_routing_def\<close>)
qed

section \<open>Every change has an authority\<close>

lemma revise_needs_sender:
  assumes "revise_message L E a reviser c i key content s = Inr x"
  shows "\<exists>m\<in>set (messages s). m_id m = i \<and> m_conversation m = c \<and> may_revise s reviser a m"
  using assms
  by (auto simp: revise_message_def revise_message_in_def Let_def split: option.splits if_splits dest!: find_Some_in)

lemma receipt_needs_recipient:
  assumes "record_receipt L E c i a device st s = Inr x"
  shows "\<exists>m\<in>set (messages s). m_id m = i \<and> m_conversation m = c \<and> parse_target (m_sender m) \<noteq> Inr a"
proof -
  obtain s' where "record_receipt_without_payload E c i a device st s = Inr s'"
    using assms by (auto simp: record_receipt_def)
  then obtain part m where m: "find (\<lambda>m. m_id m = i \<and> m_conversation m = c \<and> m_partition m = part) (messages s) = Some m"
    and "parse_target (m_sender m) \<noteq> Inr a"
    by (auto simp: record_receipt_without_payload_def split: option.splits if_splits)
  with find_Some_in [OF m] show ?thesis by blast
qed

lemma edit_authority:
  assumes "http_edit_message sv am key body s = (Inr x, s')"
  shows "sent_by s am (am_actor am)"
proof -
  obtain body' s1 where r: "resolve_routing sv (am_context am) body s = (Inr body', s1)"
    and v: "revise_message (sv_store sv) (sv_env sv 1) (am_actor am) SenderReviser (am_conversation am) (am_message am) key
      (Some body') s1 = Inr (Inr x, s')"
    using assms by (auto simp: http_edit_message_def handler_inversion)
  obtain t where "s1 = s\<lparr>accounts := t\<rparr>" using resolve_routing_frame [OF r] by blast
  with revise_needs_sender [OF v] show ?thesis by (auto simp: sent_by_def may_revise_def)
qed

lemma delete_authority:
  assumes "http_delete_message sv am key s = (Inr x, s')"
  shows "am_access am = Some ParticipantAccess \<and> sent_by s am (am_actor am) \<or>
    am_access am = Some CustodianAccess \<and> (\<exists>silicon. sent_by s am (actor Silicon silicon) \<and>
          sql_exists (\<lambda>x. a_uuid x = silicon \<and> a_custodian x = Some (ar_id (am_actor am))) (accounts s))"
proof -
  have "\<exists>reviser. (am_access am = Some ParticipantAccess \<and> reviser = SenderReviser \<or>
      am_access am = Some CustodianAccess \<and> reviser = CustodianOfSender) \<and>
    revise_message (sv_store sv) (sv_env sv 1) (am_actor am) reviser (am_conversation am) (am_message am) key None s = Inr (Inr x, s')"
  proof (cases "am_access am")
    case (Some access)
    with assms show ?thesis by (cases access) (simp_all add: http_delete_message_def handler_inversion)
  qed (use assms in \<open>simp add: http_delete_message_def\<close>)
  then obtain reviser where a: "am_access am = Some ParticipantAccess \<and> reviser = SenderReviser \<or>
      am_access am = Some CustodianAccess \<and> reviser = CustodianOfSender"
    and v: "revise_message (sv_store sv) (sv_env sv 1) (am_actor am) reviser (am_conversation am) (am_message am) key
      None s = Inr (Inr x, s')" by (elim exE conjE) (rule that)
  obtain m where m: "m \<in> set (messages s)" "m_id m = am_message am" "m_conversation m = am_conversation am"
    "may_revise s reviser (am_actor am) m" using revise_needs_sender [OF v] by blast
  have sb: "sent_by s am (m_sender m)" using m(1-3) by (auto simp: sent_by_def)
  have "sent_by s am (actor Silicon (ar_id (m_sender m)))" if "ar_type (m_sender m) = Silicon"
    using sb that by (cases "m_sender m") simp
  with a m(4) sb show ?thesis by (auto simp: may_revise_def intro!: exI [of _ "ar_id (m_sender m)"])
qed

lemma remove_authority:
  assumes "http_remove sv am key ids s = (Inr x, s')"
  shows "may_remove sv am ids s"
proof -
  obtain members s1 where "resolve_members sv ids s = (Inr members, s1)"
    "manages_group (am_actor am) (am_group am) s1 \<or> list_all (\<lambda>m. acc_custodian m = Some (ar_id (am_actor am))) members"
    using assms by (auto simp: http_remove_def handler_inversion split: if_splits)
  then show ?thesis by (auto simp: may_remove_def list_all_iff)
qed

lemma list_owner_authority:
  assumes "list_owner sv (am_context am) for_account s = (Inr silicon, s')"
  shows "owns_list sv am for_account s"
  using assms
  by (auto simp: list_owner_def subject_of_def looked_after_def owns_list_def handler_inversion
      split: option.splits if_splits prod.splits sum.splits)

lemma invitation_authority:
  "respond_to_invitation E who gid b s = Inr s' \<Longrightarrow> invited Pending gid who s"
  "leave_group E who gid s = Inr s' \<Longrightarrow> invited Accepted gid who s"
proof -
  have "\<exists>i\<in>set t. p i" if "rows_affected p t = 1" for p and t :: "invitation_row list"
    using that by (auto simp: rows_affected_def length_Suc_conv dest!: filter_eq_ConsD)
  then show "respond_to_invitation E who gid b s = Inr s' \<Longrightarrow> invited Pending gid who s"
    "leave_group E who gid s = Inr s' \<Longrightarrow> invited Accepted gid who s"
    by (auto simp: respond_to_invitation_def leave_group_def Let_def invited_def split: if_splits)
qed


text \<open>Ann deletes her draft in the example conversation.\<close>

definition ann_client :: accounts_client where
  "ann_client = no_client\<lparr>cc_jwks := Some 1, cc_verify_token := (\<lambda>_ _. Inr \<lparr>cl_kind = Some CarbonKind, cl_sub = lit ''zQo'',
     cl_id = Some (lit ''c:ann''), cl_mid = None, cl_fid = None, cl_scopes = [], cl_iat = Some 4, cl_exp = 100\<rparr>)\<rparr>"

definition test_service :: service where
  "test_service = \<lparr>sv_env = (\<lambda>_. test_env\<lparr>e_uuid := \<lparr>uuid_parse = \<lambda>v. if v = lit ''1'' then Some 1 else None, uuid_show = \<lambda>_. []\<rparr>\<rparr>),
     sv_store = sample_store_lib, sv_accounts = no_service, sv_client = ann_client\<rparr>"

definition drop_draft_request :: request where
  "drop_draft_request = \<lparr>rq_method = ''DELETE'', rq_path = lit ''/api/v1/conversations/1/draft'',
     rq_headers = [(''authorization'', lit ''Bearer t'')], rq_conversation = Some (lit ''1''), rq_group = None,
     rq_message = None, rq_bundle = None\<rparr>"

lemma request_fits: "fits drop_draft_request DeleteDraftCall"
  by (simp add: fits_def drop_draft_request_def http_type_def http_routes_def path_segments_def str_simps)

lemma request_credential: "presented_credential (rq_headers drop_draft_request) = Inr (Bearer, lit ''t'')"
  by (simp add: presented_credential_def drop_draft_request_def optional_single_header_def header_str_def
      parse_credential_def str_simps)

abbreviation ann_context :: auth_context where
  "ann_context \<equiv> \<lparr>ac_actor = ann, ac_public_id = lit ''c:ann'', ac_membership_id = None, ac_token_family = None,
     ac_scopes = [], ac_credential = AccessToken (lit ''t''), ac_issued_at = Some (4 * second), ac_expires_at = 100 * second\<rparr>"

lemma request_authenticated:
  "\<exists>st. authenticate (sv_uuid test_service) (sv_client test_service) (sv_now test_service) (Bearer, lit ''t'')
     (route_requirement (rq_method drop_draft_request) (rq_path drop_draft_request)) (ss_adapter idle) = (Inr ann_context, st)"
  by (simp add: authenticate_def authenticate_bearer_def verify_locally_def jwks_def idle_def test_service_def ann_client_def
      no_client_def claims_kind_def is_account_uuid_def from_unix_timestamp_def bearer_context_def max_credential_bytes_def
      route_requirement_def drop_draft_request_def http_type_def http_routes_def path_segments_def second_def Let_def str_simps)

lemma request_admitted:
  "\<exists>stored ss' t. admit E no_service ann_client now ann_context ss chat = (Inr stored, ss', chat\<lparr>accounts := [t]\<rparr>) \<and> \<not> a_deleted t"
  by (simp add: admit_def record_authentication_def filter_option_def put_accounts_def account_row_ok_def new_account_def
      upsert_where_def sql_exists_def chat_def empty_db_def stored_account_def sign_in_ended_def complete_account_def enrich_def
      learn_lookup_def learn_profile_def no_service_def ensure_custodian_conversations_def custodian_pairs_def silicons_of_def
      uuid_format_def valid_public_id_def strip_either_def valid_handle_def handle_char_def second_def Let_def str_simps)

lemma request_gated:
  assumes "\<not> a_deleted t"
  shows "\<exists>am. resolve_path test_service drop_draft_request ann_context (chat\<lparr>accounts := [t]\<rparr>) = (Inr am, chat\<lparr>accounts := [t]\<rparr>) \<and>
     am_access am = Some ParticipantAccess \<and> am_conversation am = 1 \<and> am_context am = ann_context"
  using assms
  by (simp add: resolve_path_def gate_conversation_def gate_group_def gate_message_def gate_bundle_def drop_draft_request_def
      test_service_def resolve_conversation_path_def conversation_access_def is_participant_def chat_simps Let_def)

lemma draft_dropped:
  assumes "\<not> a_deleted t"
  shows "\<exists>s'. delete_draft E ann 1 (chat\<lparr>accounts := [t]\<rparr>) = Inr s'"
  using assms
  by (simp add: delete_draft_def require_participant_def advance_drafts_def rows_affected_def sql_update_def chat_simps)


end
