(* ===== verification/Service.thy ===== *)
theory Service
  imports Sync Ting Api
begin

text \<open>
  The components together. Each of them keeps its own tables sound; here every operation is shown to keep
  the tables of the others sound too, so that no sequence of requests and worker runs breaks the service:
  the outbox is complete, a new message, a bundle, a revision, a receipt and a new conversation keep the
  exchange of messages sound, and drafts, the queue of handoffs, presence and compaction leave it alone.
\<close>

section \<open>The outbox is complete\<close>

text \<open>Every delivery of a message or a status has left its handoff to Ting, whatever became of it since.\<close>

definition outbox_complete :: "db \<Rightarrow> bool" where
  "outbox_complete s \<longleftrightarrow> (\<forall>d\<in>set (deliveries s). (\<exists>e. d_kind d = SystemDelivery e) \<or> d_id d \<in> th_delivery ` set (ting_handoffs s))"

definition outbox_ok :: "db \<Rightarrow> bool" where
  "outbox_ok s \<longleftrightarrow> handoffs_ok s \<and> outbox_complete s \<and> (\<forall>d\<in>set (deliveries s). d_retain_until d = None)"

lemma queue_kept_deliveries:
  assumes "queue_kept s s'"
  shows "th_delivery ` set (ting_handoffs s) \<subseteq> th_delivery ` set (ting_handoffs s')"
proof
  fix i assume "i \<in> th_delivery ` set (ting_handoffs s)"
  then obtain h where h: "h \<in> set (ting_handoffs s)" "i = th_delivery h" by blast
  obtain t new where t: "ting_handoffs s' = t @ new" "list_all2 handoff_kept (ting_handoffs s) t"
    using assms by (auto simp: queue_kept_def)
  from t(2) h(1) obtain h' where "h' \<in> set t" "handoff_kept h h'" by (metis in_set_conv_nth list_all2_conv_all_nth)
  then have "h' \<in> set (ting_handoffs s')" "i = th_delivery h'" using h(2) t(1) by (simp_all add: handoff_kept_def handoff_reference_def)
  then show "i \<in> th_delivery ` set (ting_handoffs s')" by blast
qed

lemma outbox_ok_queue:
  assumes "outbox_ok s" "handoffs_ok s' \<and> queue_kept s s'" "deliveries s' = deliveries s"
  shows "outbox_ok s'"
  using assms queue_kept_deliveries [of s s'] by (auto simp: outbox_ok_def outbox_complete_def) blast

lemma outbox_ok_cong:
  assumes "deliveries s' = deliveries s" "ting_handoffs s' = ting_handoffs s"
  shows "outbox_ok s' = outbox_ok s"
  using assms by (simp add: outbox_ok_def outbox_complete_def handoffs_ok_def)

lemma enqueue_covers:
  assumes "enqueue_ting_handoff U now origin d s = Inr s'"
  shows "(\<exists>e. d_kind d = SystemDelivery e) \<or> d_id d \<in> th_delivery ` set (ting_handoffs s')" "deliveries s' = deliveries s"
  using assms
  by (auto simp: enqueue_ting_handoff_def new_handoff_def Let_def split: delivery_kind.splits option.splits if_splits)

lemma insert_delivery_outbox:
  assumes "insert_delivery U origin now i part target kind conversation message s = Inr (b, s')" "outbox_ok s"
  shows "outbox_ok s'"
proof -
  obtain b1 s1 where row: "insert_delivery_row now i part target kind conversation message s = Inr (b1, s1)"
    and rest: "if b1 then enqueue_ting_handoff U now origin (last (deliveries s1)) s1 = Inr s' else s' = s1"
    using assms(1) by (auto simp: insert_delivery_def split: if_splits)
  have same: "ting_handoffs s1 = ting_handoffs s"
    using row by (auto simp: insert_delivery_row_def Let_def split: if_splits option.splits)
  show ?thesis
  proof (cases b1)
    case False
    then have "deliveries s1 = deliveries s" using row by (auto simp: insert_delivery_row_def Let_def split: if_splits option.splits)
    with False rest assms(2) outbox_ok_cong [OF this same] show ?thesis by simp
  next
    case True
    then obtain q where q: "deliveries s1 = deliveries s @ [q]" "d_retain_until q = None"
      using row by (auto simp: insert_delivery_row_def Let_def split: if_splits option.splits)
    have enq: "enqueue_ting_handoff U now origin q s1 = Inr s'" using rest True by (simp add: q)
    have ok1: "handoffs_ok s1" using assms(2) by (simp add: outbox_ok_def handoffs_ok_def same)
    note k = enqueue_keeps [OF enq ok1] and c = enqueue_covers [OF enq]
    from queue_kept_deliveries [OF conjunct2 [OF k]] have sub: "th_delivery ` set (ting_handoffs s) \<subseteq> th_delivery ` set (ting_handoffs s')"
      by (simp add: same)
    have "outbox_complete s'"
      unfolding outbox_complete_def
    proof
      fix d assume "d \<in> set (deliveries s')"
      then consider "d \<in> set (deliveries s)" | "d = q" using c(2) q(1) by auto
      then show "(\<exists>e. d_kind d = SystemDelivery e) \<or> d_id d \<in> th_delivery ` set (ting_handoffs s')"
      proof cases
        case 1
        with assms(2) sub show ?thesis unfolding outbox_ok_def outbox_complete_def by blast
      qed (use c(1) in simp)
    qed
    then show ?thesis using k c q assms(2) by (auto simp: outbox_ok_def)
  qed
qed

lemma notify_outbox [simp]: "outbox_ok (notify_actor_in a s) = outbox_ok s"
  by (rule outbox_ok_cong) (simp_all add: notify_actor_in_def)

context fan_out
begin

lemma keeps_outbox:
  assumes "fold_result step xs s = Inr s'" "outbox_ok s"
  shows "outbox_ok s'"
proof (rule fold_result_induct [OF assms(1), where P = outbox_ok, OF assms(2)])
  fix x s1 s2
  assume "outbox_ok s1" "step x s1 = Inr s2"
  with step_delivers insert_delivery_outbox show "outbox_ok s2" by (metis notify_outbox)
qed

end

section \<open>A new message\<close>

text \<open>Every message has been announced to someone under revision 1.\<close>

definition announced :: "db \<Rightarrow> bool" where
  "announced s \<longleftrightarrow> (\<forall>m\<in>set (messages s). \<exists>d\<in>set (deliveries s). d_message d = m_id m \<and> d_kind d = MessageDelivery 1)"

lemma but_outbox_rest:
  assumes "but_outbox s' = but_outbox s"
  shows "presence_leases s' = presence_leases s" "realtime_sessions s' = realtime_sessions s"
    "draft_tables s' = draft_tables s" "presence_states s' = presence_states s"
  using assms by (cases s; cases s'; simp add: but_outbox_def draft_tables_def)+

lemma but_drafts_rest:
  assumes "but_drafts s' = but_drafts s"
  shows "presence_leases s' = presence_leases s" "realtime_sessions s' = realtime_sessions s"
    "ting_handoffs s' = ting_handoffs s" "presence_states s' = presence_states s"
  using assms by (cases s; cases s'; simp add: but_drafts_def)+

text \<open>A message nobody has acknowledged is sent, and the receipts of the others are as they were.\<close>

lemma new_message_receipts:
  assumes ok: "receipts_ok s" and ms: "messages s' = messages s @ [m]" "m_status m = Sent" "\<forall>x\<in>set (messages s). m_id x \<noteq> m_id m"
    and ds: "deliveries s' = deliveries s @ ds" "\<forall>d\<in>set ds. d_message d = m_id m" and rs: "receipts s' = receipts s"
  shows "receipts_ok s'"
proof -
  have old: "status_settled s' x" if x: "x \<in> set (messages s)" for x
  proof -
    have "recipients x s' = recipients x s" using ds ms(3) x by (auto simp: recipients_def filter_empty_conv)
    then have "status_settled s' x = status_settled s x" by (simp add: status_settled_def all_acknowledged_def rs)
    with ok x show ?thesis by (simp add: receipts_ok_def)
  qed
  have none: "\<not> acknowledged sts (m_id m) a (receipts s')" for sts a
  proof
    assume "acknowledged sts (m_id m) a (receipts s')"
    then have "m_id m \<in> r_message ` set (receipts s)" by (force simp: acknowledged_def sql_exists_def rs)
    with ok ms(3) show False by (auto simp: receipts_ok_def)
  qed
  then have "\<not> all_acknowledged sts m s'" for sts
    by (cases "recipients m s'") (auto simp: all_acknowledged_def)
  then have "status_settled s' m" by (simp add: status_settled_def ms(2))
  with ok old ms(1) show ?thesis by (auto simp: receipts_ok_def rs)
qed

lemma new_message_announced:
  assumes "announced s" "messages s' = messages s @ [m]" "deliveries s' = deliveries s @ ds" "ds \<noteq> []"
    and "\<forall>d\<in>set ds. d_message d = m_id m \<and> d_kind d = MessageDelivery 1"
  shows "announced s'"
proof -
  from assms(4) obtain d where "d \<in> set ds" by (cases ds) auto
  with assms show ?thesis unfolding announced_def by auto
qed

text \<open>What the soundness of bundles depends on.\<close>

definition bundle_message :: "message_row \<Rightarrow> uuid \<times> uuid \<times> actor_ref \<times> int" where
  "bundle_message m = (m_id m, m_conversation m, m_sender m, m_sequence m)"

definition shape_in :: "(uuid \<times> uuid \<times> actor_ref \<times> int) set \<Rightarrow> bundle_item_row list \<Rightarrow> bundle_row \<Rightarrow> bool" where
  "shape_in M items b \<longleftrightarrow>
     (let of_role = (\<lambda>role. filter (\<lambda>x. bi_bundle x = b_id b \<and> bi_role x = role) items) in
      length (of_role Display) = 1 \<and> 1 \<le> length (of_role Member) \<and> length (of_role Member) \<le> 100 \<and>
      (\<forall>d\<in>set (of_role Display). \<forall>(i, _, a, n)\<in>M. i = bi_message d \<longrightarrow> a = b_creator b \<and>
         (\<forall>x\<in>set (of_role Member). \<forall>(j, _, _, p)\<in>M. j = bi_message x \<longrightarrow> p < n)))"

lemma shape_eq: "assert_bundle_shape s b = shape_in (bundle_message ` set (messages s)) (bundle_items s) b"
  unfolding assert_bundle_shape_def shape_in_def items_of_def Let_def
  by (simp add: bundle_message_def list_all_iff ball_simps)

definition bundle_counter :: "conversation_row \<Rightarrow> uuid \<times> int" where
  "bundle_counter c = (c_id c, c_next_bundle c)"

lemma bundles_ok_eq:
  "bundles_ok s \<longleftrightarrow> keyed b_id (bundles s) \<and> keyed bi_message (bundle_items s) \<and>
     (\<forall>x\<in>set (bundle_items s). \<exists>b\<in>set (bundles s). b_id b = bi_bundle x \<and>
        (\<exists>(i, k, _)\<in>bundle_message ` set (messages s). i = bi_message x \<and> k = b_conversation b)) \<and>
     (\<forall>b\<in>set (bundles s). shape_in (bundle_message ` set (messages s)) (bundle_items s) b \<and> ar_type (b_creator b) = Silicon \<and>
        b_conversation b \<in> fst ` bundle_counter ` set (conversations s)) \<and>
     (\<forall>(k, n)\<in>bundle_counter ` set (conversations s). 1 \<le> n \<and>
        map b_sequence (filter (\<lambda>b. b_conversation b = k) (bundles s)) = [1..n - 1])"
  by (simp add: bundles_ok_def shape_eq bundle_message_def bundle_counter_def image_image)

lemma bundles_ok_cong:
  assumes "bundles s' = bundles s" "bundle_items s' = bundle_items s"
    and "map bundle_counter (conversations s') = map bundle_counter (conversations s)"
    and "map bundle_message (messages s') = map bundle_message (messages s)"
  shows "bundles_ok s' = bundles_ok s"
proof -
  have "bundle_counter ` set (conversations s') = bundle_counter ` set (conversations s)"
    "bundle_message ` set (messages s') = bundle_message ` set (messages s)"
    using arg_cong [OF assms(3), of set] arg_cong [OF assms(4), of set] by simp_all
  then show ?thesis unfolding bundles_ok_eq by (simp add: assms(1,2))
qed

lemma bundles_ok_new_message:
  assumes ok: "bundles_ok s" and ms: "messages s' = messages s @ [m]" "\<forall>x\<in>set (messages s). m_id x \<noteq> m_id m"
    and same: "bundles s' = bundles s" "bundle_items s' = bundle_items s"
      "map bundle_counter (conversations s') = map bundle_counter (conversations s)"
  shows "bundles_ok s'"
proof -
  have other: "\<forall>x\<in>set (bundle_items s). m_id m \<noteq> bi_message x"
    using ok ms(2) by (fastforce simp: bundles_ok_def)
  have "assert_bundle_shape s' b = assert_bundle_shape s b" for b
    using other by (auto simp: assert_bundle_shape_def items_of_def list_all_iff ms same)
  moreover have cs: "bundle_counter ` set (conversations s') = bundle_counter ` set (conversations s)"
    using arg_cong [OF same(3), of set] by simp
  moreover have "\<forall>x\<in>set (bundle_items s'). \<exists>b\<in>set (bundles s'). b_id b = bi_bundle x \<and>
      (\<exists>(i, k, _)\<in>bundle_message ` set (messages s'). i = bi_message x \<and> k = b_conversation b)"
  proof
    fix x assume "x \<in> set (bundle_items s')"
    then obtain b n where "b \<in> set (bundles s)" "b_id b = bi_bundle x" "n \<in> set (messages s)" "m_id n = bi_message x"
        "m_conversation n = b_conversation b"
      using ok unfolding bundles_ok_def same by blast
    then show "\<exists>b\<in>set (bundles s'). b_id b = bi_bundle x \<and>
      (\<exists>(i, k, _)\<in>bundle_message ` set (messages s'). i = bi_message x \<and> k = b_conversation b)"
      by (auto simp: ms same bundle_message_def intro!: bexI [of _ b] bexI [of _ n])
  qed
  ultimately show ?thesis using ok unfolding bundles_ok_eq shape_eq [symmetric] by (simp only: same cs simp_thms) iprover
qed

section \<open>What the exchange of messages keeps\<close>

definition exchange_ok :: "db \<Rightarrow> bool" where
  "exchange_ok s \<longleftrightarrow> messaging_ok s \<and> receipts_ok s \<and> histories_ok s \<and> bundles_ok s \<and> announced s \<and> outbox_ok s"

text \<open>The directory and the idempotency records are bookkeeping: nothing else depends on them.\<close>

definition but_books :: "db \<Rightarrow> db" where
  "but_books s = s\<lparr>organizations := [], snapshots := [], idempotency := []\<rparr>"

lemma but_booksD:
  assumes "but_books s' = but_books s"
  shows "conversations s' = conversations s" "participants s' = participants s" "invitations s' = invitations s"
    "accounts s' = accounts s" "messages s' = messages s" "streams s' = streams s" "deliveries s' = deliveries s"
    "receipts s' = receipts s" "histories s' = histories s" "bundles s' = bundles s" "bundle_items s' = bundle_items s"
    "ting_handoffs s' = ting_handoffs s" "draft_tables s' = draft_tables s" "presence_leases s' = presence_leases s"
    "realtime_sessions s' = realtime_sessions s"
  using assms by (cases s; cases s'; simp add: but_books_def draft_tables_def)+

lemma books [simp]:
  "but_books (refresh_directory_in now part as s) = but_books s"
  "but_books (s\<lparr>idempotency := t\<rparr>) = but_books s"
  by (simp_all add: but_books_def refresh_directory_in_def)

lemma receipts_ok_cong:
  assumes "messages s' = messages s" "receipts s' = receipts s" "\<And>m. recipients m s' = recipients m s"
  shows "receipts_ok s' = receipts_ok s"
  using assms by (simp add: receipts_ok_def status_settled_def all_acknowledged_def)

lemma exchange_ok_tables:
  assumes "same_membership s' s" "conversations s' = conversations s" "messages s' = messages s" "streams s' = streams s"
    "deliveries s' = deliveries s" "receipts s' = receipts s" "histories s' = histories s" "bundles s' = bundles s"
    "bundle_items s' = bundle_items s" "ting_handoffs s' = ting_handoffs s"
  shows "exchange_ok s' = exchange_ok s"
proof -
  have "messaging_ok s' = messaging_ok s" using assms by (intro messaging_ok_frame) simp_all
  moreover have "bundles_ok s' = bundles_ok s" using assms by (intro bundles_ok_cong) simp_all
  moreover have "outbox_ok s' = outbox_ok s" using assms by (intro outbox_ok_cong) simp_all
  moreover have "receipts_ok s' = receipts_ok s" using assms by (intro receipts_ok_cong) (simp_all add: recipients_def)
  ultimately show ?thesis using assms by (simp add: exchange_ok_def histories_ok_def announced_def)
qed

lemma exchange_ok_books: "but_books s' = but_books s \<Longrightarrow> exchange_ok s' = exchange_ok s"
  by (rule exchange_ok_tables) (auto simp: same_membership_def dest: but_booksD)

lemma books_claim: "claim_db now lease k h s = Inr (c, s') \<Longrightarrow> but_books s' = but_books s"
  by (auto elim!: claim_dbD)

lemma books_complete: "complete_db k ty r resp s = Inr s' \<Longrightarrow> but_books s' = but_books s"
  by (auto elim!: complete_dbD)

text \<open>A message that was inserted, the rest of its transaction, and its fan-out.\<close>

lemma fan_out_exchange:
  assumes ok: "exchange_ok s" and ins: "insert_message_in E part k sender content h via s = Inr (i, s1)"
    and mid: "same_membership s2 s1" "map c_next_sequence (conversations s2) = map c_next_sequence (conversations s1)"
      "messages s2 = messages s1" "streams s2 = streams s1" "deliveries s2 = deliveries s1" "receipts s2 = receipts s1"
      "histories s2 = histories s1" "ting_handoffs s2 = ting_handoffs s1"
    and enq: "fold_result (enqueue_one F origin part k i) (enumerate 1 (participant_records_in k s2)) s2 = Inr s3"
    and member: "is_participant s k sender" and bundles: "bundles_ok s3"
  shows "exchange_ok s3"
proof -
  note eff = new_message_fan_out [OF _ ins mid(1-5) enq] and fr = but_outboxD [OF sending.frame [OF enq]]
  have msg: "messaging_ok s" "receipts_ok s" "histories_ok s" "announced s" "outbox_ok s" using ok by (simp_all add: exchange_ok_def)
  obtain c :: conversation_row and as gs where s1: "s1 = s\<lparr>conversations := sql_update (\<lambda>c. c_id c = k \<and> c_partition c = part)
              (\<lambda>c. c\<lparr>c_next_sequence := c_next_sequence c + 1, c_updated_at := e_now E\<rparr>) (conversations s),
            messages := messages s @ [new_message E part k sender content h via (c_next_sequence c)],
            attachments := as, gifs := gs\<rparr>" and i: "i = e_fresh E 0" "\<forall>x\<in>set (messages s). m_id x \<noteq> i"
    using ins by (rule insert_message_inE) (rule that, assumption+)
  let ?m = "new_message E part k sender content h via (c_next_sequence c)"
  have m: "m_id ?m = i" "m_status ?m = Sent" using i by (simp_all add: new_message_def)
  have ms: "messages s3 = messages s @ [?m]" using fr mid by (simp add: s1)
  obtain ds where ds: "deliveries s3 = deliveries s @ ds" "map d_target ds = participant_records_in k s"
    "\<forall>d\<in>set ds. delivery_of part k i (MessageDelivery 1) d" using eff(4) [OF msg(1)] by blast
  then have kinds: "\<forall>d\<in>set ds. d_message d = m_id ?m \<and> d_kind d = MessageDelivery 1" unfolding m by (simp add: delivery_of_def)
  have "participant_records_in k s \<noteq> []" using member participant_records_member [of sender k s] by auto
  then have "ds \<noteq> []" using ds(2) by auto
  with new_message_announced [OF msg(4) ms ds(1)] kinds have "announced s3" by blast
  moreover have "receipts_ok s3"
    using new_message_receipts [OF msg(2) ms m(2) _ ds(1)] kinds i(2) fr mid by (simp add: m s1)
  moreover have "outbox_ok s2" using msg(5) outbox_ok_cong [of s2 s] mid by (simp add: s1)
  then have "outbox_ok s3" by (rule sending.keeps_outbox [OF enq])
  moreover have "histories_ok s3" using msg(3) fr mid by (simp add: histories_ok_def s1)
  ultimately show ?thesis using eff(1) [OF msg(1)] bundles by (simp add: exchange_ok_def)
qed

lemma accept_exchange:
  assumes ok: "exchange_ok s" and acc: "accept_message E part k sender content via s = Inr (i, s')" and member: "is_participant s k sender"
  shows "exchange_ok s'"
proof -
  let ?h = "content_digest (e_digest E) (e_uuid E) content"
  obtain s1 s2 where ins: "insert_message_in E part k sender content ?h via s = Inr (i, s1)"
    and enq: "fold_result (enqueue_one E (Some sender) part k i) (enumerate 1 (participant_records_in k s1)) s1 = Inr s2"
    and fr: "but_outbox s2 = but_outbox s1" "but_drafts s' = but_drafts s2"
    using acc by (rule accept_messageE)
  obtain c :: conversation_row and as gs where s1: "s1 = s\<lparr>conversations := sql_update (\<lambda>c. c_id c = k \<and> c_partition c = part)
              (\<lambda>c. c\<lparr>c_next_sequence := c_next_sequence c + 1, c_updated_at := e_now E\<rparr>) (conversations s),
            messages := messages s @ [new_message E part k sender content ?h via (c_next_sequence c)],
            attachments := as, gifs := gs\<rparr>" and i: "i = e_fresh E 0" "\<forall>x\<in>set (messages s). m_id x \<noteq> i"
    using ins by (rule insert_message_inE) (rule that, assumption+)
  have "bundles_ok s2"
  proof (rule bundles_ok_new_message)
    show "bundles_ok s" using ok by (simp add: exchange_ok_def)
    show "messages s2 = messages s @ [new_message E part k sender content ?h via (c_next_sequence c)]"
      using but_outboxD [OF fr(1)] by (simp add: s1)
  qed (use i but_outboxD [OF fr(1)] in \<open>auto simp: s1 new_message_def sql_update_def bundle_counter_def\<close>)
  then have "exchange_ok s2"
    using fan_out_exchange [OF ok ins _ _ refl refl refl refl refl refl enq member] by (simp add: same_membership_def)
  moreover have "exchange_ok s' = exchange_ok s2"
    using but_draftsD [OF fr(2)] but_drafts_rest [OF fr(2)] by (intro exchange_ok_tables) (simp_all add: same_membership_def)
  ultimately show ?thesis by simp
qed

definition service_ok :: "db \<Rightarrow> bool" where
  "service_ok s \<longleftrightarrow> exchange_ok s \<and> drafts_ok s \<and> presence_ok s \<and> keyed idem_key_of (idempotency s)"

definition leases_same :: "db \<Rightarrow> db \<Rightarrow> bool" where
  "leases_same s' s \<longleftrightarrow> presence_leases s' = presence_leases s \<and> realtime_sessions s' = realtime_sessions s"

lemma leases_same_refl [simp]: "leases_same s s" by (simp add: leases_same_def)

lemma leases_same_trans: "leases_same s2 s1 \<Longrightarrow> leases_same s1 s \<Longrightarrow> leases_same s2 s" by (simp add: leases_same_def)

lemma leases_same_ok: "leases_same s' s \<Longrightarrow> presence_ok s' = presence_ok s" by (simp add: leases_same_def presence_ok_def)

lemma leases_same_books: "but_books s' = but_books s \<Longrightarrow> leases_same s' s" by (auto simp: leases_same_def dest: but_booksD)

lemma leases_same_outbox: "but_outbox s' = but_outbox s \<Longrightarrow> leases_same s' s" by (auto simp: leases_same_def dest: but_outbox_rest)

text \<open>What no step takes back: messages stay with their number, sender and text, their status moves forward
  only, and deliveries stay.\<close>

definition message_kept :: "message_row \<Rightarrow> message_row \<Rightarrow> bool" where
  "message_kept m m' \<longleftrightarrow> m_id m' = m_id m \<and> m_conversation m' = m_conversation m \<and> m_sequence m' = m_sequence m \<and>
     m_sender m' = m_sender m \<and> m_text m' = m_text m \<and> status_allowed (m_status m) (m_status m')"

definition grows :: "db \<Rightarrow> db \<Rightarrow> bool" where
  "grows s s' \<longleftrightarrow> (\<exists>t new. messages s' = t @ new \<and> list_all2 message_kept (messages s) t) \<and> (\<exists>ds. deliveries s' = deliveries s @ ds)"

lemma status_allowed_trans: "status_allowed a b \<Longrightarrow> status_allowed b c \<Longrightarrow> status_allowed a c"
  by (cases a; cases b; cases c) simp_all

lemma message_kept_refl [simp]: "message_kept m m" by (simp add: message_kept_def)

lemma message_kept_trans: "message_kept a b \<Longrightarrow> message_kept b c \<Longrightarrow> message_kept a c"
  by (auto simp: message_kept_def intro: status_allowed_trans)

lemma grows_append: "messages s' = messages s @ new \<Longrightarrow> deliveries s' = deliveries s @ ds \<Longrightarrow> grows s s'"
  unfolding grows_def by (intro conjI exI [of _ "messages s"] exI [of _ new] exI [of _ ds]) (simp_all add: list_all2_same)

lemma grows_same: "messages s' = messages s \<Longrightarrow> deliveries s' = deliveries s \<Longrightarrow> grows s s'"
  using grows_append [of s' s "[]" "[]"] by simp

lemma grows_cong: "messages s' = messages s \<Longrightarrow> deliveries s' = deliveries s \<Longrightarrow> messages t' = messages t \<Longrightarrow> deliveries t' = deliveries t \<Longrightarrow>
    grows s' t' = grows s t"
  by (simp add: grows_def)

lemma grows_books: "but_books s' = but_books s \<Longrightarrow> but_books t' = but_books t \<Longrightarrow> grows s' t' = grows s t"
  by (rule grows_cong) (auto dest: but_booksD)

lemma grows_refl [simp]: "grows s s" by (rule grows_same) simp_all

lemma grows_trans:
  assumes "grows s1 s2" "grows s2 s3"
  shows "grows s1 s3"
proof -
  obtain t new where t: "messages s2 = t @ new" "list_all2 message_kept (messages s1) t" using assms(1) by (auto simp: grows_def)
  obtain u new' where u: "messages s3 = u @ new'" "list_all2 message_kept (t @ new) u" using assms(2) by (auto simp: grows_def t)
  then obtain u1 u2 where "u = u1 @ u2" "list_all2 message_kept t u1" by (auto simp: list_all2_append1)
  moreover have "list_all2 message_kept (messages s1) u1"
    by (rule list_all2_trans [OF _ t(2) calculation(2)]) (erule (1) message_kept_trans)
  ultimately show ?thesis using u(1) assms by (auto simp: grows_def)
qed

definition advances :: "db \<Rightarrow> db \<Rightarrow> bool" where
  "advances s s' \<longleftrightarrow> service_ok s' \<and> grows s s'"

text \<open>A request under an idempotency key: the claim, the work when it is acquired, the completion.\<close>

lemma keyed_request:
  assumes "claim_db now lease k h s1 = Inr (c, s2)" "but_books s1 = but_books s" "idempotency s1 = idempotency s"
    and "keyed idem_key_of (idempotency s)"
  shows "but_books s2 = but_books s" "keyed idem_key_of (idempotency s2)" "same_membership s2 s"
proof -
  obtain t where t: "claim now lease k h (idempotency s1) = Inr (c, t)" "s2 = s1\<lparr>idempotency := t\<rparr>" using assms(1) by (rule claim_dbD)
  from idem.claim_ok [OF assms(4), of now lease k h c t] t assms(3) show "keyed idem_key_of (idempotency s2)" by simp
  show b: "but_books s2 = but_books s" using books_claim [OF assms(1)] assms(2) by simp
  then show "same_membership s2 s" by (auto simp: same_membership_def dest: but_booksD)
qed

lemma completed_request:
  assumes "complete_db k ty r resp s = Inr s'" "keyed idem_key_of (idempotency s)"
  shows "keyed idem_key_of (idempotency s')"
proof -
  obtain t where "complete k ty r resp (idempotency s) = Inr t" "s' = s\<lparr>idempotency := t\<rparr>" using assms(1) by (rule complete_dbD)
  with idem.complete_ok [OF assms(2)] show ?thesis by simp
qed

lemma is_participant_cong: "same_membership s' s \<Longrightarrow> is_participant s' k a = is_participant s k a"
  by (simp add: is_participant_def effective_cong)

lemma accept_leases:
  assumes "accept_message E part k sender content via s = Inr (i, s')"
  shows "leases_same s' s"
proof -
  let ?h = "content_digest (e_digest E) (e_uuid E) content"
  obtain s1 s2 where ins: "insert_message_in E part k sender content ?h via s = Inr (i, s1)"
    and fr: "but_outbox s2 = but_outbox s1" "but_drafts s' = but_drafts s2"
    using assms by (rule accept_messageE)
  have "leases_same s1 s" using ins by (auto elim!: insert_message_inE simp: leases_same_def)
  then show ?thesis using but_outbox_rest [OF fr(1)] but_drafts_rest [OF fr(2)] by (simp add: leases_same_def)
qed

lemma send_service:
  assumes ok: "service_ok s" and run: "send_message_in E k a content key via s = Inr (i, s')"
  shows "advances s s'"
proof -
  obtain h part s1 c s2 where part: "require_participant s a k = Inr part"
    and s1: "s1 = refresh_directory_in (e_now E) accounts_partition [a] (refresh_directory_in (e_now E) part [a] s)"
    and cl: "claim_db (e_now E) (e_lease E) (send_key a key) h s1 = Inr (c, s2)"
    and rest: "(case c of Replay i \<Rightarrow> Inr (i, s2) | Acquired \<Rightarrow> bind_ok (accept_message E part k a content via s2)
       (\<lambda>(i, s3). bind_ok (complete_db (send_key a key) ''message'' i 202 s3) (\<lambda>s4. Inr (i, s4)))) = Inr (i, s')"
    using run by (rule send_messageE)
  have k: "keyed idem_key_of (idempotency s)" "exchange_ok s" using ok by (simp_all add: service_ok_def)
  note b = keyed_request [OF cl _ _ k(1), unfolded s1, simplified]
  have drafts: "drafts_ok s'" using send_counters [OF _ run] ok by (simp add: service_ok_def counters_advance_def)
  have "exchange_ok s' \<and> leases_same s' s \<and> grows s s' \<and> keyed idem_key_of (idempotency s')"
  proof (cases c)
    case (Replay j)
    with rest have "s' = s2" by simp
    then show ?thesis using exchange_ok_books [OF b(1)] leases_same_books [OF b(1)] b(2) k(2) grows_books [OF refl b(1), of s] by simp
  next
    case Acquired
    with rest obtain s3 where acc: "accept_message E part k a content via s2 = Inr (i, s3)"
      and co: "complete_db (send_key a key) ''message'' i 202 s3 = Inr s'" by auto
    have "exchange_ok s2" using exchange_ok_books [OF b(1)] k(2) by simp
    note x = accept_exchange [OF this acc] and e = accept_message_effect(3,5,6) [OF _ acc]
    have "is_participant s2 k a" using require_participantD(3) [OF part] is_participant_cong [OF b(3)] by simp
    then have "exchange_ok s'" using x exchange_ok_books [OF books_complete [OF co]] by simp
    moreover have "grows s2 s3" using e(2,3) \<open>exchange_ok s2\<close> by (auto simp: exchange_ok_def intro: grows_append)
    then have "grows s s'" using grows_books [OF b(1) books_complete [OF co, symmetric]] by simp
    moreover have "leases_same s' s"
      using leases_same_books [OF books_complete [OF co]] accept_leases [OF acc] leases_same_books [OF b(1)] leases_same_trans by blast
    moreover have "keyed idem_key_of (idempotency s')"
      by (rule completed_request [OF co]) (use b(2) e \<open>exchange_ok s2\<close> in \<open>simp add: exchange_ok_def\<close>)
    ultimately show ?thesis by simp
  qed
  then show ?thesis using drafts ok leases_same_ok [of s' s] by (simp add: service_ok_def advances_def)
qed

text \<open>A bundle.\<close>

lemma add_bundle_exchange:
  assumes ok: "exchange_ok s" and run: "add_bundle E part k creator b s = Inr (i, s')" and member: "is_participant s k creator"
    and valid: "bundle_validate (e_uuid E) b = Inr ()" and silicon: "ar_type creator = Silicon"
  shows "exchange_ok s'" "leases_same s' s" "draft_tables s' = draft_tables s" "idempotency s' = idempotency s" "grows s s'"
proof -
  let ?h = "content_digest (e_digest E) (e_uuid E) (bc_display_message b)"
  have ids: "distinct (bc_message_ids b)" "1 \<le> length (bc_message_ids b)" "length (bc_message_ids b) \<le> 100"
    using valid by (auto simp: bundle_validate_def card_distinct split: if_splits)
  have base: "messaging_ok s" "bundles_ok s" using ok by (simp_all add: exchange_ok_def)
  note eff = add_bundle_effect [OF base run ids silicon]
  obtain display s1 and c :: conversation_row and s4 :: db where ins: "insert_message_in E part k creator (bc_display_message b) ?h None s = Inr (display, s1)"
    and s4: "s4 = s1\<lparr>conversations := sql_update (\<lambda>c. c_id c = k \<and> c_partition c = part) (\<lambda>c. c\<lparr>c_next_bundle := c_next_bundle c + 1\<rparr>) (conversations s1),
       bundles := bundles s1 @ [\<lparr>b_id = i, b_conversation = k, b_partition = part, b_creator = creator,
         b_sequence = c_next_bundle c, b_created_at = e_now E\<rparr>],
       bundle_items := bundle_items s1 @ \<lparr>bi_bundle = i, bi_message = display, bi_role = Display, bi_position = 0\<rparr> #
         map (member_item i) (enumerate 0 (bc_message_ids b))\<rparr>"
    and enq: "fold_result (enqueue_one (later E) None part k display) (enumerate 1 (participant_records_in k s4)) s4 = Inr s'"
    using run by (rule add_bundleE) (rule that, assumption+)
  have mid: "same_membership s4 s1" "map c_next_sequence (conversations s4) = map c_next_sequence (conversations s1)"
    by (auto simp: s4 same_membership_def sql_update_def membership_row_def)
  show "exchange_ok s'"
    by (rule fan_out_exchange [OF ok ins mid _ _ _ _ _ _ enq member eff(2)]) (simp_all add: s4)
  have one: "leases_same s1 s" "draft_tables s1 = draft_tables s"
    using ins by (auto elim!: insert_message_inE simp: leases_same_def draft_tables_def)
  note fr = sending.frame [OF enq]
  show "leases_same s' s" using leases_same_outbox [OF fr] one(1) by (simp add: leases_same_def s4)
  show "draft_tables s' = draft_tables s" using but_outbox_rest(3) [OF fr] one(2) by (simp add: s4 draft_tables_def)
  show "idempotency s' = idempotency s" by (rule eff(8))
  show "grows s s'" using eff(5,6) by (auto intro: grows_append)
qed

lemma service_ok_books:
  assumes "but_books s' = but_books s" "keyed idem_key_of (idempotency s')" "service_ok s"
  shows "service_ok s'"
  using assms exchange_ok_books [OF assms(1)] leases_same_ok [OF leases_same_books [OF assms(1)]] drafts_ok_cong [OF but_booksD(13) [OF assms(1)]]
  by (simp add: service_ok_def)

text \<open>A request that is replayed changes only the books; one that is acquired completes after its work.\<close>

lemma replayed_service:
  assumes "but_books s' = but_books s" "keyed idem_key_of (idempotency s')" "service_ok s"
  shows "advances s s'"
  using service_ok_books [OF assms] grows_books [OF refl assms(1), of s] by (simp add: advances_def)

lemma completed_service:
  assumes "complete_db k ty r resp s2 = Inr s'" "but_books s1 = but_books s" "grows s1 s2" "service_ok s1"
    and "exchange_ok s2" "leases_same s2 s1" "draft_tables s2 = draft_tables s1" "idempotency s2 = idempotency s1"
  shows "advances s s'"
proof -
  have ok2: "service_ok s2"
    using assms(4,5,8) leases_same_ok [OF assms(6)] drafts_ok_cong [OF assms(7)] by (simp add: service_ok_def)
  have "service_ok s'"
    by (rule service_ok_books [OF books_complete [OF assms(1)] completed_request [OF assms(1)] ok2])
      (use ok2 in \<open>simp add: service_ok_def\<close>)
  moreover have "grows s s'" using assms(3) grows_books [OF assms(2) books_complete [OF assms(1), symmetric]] by simp
  ultimately show ?thesis by (simp add: advances_def)
qed

lemma bundle_service:
  assumes ok: "service_ok s" and run: "create_bundle_in E k creator b key s = Inr (r, s')"
  shows "advances s s'"
proof -
  obtain h c s1 part where pre: "ar_type creator = Silicon" "bundle_validate (e_uuid E) b = Inr ()" "require_participant s creator k = Inr part"
    and cl: "claim_db (e_now E) (e_lease E) (bundle_key creator key) h (refresh_directory_in (e_now E) accounts_partition [creator] s) = Inr (c, s1)"
    and rest: "(case c of Replay i \<Rightarrow> Inr ((i, part), s1) | Acquired \<Rightarrow>
        bind_ok (add_bundle E part k creator b s1) (\<lambda>(i, s2). bind_ok (complete_db (bundle_key creator key) ''bundle'' i 201 s2) (\<lambda>s3.
          if list_all (\<lambda>x. b_id x = i \<longrightarrow> assert_bundle_shape s3 x) (bundles s3) then Inr ((i, part), s3)
          else Inl durable_invariant_error))) = Inr (r, s')"
    using run by (auto simp: create_bundle_in_def split: if_splits sum.splits)
  have k: "keyed idem_key_of (idempotency s)" using ok by (simp add: service_ok_def)
  note b = keyed_request [OF cl _ _ k, simplified]
  have ok1: "service_ok s1" by (rule service_ok_books [OF b(1,2) ok])
  show ?thesis
  proof (cases c)
    case (Replay j)
    with rest replayed_service [OF b(1,2) ok] show ?thesis by simp
  next
    case Acquired
    with rest obtain i s2 where add: "add_bundle E part k creator b s1 = Inr (i, s2)"
      and co: "complete_db (bundle_key creator key) ''bundle'' i 201 s2 = Inr s'" by (auto split: if_splits)
    have "is_participant s1 k creator" "exchange_ok s1"
      using require_participantD(3) [OF pre(3)] is_participant_cong [OF b(3)] ok1 by (simp_all add: service_ok_def)
    note eff = add_bundle_exchange [OF this(2) add this(1) pre(2,1)]
    show ?thesis by (rule completed_service [OF co b(1) eff(5) ok1 eff(1-4)])
  qed
qed

section \<open>Revisions, receipts and new conversations\<close>

lemma announced_revision:
  assumes "announced s" "m \<in> set (messages s)"
  shows "next_revision (m_id m) s \<noteq> 1"
proof -
  let ?rs = "List.map_filter (\<lambda>d. revision_of (d_kind d)) (filter (\<lambda>d. d_message d = m_id m) (deliveries s))"
  obtain d where "d \<in> set (deliveries s)" "d_message d = m_id m" "d_kind d = MessageDelivery 1"
    using assms by (auto simp: announced_def)
  then have "1 \<in> set ?rs" by (force simp: List.map_filter_def)
  then show ?thesis using fold_max_bound [of 0 ?rs] by (auto simp: next_revision_def)
qed

lemma revision_exchange:
  assumes ok: "exchange_ok s" and m: "m \<in> set (messages s)" and run: "apply_revision E a part k m content s = Inr s'"
  shows "exchange_ok s'" "leases_same s' s" "draft_tables s' = draft_tables s" "idempotency s' = idempotency s" "grows s s'"
proof -
  have parts: "messaging_ok s" "histories_ok s" "receipts_ok s" "bundles_ok s" "announced s" "outbox_ok s"
    using ok by (simp_all add: exchange_ok_def)
  note eff = apply_revision_effect [OF parts(1,2) m run]
  obtain ds where ds: "deliveries s' = deliveries s @ ds"
    "\<forall>d\<in>set ds. delivery_of part k (m_id m) (MessageDelivery (next_revision (m_id m) s)) d" using eff(7) by blast
  have alive: "\<not> is_deleted s (m_id m)" using run by (auto simp: apply_revision_def split: if_splits)
  obtain s1 where s1: "write_history (e_now E) m content s = Inr s1" "s1 = s\<lparr>histories := histories s1\<rparr>"
    using write_history_log [OF parts(2) alive] by blast
  have ann: "announce_revision E a part k (m_id m) s1 = Inr s'" using run s1(1) alive by (auto simp: apply_revision_def)
  let ?s2 = "s1\<lparr>conversations := sql_update (\<lambda>c. c_id c = k) (\<lambda>c. c\<lparr>c_updated_at := e_now E\<rparr>) (conversations s1)\<rparr>"
  have fan: "fold_result (announce_one E a part k (m_id m) (next_revision (m_id m) s1)) (enumerate 0 (participant_records_in k ?s2)) ?s2 = Inr s'"
    using ann by (auto simp: announce_revision_def Let_def split: if_splits)
  note fr = but_outboxD [OF announcing.frame [OF fan]] and more = but_outbox_rest [OF announcing.frame [OF fan]]
  have t1: "receipts s1 = receipts s" "bundles s1 = bundles s" "bundle_items s1 = bundle_items s" "conversations s1 = conversations s"
    "idempotency s1 = idempotency s" "leases_same s1 s" "draft_tables s1 = draft_tables s" "outbox_ok s1 = outbox_ok s"
    by (subst s1(2), simp add: leases_same_def draft_tables_def outbox_ok_def outbox_complete_def handoffs_ok_def)+
  have "recipients x s' = recipients x s" for x
    using ds announced_revision [OF parts(5) m] by (auto simp: recipients_def filter_empty_conv delivery_of_def)
  then have "receipts_ok s'" using receipts_ok_cong [OF eff(4), of] parts(3) fr t1 by simp
  moreover have "bundles_ok s'"
    using bundles_ok_cong [of s' s] parts(4) fr t1 eff(4) by (simp add: sql_update_def bundle_counter_def comp_def if_distrib)
  moreover have "announced s'" using parts(5) ds(1) by (auto simp: announced_def eff(4))
  moreover have "outbox_ok ?s2" using t1 parts(6) outbox_ok_cong [of ?s2 s1] by simp
  then have "outbox_ok s'" by (rule announcing.keeps_outbox [OF fan])
  ultimately show "exchange_ok s'" using eff(1,2) by (simp add: exchange_ok_def)
  show "leases_same s' s" using more t1 by (simp add: leases_same_def)
  show "draft_tables s' = draft_tables s" using more t1 by (simp add: draft_tables_def)
  show "idempotency s' = idempotency s" using fr t1 by simp
  show "grows s s'" using grows_append [of s' s "[]" ds] eff(4) ds(1) by simp
qed

lemma revise_service:
  assumes ok: "service_ok s" and run: "revise_message_in E a reviser k i key content s = Inr s'"
  shows "advances s s'"
proof -
  let ?k = "revise_key a (content \<noteq> None) key"
  obtain part h m s2 c s3 where m: "find (\<lambda>m. m_id m = i \<and> m_conversation m = k \<and> m_partition m = part) (messages s) = Some m"
    and s2: "s2 = refresh_directory_in (e_now E) accounts_partition [a] (refresh_directory_in (e_now E) part [a] s)"
    and cl: "claim_db (e_now E) (e_lease E) ?k h s2 = Inr (c, s3)"
    and rest: "(case c of Replay _ \<Rightarrow> Inr s3 | Acquired \<Rightarrow> bind_ok (apply_revision E a part k m content s3) (\<lambda>s4.
        complete_db ?k ''message'' i 200 s4)) = Inr s'"
    using run by (rule revise_messageE)
  have k: "keyed idem_key_of (idempotency s)" using ok by (simp add: service_ok_def)
  note b = keyed_request [OF cl _ _ k, unfolded s2, simplified]
  have ok3: "service_ok s3" by (rule service_ok_books [OF b(1,2) ok])
  show ?thesis
  proof (cases c)
    case (Replay j)
    with rest replayed_service [OF b(1,2) ok] show ?thesis by simp
  next
    case Acquired
    with rest obtain s4 where ap: "apply_revision E a part k m content s3 = Inr s4" and co: "complete_db ?k ''message'' i 200 s4 = Inr s'"
      by auto
    have "m \<in> set (messages s3)" "exchange_ok s3"
      using find_Some_in [OF m] but_booksD(5) [OF b(1)] ok3 by (simp_all add: service_ok_def)
    note eff = revision_exchange [OF this(2,1) ap]
    show ?thesis by (rule completed_service [OF co b(1) eff(5) ok3 eff(1-4)])
  qed
qed

lemma status_delivery_outbox:
  assumes "enqueue_message_status_delivery_in E part k i r st sender s = Inr s'" "outbox_ok s"
  shows "outbox_ok s'"
proof -
  obtain b s1 where ins: "insert_delivery (e_uuid E) None (e_now E) (e_fresh E 1) part sender (StatusDelivery st r) k i s = Inr (b, s1)"
    and s': "s' = (if b then notify_actor_in sender s1 else s1)"
    using assms(1) by (auto simp: enqueue_message_status_delivery_in_def)
  from insert_delivery_outbox [OF ins assms(2)] show ?thesis by (simp add: s')
qed

lemma receipt_service:
  assumes ok: "service_ok s" and run: "record_receipt_without_payload E k i a dev st s = Inr s'"
  shows "advances s s'"
proof -
  have parts: "messaging_ok s" "receipts_ok s" "histories_ok s" "bundles_ok s" "announced s" "outbox_ok s"
    "drafts_ok s" "presence_ok s" "keyed idem_key_of (idempotency s)"
    using ok by (simp_all add: service_ok_def exchange_ok_def)
  obtain part m sender where pre: "find (\<lambda>m. m_id m = i \<and> m_conversation m = k \<and> m_partition m = part) (messages s) = Some m"
    "require_participant s a k = Inr part" "parse_target (m_sender m) = Inr sender"
    using record_receiptD [OF run] by (elim exE conjE) (rule that)
  obtain r s1 where p: "put_receipt E part k i a dev st s = (r, s1)" by fastforce
  have "s' = s1 \<or> (\<exists>st'. enqueue_message_status_delivery_in E part k i r st' sender s1 = Inr s')"
    using run pre p by (auto simp: record_receipt_without_payload_def split: option.splits if_splits)
  then have out: "(outbox_ok s1 \<longrightarrow> outbox_ok s') \<and> but_outbox s' = but_outbox s1 \<and> (\<exists>ds. deliveries s' = deliveries s1 @ ds)"
  proof (elim disjE exE)
    fix st' assume enq: "enqueue_message_status_delivery_in E part k i r st' sender s1 = Inr s'"
    show ?thesis using status_delivery_outbox [OF enq] status_delivery_effect(1,3) [OF enq] by blast
  qed simp
  have s1: "s1 = s\<lparr>receipts := put_receipts E part k i a dev st s,
      messages := sql_update (\<lambda>m. m_id m = i) (advanced (e_now E) (s\<lparr>receipts := put_receipts E part k i a dev st s\<rparr>)) (messages s)\<rparr>"
    using put_receipt_eq [of E part k i a dev st s] by (simp add: p aggregate_eq)
  note fr = but_outboxD [OF conjunct1 [OF conjunct2 [OF out]]] and more = but_outbox_rest [OF conjunct1 [OF conjunct2 [OF out]]]
  have "i \<in> m_id ` set (messages s)" using find_Some_in [OF pre(1)] by auto
  then have "\<exists>f. messages s1 = sql_update (\<lambda>m. m_id m = i) f (messages s) \<and> (\<forall>m\<in>set (messages s). m_id (f m) = m_id m \<and>
      m_conversation (f m) = m_conversation m \<and> m_partition (f m) = m_partition m \<and> m_sender (f m) = m_sender m \<and>
      m_sequence (f m) = m_sequence m \<and> status_allowed (m_status m) (m_status (f m)))"
    by (rule put_receipt_ok(2) [OF parts(2), of i s1 E part k a dev st]) (simp add: p)
  then have rel: "list_all2 (\<lambda>m m'. m_id m' = m_id m \<and> m_conversation m' = m_conversation m \<and> m_sequence m' = m_sequence m \<and>
      m_sender m' = m_sender m \<and> status_allowed (m_status m) (m_status m')) (messages s) (messages s')"
    by (auto simp: fr sql_update_def list.rel_map intro!: list.rel_refl_strong)
  have "list_all2 (\<lambda>m m'. m_text m' = m_text m) (messages s) (messages s')"
    unfolding fr s1 by (simp add: sql_update_def list.rel_map advanced_def mark_read_def mark_delivered_def list.rel_refl)
  with rel have "list_all2 message_kept (messages s) (messages s')"
    by (simp add: list_all2_conv_all_nth message_kept_def)
  moreover have "\<exists>ds. deliveries s' = deliveries s @ ds" using out by (simp add: s1)
  ultimately have grown: "grows s s'" unfolding grows_def by (metis append_Nil2)
  have "outbox_ok s'" using out parts(6) outbox_ok_cong [of s1 s] by (simp add: s1)
  moreover have "bundles_ok s'"
    using bundles_ok_cong [of s' s] parts(4) fr
    by (simp add: s1 sql_update_def bundle_message_def comp_def if_distrib)
  moreover have "map m_id (messages s') = map m_id (messages s)" by (simp add: fr s1 sql_update_def)
  then have "m_id ` set (messages s') = m_id ` set (messages s)" by (metis set_map)
  then have "announced s'" using parts(5) out by (force simp: announced_def s1 image_def)
  moreover have "histories_ok s'" using receipt_histories [OF run] parts(3) by (simp add: histories_ok_def)
  moreover have "drafts_ok s'" "presence_ok s'" "keyed idem_key_of (idempotency s')"
    using parts(7-9) drafts_ok_cong [of s' s] more fr by (simp_all add: s1 presence_ok_def draft_tables_def)
  ultimately show ?thesis using receipt_keeps [OF parts(1,2) run] grown by (simp add: service_ok_def exchange_ok_def advances_def)
qed

text \<open>A new conversation has no messages yet; its accounts come from requests, where identifiers are checked.\<close>

lemma insert_participants:
  assumes "fold_result (\<lambda>a. insert_row participant_row_key (participant_of now i a)) ps rows = Inr rows'"
    and "keyed participant_row_key rows"
  shows "keyed participant_row_key rows'" "p \<in> set rows' \<Longrightarrow> p \<in> set rows \<or> p_actor p \<in> set ps"
proof -
  have "keyed participant_row_key rows' \<and> (\<forall>p\<in>set rows'. p \<in> set rows \<or> p_actor p \<in> set ps)"
    using assms
  proof (induction ps arbitrary: rows)
    case (Cons a ps)
    then obtain t where t: "insert_row participant_row_key (participant_of now i a) rows = Inr t"
      "fold_result (\<lambda>a. insert_row participant_row_key (participant_of now i a)) ps t = Inr rows'" by auto
    from t(1) have new: "t = rows @ [participant_of now i a]"
      "\<not> sql_exists (\<lambda>x. participant_row_key x = participant_row_key (participant_of now i a)) rows" by (auto simp: insert_row_ok)
    then have "keyed participant_row_key t" using Cons.prems(2) by (simp add: keyed_append_new)
    from Cons.IH [OF t(2) this] new show ?case by (auto simp: participant_of_def)
  qed simp
  then show "keyed participant_row_key rows'" "p \<in> set rows' \<Longrightarrow> p \<in> set rows \<or> p_actor p \<in> set ps" by blast+
qed

lemma canonical_exchange:
  assumes ok: "exchange_ok s" and run: "canonical_or_insert_in E a ps s = Inr (i, s')" and ids: "\<forall>p\<in>set ps. parse_target p = Inr p"
  shows "exchange_ok s'" "leases_same s' s" "draft_tables s' = draft_tables s" "idempotency s' = idempotency s" "grows s s'"
proof -
  let ?h = "participant_set_hash (e_sha256 E) ps"
  let ?c = "\<lparr>c_id = e_fresh E 0, c_partition = accounts_partition, c_set_hash = ?h, c_creator = a, c_is_group = False,
             c_superseded_by = None, c_next_sequence = 1, c_next_bundle = 1, c_created_at = e_now E, c_updated_at = e_now E\<rparr>"
  have parts: "messaging_ok s" "receipts_ok s" "histories_ok s" "bundles_ok s" "announced s" "outbox_ok s"
    using ok by (simp_all add: exchange_ok_def)
  have "s' = s \<or> (\<exists>rows. s' = s\<lparr>conversations := conversations s @ [?c], participants := rows\<rparr> \<and>
      \<not> sql_exists (\<lambda>x. c_id x = c_id ?c) (conversations s) \<and>
      fold_result (\<lambda>a. insert_row participant_row_key (participant_of (e_now E) (e_fresh E 0) a)) ps (participants s) = Inr rows)"
    using run by (auto simp: canonical_or_insert_in_def Let_def split: option.splits)
  then have "exchange_ok s' \<and> leases_same s' s \<and> draft_tables s' = draft_tables s \<and> idempotency s' = idempotency s \<and> grows s s'"
  proof (elim disjE exE conjE)
    fix rows assume s': "s' = s\<lparr>conversations := conversations s @ [?c], participants := rows\<rparr>"
      and new: "\<not> sql_exists (\<lambda>x. c_id x = c_id ?c) (conversations s)"
      and ins: "fold_result (\<lambda>a. insert_row participant_row_key (participant_of (e_now E) (e_fresh E 0) a)) ps (participants s) = Inr rows"
    note rows = insert_participants [OF ins messaging_okD(3) [OF parts(1)]]
    have fresh: "c_id x \<noteq> e_fresh E 0" if "x \<in> set (conversations s)" for x using new that by (auto simp: sql_exists_def)
    have sq: "sequences_ok s" by (rule messaging_okD(1) [OF parts(1)])
    have "keyed c_id (conversations s @ [?c])" using sq new by (intro keyed_append_new) (simp_all add: sequences_ok_def)
    moreover have none: "filter (\<lambda>m. m_conversation m = e_fresh E 0) (messages s) = []"
      using sq fresh by (force simp: sequences_ok_def filter_empty_conv)
    ultimately have "sequences_ok s'" using sq by (auto simp: sequences_ok_def s')
    moreover have "\<forall>p\<in>set rows. parse_target (p_actor p) = Inr (p_actor p)"
      using rows(2) ids parts(1) by (auto simp: messaging_ok_def)
    ultimately have "messaging_ok s'" using parts(1) rows(1) by (auto simp: messaging_ok_def streams_ok_def s')
    moreover have "filter (\<lambda>b. b_conversation b = e_fresh E 0) (bundles s) = []"
      using parts(4) fresh by (force simp: bundles_ok_def filter_empty_conv)
    then have "bundles_ok s'" using parts(4) by (auto simp: bundles_ok_def s' assert_bundle_shape_def items_of_def)
    moreover have "receipts_ok s'" using parts(2) receipts_ok_cong [of s' s] by (simp add: s' recipients_def)
    moreover have "outbox_ok s'" using parts(6) outbox_ok_cong [of s' s] by (simp add: s')
    ultimately show ?thesis using parts(3,5)
      by (simp add: exchange_ok_def histories_ok_def announced_def s' leases_same_def draft_tables_def grows_same)
  qed (use ok in simp)
  then show "exchange_ok s'" "leases_same s' s" "draft_tables s' = draft_tables s" "idempotency s' = idempotency s" "grows s s'" by blast+
qed

lemma create_service:
  assumes ok: "service_ok s" and run: "create_conversation_in E a ps key s = Inr (i, s')" and ids: "\<forall>p\<in>set ps. parse_target p = Inr p"
  shows "advances s s'"
proof -
  let ?ps = "canonicalize_participants ps"
  let ?s1 = "refresh_directory_in (e_now E) accounts_partition ?ps s"
  obtain h c s2 where cl: "claim_db (e_now E) (e_lease E) (create_key a key) h ?s1 = Inr (c, s2)"
    and rest: "(case c of Replay i \<Rightarrow> Inr (i, s2) | Acquired \<Rightarrow> bind_ok (canonical_or_insert_in E a ?ps s2)
      (\<lambda>(i, s3). bind_ok (complete_db (create_key a key) ''conversation'' i 201 s3) (\<lambda>s4. Inr (i, s4)))) = Inr (i, s')"
    using run by (auto simp: create_conversation_in_def Let_def split: if_splits)
  have k: "keyed idem_key_of (idempotency s)" using ok by (simp add: service_ok_def)
  note b = keyed_request [OF cl _ _ k, simplified]
  have ok2: "service_ok s2" by (rule service_ok_books [OF b(1,2) ok])
  show ?thesis
  proof (cases c)
    case (Replay j)
    with rest replayed_service [OF b(1,2) ok] show ?thesis by simp
  next
    case Acquired
    with rest obtain s3 where ins: "canonical_or_insert_in E a ?ps s2 = Inr (i, s3)"
      and co: "complete_db (create_key a key) ''conversation'' i 201 s3 = Inr s'" by auto
    have "\<forall>p\<in>set ?ps. parse_target p = Inr p" using ids by (simp add: canonicalize_participants_def)
    note eff = canonical_exchange [OF _ ins this]
    show ?thesis by (rule completed_service [OF co b(1) _ ok2]) (use eff ok2 in \<open>simp_all add: service_ok_def\<close>)
  qed
qed

section \<open>Drafts, handoffs, presence and compaction\<close>

lemma draft_frames:
  "put_draft L E k a expected input s = Inr (r, s') \<Longrightarrow> but_drafts s' = but_drafts s"
  "delete_draft E a k s = Inr s' \<Longrightarrow> but_drafts s' = but_drafts s"
proof -
  show "but_drafts s' = but_drafts s" if run: "put_draft L E k a expected input s = Inr (r, s')"
    using run
  proof (cases rule: put_draftE)
    case (saved part s1 d1)
    with write_draft_frame [OF saved(4)] children_keep_drafts(3) [OF saved(5)] show ?thesis by simp
  qed simp
  show "delete_draft E a k s = Inr s' \<Longrightarrow> but_drafts s' = but_drafts s"
    by (auto simp: delete_draft_def advance_drafts_def delete_draft_children_by_owner_def but_drafts_def Let_def split: if_splits)
qed

lemma draft_service:
  assumes ok: "service_ok s" and fr: "but_drafts s' = but_drafts s" and adv: "drafts_ok s \<Longrightarrow> counters_advance s s'"
  shows "advances s s'"
proof -
  note d = but_draftsD [OF fr] and r = but_drafts_rest [OF fr]
  have "exchange_ok s' = exchange_ok s" using d r by (intro exchange_ok_tables) (simp_all add: same_membership_def)
  moreover have "drafts_ok s'" using adv ok by (simp add: service_ok_def counters_advance_def)
  moreover have "presence_ok s' = presence_ok s" using r by (simp add: presence_ok_def)
  moreover have "grows s s'" using d by (intro grows_same) simp_all
  ultimately show ?thesis using ok d by (simp add: advances_def service_ok_def)
qed

text \<open>What the delivery workers do changes only the queue.\<close>

lemma queue_service:
  assumes ok: "service_ok s" and only: "s' = s\<lparr>ting_handoffs := ting_handoffs s'\<rparr>" and kept: "handoffs_ok s \<Longrightarrow> handoffs_ok s' \<and> queue_kept s s'"
  shows "advances s s'"
proof -
  obtain t where s': "s' = s\<lparr>ting_handoffs := t\<rparr>" using only by blast
  have tables: "messages s' = messages s" "deliveries s' = deliveries s" "idempotency s' = idempotency s" "receipts s' = receipts s"
    "histories s' = histories s" "bundles_ok s' = bundles_ok s" "leases_same s' s" "draft_tables s' = draft_tables s"
    "messaging_ok s' = messaging_ok s" "announced s' = announced s"
    by (simp_all add: s' leases_same_def draft_tables_def messaging_ok_def sequences_ok_def streams_ok_def announced_def
        bundles_ok_def assert_bundle_shape_def items_of_def)
  have out: "outbox_ok s" using ok by (simp add: service_ok_def exchange_ok_def)
  then have "handoffs_ok s" by (simp add: outbox_ok_def)
  then have "outbox_ok s'" by (rule outbox_ok_queue [OF out kept tables(2)])
  moreover have "receipts_ok s' = receipts_ok s" using tables by (intro receipts_ok_cong) (simp_all add: recipients_def)
  moreover have "grows s s'" using tables by (intro grows_same) simp_all
  ultimately show ?thesis
    using ok tables leases_same_ok [OF tables(7)] drafts_ok_cong [OF tables(8)]
    by (simp add: advances_def service_ok_def exchange_ok_def histories_ok_def)
qed

lemma queue_only:
  "keyed th_delivery (ting_handoffs s) \<Longrightarrow> claim_ting_deliveries J E owner limit ms app s = Inr (cs, s') \<Longrightarrow> s' = s\<lparr>ting_handoffs := ting_handoffs s'\<rparr>"
  "accept_ting_delivery now i l ting created silent s = Inr s' \<Longrightarrow> s' = s\<lparr>ting_handoffs := ting_handoffs s'\<rparr>"
  "retry_ting_delivery now i l at code s = Inr s' \<Longrightarrow> s' = s\<lparr>ting_handoffs := ting_handoffs s'\<rparr>"
  "discard_ting_handoffs now reason bound s = Inr (n, s') \<Longrightarrow> s' = s\<lparr>ting_handoffs := ting_handoffs s'\<rparr>"
proof -
  show "keyed th_delivery (ting_handoffs s) \<Longrightarrow> claim_ting_deliveries J E owner limit ms app s = Inr (cs, s') \<Longrightarrow> s' = s\<lparr>ting_handoffs := ting_handoffs s'\<rparr>"
    using claim_ting_effect claimingD(2) by metis
  show "accept_ting_delivery now i l ting created silent s = Inr s' \<Longrightarrow> s' = s\<lparr>ting_handoffs := ting_handoffs s'\<rparr>"
    by (simp only: accept_ting_delivery_def Let_def split: if_splits) auto
  show "retry_ting_delivery now i l at code s = Inr s' \<Longrightarrow> s' = s\<lparr>ting_handoffs := ting_handoffs s'\<rparr>"
    by (simp only: retry_ting_delivery_def Let_def split: if_splits) auto
  show "discard_ting_handoffs now reason bound s = Inr (n, s') \<Longrightarrow> s' = s\<lparr>ting_handoffs := ting_handoffs s'\<rparr>"
    by (simp only: discard_ting_handoffs_def Let_def split: if_splits) auto
qed

text \<open>Presence changes its own tables and the directory.\<close>

definition but_presence :: "db \<Rightarrow> db" where
  "but_presence s = s\<lparr>organizations := [], snapshots := [], presence_leases := [], presence_states := []\<rparr>"

lemma but_presenceD:
  assumes "but_presence s' = but_presence s"
  shows "same_membership s' s" "conversations s' = conversations s" "messages s' = messages s" "streams s' = streams s"
    "deliveries s' = deliveries s" "receipts s' = receipts s" "histories s' = histories s" "bundles s' = bundles s"
    "bundle_items s' = bundle_items s" "ting_handoffs s' = ting_handoffs s" "draft_tables s' = draft_tables s" "idempotency s' = idempotency s"
  using assms by (cases s; cases s'; simp add: but_presence_def draft_tables_def same_membership_def)+

lemma record_offline_presence: "but_presence (record_actor_offline now part a s) = but_presence s"
  by (simp add: record_actor_offline_def Let_def but_presence_def split: option.splits)

lemma presence_frames:
  "renew_http_presence now a device doing ld ad s = Inr (p, s') \<Longrightarrow> but_presence s' = but_presence s"
  "close_http_presence now a device s = Inr s' \<Longrightarrow> but_presence s' = but_presence s"
  "but_presence (snd (expire_http_presence_leases lock_key now s)) = but_presence s"
proof -
  have upd: "but_presence (s\<lparr>presence_leases := t\<rparr>) = but_presence s" for s t by (simp add: but_presence_def)
  have refr: "but_presence (refresh_directory_in now part as s) = but_presence s" for part as s
    by (simp add: but_presence_def refresh_directory_in_def)
  show "renew_http_presence now a device doing ld ad s = Inr (p, s') \<Longrightarrow> but_presence s' = but_presence s"
    by (auto simp: renew_http_presence_def Let_def upd refr record_offline_presence)
  show "close_http_presence now a device s = Inr s' \<Longrightarrow> but_presence s' = but_presence s"
    by (auto simp: close_http_presence_def upd record_offline_presence)
  have one: "but_presence (snd (expire_actor now x c)) = but_presence (snd c)" for x c
    by (simp add: expire_actor_def Let_def case_prod_unfold upd record_offline_presence)
  have "but_presence (snd (fold (expire_actor now) xs c)) = but_presence (snd c)" for xs c
    by (induction xs arbitrary: c) (simp_all add: one)
  then show "but_presence (snd (expire_http_presence_leases lock_key now s)) = but_presence s"
    by (simp add: expire_http_presence_leases_def)
qed

lemma presence_service:
  assumes ok: "service_ok s" and fr: "but_presence s' = but_presence s" and kept: "presence_ok s'"
  shows "advances s s'"
proof -
  note d = but_presenceD [OF fr]
  have "exchange_ok s' = exchange_ok s" by (rule exchange_ok_tables [OF d(1-10)])
  moreover have "grows s s'" by (rule grows_same [OF d(3,5)])
  ultimately show ?thesis using ok kept d(12) drafts_ok_cong [OF d(11)] by (simp add: advances_def service_ok_def)
qed

text \<open>Compaction deletes expired idempotency records; no delivery is marked for deletion.\<close>

lemma compaction_service:
  assumes "service_ok s"
  shows "advances s (snd (compact_delivery_state now s))"
proof -
  have "sql_delete (expired_delivery now) (deliveries s) = deliveries s"
    using assms by (simp add: service_ok_def exchange_ok_def outbox_ok_def sql_delete_def expired_delivery_def is_some_and_def)
  then have s': "snd (compact_delivery_state now s) = s\<lparr>idempotency := sql_delete (expired_record now) (idempotency s)\<rparr>"
    by (simp add: compact_delivery_state_def)
  show ?thesis unfolding s'
    by (rule replayed_service [OF _ _ assms]) (use assms in \<open>simp_all add: service_ok_def keyed_sql_delete\<close>)
qed

section \<open>The service\<close>

text \<open>Everything the handlers and workers do to messages, drafts, handoffs and presence. Accounts named in a
  request have checked identifiers.\<close>

inductive service_step :: "ting_lib \<Rightarrow> db \<Rightarrow> db \<Rightarrow> bool" for J where
  starts: "create_conversation_in E a ps key s = Inr (i, s') \<Longrightarrow> \<forall>p\<in>set ps. parse_target p = Inr p \<Longrightarrow> service_step J s s'"
| sends: "send_message_in E k a content key via s = Inr (i, s') \<Longrightarrow> service_step J s s'"
| acknowledges: "record_receipt_without_payload E k i a dev st s = Inr s' \<Longrightarrow> service_step J s s'"
| revises: "revise_message_in E a reviser k i key content s = Inr s' \<Longrightarrow> service_step J s s'"
| bundles: "create_bundle_in E k a b key s = Inr (r, s') \<Longrightarrow> service_step J s s'"
| saves: "put_draft L E k a expected input s = Inr (saved, s') \<Longrightarrow> service_step J s s'"
| drops: "delete_draft E a k s = Inr s' \<Longrightarrow> service_step J s s'"
| claims: "claim_ting_deliveries J E owner limit ms app s = Inr (cs, s') \<Longrightarrow> service_step J s s'"
| accepts: "accept_ting_delivery now i l ting created silent s = Inr s' \<Longrightarrow> service_step J s s'"
| retries: "retry_ting_delivery now i l at code s = Inr s' \<Longrightarrow> service_step J s s'"
| discards: "discard_ting_handoffs now reason bound s = Inr (n, s') \<Longrightarrow> service_step J s s'"
| renews: "renew_http_presence now a device doing ld ad s = Inr (p, s') \<Longrightarrow> service_step J s s'"
| closes: "close_http_presence now a device s = Inr s' \<Longrightarrow> service_step J s s'"
| expires: "service_step J s (snd (expire_http_presence_leases lock_key now s))"
| compacts: "service_step J s (snd (compact_delivery_state now s))"

lemma service_step_advances:
  assumes "service_step J s s'" "service_ok s"
  shows "advances s s'"
  using assms(1)
proof cases
  case (starts E a ps key i)
  with create_service [OF assms(2)] show ?thesis by blast
next
  case sends
  then show ?thesis by (rule send_service [OF assms(2)])
next
  case acknowledges
  then show ?thesis by (rule receipt_service [OF assms(2)])
next
  case revises
  then show ?thesis by (rule revise_service [OF assms(2)])
next
  case bundles
  then show ?thesis by (rule bundle_service [OF assms(2)])
next
  case saves
  show ?thesis by (rule draft_service [OF assms(2) draft_frames(1) [OF saves] put_counters(1) [OF _ saves]])
next
  case drops
  show ?thesis by (rule draft_service [OF assms(2) draft_frames(2) [OF drops] delete_counters [OF _ drops]])
next
  case claims
  have "keyed th_delivery (ting_handoffs s)" using assms(2) by (simp add: service_ok_def exchange_ok_def outbox_ok_def handoffs_ok_def)
  then show ?thesis by (rule queue_service [OF assms(2) queue_only(1) [OF _ claims] claims_keep [OF claims]])
next
  case accepts
  show ?thesis by (rule queue_service [OF assms(2) queue_only(2) [OF accepts] accept_keeps [OF accepts]])
next
  case retries
  show ?thesis by (rule queue_service [OF assms(2) queue_only(3) [OF retries] retry_keeps [OF retries]])
next
  case discards
  show ?thesis by (rule queue_service [OF assms(2) queue_only(4) [OF discards] discard_batch_keeps [OF discards]])
next
  case renews
  show ?thesis by (rule presence_service [OF assms(2) presence_frames(1) [OF renews]])
      (use renew_mono [OF renews] assms(2) in \<open>simp add: service_ok_def\<close>)
next
  case closes
  show ?thesis by (rule presence_service [OF assms(2) presence_frames(2) [OF closes]])
      (use close_mono [OF closes] assms(2) in \<open>simp add: service_ok_def\<close>)
next
  case expires
  show ?thesis unfolding expires by (rule presence_service [OF assms(2) presence_frames(3)])
      (use expire_mono assms(2) in \<open>simp add: service_ok_def\<close>)
next
  case compacts
  show ?thesis unfolding compacts by (rule compaction_service [OF assms(2)])
qed


lemma chat_service: "service_ok chat"
  using chat_ok
  by (simp add: service_ok_def exchange_ok_def receipts_ok_def histories_ok_def bundles_ok_def announced_def outbox_ok_def
      outbox_complete_def handoffs_ok_def drafts_ok_def presence_ok_def chat_def empty_db_def)


end
