(* ===== verification/Relay.thy ===== *)
theory Relay
  imports Content
begin

text \<open>The outgoing side of the client library (\<open>crates/client/src/runtime\<close>, with \<open>relay.rs\<close>): every request of a
  user is queued in a file of the home directory and sent by one daemon per user, which survives restarts and
  outages. The theory holds the requests and their lanes, the queue with its statements, the profiles and how
  their sign-in is kept, refreshed and replaced, one attempt to send a request, and the scheduler. The DM
  service, Silicon Accounts, the JSON text of a request and what other processes write meanwhile are
  parameters. The theorems: a queued request is kept and ends once, it is sent as the account it was queued
  for, lanes keep their order without waiting for each other, the scheduler stays within its limits, and a
  refresh never overwrites a newer sign-in.\<close>

section \<open>Requests\<close>

text \<open>\<open>Operation\<close> of \<open>relay.rs\<close>. The relay never looks into the bodies it forwards: they are JSON.\<close>

datatype operation =
    Me
  | Delivery
  | ListGroups (op_page: json)
  | GetGroup (op_group: str)
  | CreateGroup (op_body: json) (op_key: str)
  | UpdateGroup (op_group: str) (op_body: json) (op_version: int) (op_key: str)
  | InviteGroupMembers (op_group: str) (op_members: "str list") (op_key: str)
  | RemoveGroupMembers (op_group: str) (op_members: "str list") (op_key: str)
  | AddGroupOwners (op_group: str) (op_members: "str list") (op_key: str)
  | RemoveGroupOwners (op_group: str) (op_members: "str list") (op_key: str)
  | ListInvitations (op_for: "str option")
  | AcceptInvitation (op_group: str)
  | DeclineInvitation (op_group: str) (op_for: "str option")
  | LeaveGroup (op_group: str)
  | GetAllowList (op_for: "str option")
  | Allow (op_accounts: "str list") (op_for: "str option")
  | Disallow (op_accounts: "str list") (op_for: "str option")
  | ListConversations (op_page: json) (op_for: "str option")
  | CreateConversation (op_participants: "str list") (op_key: str)
  | ListMessages (op_conversation: str) (op_page: json) (op_bundled: bool)
  | GetMessage (op_conversation: str) (op_message: str)
  | SendMessage (op_conversation: str) (op_body: json) (op_key: str)
  | EditMessage (op_conversation: str) (op_message: str) (op_body: json) (op_key: str)
  | DeleteMessage (op_conversation: str) (op_message: str) (op_key: str)
  | Receipt (op_conversation: str) (op_message: str) (op_status: json) (op_device: str)
  | GetDraft (op_conversation: str)
  | PutDraft (op_conversation: str) (op_body: json) (op_version: int)
  | DeleteDraft (op_conversation: str)
  | CreateBundle (op_conversation: str) (op_body: json) (op_key: str)
  | GetBundle (op_conversation: str) (op_bundle: str)
  | GetPresence (op_actor: str)
  | SetPresence (op_activity: "json option")
  | TrendingGifs
  | SearchGifs (op_query: str)
  | RecentGifs

fun is_mutation :: "operation \<Rightarrow> bool" where
  "is_mutation (CreateGroup _ _) = True"
| "is_mutation (UpdateGroup _ _ _ _) = True"
| "is_mutation (InviteGroupMembers _ _ _) = True"
| "is_mutation (RemoveGroupMembers _ _ _) = True"
| "is_mutation (AddGroupOwners _ _ _) = True"
| "is_mutation (RemoveGroupOwners _ _ _) = True"
| "is_mutation (AcceptInvitation _) = True"
| "is_mutation (DeclineInvitation _ _) = True"
| "is_mutation (LeaveGroup _) = True"
| "is_mutation (Allow _ _) = True"
| "is_mutation (Disallow _ _) = True"
| "is_mutation (CreateConversation _ _) = True"
| "is_mutation (SendMessage _ _ _) = True"
| "is_mutation (EditMessage _ _ _ _) = True"
| "is_mutation (DeleteMessage _ _ _) = True"
| "is_mutation (Receipt _ _ _ _) = True"
| "is_mutation (PutDraft _ _ _) = True"
| "is_mutation (DeleteDraft _) = True"
| "is_mutation (CreateBundle _ _ _) = True"
| "is_mutation (SetPresence _) = True"
| "is_mutation _ = False"

record relay_request =
  rq_id :: uuid
  rq_profile :: str
  rq_testing_environment :: "uuid option"
  rq_testing_generation :: "int option"
  rq_operation :: operation

text \<open>Requests about one conversation share a lane, presence has its own, everything else is in the empty one.\<close>

fun lane :: "operation \<Rightarrow> str" where
  "lane (ListMessages k _ _) = lit ''conversation:'' @ k"
| "lane (GetMessage k _) = lit ''conversation:'' @ k"
| "lane (SendMessage k _ _) = lit ''conversation:'' @ k"
| "lane (EditMessage k _ _ _) = lit ''conversation:'' @ k"
| "lane (DeleteMessage k _ _) = lit ''conversation:'' @ k"
| "lane (Receipt k _ _ _) = lit ''conversation:'' @ k"
| "lane (GetDraft k) = lit ''conversation:'' @ k"
| "lane (PutDraft k _ _) = lit ''conversation:'' @ k"
| "lane (DeleteDraft k) = lit ''conversation:'' @ k"
| "lane (CreateBundle k _ _) = lit ''conversation:'' @ k"
| "lane (GetBundle k _) = lit ''conversation:'' @ k"
| "lane (SetPresence _) = lit ''presence''"
| "lane _ = []"

definition session_key :: "str \<Rightarrow> str" where
  "session_key name = name @ lit '':production''"

section \<open>The outgoing queue\<close>

datatype outbox_state = OutPending | OutCompleted | OutFailed

text \<open>A row of \<open>outbox\<close>. No row is ever deleted, so its place in the list is its \<open>rowid\<close>.\<close>

record outbox_row =
  ob_id :: uuid
  ob_session :: str
  ob_request :: json
  ob_state :: outbox_state
  ob_result :: "json option"
  ob_error :: "json option"
  ob_attempts :: int
  ob_next_attempt :: int
  ob_created :: int
  ob_lane :: str

type_synonym outbox = "outbox_row list"

text \<open>Failures of the local runtime are messages for people (\<open>anyhow\<close>).\<close>

type_synonym 'a fallible = "string + 'a"

definition new_row :: "int \<Rightarrow> relay_request \<Rightarrow> json \<Rightarrow> outbox_row" where
  "new_row now request original =
     \<lparr>ob_id = rq_id request, ob_session = session_key (rq_profile request), ob_request = original, ob_state = OutPending,
      ob_result = None, ob_error = None, ob_attempts = 0, ob_next_attempt = 0, ob_created = now,
      ob_lane = lane (rq_operation request)\<rparr>"

definition enqueue :: "int \<Rightarrow> relay_request \<Rightarrow> json \<Rightarrow> outbox \<Rightarrow> outbox fallible" where
  "enqueue now request original t =
     (if rq_testing_environment request \<noteq> None
      then Inl ''test environments were retired with the move to Silicon Accounts; this request was not queued''
      else
        (case find (\<lambda>r. ob_id r = rq_id request) t of
           Some previous \<Rightarrow>
             if ob_request previous \<noteq> original then Inl ''request_id was already used for a different request'' else Inr t
         | None \<Rightarrow> Inr (t @ [new_row now request original])))"

definition row_pending :: "outbox_row \<Rightarrow> bool" where
  "row_pending r \<longleftrightarrow> ob_state r = OutPending"

definition pending_count :: "str \<Rightarrow> outbox \<Rightarrow> nat" where
  "pending_count session t = rows_affected (\<lambda>r. ob_session r = session \<and> row_pending r) t"

definition fail_row :: "json \<Rightarrow> outbox_row \<Rightarrow> outbox_row" where
  "fail_row error r = r\<lparr>ob_state := OutFailed, ob_error := Some error\<rparr>"

definition fail_pending :: "str \<Rightarrow> json \<Rightarrow> outbox \<Rightarrow> nat \<times> outbox" where
  "fail_pending session error t =
     (let p = (\<lambda>r. ob_session r = session \<and> row_pending r) in (rows_affected p t, sql_update p (fail_row error) t))"

definition error_detail :: "string \<Rightarrow> string \<Rightarrow> json" where
  "error_detail code message = JObj [(lit ''code'', JStr (lit code)), (lit ''message'', JStr (lit message))]"

text \<open>\<open>LIKE\<close> ignores the case of ASCII letters.\<close>

definition like_production :: "str \<Rightarrow> bool" where
  "like_production session \<longleftrightarrow> suffix (lit '':production'') (to_ascii_lowercase session)"

definition retire_test_environment_requests :: "outbox \<Rightarrow> nat \<times> outbox" where
  "retire_test_environment_requests t =
     (let p = (\<lambda>r. row_pending r \<and> \<not> like_production (ob_session r)) in
      (rows_affected p t, sql_update p (fail_row (error_detail ''testing_environments_retired''
        ''This request was queued for a test environment; test environments were retired with the move to Silicon Accounts, so it was not sent.'')) t))"

definition request_status :: "uuid \<Rightarrow> outbox \<Rightarrow> outbox_state option" where
  "request_status i t = map_option ob_state (find (\<lambda>r. ob_id r = i) t)"

record relay_result =
  rs_id :: uuid
  rs_state :: outbox_state
  rs_result :: "json option"
  rs_error :: "json option"
  rs_request :: json

definition relay_result_of :: "uuid \<Rightarrow> outbox \<Rightarrow> relay_result option" where
  "relay_result_of i t =
     map_option (\<lambda>r. \<lparr>rs_id = i, rs_state = ob_state r, rs_result = ob_result r, rs_error = ob_error r, rs_request = ob_request r\<rparr>)
       (find (\<lambda>r. ob_id r = i) t)"

text \<open>An earlier pending request of the session blocks a later one in its lane, everything behind a request
  of the empty lane, and, as long as it has not failed yet, a request of the empty lane.\<close>

definition blocks :: "outbox_row \<Rightarrow> outbox_row \<Rightarrow> bool" where
  "blocks previous r \<longleftrightarrow> ob_session previous = ob_session r \<and> row_pending previous \<and>
     (ob_lane previous = ob_lane r \<or> ob_lane previous = [] \<or> (ob_lane r = [] \<and> ob_attempts previous = 0))"

fun unblocked :: "int \<Rightarrow> outbox \<Rightarrow> outbox \<Rightarrow> outbox" where
  "unblocked now earlier [] = []"
| "unblocked now earlier (r # t) =
     (if row_pending r \<and> ob_next_attempt r \<le> now \<and> \<not> sql_exists (\<lambda>previous. blocks previous r) earlier then [r] else [])
       @ unblocked now (earlier @ [r]) t"

record request_candidate =
  ca_id :: uuid
  ca_session :: str
  ca_lane :: str
  ca_bytes :: nat

definition u32_limit :: nat where "u32_limit = 2 ^ 32 - 1"

text \<open>\<open>octets\<close> is the length of the stored JSON text.\<close>

definition request_candidates :: "(json \<Rightarrow> nat) \<Rightarrow> int \<Rightarrow> outbox \<Rightarrow> request_candidate list fallible" where
  "request_candidates octets now t =
     map_result (\<lambda>r. if octets (ob_request r) > u32_limit then Inl ''integer out of range''
         else Inr \<lparr>ca_id = ob_id r, ca_session = ob_session r, ca_lane = ob_lane r, ca_bytes = octets (ob_request r)\<rparr>)
       (take 50 (unblocked now [] t))"

definition load_request :: "(json \<Rightarrow> relay_request fallible) \<Rightarrow> int \<Rightarrow> uuid \<Rightarrow> outbox \<Rightarrow> relay_request option fallible" where
  "load_request decode now i t =
     option_result (\<lambda>r. decode (ob_request r)) (find (\<lambda>r. ob_id r = i \<and> row_pending r \<and> ob_next_attempt r \<le> now) t)"

definition finish :: "uuid \<Rightarrow> json option \<Rightarrow> json option \<Rightarrow> outbox \<Rightarrow> outbox" where
  "finish i result error t = sql_update (\<lambda>r. ob_id r = i)
     (\<lambda>r. r\<lparr>ob_state := (if error \<noteq> None then OutFailed else OutCompleted), ob_result := result, ob_error := error\<rparr>) t"

definition backoff :: "int \<Rightarrow> int" where
  "backoff attempts = min 60 (2 ^ nat (min attempts 6))"

definition retry_row :: "int \<Rightarrow> uuid \<Rightarrow> json \<Rightarrow> outbox \<Rightarrow> outbox" where
  "retry_row now i error t = sql_update (\<lambda>r. ob_id r = i)
     (\<lambda>r. r\<lparr>ob_attempts := ob_attempts r + 1, ob_next_attempt := now + backoff (ob_attempts r), ob_error := Some error\<rparr>) t"

text \<open>Older releases kept incoming deliveries in a table \<open>inbox\<close>, with the flag \<open>delivered\<close>.\<close>

record queue_stats =
  qs_pending :: nat
  qs_failed :: nat
  qs_retained :: nat
  qs_retained_pending :: nat

definition queue_stats_of :: "bool list option \<Rightarrow> outbox \<Rightarrow> queue_stats" where
  "queue_stats_of inbox t = \<lparr>qs_pending = rows_affected row_pending t, qs_failed = rows_affected (\<lambda>r. ob_state r = OutFailed) t,
     qs_retained = (case inbox of Some deliveries \<Rightarrow> length deliveries | None \<Rightarrow> 0),
     qs_retained_pending = (case inbox of Some deliveries \<Rightarrow> rows_affected Not deliveries | None \<Rightarrow> 0)\<rparr>"

definition stored_operation :: "json \<Rightarrow> json option" where
  "stored_operation j = Option.bind (json_field j ''request'') (\<lambda>q. json_field q ''operation'')"

definition expire_transient_commands :: "outbox \<Rightarrow> outbox" where
  "expire_transient_commands t = sql_update (\<lambda>r. row_pending r \<and> stored_operation (ob_request r) = Some (JStr (lit ''set_presence'')))
     (fail_row (error_detail ''transient_expired'' ''presence change expired when the daemon stopped; send a current activity'')) t"

section \<open>Profiles\<close>

record profile_account =
  pa_uuid :: str
  pa_kind :: actor_type
  pa_id :: str
  pa_display_name :: "str option"
  pa_custodian :: "(str \<times> str) option"

record tokens =
  tk_access :: str
  tk_refresh :: str
  tk_scope :: "str option"
  tk_expires_in :: nat
  tk_refresh_expires_at :: "nat option"

record legacy_sign_in =
  lg_actor_id :: "str option"
  lg_testing_environment :: "uuid option"
  lg_migrated_at :: nat

record ended_sign_in =
  en_reason :: str
  en_message :: str
  en_at :: nat

record profile =
  pf_name :: str
  pf_base_url :: str
  pf_accounts_url :: str
  pf_app_id :: str
  pf_account :: "profile_account option"
  pf_tokens :: "tokens option"
  pf_device :: str
  pf_expires_at :: nat
  pf_enabled :: bool
  pf_signed_in_at :: "nat option"
  pf_method :: "str option"
  pf_legacy :: "legacy_sign_in option"
  pf_ended :: "ended_sign_in option"

text \<open>What Silicon Accounts answers a sign-in or a refresh with.\<close>

record session =
  se_access :: str
  se_refresh :: str
  se_expires_in :: nat
  se_expires_at :: nat
  se_refresh_expires_at :: "nat option"
  se_scope :: "str option"
  se_account :: "profile_account option"

record sign_in_error =
  sx_code :: str
  sx_message :: str
  sx_retryable :: bool

definition error_sign_in_ended :: "sign_in_error \<Rightarrow> bool" where
  "error_sign_in_ended e \<longleftrightarrow> sx_code e = lit ''sign_in_ended''"

definition profile_new :: "str \<Rightarrow> str \<Rightarrow> str \<Rightarrow> str \<Rightarrow> str \<Rightarrow> profile" where
  "profile_new device name base_url accounts_url app_id =
     \<lparr>pf_name = name, pf_base_url = base_url, pf_accounts_url = accounts_url, pf_app_id = app_id, pf_account = None,
      pf_tokens = None, pf_device = device, pf_expires_at = 0, pf_enabled = False, pf_signed_in_at = None,
      pf_method = None, pf_legacy = None, pf_ended = None\<rparr>"

definition profile_signed_in :: "profile \<Rightarrow> bool" where
  "profile_signed_in p \<longleftrightarrow> pf_enabled p \<and> pf_tokens p \<noteq> None \<and> pf_account p \<noteq> None"

definition profile_access_token :: "profile \<Rightarrow> str option" where
  "profile_access_token p = map_option tk_access (pf_tokens p)"

definition same_sign_in :: "profile \<Rightarrow> profile \<Rightarrow> bool" where
  "same_sign_in p q \<longleftrightarrow> map_option pa_uuid (pf_account p) = map_option pa_uuid (pf_account q) \<and>
     map_option tk_refresh (pf_tokens p) = map_option tk_refresh (pf_tokens q)"

definition apply_session :: "session \<Rightarrow> profile \<Rightarrow> profile" where
  "apply_session s p = p\<lparr>
     pf_account := (case se_account s of Some a \<Rightarrow> Some a | None \<Rightarrow> pf_account p),
     pf_tokens := Some \<lparr>tk_access = se_access s, tk_refresh = se_refresh s, tk_scope = se_scope s,
       tk_expires_in = se_expires_in s, tk_refresh_expires_at = se_refresh_expires_at s\<rparr>,
     pf_expires_at := se_expires_at s, pf_enabled := True, pf_ended := None\<rparr>"

definition clear_sign_in :: "ended_sign_in option \<Rightarrow> profile \<Rightarrow> profile" where
  "clear_sign_in ended p = p\<lparr>pf_tokens := None, pf_enabled := False, pf_expires_at := 0, pf_ended := ended\<rparr>"

text \<open>\<open>config.json\<close>, changed under its lock and replaced as a whole.\<close>

record config =
  cf_default_profile :: str
  cf_profiles :: "str \<rightharpoonup> profile"
  cf_relay_port :: nat
  cf_relay_token :: str

definition update_stored :: "str \<Rightarrow> (profile \<Rightarrow> profile) \<Rightarrow> config \<Rightarrow> config" where
  "update_stored key f c = c\<lparr>cf_profiles := (cf_profiles c)(key := map_option f (cf_profiles c key))\<rparr>"

definition validate_profile_name :: "str \<Rightarrow> unit fallible" where
  "validate_profile_name name =
     (if name = [] \<or> str_len name > 64 \<or> \<not> list_all (\<lambda>b. is_ascii_alphanumeric b \<or> b = 95 \<or> b = 45) (bytes name)
      then Inl ''profile names must use 1-64 letters, digits, underscores or hyphens'' else Inr ())"

datatype session_code = NotSignedIn | SignInEnded | SignInRequired | ProfileInUse

record session_error =
  sn_code :: session_code
  sn_message :: str
  sn_hint :: str

definition sign_in_hint :: "str \<Rightarrow> str" where
  "sign_in_hint name =
     (let flag = (if name = lit ''default'' then [] else lit ''--profile '' @ name @ lit '' '') in
      lit ''Carbon: dm '' @ flag @ lit ''login (approve the code it prints). Silicon: silicon-accounts login --app dm -q | dm '' @ flag @
      lit ''login --slt-stdin'')"

definition not_signed_in :: "str \<Rightarrow> session_error" where
  "not_signed_in name = \<lparr>sn_code = NotSignedIn, sn_message = lit ''The DM profile `'' @ name @ lit ''` is not signed in.'',
     sn_hint = sign_in_hint name\<rparr>"

definition signed_out_reason :: "profile \<Rightarrow> session_error" where
  "signed_out_reason p =
     (case pf_ended p of
        Some ended \<Rightarrow> \<lparr>sn_code = SignInEnded, sn_message = lit ''The DM profile `'' @ pf_name p @
            lit ''` was signed out by Silicon Accounts: '' @ en_message ended, sn_hint = sign_in_hint (pf_name p)\<rparr>
      | None \<Rightarrow>
          (case pf_legacy p of
             Some legacy \<Rightarrow> \<lparr>sn_code = SignInRequired, sn_message = lit ''The DM profile `'' @ pf_name p @ lit ''` was signed in'' @
                 (case lg_actor_id legacy of Some i \<Rightarrow> lit '' as '' @ i | None \<Rightarrow> []) @
                 lit '' before DM moved to Silicon Accounts; that sign-in no longer works.'',
                 sn_hint = sign_in_hint (pf_name p) @ lit '' Requests it queued are sent after the same id signs in again.''\<rparr>
           | None \<Rightarrow> not_signed_in (pf_name p)))"

definition stored_profile :: "config \<Rightarrow> str \<Rightarrow> session_error + profile" where
  "stored_profile c name =
     (case cf_profiles c (session_key name) of
        None \<Rightarrow> Inl (not_signed_in name)
      | Some p \<Rightarrow> if profile_signed_in p then Inr p else Inl (signed_out_reason p))"

definition strip_production :: "str \<Rightarrow> str" where
  "strip_production key =
     (if suffix (lit '':production'') key then take (length key - length (lit '':production'')) key else key)"

definition signed_in_at :: "config \<Rightarrow> str \<Rightarrow> session_error + profile" where
  "signed_in_at c key = stored_profile c (strip_production key)"

datatype profile_error = SessionProblem session_error | RefreshProblem sign_in_error | AnotherAccount str str

text \<open>\<open>passing\<close>: what a retry_row may cure.\<close>

fun passing :: "profile_error \<Rightarrow> bool" where
  "passing (RefreshProblem e) = sx_retryable e"
| "passing _ = False"

text \<open>The token endpoint of Silicon Accounts: the client of an address and an app id, then its answer to a
  refresh token.\<close>

type_synonym refresh_service = "str \<Rightarrow> str \<Rightarrow> sign_in_error + (str \<Rightarrow> sign_in_error + session)"

text \<open>The refresh of a sign-in under the lock of its profile. Other processes change the file while this one
  waits for Silicon Accounts (\<open>w2\<close>) and before it reads the file again (\<open>w3\<close>): a session is stored, and an
  ended sign-in forgotten, only if the sign-in is still the one that was refreshed.\<close>

definition another_account :: "session \<Rightarrow> profile \<Rightarrow> bool" where
  "another_account session current \<longleftrightarrow> (case (se_account session, pf_account current) of
     (Some new, Some old) \<Rightarrow> pa_uuid new \<noteq> pa_uuid old | _ \<Rightarrow> False)"

definition if_same :: "profile \<Rightarrow> (profile \<Rightarrow> profile) \<Rightarrow> profile \<Rightarrow> profile" where
  "if_same current f stored = (if same_sign_in stored current then f stored else stored)"

definition refresh_sign_in ::
  "(str \<Rightarrow> sign_in_error + session) \<Rightarrow> (config \<Rightarrow> config) \<Rightarrow> (config \<Rightarrow> config) \<Rightarrow> nat \<Rightarrow> str \<Rightarrow> profile \<Rightarrow> config \<Rightarrow> (profile_error + profile) \<times> config" where
  "refresh_sign_in client w2 w3 now key current c =
     (case client (case pf_tokens current of Some t \<Rightarrow> tk_refresh t | None \<Rightarrow> []) of
        Inr session \<Rightarrow>
          if another_account session current
          then (Inl (AnotherAccount (case se_account session of Some a \<Rightarrow> pa_id a | None \<Rightarrow> [])
                  (case pf_account current of Some a \<Rightarrow> pa_id a | None \<Rightarrow> [])), w2 c)
          else
            let c2 = w3 (update_stored key (if_same current (apply_session session)) (w2 c)) in
            (map_sum SessionProblem id (signed_in_at c2 key), c2)
      | Inl e \<Rightarrow>
          if error_sign_in_ended e
          then (Inl (SessionProblem \<lparr>sn_code = SignInEnded, sn_message = lit ''The DM profile `'' @ pf_name current @
                  lit ''` is signed out: Silicon Accounts no longer accepts its sign-in ('' @ sx_message e @ lit '').'',
                  sn_hint = sign_in_hint (pf_name current)\<rparr>),
                update_stored key (if_same current (clear_sign_in (Some
                  \<lparr>en_reason = lit ''refresh_refused'', en_message = sx_message e, en_at = now\<rparr>))) (w2 c))
          else if sx_retryable e \<and> pf_expires_at current > now + 10 then (Inr current, w2 c)
          else (Inl (RefreshProblem e), w2 c))"

text \<open>\<open>fresh_profile_within\<close>; \<open>w1\<close> is what other processes do while this one waits for the lock of the profile.\<close>

definition fresh_profile_within ::
  "refresh_service \<Rightarrow> (config \<Rightarrow> config) \<Rightarrow> (config \<Rightarrow> config) \<Rightarrow> (config \<Rightarrow> config) \<Rightarrow> nat \<Rightarrow> str \<Rightarrow> nat \<Rightarrow> config \<Rightarrow>
    (profile_error + profile) \<times> config" where
  "fresh_profile_within A w1 w2 w3 now key margin c =
     (case signed_in_at c key of
        Inl e \<Rightarrow> (Inl (SessionProblem e), c)
      | Inr p \<Rightarrow>
          if pf_expires_at p > now + margin then (Inr p, c)
          else
            (case signed_in_at (w1 c) key of
               Inl e \<Rightarrow> (Inl (SessionProblem e), w1 c)
             | Inr current \<Rightarrow>
                 if pf_expires_at current > now + margin \<or> \<not> same_sign_in current p
                 then (map_sum SessionProblem id (signed_in_at (w3 (w1 c)) key), w3 (w1 c))
                 else
                   (case A (pf_accounts_url current) (pf_app_id current) of
                      Inl e \<Rightarrow> (Inl (RefreshProblem e), w1 c)
                    | Inr client \<Rightarrow> refresh_sign_in client w2 w3 now key current (w1 c))))"

definition expire_attempted_token :: "str \<Rightarrow> str \<Rightarrow> config \<Rightarrow> config" where
  "expire_attempted_token session attempted =
     update_stored session (\<lambda>p. if profile_access_token p = Some attempted then p\<lparr>pf_expires_at := 0\<rparr> else p)"

section \<open>The home of a user\<close>

record home =
  hm_config :: config
  hm_outbox :: outbox

record sign_in_target =
  tg_profile :: str
  tg_api_url :: str
  tg_accounts_url :: str
  tg_app_id :: str

definition trim_end_slash :: "str \<Rightarrow> str" where
  "trim_end_slash s = rev (dropWhile (\<lambda>c. c = 47) (rev s))"

definition account_changed_error :: "str \<Rightarrow> json" where
  "account_changed_error i = JObj [(lit ''code'', JStr (lit ''account_changed'')), (lit ''message'', JStr (
     lit ''This request was queued before DM moved to Silicon Accounts by a sign-in with another id; the profile is now signed in as '' @ i @
     lit '', so it was not sent. Resubmit it if '' @ i @ lit '' should send it.''))]"

definition profile_in_use :: "sign_in_target \<Rightarrow> nat \<Rightarrow> profile \<Rightarrow> profile_account \<Rightarrow> session_error" where
  "profile_in_use target queued existing account =
     (let who = (case pf_account existing of Some a \<Rightarrow> pa_id a | None \<Rightarrow> lit ''another account'') in
      \<lparr>sn_code = ProfileInUse,
       sn_message = lit ''The DM profile `'' @ tg_profile target @ lit ''` has '' @ nat_digits queued @ lit '' queued request(s) from '' @ who @
         lit '' at '' @ pf_base_url existing @ lit ''; signing in as '' @ pa_id account @ lit '' at '' @ tg_api_url target @
         lit '' would send them as someone else, so nothing changed.'',
       sn_hint = lit ''Sign in to another profile (dm --profile <name> login), or sign in as '' @ who @ lit '' again so the queue drains.''\<rparr>)"

text \<open>Whether signing in would send what another account, or a profile of another service, has queued.\<close>

definition replaces_another :: "sign_in_target \<Rightarrow> profile_account \<Rightarrow> profile \<Rightarrow> bool" where
  "replaces_another target account existing \<longleftrightarrow>
     (case pf_account existing of Some previous \<Rightarrow> pa_uuid previous \<noteq> pa_uuid account | None \<Rightarrow> False) \<or>
     trim_end_slash (pf_base_url existing) \<noteq> trim_end_slash (tg_api_url target)"

definition signed_profile :: "nat \<Rightarrow> sign_in_target \<Rightarrow> session \<Rightarrow> profile_account \<Rightarrow> str \<Rightarrow> profile \<Rightarrow> profile" where
  "signed_profile now target session account via p =
     (apply_session session (p\<lparr>pf_name := tg_profile target, pf_base_url := tg_api_url target,
        pf_accounts_url := tg_accounts_url target, pf_app_id := tg_app_id target, pf_account := Some account\<rparr>))
       \<lparr>pf_signed_in_at := Some now, pf_method := Some via, pf_legacy := None\<rparr>"

text \<open>Requests queued before Silicon Accounts are released to the same public id and failed otherwise.\<close>

definition release_queued :: "str \<Rightarrow> profile_account \<Rightarrow> legacy_sign_in option \<Rightarrow> outbox \<Rightarrow> outbox" where
  "release_queued key account legacy t =
     (case legacy of
        None \<Rightarrow> t
      | Some l \<Rightarrow> if lg_actor_id l = Some (pa_id account) then t
          else snd (fail_pending key (account_changed_error (pa_id account)) t))"

text \<open>The part of \<open>save_sign_in\<close> under the lock of the profile: the check of the queue, the new profile, and
  what happens to requests queued before Silicon Accounts. \<open>device\<close> is the identifier a new profile gets;
  requests may arrive (\<open>w\<close>) between the count and the write, as the queue has its own lock. The result is
  the sign-in that was replaced, which is then revoked.\<close>

definition save_sign_in ::
  "(home \<Rightarrow> home) \<Rightarrow> nat \<Rightarrow> str \<Rightarrow> sign_in_target \<Rightarrow> session \<Rightarrow> str \<Rightarrow> home \<Rightarrow>
    ((string + session_error) + (str \<times> str \<times> str) option) \<times> home" where
  "save_sign_in w now device target session via h =
     (case se_account session of
        None \<Rightarrow> (Inl (Inl ''Silicon Accounts did not say which account signed in''), h)
      | Some account \<Rightarrow>
          let key = session_key (tg_profile target);
              queued = pending_count key (hm_outbox h);
              h1 = w h;
              c = hm_config h1 in
          (case cf_profiles c key of
             Some existing \<Rightarrow>
               if queued > 0 \<and> pf_legacy existing = None \<and> replaces_another target account existing
               then (Inl (Inr (profile_in_use target queued existing account)), h1)
               else
                 (Inr (map_option (\<lambda>t. (pf_accounts_url existing, pf_app_id existing, tk_refresh t)) (pf_tokens existing)),
                  \<lparr>hm_config = c\<lparr>cf_profiles := (cf_profiles c)(key \<mapsto> signed_profile now target session account via existing)\<rparr>,
                   hm_outbox = release_queued key account (pf_legacy existing) (hm_outbox h1)\<rparr>)
           | None \<Rightarrow>
               (Inr None,
                h1\<lparr>hm_config := c\<lparr>cf_profiles := (cf_profiles c)(key \<mapsto> signed_profile now target session account via
                  (profile_new device (tg_profile target) (tg_api_url target) (tg_accounts_url target) (tg_app_id target)))\<rparr>\<rparr>)))"

text \<open>\<open>logout\<close>: the refresh token is revoked at Silicon Accounts, and forgotten whatever it answers.\<close>

definition logout :: "(config \<Rightarrow> config) \<Rightarrow> str \<Rightarrow> config \<Rightarrow> bool \<times> config" where
  "logout w name c =
     (let key = session_key name in
      case Option.bind (cf_profiles c key) pf_tokens of
        None \<Rightarrow> (False, c)
      | Some t \<Rightarrow> (True, update_stored key (\<lambda>p. if map_option tk_refresh (pf_tokens p) = Some (tk_refresh t) then clear_sign_in None p else p) (w c)))"

text \<open>\<open>refresh\<close>: the stored token is marked as expired, which makes the next use refresh it.\<close>

definition refresh_now :: "refresh_service \<Rightarrow> nat \<Rightarrow> str \<Rightarrow> config \<Rightarrow> (profile_error + profile) \<times> config" where
  "refresh_now A now name c =
     (case stored_profile c name of
        Inl e \<Rightarrow> (Inl (SessionProblem e), c)
      | Inr current \<Rightarrow>
          fresh_profile_within A id id id now (session_key name) 60
            (update_stored (session_key name) (\<lambda>p. if profile_access_token p = profile_access_token current then p\<lparr>pf_expires_at := 0\<rparr> else p) c))"

section \<open>Sending a request\<close>

record api_failure =
  af_status :: nat
  af_code :: str
  af_message :: str
  af_hint :: "str option"
  af_body :: json
  af_request_id :: "str option"
  af_retry_after :: "str option"

datatype client_failure = Configuration str | TransportFailure str | ApiFailure api_failure | Decode str

definition retryable :: "client_failure \<Rightarrow> bool" where
  "retryable e \<longleftrightarrow> (case e of
     TransportFailure _ \<Rightarrow> True
   | ApiFailure f \<Rightarrow> af_status f = 408 \<or> af_status f = 429 \<or> (500 \<le> af_status f \<and> af_status f \<le> 599)
   | _ \<Rightarrow> False)"

definition unauthorized :: "client_failure \<Rightarrow> bool" where
  "unauthorized e \<longleftrightarrow> (case e of ApiFailure f \<Rightarrow> af_status f = 401 | _ \<Rightarrow> False)"

definition json_str_opt :: "str option \<Rightarrow> json" where
  "json_str_opt x = json_opt JStr x"

definition coded :: "str \<Rightarrow> str \<Rightarrow> json" where
  "coded code message = JObj [(lit ''code'', JStr code), (lit ''message'', JStr message)]"

definition client_error :: "client_failure \<Rightarrow> json" where
  "client_error e =
     (case e of
        ApiFailure f \<Rightarrow> JObj [(lit ''status'', json_nat (af_status f)), (lit ''code'', JStr (af_code f)), (lit ''message'', JStr (af_message f)),
          (lit ''hint'', json_str_opt (af_hint f)), (lit ''body'', af_body f), (lit ''request_id'', json_str_opt (af_request_id f)),
          (lit ''retry_after'', json_str_opt (af_retry_after f))]
      | TransportFailure t \<Rightarrow> coded (lit ''transport_error'') (lit ''The DM service could not be reached: DM transport failed: '' @ t)
      | Configuration t \<Rightarrow> coded (lit ''configuration_error'') (lit ''invalid client configuration: '' @ t)
      | Decode t \<Rightarrow> coded (lit ''decode_error'') (lit ''invalid DM response: '' @ t))"

fun session_code_name :: "session_code \<Rightarrow> string" where
  "session_code_name NotSignedIn = ''not_signed_in''"
| "session_code_name SignInEnded = ''sign_in_ended''"
| "session_code_name SignInRequired = ''sign_in_required''"
| "session_code_name ProfileInUse = ''profile_in_use''"

text \<open>The DM client of a profile (\<open>None\<close> when it cannot be built), its answer to an operation of a device in
  each attempt, and how an error reads.\<close>

record dm_client =
  dc_client :: "profile \<Rightarrow> (operation \<Rightarrow> str \<Rightarrow> nat \<Rightarrow> client_failure + json) option"
  dc_show :: "profile_error \<Rightarrow> str"

definition transient_request :: "relay_request \<Rightarrow> bool" where
  "transient_request r \<longleftrightarrow> (case rq_operation r of SetPresence _ \<Rightarrow> True | _ \<Rightarrow> False)"

text \<open>How an attempt ends: the one call of the queue it makes.\<close>

datatype verdict = Finish "json option" "json option" | Retry json

definition retry_or_finish :: "relay_request \<Rightarrow> json \<Rightarrow> verdict" where
  "retry_or_finish r detail = (if transient_request r then Finish None (Some detail) else Retry detail)"

definition refreshed_profile ::
  "refresh_service \<Rightarrow> (config \<Rightarrow> config) \<Rightarrow> (config \<Rightarrow> config) \<Rightarrow> (config \<Rightarrow> config) \<Rightarrow> nat \<Rightarrow> str \<Rightarrow> config \<Rightarrow> (profile_error + profile) \<times> config" where
  "refreshed_profile A w1 w2 w3 now session c =
     (case fresh_profile_within A w1 w2 w3 now session 60 c of
        (Inl e, c1) \<Rightarrow> if passing e then fresh_profile_within A w1 w2 w3 now session 60 c1 else (Inl e, c1)
      | (Inr p, c1) \<Rightarrow> (Inr p, c1))"

definition authentication_detail :: "dm_client \<Rightarrow> profile_error \<Rightarrow> (str \<Rightarrow> str) \<Rightarrow> json" where
  "authentication_detail C e f =
     (case e of
        SessionProblem x \<Rightarrow> JObj [(lit ''code'', JStr (lit ''authentication_required'')), (lit ''reason'', JStr (lit (session_code_name (sn_code x)))),
          (lit ''message'', JStr (f (sn_message x))), (lit ''hint'', JStr (sn_hint x))]
      | _ \<Rightarrow> coded (lit ''authentication_required'') (f (dc_show C e)))"

definition execute_request ::
  "refresh_service \<Rightarrow> dm_client \<Rightarrow> (config \<Rightarrow> config) \<Rightarrow> (config \<Rightarrow> config) \<Rightarrow> (config \<Rightarrow> config) \<Rightarrow> nat \<Rightarrow> relay_request \<Rightarrow> config \<Rightarrow> verdict \<times> config" where
  "execute_request A C w1 w2 w3 now r c =
     (if rq_testing_environment r \<noteq> None
      then (Finish None (Some (error_detail ''testing_environments_retired''
         ''This request names a test environment; test environments were retired with the move to Silicon Accounts, so it was not sent.'')), c)
      else
        let session = session_key (rq_profile r); op = rq_operation r in
        (case refreshed_profile A w1 w2 w3 now session c of
           (Inl e, c1) \<Rightarrow>
             (if transient_request r
              then Finish None (Some (authentication_detail C e (\<lambda>m. lit ''This activity could not be authenticated: '' @ m)))
              else if is_mutation op
              then Retry (authentication_detail C e (\<lambda>m. m @ lit '' Pending requests resume after the profile signs in again.''))
              else Finish None (Some (authentication_detail C e id)), c1)
         | (Inr p, c1) \<Rightarrow>
             (case dc_client C p of
                None \<Rightarrow> (retry_or_finish r (error_detail ''configuration_error''
                   ''The profile's HTTP client could not be configured; check its DM API URL (dm profiles list).''), c1)
              | Some exec \<Rightarrow>
                  (case (case exec op (pf_device p) 0 of Inl (TransportFailure _) \<Rightarrow> exec op (pf_device p) 1 | x \<Rightarrow> x) of
                     Inr v \<Rightarrow> (Finish (Some v) None, c1)
                   | Inl e \<Rightarrow>
                       (if \<not> transient_request r \<and> ((is_mutation op \<and> retryable e) \<or> unauthorized e) then Retry (client_error e)
                        else Finish None (Some (client_error e)),
                        case (unauthorized e, profile_access_token p) of (True, Some t) \<Rightarrow> expire_attempted_token session t c1 | _ \<Rightarrow> c1)))))"

definition settle :: "nat \<Rightarrow> uuid \<Rightarrow> verdict \<Rightarrow> outbox \<Rightarrow> outbox" where
  "settle now i v t = (case v of Finish result error \<Rightarrow> finish i result error t | Retry error \<Rightarrow> retry_row (int now) i error t)"

section \<open>The scheduler\<close>

definition payload_budget_mib :: nat where "payload_budget_mib = 128"
definition workers_limit :: nat where "workers_limit = 16"

definition payload_permits :: "nat \<Rightarrow> nat" where
  "payload_permits n = max 1 (min payload_budget_mib ((n + 1024 * 1024 - 1) div (1024 * 1024)))"

text \<open>A task in flight, and what the host has left for all its homes.\<close>

record task =
  ts_request :: relay_request
  ts_lane :: "str \<times> str"
  ts_permits :: nat

record slots =
  sl_workers :: nat
  sl_payload :: nat

text \<open>The loop of \<open>schedule\<close>: a lane in flight is skipped, without a worker the loop ends, without budget or
  with a request that is gone the candidate is skipped.\<close>

fun start_candidates ::
  "(json \<Rightarrow> relay_request fallible) \<Rightarrow> int \<Rightarrow> outbox \<Rightarrow> request_candidate list \<Rightarrow> task list \<times> slots \<Rightarrow> task list \<times> slots" where
  "start_candidates decode now t [] (running, free) = (running, free)"
| "start_candidates decode now t (c # cs) (running, free) =
     (let l = (ca_session c, ca_lane c) in
      if l \<in> ts_lane ` set running then start_candidates decode now t cs (running, free)
      else if sl_workers free = 0 then (running, free)
      else if sl_payload free < payload_permits (ca_bytes c) then start_candidates decode now t cs (running, free)
      else
        (case load_request decode now (ca_id c) t of
           Inr (Some r) \<Rightarrow> start_candidates decode now t cs
             (running @ [\<lparr>ts_request = r, ts_lane = l, ts_permits = payload_permits (ca_bytes c)\<rparr>],
              \<lparr>sl_workers = sl_workers free - 1, sl_payload = sl_payload free - payload_permits (ca_bytes c)\<rparr>)
         | _ \<Rightarrow> start_candidates decode now t cs (running, free)))"

definition schedule ::
  "(json \<Rightarrow> nat) \<Rightarrow> (json \<Rightarrow> relay_request fallible) \<Rightarrow> int \<Rightarrow> outbox \<Rightarrow> task list \<times> slots \<Rightarrow> task list \<times> slots" where
  "schedule octets decode now t st =
     (case request_candidates octets now t of Inl _ \<Rightarrow> st | Inr cs \<Rightarrow> start_candidates decode now t cs st)"

text \<open>\<open>attach_home\<close>: when the relay takes a home over, activities of the past and requests of test environments
  are failed, and the home learns the port.\<close>

definition attach_home :: "nat \<Rightarrow> home \<Rightarrow> home" where
  "attach_home port h = \<lparr>hm_config = (hm_config h)\<lparr>cf_relay_port := port\<rparr>,
     hm_outbox = snd (retire_test_environment_requests (expire_transient_commands (hm_outbox h)))\<rparr>"

text \<open>\<open>submit\<close>: a request of a signed-in profile is queued and acknowledged with its exact JSON.\<close>

datatype submit_reply = SubmitAccepted uuid | BadRequest string | Conflicting string

definition submit :: "nat \<Rightarrow> relay_request \<Rightarrow> json \<Rightarrow> home \<Rightarrow> submit_reply \<times> home" where
  "submit now r original h =
     (if rq_testing_environment r \<noteq> None then (BadRequest ''testing_environments_retired'', h)
      else
        (case stored_profile (hm_config h) (rq_profile r) of
           Inl _ \<Rightarrow> (BadRequest ''profile_missing'', h)
         | Inr _ \<Rightarrow>
             (case enqueue (int now) r original (hm_outbox h) of
                Inl e \<Rightarrow> (Conflicting e, h)
              | Inr t \<Rightarrow> (SubmitAccepted (rq_id r), h\<lparr>hm_outbox := t\<rparr>))))"

section \<open>What happens to a home\<close>

text \<open>\<open>login_status\<close> copies the current id, name and custodian of the account it confirmed.\<close>

definition confirm_account :: "str \<Rightarrow> str option \<Rightarrow> str \<Rightarrow> str option \<Rightarrow> (str option \<times> str) option \<Rightarrow> config \<Rightarrow> config" where
  "confirm_account key uuid i display_name custodian = update_stored key (\<lambda>p.
     case pf_account p of
       None \<Rightarrow> p
     | Some a \<Rightarrow>
         if uuid = Some (pa_uuid a)
         then p\<lparr>pf_account := Some (a\<lparr>pa_id := i,
           pa_display_name := (case display_name of None \<Rightarrow> pa_display_name a | Some n \<Rightarrow> Some n),
           pa_custodian := (case custodian of None \<Rightarrow> pa_custodian a | Some (u, j) \<Rightarrow> map_option (\<lambda>u. (u, j)) u)\<rparr>)\<rparr>
         else p)"

definition attempt ::
  "refresh_service \<Rightarrow> dm_client \<Rightarrow> (json \<Rightarrow> relay_request fallible) \<Rightarrow> nat \<Rightarrow> uuid \<Rightarrow> home \<Rightarrow> home option" where
  "attempt A C decode now i h =
     (case load_request decode (int now) i (hm_outbox h) of
        Inr (Some r) \<Rightarrow>
          let (v, c) = execute_request A C id id id now r (hm_config h) in
          Some \<lparr>hm_config = c, hm_outbox = settle now (rq_id r) v (hm_outbox h)\<rparr>
      | _ \<Rightarrow> None)"

inductive client_step :: "(json \<Rightarrow> relay_request fallible) \<Rightarrow> home \<Rightarrow> home \<Rightarrow> bool" for decode where
  submits: "submit now r original h = (reply, h') \<Longrightarrow> decode original = Inr r \<Longrightarrow> client_step decode h h'"
| queues: "enqueue now r original (hm_outbox h) = Inr t \<Longrightarrow> decode original = Inr r \<Longrightarrow> client_step decode h (h\<lparr>hm_outbox := t\<rparr>)"
| attempts: "attempt A C decode now i h = Some h' \<Longrightarrow> client_step decode h h'"
| attaches: "client_step decode h (attach_home port h)"
| signs_in: "save_sign_in id now device target session via h = (result, h') \<Longrightarrow> client_step decode h h'"
| signs_out: "logout id name (hm_config h) = (done, c) \<Longrightarrow> client_step decode h (h\<lparr>hm_config := c\<rparr>)"
| refreshes: "refresh_now A now name (hm_config h) = (result, c) \<Longrightarrow> client_step decode h (h\<lparr>hm_config := c\<rparr>)"
| renews: "fresh_profile_within A id id id now key margin (hm_config h) = (result, c) \<Longrightarrow> client_step decode h (h\<lparr>hm_config := c\<rparr>)"
| confirms: "client_step decode h (h\<lparr>hm_config := confirm_account key u i name cust (hm_config h)\<rparr>)"

section \<open>Queued requests are kept\<close>

text \<open>The stored JSON still reads as the request it was queued for.\<close>

definition relay_outbox_ok :: "(json \<Rightarrow> relay_request fallible) \<Rightarrow> outbox \<Rightarrow> bool" where
  "relay_outbox_ok decode t \<longleftrightarrow> keyed ob_id t \<and> (\<forall>r\<in>set t. 0 \<le> ob_attempts r \<and>
     (\<exists>q. decode (ob_request r) = Inr q \<and> rq_id q = ob_id r \<and> session_key (rq_profile q) = ob_session r))"

definition row_reference where
  "row_reference r = (ob_id r, ob_session r, ob_request r, ob_created r, ob_lane r)"

definition row_kept :: "outbox_row \<Rightarrow> outbox_row \<Rightarrow> bool" where
  "row_kept r r' \<longleftrightarrow> row_reference r' = row_reference r \<and> ob_attempts r \<le> ob_attempts r' \<and> (\<not> row_pending r \<longrightarrow> r' = r)"

definition outbox_kept :: "outbox \<Rightarrow> outbox \<Rightarrow> bool" where
  "outbox_kept t t' \<longleftrightarrow> (\<exists>u new. t' = u @ new \<and> list_all2 row_kept t u)"

lemma row_kept_refl [simp]: "row_kept r r"
  by (simp add: row_kept_def)

lemma row_kept_trans: "row_kept a b \<Longrightarrow> row_kept b c \<Longrightarrow> row_kept a c"
  by (auto simp: row_kept_def)

lemma outbox_kept_refl [simp]: "outbox_kept t t"
  unfolding outbox_kept_def by (intro exI [of _ t] exI [of _ "[]"]) (simp add: list_all2_same)

lemma outbox_kept_append [simp]: "outbox_kept t (t @ new)"
  unfolding outbox_kept_def by (intro exI [of _ t] exI [of _ new]) (simp add: list_all2_same)

lemma outbox_kept_trans:
  assumes "outbox_kept t1 t2" "outbox_kept t2 t3"
  shows "outbox_kept t1 t3"
proof -
  obtain t new where t: "t2 = t @ new" "list_all2 row_kept t1 t" using assms(1) by (auto simp: outbox_kept_def)
  obtain u new' where u: "t3 = u @ new'" "list_all2 row_kept (t @ new) u" using assms(2) by (auto simp: outbox_kept_def t)
  then obtain u1 u2 where "u = u1 @ u2" "list_all2 row_kept t u1" by (auto simp: list_all2_append1)
  moreover have "list_all2 row_kept t1 u1"
    by (rule list_all2_trans [OF _ t(2) calculation(2)]) (erule (1) row_kept_trans)
  ultimately show ?thesis using u(1) by (auto simp: outbox_kept_def)
qed

lemma outbox_update:
  assumes ok: "relay_outbox_ok decode t" and f: "\<And>r. r \<in> set t \<Longrightarrow> p r \<Longrightarrow> row_kept r (f r)"
    and key: "\<And>r. ob_id (f r) = ob_id r"
  shows "relay_outbox_ok decode (sql_update p f t) \<and> outbox_kept t (sql_update p f t)"
proof
  have "keyed ob_id (sql_update p f t)" using ok by (intro keyed_sql_update) (simp_all add: relay_outbox_ok_def key)
  moreover have "0 \<le> ob_attempts r' \<and> (\<exists>q. decode (ob_request r') = Inr q \<and> rq_id q = ob_id r' \<and> session_key (rq_profile q) = ob_session r')"
    if "r' \<in> set (sql_update p f t)" for r'
  proof -
    from that obtain r where r: "r \<in> set t" "r' = (if p r then f r else r)" by (auto simp: sql_update_def)
    then have "row_kept r r'" using f by simp
    then show ?thesis using ok r(1) by (auto simp: relay_outbox_ok_def row_kept_def row_reference_def intro: order_trans)
  qed
  ultimately show "relay_outbox_ok decode (sql_update p f t)" by (simp add: relay_outbox_ok_def)
  have "list_all2 row_kept t (sql_update p f t)" using f by (induction t) (auto simp: sql_update_def)
  then show "outbox_kept t (sql_update p f t)"
    unfolding outbox_kept_def by (intro exI [of _ "sql_update p f t"] exI [of _ "[]"]) simp
qed

lemma enqueue_kept:
  assumes "enqueue now r original t = Inr t'" "decode original = Inr r" "relay_outbox_ok decode t"
  shows "relay_outbox_ok decode t' \<and> outbox_kept t t'"
proof (cases "find (\<lambda>x. ob_id x = rq_id r) t")
  case None
  then have t': "t' = t @ [new_row now r original]" using assms(1) by (auto simp: enqueue_def split: if_splits)
  have "\<not> sql_exists (\<lambda>x. ob_id x = ob_id (new_row now r original)) t"
    using None by (auto simp: find_None_iff sql_exists_def new_row_def)
  then have "keyed ob_id t'" using assms(3) unfolding t' by (intro keyed_append_new) (simp_all add: relay_outbox_ok_def)
  then have "relay_outbox_ok decode t'" using assms(2,3) by (auto simp: relay_outbox_ok_def t' new_row_def)
  then show ?thesis by (simp add: t')
next
  case (Some x)
  then have "t' = t" using assms(1) by (auto simp: enqueue_def split: if_splits)
  then show ?thesis using assms(3) by simp
qed

lemma load_requestD:
  assumes "load_request decode now i t = Inr (Some r)" "relay_outbox_ok decode t"
  shows "rq_id r = i" "\<exists>x\<in>set t. ob_id x = i \<and> row_pending x \<and> ob_session x = session_key (rq_profile r)"
proof -
  obtain x where "find (\<lambda>r. ob_id r = i \<and> row_pending r \<and> ob_next_attempt r \<le> now) t = Some x" "decode (ob_request x) = Inr r"
    using assms(1) by (auto simp: load_request_def option_result_def split: option.splits)
  then have x: "x \<in> set t" "ob_id x = i" "row_pending x" "decode (ob_request x) = Inr r" using find_Some_in by fastforce+
  then have "rq_id r = ob_id x" "ob_session x = session_key (rq_profile r)" using assms(2) by (auto simp: relay_outbox_ok_def)
  with x show "rq_id r = i" "\<exists>x\<in>set t. ob_id x = i \<and> row_pending x \<and> ob_session x = session_key (rq_profile r)" by blast+
qed

lemma settle_keeps:
  assumes ok: "relay_outbox_ok decode t" and x: "x \<in> set t" "ob_id x = i" "row_pending x"
  shows "relay_outbox_ok decode (settle now i v t) \<and> outbox_kept t (settle now i v t)"
proof -
  have only: "row_pending r" if "r \<in> set t" "ob_id r = i" for r
    using keyed_unique [of ob_id t r x] ok that x by (simp add: relay_outbox_ok_def)
  show ?thesis
  proof (cases v)
    case (Finish result error)
    show ?thesis unfolding Finish settle_def finish_def verdict.case
      by (intro outbox_update [OF ok]) (use only in \<open>auto simp: row_kept_def row_reference_def\<close>)
  next
    case (Retry error)
    show ?thesis unfolding Retry settle_def retry_row_def verdict.case
      by (intro outbox_update [OF ok]) (use only in \<open>auto simp: row_kept_def row_reference_def\<close>)
  qed
qed

lemma failing_keeps:
  assumes ok: "relay_outbox_ok decode t" and p: "\<And>r. p r \<Longrightarrow> row_pending r"
  shows "relay_outbox_ok decode (sql_update p (fail_row e) t) \<and> outbox_kept t (sql_update p (fail_row e) t)"
  by (rule outbox_update [OF ok]) (use p in \<open>auto simp: row_kept_def row_reference_def fail_row_def\<close>)

lemma attach_keeps:
  assumes "relay_outbox_ok decode (hm_outbox h)"
  shows "relay_outbox_ok decode (hm_outbox (attach_home port h)) \<and> outbox_kept (hm_outbox h) (hm_outbox (attach_home port h))"
proof -
  let ?t1 = "expire_transient_commands (hm_outbox h)"
  have one: "relay_outbox_ok decode ?t1 \<and> outbox_kept (hm_outbox h) ?t1"
    unfolding expire_transient_commands_def by (rule failing_keeps [OF assms]) simp
  have "relay_outbox_ok decode (snd (retire_test_environment_requests ?t1)) \<and> outbox_kept ?t1 (snd (retire_test_environment_requests ?t1))"
    unfolding retire_test_environment_requests_def Let_def snd_conv by (rule failing_keeps [OF conjunct1 [OF one]]) simp
  with one show ?thesis by (auto simp: attach_home_def intro: outbox_kept_trans)
qed

lemma sign_in_keeps:
  assumes "save_sign_in id now device target session via h = (result, h')" "relay_outbox_ok decode (hm_outbox h)"
  shows "relay_outbox_ok decode (hm_outbox h') \<and> outbox_kept (hm_outbox h) (hm_outbox h')"
proof -
  have rel: "relay_outbox_ok decode (release_queued key account l (hm_outbox h)) \<and> outbox_kept (hm_outbox h) (release_queued key account l (hm_outbox h))"
    for key account l
    using failing_keeps [OF assms(2), of "\<lambda>r. ob_session r = key \<and> row_pending r" "account_changed_error (pa_id account)"] assms(2)
    by (simp add: release_queued_def fail_pending_def Let_def split: option.splits)
  have "hm_outbox h' = hm_outbox h \<or> (\<exists>key account l. hm_outbox h' = release_queued key account l (hm_outbox h))"
    using assms(1) by (auto simp: save_sign_in_def Let_def split: option.splits if_splits) blast+
  then show ?thesis using rel assms(2) by auto
qed

lemma client_step_keeps:
  assumes "client_step decode h h'" "relay_outbox_ok decode (hm_outbox h)"
  shows "relay_outbox_ok decode (hm_outbox h') \<and> outbox_kept (hm_outbox h) (hm_outbox h')"
  using assms(1)
proof cases
  case (submits now r original reply)
  have "h' = h \<or> (\<exists>t. enqueue (int now) r original (hm_outbox h) = Inr t \<and> h' = h\<lparr>hm_outbox := t\<rparr>)"
    using submits(1) by (auto simp: submit_def split: if_splits sum.splits)
  then show ?thesis using enqueue_kept [OF _ submits(2) assms(2)] assms(2) by auto
next
  case (queues now r original t)
  with enqueue_kept [OF queues(2,3) assms(2)] show ?thesis by simp
next
  case (attempts A C now i)
  then obtain r v c where r: "load_request decode (int now) i (hm_outbox h) = Inr (Some r)"
    and h': "h' = \<lparr>hm_config = c, hm_outbox = settle now (rq_id r) v (hm_outbox h)\<rparr>"
    by (auto simp: attempt_def split: sum.splits option.splits prod.splits)
  note l = load_requestD [OF r assms(2)]
  from l(2) obtain x where "x \<in> set (hm_outbox h)" "ob_id x = i" "row_pending x" by blast
  from settle_keeps [OF assms(2) this] show ?thesis by (simp add: h' l(1))
next
  case (attaches port)
  with attach_keeps [OF assms(2)] show ?thesis by simp
next
  case signs_in
  then show ?thesis by (rule sign_in_keeps [OF _ assms(2)])
qed (use assms(2) in simp_all)

lemma client_steps_keep:
  assumes "(client_step decode)\<^sup>*\<^sup>* h h'" "relay_outbox_ok decode (hm_outbox h)"
  shows "relay_outbox_ok decode (hm_outbox h') \<and> outbox_kept (hm_outbox h) (hm_outbox h')"
  using assms
proof (induction rule: rtranclp_induct)
  case (step h1 h2)
  with client_step_keeps [OF step.hyps(2)] show ?case by (auto intro: outbox_kept_trans)
qed simp

section \<open>Nothing queued is sent as someone else\<close>

text \<open>The profile at a key belongs to an account and talks to a service.\<close>

definition belongs :: "str \<Rightarrow> str \<Rightarrow> profile \<Rightarrow> bool" where
  "belongs u url p \<longleftrightarrow> map_option pa_uuid (pf_account p) = Some u \<and> trim_end_slash (pf_base_url p) = url \<and> pf_legacy p = None"

definition bound_to :: "str \<Rightarrow> str \<Rightarrow> str \<Rightarrow> config \<Rightarrow> bool" where
  "bound_to key u url c \<longleftrightarrow> (\<exists>p. cf_profiles c key = Some p \<and> belongs u url p)"

lemma bound_to_update:
  assumes "bound_to key u url c" "\<And>p. belongs u url p \<Longrightarrow> belongs u url (f p)"
  shows "bound_to key u url (update_stored key' f c)"
  using assms by (auto simp: bound_to_def update_stored_def)

lemma clear_belongs: "belongs u url p \<Longrightarrow> belongs u url (clear_sign_in e p)"
  by (simp add: belongs_def clear_sign_in_def)

lemma session_belongs:
  assumes "belongs u url p" "\<And>a. se_account s = Some a \<Longrightarrow> pa_uuid a = u"
  shows "belongs u url (apply_session s p)"
  using assms by (auto simp: belongs_def apply_session_def split: option.splits)

lemma strip_session [simp]: "strip_production (session_key name) = name"
  by (simp add: strip_production_def session_key_def suffix_def)

lemma stored_profile_ok [simp]: "stored_profile c name = Inr p \<longleftrightarrow> cf_profiles c (session_key name) = Some p \<and> profile_signed_in p"
  by (auto simp: stored_profile_def split: option.splits)

lemma same_sign_in_refl [simp]: "same_sign_in p p"
  by (simp add: same_sign_in_def)

lemma refresh_bound:
  assumes "refresh_sign_in client id id now key current c = (result, c')" "bound_to key' u url c"
  shows "bound_to key' u url c'"
proof (cases "client (case pf_tokens current of Some t \<Rightarrow> tk_refresh t | None \<Rightarrow> [])")
  case (Inr s)
  have "belongs u url (if_same current (apply_session s) p)" if p: "belongs u url p" "\<not> another_account s current" for p
  proof (cases "same_sign_in p current")
    case True
    then have "map_option pa_uuid (pf_account current) = Some u" using p by (simp add: same_sign_in_def belongs_def)
    then have "belongs u url (apply_session s p)"
      using p(2) by (intro session_belongs [OF p(1)]) (auto simp: another_account_def)
    then show ?thesis using True by (simp add: if_same_def)
  qed (use p in \<open>simp add: if_same_def\<close>)
  with bound_to_update [OF assms(2)] have "bound_to key' u url (update_stored key (if_same current (apply_session s)) c)"
    if "\<not> another_account s current" using that by blast
  then show ?thesis using assms Inr by (auto simp: refresh_sign_in_def Let_def split: if_splits)
next
  case (Inl e)
  have "bound_to key' u url (update_stored key (if_same current (clear_sign_in x)) c)" for x
    by (rule bound_to_update [OF assms(2)]) (simp add: if_same_def clear_belongs)
  then show ?thesis using assms Inl by (auto simp: refresh_sign_in_def split: if_splits)
qed

lemma fresh_bound:
  assumes "fresh_profile_within A id id id now key margin c = (result, c')" "bound_to key' u url c"
  shows "bound_to key' u url c'"
proof -
  have "c' = c \<or> (\<exists>client current. refresh_sign_in client id id now key current c = (result, c'))"
    using assms(1) by (auto simp: fresh_profile_within_def split: sum.splits if_splits)
  then show ?thesis using refresh_bound assms(2) by blast
qed

lemma refreshed_bound:
  assumes "refreshed_profile A id id id now (session_key name) c = (result, c')" "bound_to key' u url c"
  shows "bound_to key' u url c'"
proof -
  obtain r1 c1 where one: "fresh_profile_within A id id id now (session_key name) 60 c = (r1, c1)" by fastforce
  note b1 = fresh_bound [OF one assms(2)]
  show ?thesis
  proof (cases "\<exists>e. r1 = Inl e \<and> passing e")
    case True
    then have "fresh_profile_within A id id id now (session_key name) 60 c1 = (result, c')"
      using assms(1) one by (auto simp: refreshed_profile_def)
    then show ?thesis by (rule fresh_bound [OF _ b1])
  next
    case False
    then have "c' = c1" using assms(1) one by (auto simp: refreshed_profile_def split: sum.splits if_splits)
    with b1 show ?thesis by simp
  qed
qed

text \<open>The profile a request is sent with is the one stored.\<close>

lemma refresh_stored:
  assumes "refresh_sign_in client id id now (session_key name) current c = (Inr p, c')" "cf_profiles c (session_key name) = Some current"
  shows "cf_profiles c' (session_key name) = Some p"
  using assms by (auto simp: refresh_sign_in_def Let_def signed_in_at_def map_sum_def split: sum.splits if_splits)

lemma fresh_stored:
  assumes "fresh_profile_within A id id id now (session_key name) margin c = (Inr p, c')"
  shows "cf_profiles c' (session_key name) = Some p"
proof -
  have "c' = c \<and> cf_profiles c (session_key name) = Some p \<or> (\<exists>client current. cf_profiles c (session_key name) = Some current \<and>
      refresh_sign_in client id id now (session_key name) current c = (Inr p, c'))"
    using assms by (auto simp: fresh_profile_within_def signed_in_at_def split: sum.splits if_splits)
  then show ?thesis using refresh_stored by blast
qed

lemma refreshed_stored:
  assumes "refreshed_profile A id id id now (session_key name) c = (Inr p, c')"
  shows "cf_profiles c' (session_key name) = Some p"
proof -
  obtain r1 c1 where one: "fresh_profile_within A id id id now (session_key name) 60 c = (r1, c1)" by fastforce
  show ?thesis
  proof (cases r1)
    case (Inl e)
    then have "fresh_profile_within A id id id now (session_key name) 60 c1 = (Inr p, c')"
      using assms one by (auto simp: refreshed_profile_def split: if_splits)
    then show ?thesis by (rule fresh_stored)
  next
    case (Inr q)
    then show ?thesis using assms one fresh_stored [of A now name 60 c q c1] by (auto simp: refreshed_profile_def)
  qed
qed

lemma execute_bound:
  assumes "execute_request A C id id id now r c = (v, c')" "bound_to key u url c"
  shows "bound_to key u url c'"
proof (cases "rq_testing_environment r")
  case None
  obtain res c1 where one: "refreshed_profile A id id id now (session_key (rq_profile r)) c = (res, c1)" by fastforce
  note b1 = refreshed_bound [OF one assms(2)]
  have "c' = c1 \<or> (\<exists>t. c' = expire_attempted_token (session_key (rq_profile r)) t c1)"
    using assms(1) None one
    by (auto simp: execute_request_def Let_def split: sum.splits option.splits if_splits bool.splits)
  then show ?thesis
  proof (elim disjE exE)
    fix t assume c': "c' = expire_attempted_token (session_key (rq_profile r)) t c1"
    show ?thesis unfolding c' expire_attempted_token_def by (rule bound_to_update [OF b1]) (simp add: belongs_def)
  qed (use b1 in simp)
qed (use assms in \<open>auto simp: execute_request_def\<close>)

lemma sign_in_bound:
  assumes run: "save_sign_in id now device target session via h = (result, h')" and b: "bound_to key u url (hm_config h)"
    and queued: "r \<in> set (hm_outbox h)" "row_pending r" "ob_session r = key"
  shows "bound_to key u url (hm_config h')"
proof (cases "se_account session")
  case (Some account)
  let ?key = "session_key (tg_profile target)"
  show ?thesis
  proof (cases "?key = key")
    case True
    obtain p where p: "cf_profiles (hm_config h) key = Some p" "belongs u url p" using b by (auto simp: bound_to_def)
    have "pending_count key (hm_outbox h) > 0"
      using queued by (auto simp: pending_count_def rows_affected_def filter_empty_conv)
    moreover have "belongs u url (signed_profile now target session account via p)" if "\<not> replaces_another target account p"
      using that p(2) Some by (auto simp: belongs_def replaces_another_def signed_profile_def apply_session_def split: option.splits)
    ultimately show ?thesis using run p Some True
      by (auto simp: save_sign_in_def Let_def bound_to_def belongs_def split: if_splits)
  next
    case False
    then have "cf_profiles (hm_config h') key = cf_profiles (hm_config h) key"
      using run Some by (auto simp: save_sign_in_def Let_def split: if_splits option.splits)
    with b show ?thesis by (simp add: bound_to_def)
  qed
qed (use run b in \<open>simp add: save_sign_in_def\<close>)

lemma client_step_bound:
  assumes step: "client_step decode h h'" and ok: "relay_outbox_ok decode (hm_outbox h)" and b: "bound_to key u url (hm_config h)"
    and queued: "r \<in> set (hm_outbox h)" "row_pending r" "ob_session r = key"
  shows "bound_to key u url (hm_config h')"
  using step
proof cases
  case (submits now q original reply)
  then have "hm_config h' = hm_config h" by (auto simp: submit_def split: if_splits sum.splits)
  with b show ?thesis by simp
next
  case (attempts A C now i)
  then obtain q v c where "execute_request A C id id id now q (hm_config h) = (v, c)" "hm_config h' = c"
    by (auto simp: attempt_def split: sum.splits option.splits prod.splits)
  with execute_bound [OF this(1) b] show ?thesis by simp
next
  case (attaches port)
  with b show ?thesis by (simp add: attach_home_def bound_to_def)
next
  case signs_in
  then show ?thesis by (rule sign_in_bound [OF _ b queued])
next
  case (signs_out name d c)
  have "bound_to key u url (update_stored k' (\<lambda>p. if Q p then clear_sign_in None p else p) (hm_config h))" for k' Q
    by (rule bound_to_update [OF b]) (simp add: clear_belongs)
  with b signs_out show ?thesis by (auto simp: logout_def Let_def split: option.splits)
next
  case (refreshes A now name result c)
  have b1: "bound_to key u url (update_stored k' (\<lambda>p. if Q p then p\<lparr>pf_expires_at := 0\<rparr> else p) (hm_config h))" for k' Q
    by (rule bound_to_update [OF b]) (simp add: belongs_def)
  show ?thesis using refreshes b fresh_bound [OF _ b1] by (auto simp: refresh_now_def split: sum.splits)
next
  case (renews A now k' margin result c)
  with fresh_bound [OF renews(2) b] show ?thesis by simp
next
  case (confirms k' v i name cust)
  have "bound_to key u url (confirm_account k' v i name cust (hm_config h))"
    unfolding confirm_account_def by (rule bound_to_update [OF b]) (auto simp: belongs_def split: option.splits)
  with confirms show ?thesis by simp
qed (use b in simp)

text \<open>A request that is pending now was pending all along.\<close>

lemma pending_before:
  assumes "outbox_kept t t'" "keyed ob_id t'" "x \<in> set t" "x' \<in> set t'" "ob_id x' = ob_id x" "row_pending x'"
  shows "row_pending x" "row_reference x' = row_reference x"
proof -
  obtain v new where v: "t' = v @ new" "list_all2 row_kept t v" using assms(1) by (auto simp: outbox_kept_def)
  from assms(3) obtain n where n: "n < length t" "t ! n = x" by (auto simp: in_set_conv_nth)
  then have kept: "row_kept x (v ! n)" "v ! n \<in> set t'" using v by (auto simp: list_all2_conv_all_nth)
  then have "ob_id (v ! n) = ob_id x" by (simp add: row_kept_def row_reference_def)
  then have "v ! n = x'" using keyed_unique [OF assms(2) kept(2) assms(4)] assms(5) by simp
  with kept assms(6) show "row_pending x" "row_reference x' = row_reference x" by (auto simp: row_kept_def)
qed

lemma client_steps_bound:
  assumes "(client_step decode)\<^sup>*\<^sup>* h h'" "relay_outbox_ok decode (hm_outbox h)" "bound_to (ob_session r) u url (hm_config h)"
    and "r \<in> set (hm_outbox h)" "r' \<in> set (hm_outbox h')" "ob_id r' = ob_id r" "row_pending r'"
  shows "bound_to (ob_session r) u url (hm_config h')"
  using assms(1,5-7)
proof (induction arbitrary: r' rule: rtranclp_induct)
  case base
  then show ?case using assms(3) by simp
next
  case (step h1 h2)
  note k1 = client_steps_keep [OF step.hyps(1) assms(2)]
  note k2 = client_step_keeps [OF step.hyps(2) conjunct1 [OF k1]]
  obtain v new where v: "hm_outbox h1 = v @ new" "list_all2 row_kept (hm_outbox h) v" using k1 by (auto simp: outbox_kept_def)
  from assms(4) obtain n where n: "n < length (hm_outbox h)" "hm_outbox h ! n = r" by (auto simp: in_set_conv_nth)
  then have x: "row_kept r (v ! n)" "v ! n \<in> set (hm_outbox h1)" using v by (auto simp: list_all2_conv_all_nth)
  then have xr: "ob_id (v ! n) = ob_id r" "ob_session (v ! n) = ob_session r" by (simp_all add: row_kept_def row_reference_def)
  have p: "row_pending (v ! n)"
    by (rule pending_before(1) [of "hm_outbox h1" "hm_outbox h2" "v ! n" r']) (use k2 x xr step.prems in \<open>auto simp: relay_outbox_ok_def\<close>)
  have "bound_to (ob_session r) u url (hm_config h1)" by (rule step.IH [OF x(2) xr(1) p])
  from client_step_bound [OF step.hyps(2) conjunct1 [OF k1] this x(2) p xr(2)] show ?case .
qed


section \<open>Requests survive and end once\<close>

lemma backoff_bounds: "0 \<le> n \<Longrightarrow> 1 \<le> backoff n \<and> backoff n \<le> 60"
  by (simp add: backoff_def min_def)


section \<open>Lanes\<close>

text \<open>Where a candidate stands in the queue.\<close>

lemma unblocked_split:
  "r \<in> set (unblocked now earlier t) \<longleftrightarrow> (\<exists>xs ys. t = xs @ r # ys \<and> row_pending r \<and> ob_next_attempt r \<le> now \<and>
     (\<forall>p\<in>set (earlier @ xs). \<not> blocks p r))"
proof (induction t arbitrary: earlier)
  case (Cons x t)
  show ?case
  proof
    assume "r \<in> set (unblocked now earlier (x # t))"
    then consider "r = x" "row_pending x" "ob_next_attempt x \<le> now" "\<forall>p\<in>set earlier. \<not> blocks p x" | "r \<in> set (unblocked now (earlier @ [x]) t)"
      by (auto simp: sql_exists_def split: if_splits)
    then show "\<exists>xs ys. x # t = xs @ r # ys \<and> row_pending r \<and> ob_next_attempt r \<le> now \<and> (\<forall>p\<in>set (earlier @ xs). \<not> blocks p r)"
    proof cases
      case 1
      then show ?thesis by (intro exI [of _ "[]"] exI [of _ t]) simp
    next
      case 2
      then obtain xs ys where "t = xs @ r # ys" "row_pending r" "ob_next_attempt r \<le> now" "\<forall>p\<in>set ((earlier @ [x]) @ xs). \<not> blocks p r"
        unfolding Cons.IH by blast
      then show ?thesis by (intro exI [of _ "x # xs"] exI [of _ ys]) simp
    qed
  next
    assume "\<exists>xs ys. x # t = xs @ r # ys \<and> row_pending r \<and> ob_next_attempt r \<le> now \<and> (\<forall>p\<in>set (earlier @ xs). \<not> blocks p r)"
    then obtain xs ys where s: "x # t = xs @ r # ys" "row_pending r" "ob_next_attempt r \<le> now" "\<forall>p\<in>set (earlier @ xs). \<not> blocks p r" by blast
    show "r \<in> set (unblocked now earlier (x # t))"
    proof (cases xs)
      case Nil
      with s show ?thesis by (simp add: sql_exists_def)
    next
      case (Cons z zs)
      with s have "r \<in> set (unblocked now (earlier @ [x]) t)" unfolding Cons.IH by auto
      then show ?thesis by simp
    qed
  qed
qed simp

lemma unblocked_lanes: "distinct (map (\<lambda>r. (ob_session r, ob_lane r)) (unblocked now earlier t))"
proof (induction t arbitrary: earlier)
  case (Cons x t)
  have "(ob_session x, ob_lane x) \<notin> (\<lambda>r. (ob_session r, ob_lane r)) ` set (unblocked now (earlier @ [x]) t)" if "row_pending x"
  proof
    assume "(ob_session x, ob_lane x) \<in> (\<lambda>r. (ob_session r, ob_lane r)) ` set (unblocked now (earlier @ [x]) t)"
    then obtain r where r: "r \<in> set (unblocked now (earlier @ [x]) t)" "ob_session r = ob_session x" "ob_lane r = ob_lane x" by auto
    from r(1) have "\<not> blocks x r" unfolding unblocked_split by auto
    with r that show False by (simp add: blocks_def)
  qed
  with Cons.IH [of "earlier @ [x]"] show ?case by auto
qed simp

definition candidate_of :: "(json \<Rightarrow> nat) \<Rightarrow> outbox_row \<Rightarrow> request_candidate" where
  "candidate_of octets r = \<lparr>ca_id = ob_id r, ca_session = ob_session r, ca_lane = ob_lane r, ca_bytes = octets (ob_request r)\<rparr>"

lemma candidates_eq:
  assumes "request_candidates octets now t = Inr cs"
  shows "cs = map (candidate_of octets) (take 50 (unblocked now [] t))"
proof -
  let ?f = "\<lambda>r. if octets (ob_request r) > u32_limit then Inl ''integer out of range'' else Inr (candidate_of octets r)"
  have all: "map_result ?f xs = Inr ys \<Longrightarrow> ys = map (candidate_of octets) xs" for xs ys
    by (induction xs arbitrary: ys) (auto split: if_splits sum.splits)
  have "map_result ?f (take 50 (unblocked now [] t)) = Inr cs" using assms unfolding request_candidates_def candidate_of_def .
  then show ?thesis by (rule all)
qed

text \<open>C31. Conversations keep their order and do not wait for each other: a request is offered for sending only
  when it is pending and due, no earlier request of its lane and no earlier barrier of its profile is
  pending, and at most one request per lane is offered. The oldest pending request of a profile is offered as
  soon as it is due, unless fifty older ones are; so is the oldest request of a conversation that has no
  barrier before it, whatever is stuck in other conversations.\<close>

theorem lanes_keep_order:
  assumes "request_candidates octets now t = Inr cs"
  shows "distinct (map (\<lambda>c. (ca_session c, ca_lane c)) cs) \<and> length cs \<le> 50 \<and>
    (\<forall>c\<in>set cs. \<exists>xs r ys. t = xs @ r # ys \<and> c = candidate_of octets r \<and> row_pending r \<and> ob_next_attempt r \<le> now \<and>
       (\<forall>p\<in>set xs. row_pending p \<longrightarrow> ob_session p = ob_session r \<longrightarrow> ob_lane p \<noteq> ob_lane r \<and> ob_lane p \<noteq> [])) \<and>
    (\<forall>xs r ys. t = xs @ r # ys \<longrightarrow> row_pending r \<longrightarrow> ob_next_attempt r \<le> now \<longrightarrow>
       (\<forall>p\<in>set xs. row_pending p \<longrightarrow> ob_session p = ob_session r \<longrightarrow> ob_lane r \<noteq> [] \<and> ob_lane p \<noteq> ob_lane r \<and> ob_lane p \<noteq> []) \<longrightarrow>
       candidate_of octets r \<in> set cs \<or> length cs = 50)"
proof -
  let ?u = "unblocked now [] t"
  have cs: "cs = map (candidate_of octets) (take 50 ?u)" by (rule candidates_eq [OF assms])
  have "map (\<lambda>c. (ca_session c, ca_lane c)) cs = take 50 (map (\<lambda>r. (ob_session r, ob_lane r)) ?u)"
    by (simp add: cs take_map candidate_of_def)
  then have "distinct (map (\<lambda>c. (ca_session c, ca_lane c)) cs)" using distinct_take [OF unblocked_lanes] by metis
  moreover have "\<exists>xs r ys. t = xs @ r # ys \<and> c = candidate_of octets r \<and> row_pending r \<and> ob_next_attempt r \<le> now \<and>
       (\<forall>p\<in>set xs. row_pending p \<longrightarrow> ob_session p = ob_session r \<longrightarrow> ob_lane p \<noteq> ob_lane r \<and> ob_lane p \<noteq> [])" if c_in: "c \<in> set cs" for c
  proof -
    obtain r where rin: "r \<in> set (take 50 ?u)" and c: "c = candidate_of octets r" using c_in unfolding cs by auto
    note r = in_set_takeD [OF rin] c
    from r(1) obtain xs ys where "t = xs @ r # ys" "row_pending r" "ob_next_attempt r \<le> now" "\<forall>p\<in>set xs. \<not> blocks p r"
      unfolding unblocked_split by auto
    with r(2) show ?thesis by (intro exI [of _ xs] exI [of _ r] exI [of _ ys]) (auto simp: blocks_def)
  qed
  moreover have "candidate_of octets r \<in> set cs \<or> length cs = 50"
    if "t = xs @ r # ys" "row_pending r" "ob_next_attempt r \<le> now"
      "\<forall>p\<in>set xs. row_pending p \<longrightarrow> ob_session p = ob_session r \<longrightarrow> ob_lane r \<noteq> [] \<and> ob_lane p \<noteq> ob_lane r \<and> ob_lane p \<noteq> []" for xs r ys
  proof -
    have "r \<in> set ?u" unfolding unblocked_split using that by (auto simp: blocks_def)
    then have "r \<in> set (take 50 ?u) \<or> length (take 50 ?u) = 50" by (cases "length ?u \<le> 50") auto
    then show ?thesis by (auto simp: cs)
  qed
  ultimately show ?thesis by (auto simp: cs)
qed

section \<open>The scheduler\<close>

definition schedule_ok :: "nat \<Rightarrow> nat \<Rightarrow> task list \<times> slots \<Rightarrow> bool" where
  "schedule_ok w b st \<longleftrightarrow> distinct (map ts_lane (fst st)) \<and> length (fst st) + sl_workers (snd st) \<le> w \<and>
     sum_list (map ts_permits (fst st)) + sl_payload (snd st) \<le> b"

lemma start_candidates_ok:
  assumes "start_candidates decode now t cs st = st'" "schedule_ok w b st"
  shows "schedule_ok w b st' \<and> (\<exists>new. fst st' = fst st @ new \<and> (\<forall>k\<in>set new. \<exists>r\<in>set t. row_pending r \<and> ob_next_attempt r \<le> now \<and>
    decode (ob_request r) = Inr (ts_request k)))"
  using assms
proof (induction cs arbitrary: st)
  case Nil
  then show ?case by (cases st) simp
next
  case (Cons c cs)
  obtain running free where st: "st = (running, free)" by (cases st)
  let ?l = "(ca_session c, ca_lane c)" and ?n = "payload_permits (ca_bytes c)"
  show ?case
  proof (cases "?l \<notin> ts_lane ` set running \<and> sl_workers free \<noteq> 0 \<and> ?n \<le> sl_payload free \<and>
      (\<exists>r. load_request decode now (ca_id c) t = Inr (Some r))")
    case True
    then obtain r where r: "load_request decode now (ca_id c) t = Inr (Some r)" by blast
    let ?k = "\<lparr>ts_request = r, ts_lane = ?l, ts_permits = ?n\<rparr>"
    let ?st = "(running @ [?k], \<lparr>sl_workers = sl_workers free - 1, sl_payload = sl_payload free - ?n\<rparr>)"
    have run: "start_candidates decode now t cs ?st = st'" using Cons.prems(1) True r by (simp add: st Let_def not_less)
    have "schedule_ok w b ?st" using Cons.prems(2) True by (auto simp: schedule_ok_def st)
    note ih = Cons.IH [OF run this]
    obtain x where "find (\<lambda>r. ob_id r = ca_id c \<and> row_pending r \<and> ob_next_attempt r \<le> now) t = Some x" "decode (ob_request x) = Inr r"
      using r by (auto simp: load_request_def option_result_def split: option.splits)
    then have "\<exists>x\<in>set t. row_pending x \<and> ob_next_attempt x \<le> now \<and> decode (ob_request x) = Inr r" using find_Some_in by fastforce
    moreover obtain new where "fst st' = (running @ [?k]) @ new" "\<forall>k\<in>set new. \<exists>r\<in>set t. row_pending r \<and> ob_next_attempt r \<le> now \<and>
        decode (ob_request r) = Inr (ts_request k)" using ih by auto
    ultimately show ?thesis using ih by (auto simp: st intro!: exI [of _ "?k # new"])
  next
    case False
    then have "start_candidates decode now t cs st = st' \<or> st' = st"
      using Cons.prems(1) by (auto simp: st Let_def not_less split: sum.splits option.splits if_splits)
    then show ?thesis using Cons.IH [OF _ Cons.prems(2)] Cons.prems(2) by auto
  qed
qed

text \<open>C32. The relay never does too much at once and never breaks a lane: a run of the scheduler starts only
  requests that are pending and due, keeps at most one request of each lane in flight, and takes a worker and
  the bytes of each request from what all homes have left, so that together they never have more than 16
  requests and 128 MiB in flight.\<close>

theorem scheduler_stays_within_limits:
  assumes "schedule octets decode now t st = st'" "schedule_ok workers_limit payload_budget_mib st"
  shows "schedule_ok workers_limit payload_budget_mib st' \<and> length (fst st') \<le> 16 \<and> sum_list (map ts_permits (fst st')) \<le> 128 \<and>
    (\<exists>new. fst st' = fst st @ new \<and> (\<forall>k\<in>set new. \<exists>r\<in>set t. row_pending r \<and> ob_next_attempt r \<le> now \<and>
       decode (ob_request r) = Inr (ts_request k)))"
proof -
  have "schedule_ok workers_limit payload_budget_mib st' \<and> (\<exists>new. fst st' = fst st @ new \<and> (\<forall>k\<in>set new. \<exists>r\<in>set t. row_pending r \<and>
      ob_next_attempt r \<le> now \<and> decode (ob_request r) = Inr (ts_request k)))"
    using assms(1) start_candidates_ok [OF _ assms(2)] assms(2)
    by (cases "request_candidates octets now t") (auto simp: schedule_def)
  then show ?thesis by (auto simp: schedule_ok_def workers_limit_def payload_budget_mib_def)
qed

section \<open>Refreshing beside other processes\<close>

lemma update_stored_id:
  assumes "\<And>p. cf_profiles c key = Some p \<Longrightarrow> f p = p"
  shows "update_stored key f c = c"
proof -
  have "map_option f (cf_profiles c key) = cf_profiles c key" using assms by (cases "cf_profiles c key") auto
  then show ?thesis by (simp add: update_stored_def)
qed

text \<open>What a refresh may do to the profile it was for.\<close>

definition renewed :: "profile \<Rightarrow> profile \<Rightarrow> bool" where
  "renewed p p' \<longleftrightarrow> map_option pa_uuid (pf_account p') = map_option pa_uuid (pf_account p) \<and> pf_base_url p' = pf_base_url p \<and>
     pf_device p' = pf_device p \<and> pf_enabled p' = (pf_tokens p' \<noteq> None)"

lemma session_renews:
  assumes "same_sign_in p current" "\<not> another_account s current" "pf_account current \<noteq> None"
  shows "renewed p (apply_session s p)"
  using assms by (auto simp: renewed_def apply_session_def same_sign_in_def another_account_def split: option.splits)

lemma if_same_writes:
  assumes "\<And>p. same_sign_in p current \<Longrightarrow> renewed p (f p)"
  shows "update_stored key (if_same current f) c = c \<or>
    (\<exists>p p'. cf_profiles c key = Some p \<and> same_sign_in p current \<and> renewed p p' \<and>
       update_stored key (if_same current f) c = c\<lparr>cf_profiles := (cf_profiles c)(key \<mapsto> p')\<rparr>)"
proof (cases "\<exists>p. cf_profiles c key = Some p \<and> same_sign_in p current")
  case True
  then obtain p where p: "cf_profiles c key = Some p" "same_sign_in p current" by blast
  then have "update_stored key (if_same current f) c = c\<lparr>cf_profiles := (cf_profiles c)(key \<mapsto> f p)\<rparr>"
    by (simp add: update_stored_def if_same_def)
  with p assms show ?thesis by blast
next
  case False
  then have "update_stored key (if_same current f) c = c" by (intro update_stored_id) (auto simp: if_same_def)
  then show ?thesis ..
qed

text \<open>A configuration in which at most the profile of the refreshed sign-in was written.\<close>

definition left_behind :: "str \<Rightarrow> profile \<Rightarrow> config \<Rightarrow> config \<Rightarrow> bool" where
  "left_behind key current c c' \<longleftrightarrow> c' = c \<or> (\<exists>p p'. cf_profiles c key = Some p \<and> same_sign_in p current \<and> renewed p p' \<and>
     c' = c\<lparr>cf_profiles := (cf_profiles c)(key \<mapsto> p')\<rparr>)"

lemma refresh_writes:
  assumes run: "refresh_sign_in client w2 w3 now key current c = (result, c')" and "profile_signed_in current"
  shows "\<exists>d. left_behind key current (w2 c) d \<and> (c' = d \<or> c' = w3 d)"
proof (cases "client (case pf_tokens current of Some t \<Rightarrow> tk_refresh t | None \<Rightarrow> [])")
  case (Inr s)
  show ?thesis
  proof (cases "another_account s current")
    case True
    then show ?thesis using run Inr by (auto simp: refresh_sign_in_def left_behind_def)
  next
    case False
    let ?d = "update_stored key (if_same current (apply_session s)) (w2 c)"
    have "renewed p (apply_session s p)" if "same_sign_in p current" for p
      using session_renews that False assms(2) by (simp add: profile_signed_in_def)
    then have "left_behind key current (w2 c) ?d" unfolding left_behind_def by (rule if_same_writes)
    moreover have "c' = w3 ?d" using run Inr False by (simp add: refresh_sign_in_def Let_def)
    ultimately show ?thesis by blast
  qed
next
  case (Inl e)
  have "renewed p (clear_sign_in x p)" for p x by (simp add: renewed_def clear_sign_in_def)
  then have "left_behind key current (w2 c) (update_stored key (if_same current (clear_sign_in x)) (w2 c))" for x
    unfolding left_behind_def by (rule if_same_writes)
  moreover have "left_behind key current (w2 c) (w2 c)" by (simp add: left_behind_def)
  moreover have "c' = w2 c \<or> (\<exists>x. c' = update_stored key (if_same current (clear_sign_in x)) (w2 c))"
    using run Inl by (simp add: refresh_sign_in_def split: if_splits) blast+
  ultimately show ?thesis by blast
qed

lemma refresh_signed_in:
  assumes "refresh_sign_in client w2 w3 now (session_key name) current c = (Inr p, c')" "profile_signed_in current"
  shows "profile_signed_in p"
  using assms by (auto simp: refresh_sign_in_def Let_def signed_in_at_def map_sum_def split: sum.splits if_splits)

text \<open>C33. Refreshing is safe beside other processes of the same user, whatever they write while this one waits
  for the lock of the profile (\<open>w1\<close>), for Silicon Accounts (\<open>w2\<close>) and before it reads the file again (\<open>w3\<close>): the
  profile handed to a request is always signed in; the file holds what those processes wrote, but for this
  profile; and this profile is written only if it still holds the sign-in that was refreshed, and then keeps
  its account, service and device. A newer sign-in is never overwritten, nor signed out because the token
  before it was refused.\<close>

theorem refresh_never_overwrites_a_newer_sign_in:
  assumes "fresh_profile_within A w1 w2 w3 now (session_key name) margin c = (result, c')"
  shows "(\<forall>p. result = Inr p \<longrightarrow> profile_signed_in p) \<and>
    (\<exists>d. (c' = d \<or> c' = w3 d) \<and>
      (d = c \<or> d = w1 c \<or>
       (\<exists>current. cf_profiles (w1 c) (session_key name) = Some current \<and> profile_signed_in current \<and>
          pf_expires_at current \<le> now + margin \<and> left_behind (session_key name) current (w2 (w1 c)) d)))"
proof (cases "\<exists>client current. stored_profile (w1 c) name = Inr current \<and> pf_expires_at current \<le> now + margin \<and>
    refresh_sign_in client w2 w3 now (session_key name) current (w1 c) = (result, c')")
  case True
  then obtain client current where cur: "cf_profiles (w1 c) (session_key name) = Some current" "profile_signed_in current"
    "pf_expires_at current \<le> now + margin" and run: "refresh_sign_in client w2 w3 now (session_key name) current (w1 c) = (result, c')" by auto
  have "\<forall>p. result = Inr p \<longrightarrow> profile_signed_in p" using run refresh_signed_in cur(2) by blast
  with refresh_writes [OF run cur(2)] cur show ?thesis by blast
next
  case False
  then have "(c' = c \<or> c' = w1 c \<or> c' = w3 (w1 c)) \<and> (\<forall>p. result = Inr p \<longrightarrow> profile_signed_in p)"
    using assms by (auto simp: fresh_profile_within_def signed_in_at_def map_sum_def not_less split: sum.splits if_splits)
  then show ?thesis by blast
qed

section \<open>Signing in beside other processes\<close>

text \<open>The queue is counted before the profile is replaced, and it has a lock of its own: a request queued in
  between stays pending and is sent with the new account. For the same reason a request from before Silicon
  Accounts may be sent between the replacement of the profile and the statement that fails it.\<close>

lemma sign_in_race:
  assumes "pending_count (session_key (tg_profile target)) (hm_outbox h) = 0" "se_account session = Some a"
    and "cf_profiles (hm_config (w h)) (session_key (tg_profile target)) = Some p" "pf_legacy p = None"
  shows "\<exists>replaced h' q. save_sign_in w now device target session via h = (Inr replaced, h') \<and> hm_outbox h' = hm_outbox (w h) \<and>
    cf_profiles (hm_config h') (session_key (tg_profile target)) = Some q \<and> pf_account q = Some a"
  using assms by (simp add: save_sign_in_def Let_def release_queued_def signed_profile_def apply_session_def)

section \<open>A home at work\<close>

text \<open>A signed-in profile whose token has to be refreshed, the answer of Silicon Accounts, and one request.\<close>

definition zoe :: profile_account where
  "zoe = \<lparr>pa_uuid = [1], pa_kind = Carbon, pa_id = [2], pa_display_name = None, pa_custodian = None\<rparr>"

definition zoe_profile :: "nat \<Rightarrow> str \<Rightarrow> profile" where
  "zoe_profile expires access = \<lparr>pf_name = [3], pf_base_url = [4], pf_accounts_url = [5], pf_app_id = [6], pf_account = Some zoe,
     pf_tokens = Some \<lparr>tk_access = access, tk_refresh = [7], tk_scope = None, tk_expires_in = 900, tk_refresh_expires_at = None\<rparr>,
     pf_device = [8], pf_expires_at = expires, pf_enabled = True, pf_signed_in_at = None, pf_method = None, pf_legacy = None, pf_ended = None\<rparr>"

definition zoe_service :: refresh_service where
  "zoe_service url app = Inr (\<lambda>token. Inr \<lparr>se_access = [9], se_refresh = [7], se_expires_in = 900, se_expires_at = 1000,
     se_refresh_expires_at = None, se_scope = None, se_account = Some zoe\<rparr>)"

definition zoe_request :: relay_request where
  "zoe_request = \<lparr>rq_id = 1, rq_profile = [3], rq_testing_environment = None, rq_testing_generation = None,
     rq_operation = SendMessage [10] JNull [11]\<rparr>"

definition zoe_home :: "profile \<Rightarrow> outbox \<Rightarrow> home" where
  "zoe_home p t = \<lparr>hm_config = \<lparr>cf_default_profile = [3], cf_profiles = [session_key [3] \<mapsto> p], cf_relay_port = 0, cf_relay_token = []\<rparr>,
     hm_outbox = t\<rparr>"

abbreviation zoe_outbox :: outbox where
  "zoe_outbox \<equiv> [new_row 5 zoe_request JNull]"

lemmas zoe_defs = zoe_def zoe_profile_def zoe_service_def zoe_request_def zoe_home_def new_row_def row_pending_def

lemma zoe_home_outbox [simp]: "hm_outbox (zoe_home p t) = t"
  by (simp add: zoe_home_def)

lemma zoe_outbox_ok: "relay_outbox_ok (\<lambda>_. Inr zoe_request) (hm_outbox (zoe_home p zoe_outbox))"
  by (simp add: relay_outbox_ok_def keyed_def zoe_defs)

lemma zoe_renews:
  "client_step (\<lambda>_. Inr zoe_request) (zoe_home (zoe_profile 0 [7]) zoe_outbox) (zoe_home (zoe_profile 1000 [9]) zoe_outbox)"
proof -
  let ?h = "zoe_home (zoe_profile 0 [7]) zoe_outbox" and ?h' = "zoe_home (zoe_profile 1000 [9]) zoe_outbox"
  have "fresh_profile_within zoe_service id id id 100 (session_key [3]) 60 (hm_config ?h) = (Inr (zoe_profile 1000 [9]), hm_config ?h')"
    by (simp add: fresh_profile_within_def refresh_sign_in_def signed_in_at_def stored_profile_def profile_signed_in_def
        same_sign_in_def another_account_def update_stored_def if_same_def apply_session_def zoe_defs)
  from client_step.renews [OF this, of "\<lambda>_. Inr zoe_request"] show ?thesis by (simp add: zoe_home_def)
qed

lemma zoe_steps:
  "(client_step (\<lambda>_. Inr zoe_request))\<^sup>*\<^sup>* (zoe_home (zoe_profile 0 [7]) zoe_outbox) (zoe_home (zoe_profile 1000 [9]) zoe_outbox)"
  using zoe_renews by (rule r_into_rtranclp)



text \<open>A conversation that waits for a retry does not hold another one back.\<close>

abbreviation two_lanes :: outbox where
  "two_lanes \<equiv> [(new_row 5 zoe_request JNull)\<lparr>ob_id := 2, ob_lane := [12], ob_next_attempt := 90\<rparr>, new_row 5 zoe_request JNull]"

lemma two_candidates: "request_candidates (\<lambda>_. 10) 20 two_lanes = Inr [candidate_of (\<lambda>_. 10) (new_row 5 zoe_request JNull)]"
  by (simp add: request_candidates_def candidate_of_def sql_exists_def blocks_def u32_limit_def zoe_defs lit_def)

theorem lanes_keep_order_witness:
  "\<exists>cs. request_candidates (\<lambda>_. 10) 20 two_lanes = Inr cs \<and> map ca_id cs = [1] \<and> distinct (map (\<lambda>c. (ca_session c, ca_lane c)) cs)"
proof -
  have "distinct (map (\<lambda>c. (ca_session c, ca_lane c)) [candidate_of (\<lambda>_. 10) (new_row 5 zoe_request JNull)])"
    using lanes_keep_order [OF two_candidates] by (rule conjunct1)
  with two_candidates show ?thesis by (auto simp: candidate_of_def zoe_defs)
qed

theorem scheduler_stays_within_limits_witness:
  "\<exists>st'. schedule (\<lambda>_. 10) (\<lambda>_. Inr zoe_request) 20 two_lanes ([], \<lparr>sl_workers = 16, sl_payload = 128\<rparr>) = st' \<and>
     map ts_request (fst st') = [zoe_request] \<and> schedule_ok workers_limit payload_budget_mib st'"
proof -
  let ?st = "schedule (\<lambda>_. 10) (\<lambda>_. Inr zoe_request) 20 two_lanes ([], \<lparr>sl_workers = 16, sl_payload = 128\<rparr>)"
  have "schedule_ok workers_limit payload_budget_mib ([], \<lparr>sl_workers = 16, sl_payload = 128\<rparr>)"
    by (simp add: schedule_ok_def workers_limit_def payload_budget_mib_def)
  then have "schedule_ok workers_limit payload_budget_mib ?st" using scheduler_stays_within_limits [OF refl] by blast
  moreover have "map ts_request (fst ?st) = [zoe_request]"
    unfolding schedule_def two_candidates sum.case
    by (simp add: candidate_of_def load_request_def option_result_def payload_permits_def payload_budget_mib_def zoe_defs)
  ultimately show ?thesis by (intro exI conjI) (rule refl)
qed

text \<open>While the token is refreshed, another process signs out: the answer is dropped.\<close>

theorem refresh_never_overwrites_a_newer_sign_in_witness:
  "\<exists>e c'. fresh_profile_within zoe_service id (update_stored (session_key [3]) (clear_sign_in None)) id
      100 (session_key [3]) 60 (hm_config (zoe_home (zoe_profile 0 [7]) [])) = (Inl e, c') \<and>
     c' = update_stored (session_key [3]) (clear_sign_in None) (hm_config (zoe_home (zoe_profile 0 [7]) []))"
proof -
  let ?w = "update_stored (session_key [3]) (clear_sign_in None)" and ?c = "hm_config (zoe_home (zoe_profile 0 [7]) [])"
  have "\<exists>e c'. fresh_profile_within zoe_service id ?w id 100 (session_key [3]) 60 ?c = (Inl e, c') \<and> cf_profiles c' \<noteq> cf_profiles ?c"
    by (simp add: fresh_profile_within_def refresh_sign_in_def signed_in_at_def stored_profile_def profile_signed_in_def
        same_sign_in_def another_account_def update_stored_def if_same_def clear_sign_in_def zoe_defs fun_eq_iff)
  then obtain e c' where run: "fresh_profile_within zoe_service id ?w id 100 (session_key [3]) 60 ?c = (Inl e, c')"
    and other: "cf_profiles c' \<noteq> cf_profiles ?c" by blast
  have "\<not> same_sign_in p (zoe_profile 0 [7])" if "cf_profiles (?w ?c) (session_key [3]) = Some p" for p
    using that by (auto simp: update_stored_def same_sign_in_def clear_sign_in_def zoe_defs)
  then have "c' = ?w ?c" using refresh_never_overwrites_a_newer_sign_in [OF run] other by (auto simp: left_behind_def zoe_home_def)
  with run show ?thesis by blast
qed

end
