(* ===== verification/Spec2Isabelle.thy ===== *)
theory Spec2Isabelle
  imports Service Relay
begin

text \<open>
  Silicon DM is the messaging service of Silicon Accounts: carbons (people) and silicons (agents) exchange
  messages in direct conversations and groups over an HTTP interface; PostgreSQL keeps everything; the Ting
  service tells devices that something has arrived; Silicon Accounts vouches for callers and sends webhooks.
  This development models the service as executable functions on the state of its database and proves what
  its clients rely on. Paths below are under \<open>src/\<close> of the repository; the service itself is the crate in
  its \<open>src/\<close> directory.

  \<^bold>\<open>How the code is modelled.\<close> The database is the record \<open>db\<close> of \<open>Store\<close>: one list of rows per table, in
  the order of insertion, each row a record with the columns in use. A statement is one of the list
  operations of \<open>DM_Prelude\<close> (insert, insert or ignore, upsert, update, delete, exists), a transaction is a
  function from the state to \<open>app_error + ('a \<times> db)\<close>, and an error leaves the state as it was. Handlers
  that keep what they wrote before an error (the webhook, the sign-in) return the state beside the result.
  Triggers, views and the CHECK and UNIQUE constraints a statement can meet are part of the operation. What
  the code takes from its surroundings is the record \<open>env\<close>: the clock, fresh identifiers, the UUID syntax and
  the digests. Third-party code is a parameter with its documented behaviour as a named hypothesis where a
  theorem needs it: base64 and the MAC of cursors (\<open>cursor_lib\<close>, \<open>sync_lib\<close>), URL parsing and JSON of stored
  columns (\<open>store_lib\<close>), the JSON of Ting (\<open>ting_lib\<close>), Silicon Accounts (\<open>accounts_service\<close>,
  \<open>accounts_client\<close>), and the Ting publisher, as the answers of each turn. Characters are code points, byte
  lengths are those of their UTF-8 encoding; \<open>i64\<close>, \<open>i32\<close> and \<open>i16\<close> columns are integers with the range
  checked where the database would raise, and the arithmetic of message codes has its overflow checks written
  out.

  \<^bold>\<open>The theories.\<close>
  \<^item> \<open>DM_Prelude\<close>: strings, integers, fallible results, tables and their laws.
  \<^item> \<open>Protocol\<close> (\<open>crates/protocol/src/lib.rs\<close>): message, bundle and group codes and their round trips.
  \<^item> \<open>Errors\<close> (\<open>src/error.rs\<close>): the error type and what a response shows of it.
  \<^item> \<open>Identity\<close>, \<open>Content\<close>, \<open>Paging\<close> (\<open>src/domain\<close>): account addresses, participant sets, what a message,
    draft, bundle and group may contain, cursors and the page loop bounded in bytes.
  \<^item> \<open>Store\<close> (\<open>src/infrastructure/postgres\<close>, \<open>migrations\<close>): the tables, the directory, membership views and
    idempotency records, with the locale \<open>idempotent_log\<close> of what a handler relies on.
  \<^item> \<open>Accounts\<close> (\<open>postgres/accounts.rs\<close>, \<open>allow_list.rs\<close>, \<open>application/accounts.rs\<close>): the account cache; the
    locales \<open>newest_wins\<close> and \<open>stamped_row\<close> carry the proof that webhooks may arrive in any order.
  \<^item> \<open>DM_Groups\<close> (\<open>postgres/groups.rs\<close>, \<open>group_ids.rs\<close>): owners, invitations, settings, addresses.
  \<^item> \<open>Conversations\<close> (\<open>postgres/conversations.rs\<close>, \<open>api/access.rs\<close>): direct conversations, reading rights,
    listings (locale \<open>keyset_pager\<close>) and the resolution of conversation addresses.
  \<^item> \<open>Rows\<close>, \<open>DM_Messages\<close>, \<open>Receipts\<close>, \<open>Revisions\<close>, \<open>Drafts\<close>, \<open>Bundles\<close> (the files of those names in
    \<open>postgres\<close>): sending with numbering, fan-out to the streams of the participants (locale \<open>fan_out\<close>) and
    the trigger that queues a Ting handoff, receipts and the aggregate status, edits and deletions, drafts
    with versions, bundles.
  \<^item> \<open>Sync\<close> (\<open>postgres/sync.rs\<close>, \<open>api/sync.rs\<close>): the stream of an account, cursors and catching up.
  \<^item> \<open>Ting\<close> (\<open>postgres/ting.rs\<close>, \<open>worker/ting.rs\<close>, \<open>infrastructure/ting.rs\<close>): the handoff queue and its workers.
  \<^item> \<open>Presence\<close> (\<open>postgres/presence.rs\<close>, \<open>http_presence.rs\<close>): leases and the last-seen instant.
  \<^item> \<open>Sessions\<close> (\<open>api/extract.rs\<close>, \<open>api/webhook.rs\<close>, \<open>infrastructure/accounts.rs\<close>): credentials, proofs, the
    admission of a caller and the webhook endpoint.
  \<^item> \<open>Api\<close> (\<open>api/router.rs\<close>, \<open>api/handlers.rs\<close>, \<open>api/groups.rs\<close>, \<open>api/me.rs\<close>): routes with their scopes, and
    the handlers composed of the operations below.
  \<^item> \<open>Service\<close>: all operations on messages, drafts, handoffs and presence as one step relation.
  \<^item> \<open>Relay\<close> (\<open>crates/client/src/runtime\<close>, \<open>relay.rs\<close>): the other end, the daemon that queues the requests of
    a user and sends them: \<open>outbox\<close> rows in lanes, profiles with their sign-in in \<open>config\<close>, one attempt
    (\<open>execute_request\<close>), the scheduler, and \<open>client_step\<close>, everything that happens to a home.

  \<^bold>\<open>What is shown.\<close> Per component, a well-formedness predicate (\<open>messaging_ok\<close>, \<open>receipts_ok\<close>,
  \<open>histories_ok\<close>, \<open>bundles_ok\<close>, \<open>drafts_ok\<close>, \<open>handoffs_ok\<close>, \<open>presence_ok\<close>, \<open>conversations_ok\<close>) is kept by
  every operation, and \<open>Service\<close> shows that they are kept together and that nothing is lost. A request under
  an idempotency key runs once; messages are numbered without gaps and reach every participant once; a
  client that follows its cursors receives everything it may see, in order (a refinement of the abstract log
  of its account); receipts settle statuses; revisions refine a log and deletions are final; drafts are
  replaced by compare and swap only and versions are never reused; bundles expand to their originals within
  a byte budget; handoffs are leased to one worker at a time and never lost; groups keep an owner; the account
  cache does not depend on the order of webhooks; ended sign-ins are refused; every successful request was
  admitted and authorized. On the client, a queued request is kept until it ends and is sent as the account
  it was queued for, lanes keep their order without waiting for each other, and a refresh of the sign-in never
  overwrites a newer one.

  \<^bold>\<open>Bounds.\<close> Loops are structural recursions or folds with the source's own limits: a claim of handoffs makes
  rounds until a batch is claimed, nothing is due or 500 handoffs were discarded, by a measure on the rows
  that are still due; a client catches up within one page more than the deliveries it has to see; the page
  loop of \<open>Paging\<close> ends with its input; a worker handles a list of turns, one per claim, with the replies it
  got. The fuel of \<open>Sync\<close>'s client is any number above the deliveries between the floor and the head
  of the stream, and the theorem says it is enough.

  \<^bold>\<open>Not modelled.\<close> Every handler reads the clock once. Transactions are serial: concurrency appears as the
  order of operations, of webhooks, of leases (\<open>SKIP LOCKED\<close> as the list of eligible rows) and as the
  cutoffs of sign-ins, not as interleaved statements. Foreign keys that only guard deletions of rows nobody
  deletes are left out, as are the data migrations, the one-off linking of identities
  (\<open>postgres/link_identities.rs\<close>), configuration (\<open>config.rs\<close>), start-up, logging and telemetry, the sockets of
  HTTP and of \<open>LISTEN\<close>, the decoding of JSON bodies (handlers take decoded requests) and the rendering of responses, the
  re-enrolment with Ting that a request starts in the background, the lookup budget kept in floating point,
  the GIF search, and of the client its HTTP calls, the start of the daemon, the format of its files and the
  command line. \<open>client_step\<close> takes the steps of a home one after the other; the interleavings that matter to a
  refresh and to a sign-in are parameters of those two operations.
\<close>

end
